(* ===== verification/Prelude.thy ===== *)
theory Prelude
  imports Main "HOL-Library.Word" "HOL-Library.Char_ord"
begin

text \<open>
  Shared vocabulary of the development: byte strings and their big-endian encodings, the
  table operations that the repositories issue (filter, order, limit, update with a row
  count), results that may be errors, and the generic list lemmas the components rely on.
  \<^item> A Python \<^verbatim>\<open>bytes\<close> value is a list of 8-bit words; a \<^verbatim>\<open>str\<close> is a \<open>string\<close>
    whose characters are the bytes of its UTF-8 form.
  \<^item> A \<^verbatim>\<open>datetime\<close> is an integer number of microseconds since the epoch, the resolution
    Python gives it; a \<^verbatim>\<open>timedelta\<close> is a difference of two of them.
  \<^item> A UUID is its 128-bit number.
  \<^item> An exception is the left injection of a sum; every component has its own error type.
  \<^item> A database table is the list of its rows in insertion order; a statement with
    \<^verbatim>\<open>ORDER BY\<close> sorts explicitly, so no query relies on that order silently.
\<close>

unbundle bit_operations_syntax

named_theorems tbl_simps \<open>how the table operations act on rows\<close>
named_theorems enc_simps \<open>lengths and shapes of byte encodings\<close>

section \<open>Types\<close>

type_synonym byte = "8 word"
type_synonym bytes = "byte list"
type_synonym datetime = int
type_synonym uuid = nat

definition seconds :: "int \<Rightarrow> int" where
  "seconds s = s * 1000000"

definition days :: "int \<Rightarrow> int" where
  "days d = d * 86400000000"

lemma seconds_mono [simp]: "seconds a \<le> seconds b \<longleftrightarrow> a \<le> b"
  by (simp add: seconds_def)

section \<open>Errors as values\<close>

definition rbind :: "'e + 'a \<Rightarrow> ('a \<Rightarrow> 'e + 'b) \<Rightarrow> 'e + 'b" where
  "rbind r f = (case r of Inl e \<Rightarrow> Inl e | Inr x \<Rightarrow> f x)"

lemma rbind_simps [simp]: "rbind (Inl e) f = Inl e" "rbind (Inr x) f = f x"
  by (simp_all add: rbind_def)

lemma rbind_eq_Inr: "rbind r f = Inr y \<longleftrightarrow> (\<exists>x. r = Inr x \<and> f x = Inr y)"
  by (cases r) auto

section \<open>Byte encodings\<close>

definition utf8 :: "string \<Rightarrow> bytes" where
  "utf8 s = map (\<lambda>c. word_of_nat (of_char c)) s"

fun be_bytes :: "nat \<Rightarrow> nat \<Rightarrow> bytes" where
  "be_bytes 0 n = []"
| "be_bytes (Suc k) n = be_bytes k (n div 256) @ [word_of_nat n]"

definition be_value :: "bytes \<Rightarrow> nat" where
  "be_value bs = foldl (\<lambda>acc b. acc * 256 + unat b) 0 bs"

lemma length_utf8 [simp, enc_simps]: "length (utf8 s) = length s"
  by (simp add: utf8_def)

lemma length_be_bytes [simp, enc_simps]: "length (be_bytes k n) = k"
  by (induction k arbitrary: n) auto

lemma unat_byte_of_char: "unat (word_of_nat (of_char c) :: byte) = of_char c"
proof -
  have "(of_char c :: nat) < 256" by simp
  then show ?thesis by (simp add: unat_of_nat)
qed

lemma utf8_inject [simp]: "utf8 s = utf8 t \<longleftrightarrow> s = t"
proof
  assume "utf8 s = utf8 t"
  then have "map unat (utf8 s) = map unat (utf8 t)" by simp
  then have "map (of_char :: char \<Rightarrow> nat) s = map of_char t"
    by (simp add: utf8_def unat_byte_of_char comp_def)
  then have "map (char_of \<circ> (of_char :: char \<Rightarrow> nat)) s = map (char_of \<circ> (of_char :: char \<Rightarrow> nat)) t"
    by (metis map_map)
  then show "s = t" by (simp add: comp_def)
qed simp

lemma be_value_append: "be_value (xs @ [b]) = be_value xs * 256 + unat b"
  by (simp add: be_value_def)

lemma be_value_be_bytes: "n < 256 ^ k \<Longrightarrow> be_value (be_bytes k n) = n"
proof (induction k arbitrary: n)
  case 0
  then show ?case by (simp add: be_value_def)
next
  case (Suc k)
  have "n div 256 < 256 ^ k" using Suc.prems by (simp add: less_mult_imp_div_less mult.commute)
  with Suc.IH have "be_value (be_bytes k (n div 256)) = n div 256" by blast
  moreover have "unat (word_of_nat n :: byte) = n mod 256" by (simp add: unat_of_nat)
  ultimately show ?case by (simp add: be_value_append)
qed

lemma be_bytes_inject:
  assumes "be_bytes k m = be_bytes k n" "m < 256 ^ k" "n < 256 ^ k"
  shows "m = n"
  using assms be_value_be_bytes by metis

lemma append_same_length:
  "length a = length c \<Longrightarrow> a @ b = c @ d \<longleftrightarrow> a = c \<and> b = d"
  by simp

section \<open>Tables\<close>

text \<open>\<^verbatim>\<open>ORDER BY f ASC\<close>, \<^verbatim>\<open>LIMIT 1\<close> in either direction, and the
  rows an \<^verbatim>\<open>UPDATE ... WHERE\<close> touches with its row count.\<close>

definition first_row :: "'a list \<Rightarrow> 'a option" where
  "first_row xs = (case xs of [] \<Rightarrow> None | x # _ \<Rightarrow> Some x)"

definition last_row :: "'a list \<Rightarrow> 'a option" where
  "last_row xs = (case xs of [] \<Rightarrow> None | _ \<Rightarrow> Some (last xs))"

definition order_by :: "('a \<Rightarrow> 'k :: linorder) \<Rightarrow> 'a list \<Rightarrow> 'a list" where
  "order_by f xs = sort_key f xs"

definition update_where :: "('a \<Rightarrow> bool) \<Rightarrow> ('a \<Rightarrow> 'a) \<Rightarrow> 'a list \<Rightarrow> 'a list" where
  "update_where P g xs = map (\<lambda>x. if P x then g x else x) xs"

definition count_where :: "('a \<Rightarrow> bool) \<Rightarrow> 'a list \<Rightarrow> nat" where
  "count_where P xs = length (filter P xs)"

lemma first_row_simps [simp, tbl_simps]:
  "first_row [] = None" "first_row (x # xs) = Some x"
  by (simp_all add: first_row_def)

lemma last_row_simps [simp, tbl_simps]:
  "last_row [] = None" "last_row (xs @ [x]) = Some x" "last_row [x] = Some x"
  by (simp_all add: last_row_def) (cases xs, simp_all)

lemma first_row_None [simp]: "first_row xs = None \<longleftrightarrow> xs = []"
  by (cases xs) auto

lemma last_row_None [simp]: "last_row xs = None \<longleftrightarrow> xs = []"
  by (cases xs) (auto simp: last_row_def)

lemma last_row_Some: "xs \<noteq> [] \<Longrightarrow> last_row xs = Some (last xs)"
  by (cases xs) (auto simp: last_row_def)

lemma first_row_in: "first_row xs = Some x \<Longrightarrow> x \<in> set xs"
  by (cases xs) auto

lemma last_row_in: "last_row xs = Some x \<Longrightarrow> x \<in> set xs"
  by (cases xs rule: rev_cases) auto

lemma order_by_id [simp]: "sorted (map f xs) \<Longrightarrow> order_by f xs = xs"
  by (simp add: order_by_def sort_key_id_if_sorted)

lemma set_order_by [simp]: "set (order_by f xs) = set xs"
  by (simp add: order_by_def)

lemma length_order_by [simp]: "length (order_by f xs) = length xs"
  by (simp add: order_by_def)

lemma order_by_Nil [simp]: "order_by f xs = [] \<longleftrightarrow> xs = []"
  by (metis length_0_conv length_order_by)

lemma sorted_order_by: "sorted (map f (order_by f xs))"
  by (simp add: order_by_def)

lemma length_update_where [simp]: "length (update_where P g xs) = length xs"
  by (simp add: update_where_def)

lemma in_update_where:
  "y \<in> set (update_where P g xs) \<longleftrightarrow> (\<exists>x \<in> set xs. y = (if P x then g x else x))"
  unfolding update_where_def by (simp only: set_map image_iff)

lemma update_where_all:
  assumes "\<And>x. x \<in> set xs \<Longrightarrow> Q (if P x then g x else x)"
  shows "\<forall>y \<in> set (update_where P g xs). Q y"
  using assms unfolding update_where_def by (simp only: set_map) blast

lemma map_update_where:
  "(\<And>x. x \<in> set xs \<Longrightarrow> P x \<Longrightarrow> f (g x) = f x) \<Longrightarrow> map f (update_where P g xs) = map f xs"
  by (auto simp: update_where_def)

lemma strict_sorted_sorted: "sorted_wrt (<) (xs :: 'a :: linorder list) \<Longrightarrow> sorted xs"
  by (simp add: strict_sorted_iff)

lemma strict_sorted_filter:
  "sorted_wrt (<) (map f xs) \<Longrightarrow> sorted_wrt (<) (map f (filter P xs))"
  by (induction xs) auto

lemma strict_order_by [simp]:
  fixes f :: "'a \<Rightarrow> 'k :: linorder"
  shows "sorted_wrt (<) (map f xs) \<Longrightarrow> order_by f xs = xs"
  by (simp add: strict_sorted_sorted)

lemma strict_order_by_filter [simp]:
  fixes f :: "'a \<Rightarrow> 'k :: linorder"
  shows "sorted_wrt (<) (map f xs) \<Longrightarrow> order_by f (filter P xs) = filter P xs"
  by (simp add: strict_sorted_filter)

text \<open>A table in key order falls apart at every key bound.\<close>

lemma strict_sorted_split:
  fixes f :: "'a \<Rightarrow> 'k :: linorder"
  shows "sorted_wrt (<) (map f xs) \<Longrightarrow>
     filter (\<lambda>x. f x < n) xs @ filter (\<lambda>x. \<not> f x < n) xs = xs"
proof (induction xs)
  case (Cons x xs)
  then have le: "\<forall>y \<in> set xs. f x < f y" by auto
  show ?case
  proof (cases "f x < n")
    case True
    then show ?thesis using Cons by simp
  next
    case False
    then have "filter (\<lambda>y. f y < n) xs = []" using le by (auto simp: filter_empty_conv)
    moreover have "filter (\<lambda>y. \<not> f y < n) xs = xs" using le False by (auto simp: filter_id_conv)
    ultimately show ?thesis using False by simp
  qed
qed simp

lemma count_where_simps [simp, tbl_simps]:
  "count_where P [] = 0" "count_where P (x # xs) = (if P x then 1 else 0) + count_where P xs"
  "count_where P (xs @ ys) = count_where P xs + count_where P ys"
  by (simp_all add: count_where_def)

lemma update_where_simps [simp, tbl_simps]:
  "update_where P g [] = []"
  "update_where P g (x # xs) = (if P x then g x else x) # update_where P g xs"
  "update_where P g (xs @ ys) = update_where P g xs @ update_where P g ys"
  by (simp_all add: update_where_def)

lemma first_row_filter_None:
  "first_row (filter P xs) = None \<longleftrightarrow> (\<forall>x \<in> set xs. \<not> P x)"
  by (simp add: filter_empty_conv)

lemma first_row_filter_Some:
  "first_row (filter P xs) = Some x \<Longrightarrow> x \<in> set xs \<and> P x"
  using first_row_in by fastforce

section \<open>Remote calls\<close>

text \<open>A handler returns a reply or aborts with a status; an exception that no handler
  catches becomes \<open>INTERNAL\<close>.\<close>

datatype rpc_status = INVALID_ARGUMENT | UNAVAILABLE | FAILED_PRECONDITION | PERMISSION_DENIED
  | UNAUTHENTICATED | NOT_FOUND | RESOURCE_EXHAUSTED | INTERNAL

datatype 'a rpc = Reply 'a | Abort rpc_status

end
