(* ===== verification/AuditChain.thy ===== *)
theory AuditChain
  imports Sha256
begin

text \<open>
  The hash chain of the audit service (\<^verbatim>\<open>services/audit/app/core/chain.py\<close>): domain
  separated leaf, chain and checkpoint digests over length-prefixed encodings, the
  algorithm registry, and the errors the functions raise.  The interface
  \<open>hash_chain\<close> states what a client of the chain relies on (digests of one width,
  and input encodings that can be told apart); it is interpreted on the functions below.
\<close>

section \<open>Errors of the audit service\<close>

datatype audit_error =
    UnsupportedAlgorithmError int
  | ValueError
  | IntegrityError
  | DatabaseError
  | RetentionError
  | SigningKeyError
  | UnknownKeyError
  | PseudonymKeyError

type_synonym 'a audit_result = "audit_error + 'a"

section \<open>The algorithm registry\<close>

definition HASH_SIZE :: nat where "HASH_SIZE = 32"
definition HASH_ALGORITHM_SHA256 :: int where "HASH_ALGORITHM_SHA256 = 1"
definition DEFAULT_HASH_ALGORITHM :: int where "DEFAULT_HASH_ALGORITHM = HASH_ALGORITHM_SHA256"

definition DOMAIN_LEAF :: bytes where "DOMAIN_LEAF = [0x00]"
definition DOMAIN_CHAIN :: bytes where "DOMAIN_CHAIN = [0x01]"
definition DOMAIN_CHECKPOINT :: bytes where "DOMAIN_CHECKPOINT = [0x02]"
definition DOMAIN_CHECKPOINT_DIGEST :: bytes where "DOMAIN_CHECKPOINT_DIGEST = [0x03]"

definition algorithms :: "int \<Rightarrow> ((bytes \<Rightarrow> bytes) \<times> nat) option" where
  "algorithms a = (if a = HASH_ALGORITHM_SHA256 then Some (sha256, 32) else None)"

definition GENESIS_PREV_HASH :: bytes where "GENESIS_PREV_HASH = replicate HASH_SIZE 0"
definition GENESIS_CHECKPOINT_HASH :: bytes where "GENESIS_CHECKPOINT_HASH = replicate HASH_SIZE 0"

definition digest_size :: "int \<Rightarrow> nat audit_result" where
  "digest_size a = (case algorithms a of None \<Rightarrow> Inl (UnsupportedAlgorithmError a)
     | Some entry \<Rightarrow> Inr (snd entry))"

definition is_supported :: "int \<Rightarrow> bool" where
  "is_supported a \<longleftrightarrow> algorithms a \<noteq> None"

definition genesis_prev_hash :: "int \<Rightarrow> bytes audit_result" where
  "genesis_prev_hash a = rbind (digest_size a) (\<lambda>n. Inr (replicate n 0))"

definition genesis_checkpoint_hash :: "int \<Rightarrow> bytes audit_result" where
  "genesis_checkpoint_hash a = rbind (digest_size a) (\<lambda>n. Inr (replicate n 0))"

definition new_digest :: "int \<Rightarrow> (bytes \<Rightarrow> bytes) audit_result" where
  "new_digest a = (case algorithms a of None \<Rightarrow> Inl (UnsupportedAlgorithmError a)
     | Some entry \<Rightarrow> Inr (fst entry))"

section \<open>Encodings\<close>

definition u64 :: "int \<Rightarrow> bytes audit_result" where
  "u64 v = (if v < 0 \<or> v > 0xFFFFFFFFFFFFFFFF then Inl ValueError else Inr (be_bytes 8 (nat v)))"

definition length_prefixed :: "bytes \<Rightarrow> bytes audit_result" where
  "length_prefixed v = rbind (u64 (int (length v))) (\<lambda>n. Inr (n @ v))"

definition constant_time_eq :: "bytes \<Rightarrow> bytes \<Rightarrow> bool" where
  "constant_time_eq l r \<longleftrightarrow> l = r"

section \<open>Digests\<close>

definition compute_leaf_hash :: "bytes \<Rightarrow> int \<Rightarrow> bytes audit_result" where
  "compute_leaf_hash event_bytes a = rbind (new_digest a) (\<lambda>H.
     rbind (length_prefixed event_bytes) (\<lambda>p. Inr (H (DOMAIN_LEAF @ p))))"

definition compute_chain_hash :: "bytes \<Rightarrow> bytes \<Rightarrow> int \<Rightarrow> bytes audit_result" where
  "compute_chain_hash prev_hash leaf_hash a = rbind (digest_size a) (\<lambda>n.
     if length prev_hash \<noteq> n then Inl ValueError
     else if length leaf_hash \<noteq> n then Inl ValueError
     else rbind (new_digest a) (\<lambda>H. Inr (H (DOMAIN_CHAIN @ prev_hash @ leaf_hash))))"

definition leaf_matches :: "bytes \<Rightarrow> bytes \<Rightarrow> int \<Rightarrow> bool audit_result" where
  "leaf_matches event_bytes leaf_hash a =
     rbind (compute_leaf_hash event_bytes a) (\<lambda>h. Inr (constant_time_eq h leaf_hash))"

definition chain_matches :: "bytes \<Rightarrow> bytes \<Rightarrow> bytes \<Rightarrow> int \<Rightarrow> bool audit_result" where
  "chain_matches prev_hash leaf_hash chain_hash a =
     rbind (compute_chain_hash prev_hash leaf_hash a) (\<lambda>h. Inr (constant_time_eq h chain_hash))"

fun join_results :: "bytes audit_result list \<Rightarrow> bytes audit_result" where
  "join_results [] = Inr []"
| "join_results (r # rs) = rbind r (\<lambda>b. rbind (join_results rs) (\<lambda>bs. Inr (b @ bs)))"

definition checkpoint_payload ::
  "string \<Rightarrow> int \<Rightarrow> int \<Rightarrow> bytes \<Rightarrow> bytes \<Rightarrow> int \<Rightarrow> int \<Rightarrow> bytes audit_result" where
  "checkpoint_payload key_id tree_size tail_seq tail_hash prev_hash sig_alg hash_alg =
     rbind (digest_size hash_alg) (\<lambda>n.
       if length tail_hash \<noteq> n then Inl ValueError
       else if length prev_hash \<noteq> n then Inl ValueError
       else join_results [
         Inr DOMAIN_CHECKPOINT,
         u64 hash_alg,
         u64 sig_alg,
         length_prefixed (utf8 key_id),
         u64 tree_size,
         u64 tail_seq,
         length_prefixed tail_hash,
         length_prefixed prev_hash])"

definition compute_checkpoint_hash :: "bytes \<Rightarrow> int \<Rightarrow> bytes audit_result" where
  "compute_checkpoint_hash payload a = rbind (new_digest a) (\<lambda>H.
     rbind (length_prefixed payload) (\<lambda>p. Inr (H (DOMAIN_CHECKPOINT_DIGEST @ p))))"

definition checkpoint_matches :: "bytes \<Rightarrow> bytes \<Rightarrow> int \<Rightarrow> bool audit_result" where
  "checkpoint_matches payload checkpoint_hash a =
     rbind (compute_checkpoint_hash payload a) (\<lambda>h. Inr (constant_time_eq h checkpoint_hash))"

section \<open>The registry and the encodings\<close>

lemma is_supported_iff [simp]: "is_supported a \<longleftrightarrow> a = 1"
  by (simp add: is_supported_def algorithms_def HASH_ALGORITHM_SHA256_def)

lemma digest_size_1 [simp]: "digest_size 1 = Inr 32"
  by (simp add: digest_size_def algorithms_def HASH_ALGORITHM_SHA256_def)

lemma new_digest_1 [simp]: "new_digest 1 = Inr sha256"
  by (simp add: new_digest_def algorithms_def HASH_ALGORITHM_SHA256_def)

lemma digest_size_Inr: "digest_size a = Inr n \<longleftrightarrow> a = 1 \<and> n = 32"
  by (auto simp: digest_size_def algorithms_def HASH_ALGORITHM_SHA256_def)

lemma new_digest_Inr: "new_digest a = Inr H \<longleftrightarrow> a = 1 \<and> H = sha256"
  by (auto simp: new_digest_def algorithms_def HASH_ALGORITHM_SHA256_def)

lemma length_genesis [simp]:
  "length GENESIS_PREV_HASH = 32" "length GENESIS_CHECKPOINT_HASH = 32"
  by (simp_all add: GENESIS_PREV_HASH_def GENESIS_CHECKPOINT_HASH_def HASH_SIZE_def)

lemma genesis_prev_hash_1 [simp]: "genesis_prev_hash 1 = Inr GENESIS_PREV_HASH"
  by (simp add: genesis_prev_hash_def GENESIS_PREV_HASH_def HASH_SIZE_def)

lemma u64_Inr: "u64 v = Inr b \<longleftrightarrow> 0 \<le> v \<and> v < 2 ^ 64 \<and> b = be_bytes 8 (nat v)"
  by (auto simp: u64_def)

lemma u64_length: "u64 v = Inr b \<Longrightarrow> length b = 8"
  by (auto simp: u64_Inr)

lemma u64_inject:
  assumes "u64 v = Inr b" "u64 w = Inr b"
  shows "v = w"
proof -
  have "nat v < 256 ^ 8" "nat w < 256 ^ 8" using assms by (auto simp: u64_Inr nat_less_iff)
  moreover have "be_bytes 8 (nat v) = be_bytes 8 (nat w)" using assms by (simp add: u64_Inr)
  ultimately have "nat v = nat w" by (rule be_bytes_inject[rotated])
  then show ?thesis using assms by (simp add: u64_Inr eq_nat_nat_iff)
qed

lemma length_prefixed_Inr:
  "length_prefixed v = Inr b \<longleftrightarrow> length v < 2 ^ 64 \<and> b = be_bytes 8 (length v) @ v"
  by (auto simp: length_prefixed_def u64_Inr rbind_eq_Inr)

text \<open>A length-prefixed field can be split off the front of a message in one way only.\<close>

lemma length_prefixed_split:
  assumes "length_prefixed v = Inr b" "length_prefixed w = Inr c" "b @ x = c @ y"
  shows "v = w \<and> x = y"
proof -
  have lt: "length v < 256 ^ 8" "length w < 256 ^ 8"
    using assms(1,2) by (simp_all add: length_prefixed_Inr)
  have eq: "be_bytes 8 (length v) @ v @ x = be_bytes 8 (length w) @ w @ y"
    using assms by (simp add: length_prefixed_Inr)
  then have h: "be_bytes 8 (length v) = be_bytes 8 (length w)" and t: "v @ x = w @ y"
    by (simp_all add: append_same_length)
  from be_bytes_inject[OF h lt] t show ?thesis by (simp add: append_same_length)
qed

lemma length_prefixed_inject:
  "length_prefixed v = Inr b \<Longrightarrow> length_prefixed w = Inr b \<Longrightarrow> v = w"
  using length_prefixed_split by blast

lemma u64_split:
  "u64 v = Inr b \<Longrightarrow> u64 w = Inr c \<Longrightarrow> b @ x = c @ y \<Longrightarrow> v = w \<and> x = y"
  by (metis append_same_length u64_inject u64_length)

section \<open>Outcomes of the digest functions\<close>

definition leaf_input :: "bytes \<Rightarrow> bytes" where
  "leaf_input e = DOMAIN_LEAF @ be_bytes 8 (length e) @ e"

definition chain_input :: "bytes \<Rightarrow> bytes \<Rightarrow> bytes" where
  "chain_input p l = DOMAIN_CHAIN @ p @ l"

lemma compute_leaf_hash_Inr:
  "compute_leaf_hash e a = Inr h \<longleftrightarrow> a = 1 \<and> length e < 2 ^ 64 \<and> h = sha256 (leaf_input e)"
  by (auto simp: compute_leaf_hash_def leaf_input_def rbind_eq_Inr new_digest_Inr length_prefixed_Inr)

lemma compute_chain_hash_Inr:
  "compute_chain_hash p l a = Inr h \<longleftrightarrow>
     a = 1 \<and> length p = 32 \<and> length l = 32 \<and> h = sha256 (chain_input p l)"
  by (auto simp: compute_chain_hash_def chain_input_def rbind_eq_Inr new_digest_Inr digest_size_Inr
      split: if_splits)

lemma leaf_matches_Inr:
  "leaf_matches e l a = Inr b \<longleftrightarrow>
     a = 1 \<and> length e < 2 ^ 64 \<and> b = (sha256 (leaf_input e) = l)"
  by (auto simp: leaf_matches_def constant_time_eq_def rbind_eq_Inr compute_leaf_hash_Inr)

lemma chain_matches_Inr:
  "chain_matches p l c a = Inr b \<longleftrightarrow>
     a = 1 \<and> length p = 32 \<and> length l = 32 \<and> b = (sha256 (chain_input p l) = c)"
  by (auto simp: chain_matches_def constant_time_eq_def rbind_eq_Inr compute_chain_hash_Inr)

lemma compute_checkpoint_hash_Inr:
  "compute_checkpoint_hash p a = Inr h \<longleftrightarrow>
     a = 1 \<and> length p < 2 ^ 64 \<and> h = sha256 (DOMAIN_CHECKPOINT_DIGEST @ be_bytes 8 (length p) @ p)"
  by (auto simp: compute_checkpoint_hash_def rbind_eq_Inr new_digest_Inr length_prefixed_Inr)

lemma compute_hash_length:
  "compute_leaf_hash e a = Inr h \<Longrightarrow> length h = 32"
  "compute_chain_hash p l a = Inr h \<Longrightarrow> length h = 32"
  "compute_checkpoint_hash p a = Inr h \<Longrightarrow> length h = 32"
  by (auto simp: compute_leaf_hash_Inr compute_chain_hash_Inr compute_checkpoint_hash_Inr)

section \<open>Chains of links\<close>

text \<open>
  A link is the part of a log row that the chain covers.  The payload is absent once it has
  been erased.  \<open>linked H L N p ls\<close>: starting after the hash \<open>p\<close>, every link names its
  predecessor's chain hash, and its own hashes are the digests of its contents.
\<close>

datatype link = Link (lk_prev: bytes) (lk_leaf: bytes) (lk_chain: bytes) (lk_payload: "bytes option")

fun link_ok :: "(bytes \<Rightarrow> bytes) \<Rightarrow> (bytes \<Rightarrow> bytes) \<Rightarrow> (bytes \<Rightarrow> bytes \<Rightarrow> bytes) \<Rightarrow> bytes \<Rightarrow> link \<Rightarrow> bool" where
  "link_ok H L N p (Link prev leaf ch payload) \<longleftrightarrow> prev = p \<and> length leaf = 32 \<and> ch = H (N prev leaf)
     \<and> (case payload of None \<Rightarrow> True | Some e \<Rightarrow> leaf = H (L e))"

fun linked :: "(bytes \<Rightarrow> bytes) \<Rightarrow> (bytes \<Rightarrow> bytes) \<Rightarrow> (bytes \<Rightarrow> bytes \<Rightarrow> bytes) \<Rightarrow> bytes \<Rightarrow> link list \<Rightarrow> bool" where
  "linked H L N p [] \<longleftrightarrow> True"
| "linked H L N p (l # ls) \<longleftrightarrow> link_ok H L N p l \<and> linked H L N (lk_chain l) ls"

definition chain_end :: "bytes \<Rightarrow> link list \<Rightarrow> bytes" where
  "chain_end p ls = last (p # map lk_chain ls)"

fun link_inputs :: "(bytes \<Rightarrow> bytes) \<Rightarrow> (bytes \<Rightarrow> bytes \<Rightarrow> bytes) \<Rightarrow> link \<Rightarrow> bytes list" where
  "link_inputs L N (Link prev leaf ch payload) =
     N prev leaf # (case payload of None \<Rightarrow> [] | Some e \<Rightarrow> [L e])"

definition chain_inputs :: "(bytes \<Rightarrow> bytes) \<Rightarrow> (bytes \<Rightarrow> bytes \<Rightarrow> bytes) \<Rightarrow> link list \<Rightarrow> bytes list" where
  "chain_inputs L N ls = concat (map (link_inputs L N) ls)"

text \<open>Two links agree when they carry the same hashes, and the same payload where both
  still have one.\<close>

fun link_agrees :: "link \<Rightarrow> link \<Rightarrow> bool" where
  "link_agrees (Link p l c e) (Link p' l' c' e') \<longleftrightarrow>
     p = p' \<and> l = l' \<and> c = c' \<and> (e = None \<or> e' = None \<or> e = e')"

lemma chain_end_simps [simp]:
  "chain_end p [] = p" "chain_end p (ls @ [l]) = lk_chain l"
  "chain_end p (l # ls) = chain_end (lk_chain l) ls"
  by (simp_all add: chain_end_def)

lemma linked_append:
  "linked H L N p (xs @ ys) \<longleftrightarrow> linked H L N p xs \<and> linked H L N (chain_end p xs) ys"
  by (induction xs arbitrary: p) auto

lemma linked_snoc:
  "linked H L N p (xs @ [l]) \<longleftrightarrow> linked H L N p xs \<and> link_ok H L N (chain_end p xs) l"
  by (simp add: linked_append)

lemma chain_inputs_append [simp]:
  "chain_inputs L N (xs @ ys) = chain_inputs L N xs @ chain_inputs L N ys"
  by (simp add: chain_inputs_def)

lemma chain_inputs_simps [simp]:
  "chain_inputs L N [] = []" "chain_inputs L N (l # ls) = link_inputs L N l @ chain_inputs L N ls"
  by (simp_all add: chain_inputs_def)

lemma link_ok_digest:
  "link_ok H L N p l \<Longrightarrow> \<exists>x \<in> set (link_inputs L N l). H x = lk_chain l"
  by (cases l) auto

locale hash_chain =
  fixes H :: "bytes \<Rightarrow> bytes" and L :: "bytes \<Rightarrow> bytes" and N :: "bytes \<Rightarrow> bytes \<Rightarrow> bytes"
  assumes digest_width: "length (H x) = 32"
    and leaf_inject: "length e < 2 ^ 64 \<Longrightarrow> length e' < 2 ^ 64 \<Longrightarrow> L e = L e' \<Longrightarrow> e = e'"
    and node_inject: "length p = 32 \<Longrightarrow> length p' = 32 \<Longrightarrow> N p l = N p' l' \<Longrightarrow> p = p' \<and> l = l'"
begin

lemma linked_chain_end_width:
  "linked H L N p xs \<Longrightarrow> length p = 32 \<Longrightarrow> length (chain_end p xs) = 32"
proof (induction xs rule: rev_induct)
  case (snoc l xs)
  then show ?case by (cases l) (auto simp: linked_snoc digest_width)
qed simp

lemma last_link_agrees:
  assumes ok: "link_ok H L N p l" "link_ok H L N p' l'" "length p = 32" "length p' = 32"
    and small: "case lk_payload l of None \<Rightarrow> True | Some e \<Rightarrow> length e < 2 ^ 64"
      "case lk_payload l' of None \<Rightarrow> True | Some e \<Rightarrow> length e < 2 ^ 64"
    and eq: "lk_chain l = lk_chain l'"
  shows "(p = p' \<and> link_agrees l l') \<or>
    (\<exists>x \<in> set (link_inputs L N l). \<exists>y \<in> set (link_inputs L N l'). x \<noteq> y \<and> H x = H y)"
proof -
  obtain lf e where l: "l = Link p lf (H (N p lf)) e" using ok(1) by (cases l) auto
  obtain lf' e' where l': "l' = Link p' lf' (H (N p' lf')) e'" using ok(2) by (cases l') auto
  show ?thesis
  proof (cases "N p lf = N p' lf'")
    case False
    then show ?thesis using eq by (auto simp: l l')
  next
    case True
    then have same: "p = p'" "lf = lf'" using node_inject ok(3,4) by blast+
    show ?thesis
    proof (cases "e = None \<or> e' = None \<or> e = e'")
      case True
      then show ?thesis using same by (simp add: l l')
    next
      case False
      then obtain x y where "e = Some x" "e' = Some y" "x \<noteq> y" by (cases e; cases e') auto
      moreover from this have "L x \<noteq> L y" using leaf_inject small by (auto simp: l l')
      moreover have "H (L x) = H (L y)"
        using ok(1,2) same calculation(1,2) by (simp add: l l')
      ultimately show ?thesis by (auto simp: l l')
    qed
  qed
qed

text \<open>Tamper evidence: two chains with the same end agree link by link, unless their own
  inputs contain a collision of the digest, or one of them hashes to the start value.\<close>

lemma same_end_agrees:
  assumes "linked H L N g xs" "linked H L N g ys" "length g = 32"
    and "\<forall>l \<in> set xs \<union> set ys. (case lk_payload l of None \<Rightarrow> True | Some e \<Rightarrow> length e < 2 ^ 64)"
    and "chain_end g xs = chain_end g ys"
  shows "list_all2 link_agrees xs ys \<or>
    (\<exists>x \<in> set (chain_inputs L N xs). \<exists>y \<in> set (chain_inputs L N ys). x \<noteq> y \<and> H x = H y) \<or>
    (\<exists>x \<in> set (chain_inputs L N xs) \<union> set (chain_inputs L N ys). H x = g)"
  using assms
proof (induction xs arbitrary: ys rule: rev_induct)
  case Nil
  then show ?case
  proof (cases ys rule: rev_cases)
    case (snoc zs l)
    with Nil.prems(2) have "link_ok H L N (chain_end g zs) l" by (simp add: linked_snoc)
    from link_ok_digest[OF this] obtain x where "x \<in> set (link_inputs L N l)" "H x = lk_chain l" by blast
    moreover have "lk_chain l = g" using Nil.prems(5) snoc by simp
    ultimately show ?thesis using snoc by auto
  qed simp
next
  case (snoc l xs)
  show ?case
  proof (cases ys rule: rev_cases)
    case Nil
    have "link_ok H L N (chain_end g xs) l" using snoc.prems(1) by (simp add: linked_snoc)
    from link_ok_digest[OF this] obtain x where "x \<in> set (link_inputs L N l)" "H x = lk_chain l" by blast
    moreover have "lk_chain l = g" using snoc.prems(5) Nil by simp
    ultimately show ?thesis by auto
  next
    case (snoc zs l')
    have ok: "link_ok H L N (chain_end g xs) l" "link_ok H L N (chain_end g zs) l'"
      and lk: "linked H L N g xs" "linked H L N g zs"
      using snoc.prems snoc by (simp_all add: linked_snoc)
    have w: "length (chain_end g xs) = 32" "length (chain_end g zs) = 32"
      using lk linked_chain_end_width snoc.prems(3) by blast+
    have "(chain_end g xs = chain_end g zs \<and> link_agrees l l') \<or>
      (\<exists>x \<in> set (link_inputs L N l). \<exists>y \<in> set (link_inputs L N l'). x \<noteq> y \<and> H x = H y)"
      using last_link_agrees[OF ok w] snoc.prems(4,5) snoc by simp
    then show ?thesis
    proof
      assume agree: "chain_end g xs = chain_end g zs \<and> link_agrees l l'"
      have "list_all2 link_agrees xs zs \<or>
        (\<exists>x \<in> set (chain_inputs L N xs). \<exists>y \<in> set (chain_inputs L N zs). x \<noteq> y \<and> H x = H y) \<or>
        (\<exists>x \<in> set (chain_inputs L N xs) \<union> set (chain_inputs L N zs). H x = g)"
        using snoc.IH[OF lk snoc.prems(3)] snoc.prems(4) snoc agree by auto
      then show ?thesis using agree snoc by (auto simp: list_all2_appendI)
    next
      assume "\<exists>x \<in> set (link_inputs L N l). \<exists>y \<in> set (link_inputs L N l'). x \<noteq> y \<and> H x = H y"
      then show ?thesis using snoc by auto
    qed
  qed
qed

end

interpretation sha_chain: hash_chain sha256 leaf_input chain_input
proof unfold_locales
  fix e e' assume "length e < 2 ^ 64" "length e' < 2 ^ 64" "leaf_input e = leaf_input e'"
  then show "e = e'" by (simp add: leaf_input_def append_same_length)
next
  fix p p' l l' :: bytes assume "length p = 32" "length p' = 32" "chain_input p l = chain_input p' l'"
  then show "p = p' \<and> l = l'" by (simp add: chain_input_def append_same_length)
qed simp

end
