(* ===== verification/AuditStore.thy ===== *)
theory AuditStore
  imports AuditChain
begin

text \<open>
  The tables of the audit database (\<^verbatim>\<open>services/audit/app/db/models/audit_event.py\<close>) with
  the constraints and guard triggers that the migrations put on them
  (\<^verbatim>\<open>services/audit/migrations/versions\<close>).  A statement either succeeds with a new
  database or fails and changes nothing: with \<open>IntegrityError\<close> for a check or unique
  constraint, with \<open>DatabaseError\<close> for a value outside its column type or a trigger that
  raises.  An identity column draws the
  next value of its sequence.  A \<^verbatim>\<open>UUID\<close> column holds the 128-bit number.  The server
  limits a \<^verbatim>\<open>bytea\<close> field to less than one gigabyte.
\<close>



section \<open>Rows\<close>

record audit_event =
  ev_sequence_number :: int
  ev_event_id :: uuid
  ev_schema_version :: int
  ev_occurred_at :: datetime
  ev_persisted_at :: datetime
  ev_source_service :: int
  ev_actor :: string
  ev_severity :: int
  ev_trace_id :: string
  ev_payload_kind :: int
  ev_hash_algorithm :: int
  ev_event_bytes :: "bytes option"
  ev_leaf_hash :: bytes
  ev_prev_hash :: bytes
  ev_chain_hash :: bytes
  ev_erased_at :: "datetime option"
  ev_erasure_reason :: int
  ev_subjects :: "string list"

record audit_segment =
  sg_segment_id :: int
  sg_first_sequence_number :: int
  sg_last_sequence_number :: int
  sg_first_prev_hash :: bytes
  sg_terminal_chain_hash :: bytes
  sg_row_count :: int
  sg_hash_algorithm :: int
  sg_covers_from :: datetime
  sg_covers_to :: datetime
  sg_sealed_at :: datetime
  sg_checkpoint_id :: "int option"

record audit_checkpoint =
  cp_checkpoint_id :: int
  cp_tail_sequence_number :: int
  cp_tail_chain_hash :: bytes
  cp_tree_size :: int
  cp_hash_algorithm :: int
  cp_signature_algorithm :: int
  cp_signature :: bytes
  cp_key_id :: string
  cp_signed_at :: datetime
  cp_prev_checkpoint_hash :: bytes
  cp_checkpoint_hash :: bytes

record audit_db =
  db_events :: "audit_event list"
  db_next_event :: int
  db_segments :: "audit_segment list"
  db_next_segment :: int
  db_checkpoints :: "audit_checkpoint list"
  db_next_checkpoint :: int

definition empty_db :: audit_db where
  "empty_db = \<lparr>db_events = [], db_next_event = 1, db_segments = [], db_next_segment = 1,
     db_checkpoints = [], db_next_checkpoint = 1\<rparr>"

section \<open>Column types and check constraints\<close>

definition smallint_ok :: "int \<Rightarrow> bool" where "smallint_ok v \<longleftrightarrow> - 32768 \<le> v \<and> v \<le> 32767"
definition integer_ok :: "int \<Rightarrow> bool" where "integer_ok v \<longleftrightarrow> - 2147483648 \<le> v \<and> v \<le> 2147483647"
definition bigint_ok :: "int \<Rightarrow> bool" where
  "bigint_ok v \<longleftrightarrow> - 9223372036854775808 \<le> v \<and> v \<le> 9223372036854775807"
definition varchar_ok :: "nat \<Rightarrow> string \<Rightarrow> bool" where "varchar_ok n s \<longleftrightarrow> length s \<le> n"
definition bytea_ok :: "bytes \<Rightarrow> bool" where "bytea_ok b \<longleftrightarrow> length b < 2 ^ 30"

definition erasure_consistent :: "audit_event \<Rightarrow> bool" where
  "erasure_consistent r \<longleftrightarrow>
     (ev_erased_at r = None \<and> ev_event_bytes r \<noteq> None \<and> ev_erasure_reason r = 0) \<or>
     (ev_erased_at r \<noteq> None \<and> ev_event_bytes r = None \<and> ev_erasure_reason r > 0)"

definition event_types_ok :: "audit_event \<Rightarrow> bool" where
  "event_types_ok r \<longleftrightarrow> bigint_ok (ev_sequence_number r) \<and> integer_ok (ev_schema_version r)
     \<and> smallint_ok (ev_source_service r) \<and> smallint_ok (ev_severity r)
     \<and> smallint_ok (ev_payload_kind r) \<and> smallint_ok (ev_hash_algorithm r)
     \<and> smallint_ok (ev_erasure_reason r) \<and> varchar_ok 64 (ev_actor r) \<and> varchar_ok 32 (ev_trace_id r)
     \<and> list_all (varchar_ok 64) (ev_subjects r)
     \<and> (case ev_event_bytes r of None \<Rightarrow> True | Some b \<Rightarrow> bytea_ok b)"

definition event_checks_ok :: "audit_event \<Rightarrow> bool" where
  "event_checks_ok r \<longleftrightarrow> length (ev_leaf_hash r) = 32 \<and> length (ev_prev_hash r) = 32
     \<and> length (ev_chain_hash r) = 32 \<and> ev_hash_algorithm r > 0 \<and> ev_schema_version r > 0
     \<and> erasure_consistent r"

definition event_unique :: "audit_event \<Rightarrow> audit_event list \<Rightarrow> bool" where
  "event_unique r rows \<longleftrightarrow> list_all (\<lambda>q. ev_sequence_number q \<noteq> ev_sequence_number r
     \<and> ev_event_id q \<noteq> ev_event_id r \<and> ev_prev_hash q \<noteq> ev_prev_hash r
     \<and> ev_chain_hash q \<noteq> ev_chain_hash r) rows"

definition segment_checks_ok :: "audit_segment \<Rightarrow> bool" where
  "segment_checks_ok s \<longleftrightarrow> sg_last_sequence_number s \<ge> sg_first_sequence_number s
     \<and> length (sg_first_prev_hash s) = 32 \<and> length (sg_terminal_chain_hash s) = 32
     \<and> sg_row_count s > 0 \<and> sg_covers_to s \<ge> sg_covers_from s"

definition segment_unique :: "audit_segment \<Rightarrow> audit_segment list \<Rightarrow> bool" where
  "segment_unique s rows \<longleftrightarrow> list_all (\<lambda>q. sg_first_sequence_number q \<noteq> sg_first_sequence_number s
     \<and> sg_last_sequence_number q \<noteq> sg_last_sequence_number s
     \<and> sg_terminal_chain_hash q \<noteq> sg_terminal_chain_hash s) rows"

definition checkpoint_checks_ok :: "audit_checkpoint \<Rightarrow> bool" where
  "checkpoint_checks_ok c \<longleftrightarrow> length (cp_tail_chain_hash c) = 32
     \<and> length (cp_prev_checkpoint_hash c) = 32 \<and> length (cp_checkpoint_hash c) = 32
     \<and> ((cp_signature_algorithm c = 1 \<and> length (cp_signature c) = 64)
        \<or> (cp_signature_algorithm c = 2 \<and> length (cp_signature c) = 2420))
     \<and> cp_tree_size c > 0 \<and> varchar_ok 32 (cp_key_id c)"

definition checkpoint_unique :: "audit_checkpoint \<Rightarrow> audit_checkpoint list \<Rightarrow> bool" where
  "checkpoint_unique c rows \<longleftrightarrow> list_all (\<lambda>q. cp_tail_sequence_number q \<noteq> cp_tail_sequence_number c
     \<and> cp_checkpoint_hash q \<noteq> cp_checkpoint_hash c
     \<and> cp_prev_checkpoint_hash q \<noteq> cp_prev_checkpoint_hash c) rows"

section \<open>Statements\<close>

definition insert_event :: "audit_event \<Rightarrow> audit_db \<Rightarrow> (audit_event \<times> audit_db) audit_result" where
  "insert_event r db = (let r' = r\<lparr>ev_sequence_number := db_next_event db\<rparr> in
     if \<not> event_types_ok r' then Inl DatabaseError
     else if event_checks_ok r' \<and> event_unique r' (db_events db)
     then Inr (r', db\<lparr>db_events := db_events db @ [r'], db_next_event := db_next_event db + 1\<rparr>)
     else Inl IntegrityError)"

definition events_guard_update :: "bool \<Rightarrow> audit_event \<Rightarrow> audit_event \<Rightarrow> bool" where
  "events_guard_update maintenance old new \<longleftrightarrow> maintenance
     \<and> ev_sequence_number new = ev_sequence_number old
     \<and> ev_event_id new = ev_event_id old
     \<and> ev_leaf_hash new = ev_leaf_hash old
     \<and> ev_prev_hash new = ev_prev_hash old
     \<and> ev_chain_hash new = ev_chain_hash old
     \<and> ev_occurred_at new = ev_occurred_at old
     \<and> ev_persisted_at new = ev_persisted_at old"

definition update_events ::
  "bool \<Rightarrow> (audit_event \<Rightarrow> bool) \<Rightarrow> (audit_event \<Rightarrow> audit_event) \<Rightarrow> audit_db \<Rightarrow> (nat \<times> audit_db) audit_result" where
  "update_events maintenance P g db =
     (if list_ex (\<lambda>r. P r \<and> \<not> (events_guard_update maintenance r (g r) \<and> event_types_ok (g r)))
          (db_events db) then Inl DatabaseError
      else if list_all (\<lambda>r. P r \<longrightarrow> event_checks_ok (g r)) (db_events db)
      then Inr (count_where P (db_events db), db\<lparr>db_events := update_where P g (db_events db)\<rparr>)
      else Inl IntegrityError)"

definition delete_events ::
  "bool \<Rightarrow> (audit_event \<Rightarrow> bool) \<Rightarrow> audit_db \<Rightarrow> (nat \<times> audit_db) audit_result" where
  "delete_events maintenance P db =
     (if maintenance \<or> \<not> list_ex P (db_events db)
      then Inr (count_where P (db_events db), db\<lparr>db_events := filter (\<lambda>r. \<not> P r) (db_events db)\<rparr>)
      else Inl DatabaseError)"

definition insert_segment :: "audit_segment \<Rightarrow> audit_db \<Rightarrow> (int \<times> audit_db) audit_result" where
  "insert_segment s db = (let s' = s\<lparr>sg_segment_id := db_next_segment db\<rparr> in
     if segment_checks_ok s' \<and> segment_unique s' (db_segments db)
     then Inr (sg_segment_id s', db\<lparr>db_segments := db_segments db @ [s'],
                 db_next_segment := db_next_segment db + 1\<rparr>)
     else Inl IntegrityError)"

definition insert_checkpoint ::
  "audit_checkpoint \<Rightarrow> audit_db \<Rightarrow> (audit_checkpoint \<times> audit_db) audit_result" where
  "insert_checkpoint c db = (let c' = c\<lparr>cp_checkpoint_id := db_next_checkpoint db\<rparr> in
     if checkpoint_checks_ok c' \<and> checkpoint_unique c' (db_checkpoints db)
     then Inr (c', db\<lparr>db_checkpoints := db_checkpoints db @ [c'],
                 db_next_checkpoint := db_next_checkpoint db + 1\<rparr>)
     else Inl IntegrityError)"

section \<open>What a statement that succeeds has done\<close>

lemma insert_event_Inr:
  "insert_event r db = Inr (r', db') \<longleftrightarrow>
     r' = r\<lparr>ev_sequence_number := db_next_event db\<rparr> \<and>
     event_types_ok r' \<and> event_checks_ok r' \<and> event_unique r' (db_events db) \<and>
     db' = db\<lparr>db_events := db_events db @ [r'], db_next_event := db_next_event db + 1\<rparr>"
  by (auto simp: insert_event_def Let_def)

lemma update_events_Inr:
  "update_events m P g db = Inr (n, db') \<longleftrightarrow>
     (\<forall>r \<in> set (db_events db). P r \<longrightarrow> events_guard_update m r (g r)
        \<and> event_types_ok (g r) \<and> event_checks_ok (g r)) \<and>
     n = count_where P (db_events db) \<and> db' = db\<lparr>db_events := update_where P g (db_events db)\<rparr>"
  by (auto simp: update_events_def list_all_iff list_ex_iff)

lemma delete_events_Inr:
  "delete_events m P db = Inr (n, db') \<longleftrightarrow>
     (m \<or> \<not> list_ex P (db_events db)) \<and> n = count_where P (db_events db) \<and>
     db' = db\<lparr>db_events := filter (\<lambda>r. \<not> P r) (db_events db)\<rparr>"
  by (auto simp: delete_events_def)

lemma insert_segment_Inr:
  "insert_segment s db = Inr (i, db') \<longleftrightarrow> i = db_next_segment db \<and>
     segment_checks_ok (s\<lparr>sg_segment_id := i\<rparr>) \<and> segment_unique (s\<lparr>sg_segment_id := i\<rparr>) (db_segments db) \<and>
     db' = db\<lparr>db_segments := db_segments db @ [s\<lparr>sg_segment_id := i\<rparr>],
              db_next_segment := db_next_segment db + 1\<rparr>"
  by (auto simp: insert_segment_def Let_def)

lemma insert_checkpoint_Inr:
  "insert_checkpoint c db = Inr (c', db') \<longleftrightarrow>
     c' = c\<lparr>cp_checkpoint_id := db_next_checkpoint db\<rparr> \<and>
     checkpoint_checks_ok c' \<and> checkpoint_unique c' (db_checkpoints db) \<and>
     db' = db\<lparr>db_checkpoints := db_checkpoints db @ [c'], db_next_checkpoint := db_next_checkpoint db + 1\<rparr>"
  by (auto simp: insert_checkpoint_def Let_def)

lemma events_guard_updateD:
  assumes "events_guard_update m r r'"
  shows "ev_sequence_number r' = ev_sequence_number r" "ev_event_id r' = ev_event_id r"
    "ev_leaf_hash r' = ev_leaf_hash r" "ev_prev_hash r' = ev_prev_hash r"
    "ev_chain_hash r' = ev_chain_hash r" "m"
  using assms by (auto simp: events_guard_update_def)

end
