(* ===== verification/AuditRepository.thy ===== *)
theory AuditRepository
  imports AuditStore
begin

text \<open>
  \<^verbatim>\<open>services/audit/app/repositories/audit_repository.py\<close>: appending to the chained log,
  querying it page by page, verifying it, and erasing a data subject's payloads.  Parsing a
  protobuf message is generated code, so the parser is an argument \<open>parse\<close>; \<^verbatim>\<open>now()\<close> of the
  database is an argument.  The invariant \<open>audit_inv\<close> says what every operation keeps of
  the log.
\<close>

section \<open>Values\<close>

definition VERIFY_FAILURE_NONE :: int where "VERIFY_FAILURE_NONE = 1"
definition VERIFY_FAILURE_LINKAGE_MISMATCH :: int where "VERIFY_FAILURE_LINKAGE_MISMATCH = 2"
definition VERIFY_FAILURE_LEAF_MISMATCH :: int where "VERIFY_FAILURE_LEAF_MISMATCH = 3"
definition VERIFY_FAILURE_CHAIN_MISMATCH :: int where "VERIFY_FAILURE_CHAIN_MISMATCH = 4"
definition VERIFY_FAILURE_MISSING_PAYLOAD :: int where "VERIFY_FAILURE_MISSING_PAYLOAD = 5"
definition VERIFY_FAILURE_CHECKPOINT_SIGNATURE_INVALID :: int where
  "VERIFY_FAILURE_CHECKPOINT_SIGNATURE_INVALID = 6"
definition VERIFY_FAILURE_CHECKPOINT_DIVERGENCE :: int where
  "VERIFY_FAILURE_CHECKPOINT_DIVERGENCE = 7"
definition VERIFY_FAILURE_ALGORITHM_UNSUPPORTED :: int where
  "VERIFY_FAILURE_ALGORITHM_UNSUPPORTED = 8"

record append_result =
  ar_sequence_number :: int
  ar_leaf_hash :: bytes
  ar_chain_hash :: bytes
  ar_persisted_at :: datetime
  ar_duplicate :: bool

record verify_result =
  vr_chain_intact :: bool
  vr_break_at :: "int option"
  vr_failure_kind :: int
  vr_events_verified :: nat
  vr_erased_rows_verified :: nat
  vr_checkpoints_verified :: nat

record tail_state =
  ts_prev_hash :: bytes
  ts_tree_size :: int
  ts_tail_sequence_number :: int

record append_request =
  rq_event_id :: uuid
  rq_occurred_at :: datetime
  rq_source_service :: int
  rq_actor :: string
  rq_severity :: int
  rq_trace_id :: string
  rq_payload_kind :: int
  rq_schema_version :: int
  rq_event_bytes :: bytes
  rq_hash_algorithm :: int

text \<open>A parsed event: its actor, and the string fields of the payload that is set.\<close>

record pb_event =
  pb_actor :: string
  pb_payload :: "(string \<Rightarrow> string option) option"

definition SUBJECT_FIELDS :: "string list" where
  "SUBJECT_FIELDS = [''subject_id'', ''target_id'', ''actor_user_id'', ''requested_by'']"

definition add_subject :: "(string \<Rightarrow> string option) \<Rightarrow> string list \<Rightarrow> string \<Rightarrow> string list" where
  "add_subject payload found field =
     (let v = (case payload field of None \<Rightarrow> '''' | Some s \<Rightarrow> s)
      in if v \<noteq> '''' \<and> v \<notin> set found then found @ [v] else found)"

definition extract_subjects :: "(bytes \<Rightarrow> pb_event option) \<Rightarrow> bytes \<Rightarrow> string list" where
  "extract_subjects parse event_bytes = (case parse event_bytes of
     None \<Rightarrow> []
   | Some e \<Rightarrow> (let found = (if pb_actor e \<noteq> '''' then [pb_actor e] else []) in
       case pb_payload e of None \<Rightarrow> found
       | Some payload \<Rightarrow> foldl (add_subject payload) found SUBJECT_FIELDS))"

section \<open>Queries\<close>

definition find_by_event_id :: "uuid \<Rightarrow> audit_db \<Rightarrow> audit_event option" where
  "find_by_event_id event_id db = first_row (filter (\<lambda>r. ev_event_id r = event_id) (db_events db))"

definition last_segment :: "audit_db \<Rightarrow> audit_segment option" where
  "last_segment db = last_row (order_by sg_last_sequence_number (db_segments db))"

definition predecessor :: "int \<Rightarrow> audit_db \<Rightarrow> audit_event option" where
  "predecessor n db = last_row (order_by ev_sequence_number
     (filter (\<lambda>r. ev_sequence_number r < n) (db_events db)))"

definition count_events :: "audit_db \<Rightarrow> int" where
  "count_events db = int (length (db_events db))"

definition count_since :: "int \<Rightarrow> audit_db \<Rightarrow> int" where
  "count_since n db = int (count_where (\<lambda>r. ev_sequence_number r > n) (db_events db))"

definition event_at :: "int \<Rightarrow> audit_db \<Rightarrow> audit_event option" where
  "event_at n db = first_row (filter (\<lambda>r. ev_sequence_number r = n) (db_events db))"

definition latest_checkpoint :: "audit_db \<Rightarrow> audit_checkpoint option" where
  "latest_checkpoint db = last_row (order_by cp_checkpoint_id (db_checkpoints db))"

definition checkpoint_by_id :: "int \<Rightarrow> audit_db \<Rightarrow> audit_checkpoint option" where
  "checkpoint_by_id n db = first_row (filter (\<lambda>c. cp_checkpoint_id c = n) (db_checkpoints db))"

definition checkpoints_in_order :: "audit_db \<Rightarrow> audit_checkpoint list" where
  "checkpoints_in_order db = order_by cp_checkpoint_id (db_checkpoints db)"

definition tail_state_of :: "audit_db \<Rightarrow> tail_state audit_result" where
  "tail_state_of db = (let rows_total = count_events db in
     case last_row (order_by ev_sequence_number (db_events db)) of
       Some r \<Rightarrow> Inr \<lparr>ts_prev_hash = ev_chain_hash r, ts_tree_size = rows_total,
                      ts_tail_sequence_number = ev_sequence_number r\<rparr>
     | None \<Rightarrow> (case last_segment db of
         Some s \<Rightarrow> Inr \<lparr>ts_prev_hash = sg_terminal_chain_hash s, ts_tree_size = rows_total,
                        ts_tail_sequence_number = sg_last_sequence_number s\<rparr>
       | None \<Rightarrow> rbind (genesis_prev_hash DEFAULT_HASH_ALGORITHM)
           (\<lambda>g. Inr \<lparr>ts_prev_hash = g, ts_tree_size = 0, ts_tail_sequence_number = 0\<rparr>)))"

section \<open>Appending\<close>

definition duplicate_of :: "audit_event \<Rightarrow> append_result" where
  "duplicate_of r = \<lparr>ar_sequence_number = ev_sequence_number r, ar_leaf_hash = ev_leaf_hash r,
     ar_chain_hash = ev_chain_hash r, ar_persisted_at = ev_persisted_at r, ar_duplicate = True\<rparr>"

definition new_event ::
  "(bytes \<Rightarrow> pb_event option) \<Rightarrow> datetime \<Rightarrow> append_request \<Rightarrow> bytes \<Rightarrow> bytes \<Rightarrow> bytes \<Rightarrow> audit_event" where
  "new_event parse now rq leaf prev chain_hash =
     \<lparr>ev_sequence_number = 0, ev_event_id = rq_event_id rq, ev_schema_version = rq_schema_version rq,
      ev_occurred_at = rq_occurred_at rq, ev_persisted_at = now,
      ev_source_service = rq_source_service rq, ev_actor = rq_actor rq, ev_severity = rq_severity rq,
      ev_trace_id = rq_trace_id rq, ev_payload_kind = rq_payload_kind rq,
      ev_hash_algorithm = rq_hash_algorithm rq, ev_event_bytes = Some (rq_event_bytes rq),
      ev_leaf_hash = leaf, ev_prev_hash = prev, ev_chain_hash = chain_hash,
      ev_erased_at = None, ev_erasure_reason = 0,
      ev_subjects = extract_subjects parse (rq_event_bytes rq)\<rparr>"

text \<open>The part of \<^verbatim>\<open>append\<close> that runs under the advisory lock.\<close>

definition append_locked ::
  "(bytes \<Rightarrow> pb_event option) \<Rightarrow> datetime \<Rightarrow> append_request \<Rightarrow> audit_db \<Rightarrow> (append_result \<times> audit_db) audit_result" where
  "append_locked parse now rq db = (case find_by_event_id (rq_event_id rq) db of
     Some r \<Rightarrow> Inr (duplicate_of r, db)
   | None \<Rightarrow> rbind (tail_state_of db) (\<lambda>tail.
       rbind (compute_leaf_hash (rq_event_bytes rq) (rq_hash_algorithm rq)) (\<lambda>leaf.
       rbind (compute_chain_hash (ts_prev_hash tail) leaf (rq_hash_algorithm rq)) (\<lambda>chain_hash.
       rbind (insert_event (new_event parse now rq leaf (ts_prev_hash tail) chain_hash) db)
         (\<lambda>(row, db'). Inr (\<lparr>ar_sequence_number = ev_sequence_number row, ar_leaf_hash = leaf,
            ar_chain_hash = chain_hash, ar_persisted_at = ev_persisted_at row,
            ar_duplicate = False\<rparr>, db'))))))"

definition append_event ::
  "(bytes \<Rightarrow> pb_event option) \<Rightarrow> datetime \<Rightarrow> append_request \<Rightarrow> audit_db \<Rightarrow> (append_result \<times> audit_db) audit_result" where
  "append_event parse now rq db = (case find_by_event_id (rq_event_id rq) db of
     Some r \<Rightarrow> Inr (duplicate_of r, db)
   | None \<Rightarrow> append_locked parse now rq db)"

section \<open>Reading\<close>

record query_filter =
  qf_from_time :: "datetime option"
  qf_to_time :: "datetime option"
  qf_source_service :: int
  qf_actor :: string
  qf_min_severity :: int

definition apply_filters :: "query_filter \<Rightarrow> audit_event \<Rightarrow> bool" where
  "apply_filters q r \<longleftrightarrow>
     (case qf_from_time q of None \<Rightarrow> True | Some t \<Rightarrow> ev_occurred_at r \<ge> t) \<and>
     (case qf_to_time q of None \<Rightarrow> True | Some t \<Rightarrow> ev_occurred_at r < t) \<and>
     (qf_source_service q > 0 \<longrightarrow> ev_source_service r = qf_source_service q) \<and>
     (qf_actor q \<noteq> '''' \<longrightarrow> ev_actor r = qf_actor q) \<and>
     (qf_min_severity q > 0 \<longrightarrow> ev_severity r \<ge> qf_min_severity q)"

definition query :: "query_filter \<Rightarrow> nat \<Rightarrow> int option \<Rightarrow> audit_db \<Rightarrow> audit_event list" where
  "query q page_size after db = take page_size (order_by ev_sequence_number
     (filter (\<lambda>r. apply_filters q r \<and> (case after of None \<Rightarrow> True | Some n \<Rightarrow> ev_sequence_number r > n))
        (db_events db)))"

definition erase_subject_payloads ::
  "datetime \<Rightarrow> string \<Rightarrow> int \<Rightarrow> audit_db \<Rightarrow> (nat \<times> audit_db) audit_result" where
  "erase_subject_payloads now subject_id reason db = update_events True
     (\<lambda>r. subject_id \<in> set (ev_subjects r) \<and> ev_erased_at r = None)
     (\<lambda>r. r\<lparr>ev_event_bytes := None, ev_erased_at := Some now, ev_erasure_reason := reason\<rparr>) db"

section \<open>Verification\<close>

definition seed_expected_prev :: "int option \<Rightarrow> audit_db \<Rightarrow> bytes audit_result" where
  "seed_expected_prev from_seq db = (case from_seq of
     None \<Rightarrow> (let segment = last_segment db in
       case first_row (order_by ev_sequence_number (db_events db)) of
         None \<Rightarrow> genesis_prev_hash DEFAULT_HASH_ALGORITHM
       | Some head \<Rightarrow> (case segment of
           Some s \<Rightarrow> if sg_terminal_chain_hash s = ev_prev_hash head then Inr (sg_terminal_chain_hash s)
                     else genesis_prev_hash DEFAULT_HASH_ALGORITHM
         | None \<Rightarrow> genesis_prev_hash DEFAULT_HASH_ALGORITHM))
   | Some n \<Rightarrow> (case predecessor n db of
       Some p \<Rightarrow> Inr (ev_chain_hash p)
     | None \<Rightarrow> (case last_segment db of
         Some s \<Rightarrow> Inr (sg_terminal_chain_hash s)
       | None \<Rightarrow> genesis_prev_hash DEFAULT_HASH_ALGORITHM)))"

definition verify_failure :: "audit_event \<Rightarrow> int \<Rightarrow> nat \<Rightarrow> nat \<Rightarrow> verify_result" where
  "verify_failure row kind verified erased = \<lparr>vr_chain_intact = False,
     vr_break_at = Some (ev_sequence_number row), vr_failure_kind = kind,
     vr_events_verified = verified, vr_erased_rows_verified = erased, vr_checkpoints_verified = 0\<rparr>"

fun verify_rows :: "bytes \<Rightarrow> nat \<Rightarrow> nat \<Rightarrow> audit_event list \<Rightarrow> verify_result audit_result" where
  "verify_rows expected_prev verified erased [] = Inr \<lparr>vr_chain_intact = True, vr_break_at = None,
     vr_failure_kind = VERIFY_FAILURE_NONE, vr_events_verified = verified,
     vr_erased_rows_verified = erased, vr_checkpoints_verified = 0\<rparr>"
| "verify_rows expected_prev verified erased (row # rows) =
    (let check_chain = (\<lambda>verified' erased'.
       rbind (chain_matches (ev_prev_hash row) (ev_leaf_hash row) (ev_chain_hash row) (ev_hash_algorithm row))
         (\<lambda>ok. if \<not> ok then Inr (verify_failure row VERIFY_FAILURE_CHAIN_MISMATCH verified' erased')
               else verify_rows (ev_chain_hash row) verified' erased' rows)) in
     if \<not> is_supported (ev_hash_algorithm row)
     then Inr (verify_failure row VERIFY_FAILURE_ALGORITHM_UNSUPPORTED verified erased)
     else if ev_prev_hash row \<noteq> expected_prev
     then Inr (verify_failure row VERIFY_FAILURE_LINKAGE_MISMATCH verified erased)
     else case ev_event_bytes row of
       None \<Rightarrow> if ev_erased_at row = None
               then Inr (verify_failure row VERIFY_FAILURE_MISSING_PAYLOAD verified erased)
               else check_chain verified (erased + 1)
     | Some b \<Rightarrow> rbind (leaf_matches b (ev_leaf_hash row) (ev_hash_algorithm row))
         (\<lambda>ok. if \<not> ok then Inr (verify_failure row VERIFY_FAILURE_LEAF_MISMATCH verified erased)
               else check_chain (verified + 1) erased))"

definition verify :: "int option \<Rightarrow> int option \<Rightarrow> audit_db \<Rightarrow> verify_result audit_result" where
  "verify from_seq to_seq db = (let rows = order_by ev_sequence_number (filter (\<lambda>r.
       (case from_seq of None \<Rightarrow> True | Some n \<Rightarrow> ev_sequence_number r \<ge> n) \<and>
       (case to_seq of None \<Rightarrow> True | Some n \<Rightarrow> ev_sequence_number r \<le> n)) (db_events db))
     in rbind (seed_expected_prev from_seq db) (\<lambda>p. verify_rows p 0 0 rows))"

end
