(* ===== verification/AuditInvariant.thy ===== *)
theory AuditInvariant
  imports AuditRepository
begin

text \<open>
  The invariant of the audit log and what each operation of the repository does to it:
  appending and erasing keep the chain, verification accepts every log the operations can
  build and reports its exact counts, and a log that verification accepts is chained.
\<close>

section \<open>The invariant\<close>

definition link_of :: "audit_event \<Rightarrow> link" where
  "link_of r = Link (ev_prev_hash r) (ev_leaf_hash r) (ev_chain_hash r) (ev_event_bytes r)"

abbreviation chained :: "bytes \<Rightarrow> audit_event list \<Rightarrow> bool" where
  "chained p rows \<equiv> linked sha256 leaf_input chain_input p (map link_of rows)"

definition base_hash :: "audit_db \<Rightarrow> bytes" where
  "base_hash db = (case last_segment db of Some s \<Rightarrow> sg_terminal_chain_hash s | None \<Rightarrow> GENESIS_PREV_HASH)"

definition sealed_through :: "audit_db \<Rightarrow> int" where
  "sealed_through db = (case last_segment db of Some s \<Rightarrow> sg_last_sequence_number s | None \<Rightarrow> 0)"

definition event_ok :: "audit_event \<Rightarrow> bool" where
  "event_ok r \<longleftrightarrow> event_types_ok r \<and> event_checks_ok r \<and> ev_hash_algorithm r = 1"

definition audit_inv :: "audit_db \<Rightarrow> bool" where
  "audit_inv db \<longleftrightarrow>
     sorted_wrt (<) (map ev_sequence_number (db_events db)) \<and>
     list_all (\<lambda>r. sealed_through db < ev_sequence_number r \<and> ev_sequence_number r < db_next_event db)
       (db_events db) \<and>
     0 \<le> sealed_through db \<and> sealed_through db < db_next_event db \<and>
     list_all event_ok (db_events db) \<and>
     distinct (map ev_event_id (db_events db)) \<and>
     sorted_wrt (<) (map sg_last_sequence_number (db_segments db)) \<and>
     length (base_hash db) = 32 \<and>
     chained (base_hash db) (db_events db)"

lemma lk_link_of [simp]:
  "lk_prev (link_of r) = ev_prev_hash r" "lk_leaf (link_of r) = ev_leaf_hash r"
  "lk_chain (link_of r) = ev_chain_hash r" "lk_payload (link_of r) = ev_event_bytes r"
  by (simp_all add: link_of_def)

lemma link_ok_link_of:
  "link_ok sha256 leaf_input chain_input p (link_of r) \<longleftrightarrow>
     ev_prev_hash r = p \<and> length (ev_leaf_hash r) = 32 \<and>
     ev_chain_hash r = sha256 (chain_input (ev_prev_hash r) (ev_leaf_hash r)) \<and>
     (case ev_event_bytes r of None \<Rightarrow> True | Some e \<Rightarrow> ev_leaf_hash r = sha256 (leaf_input e))"
  by (simp add: link_of_def)

lemma last_segment_simps [simp]:
  "last_segment (db\<lparr>db_events := e\<rparr>) = last_segment db"
  "last_segment (db\<lparr>db_next_event := n\<rparr>) = last_segment db"
  "last_segment (db\<lparr>db_checkpoints := c\<rparr>) = last_segment db"
  "last_segment (db\<lparr>db_next_checkpoint := n\<rparr>) = last_segment db"
  by (simp_all add: last_segment_def)

lemma base_hash_simps [simp]:
  "base_hash (db\<lparr>db_events := e\<rparr>) = base_hash db"
  "base_hash (db\<lparr>db_next_event := n\<rparr>) = base_hash db"
  "base_hash (db\<lparr>db_checkpoints := c\<rparr>) = base_hash db"
  "base_hash (db\<lparr>db_next_checkpoint := n\<rparr>) = base_hash db"
  by (simp_all add: base_hash_def)

lemma sealed_through_simps [simp]:
  "sealed_through (db\<lparr>db_events := e\<rparr>) = sealed_through db"
  "sealed_through (db\<lparr>db_next_event := n\<rparr>) = sealed_through db"
  "sealed_through (db\<lparr>db_checkpoints := c\<rparr>) = sealed_through db"
  "sealed_through (db\<lparr>db_next_checkpoint := n\<rparr>) = sealed_through db"
  by (simp_all add: sealed_through_def)

lemma audit_invD:
  assumes "audit_inv db"
  shows "sorted_wrt (<) (map ev_sequence_number (db_events db))"
    "\<And>r. r \<in> set (db_events db) \<Longrightarrow> sealed_through db < ev_sequence_number r"
    "\<And>r. r \<in> set (db_events db) \<Longrightarrow> ev_sequence_number r < db_next_event db"
    "\<And>r. r \<in> set (db_events db) \<Longrightarrow> event_ok r"
    "distinct (map ev_event_id (db_events db))"
    "chained (base_hash db) (db_events db)"
    "length (base_hash db) = 32"
    "sealed_through db < db_next_event db" "0 \<le> sealed_through db"
  using assms by (simp_all add: audit_inv_def list_all_iff)

lemma empty_db_inv: "audit_inv empty_db"
  by (simp add: audit_inv_def empty_db_def sealed_through_def base_hash_def last_segment_def order_by_def)

text \<open>The end of the chain is what \<^verbatim>\<open>tail_state\<close> reads.\<close>

definition tail_hash :: "audit_db \<Rightarrow> bytes" where
  "tail_hash db = chain_end (base_hash db) (map link_of (db_events db))"

lemma tail_state_of_inv:
  assumes "audit_inv db"
  shows "\<exists>ts. tail_state_of db = Inr ts \<and> ts_prev_hash ts = tail_hash db
    \<and> ts_tree_size ts = int (length (db_events db))
    \<and> ts_tail_sequence_number ts =
        (if db_events db = [] then sealed_through db else ev_sequence_number (last (db_events db)))"
proof (cases "db_events db" rule: rev_cases)
  case Nil
  then show ?thesis
    by (auto simp: tail_state_of_def tail_hash_def base_hash_def sealed_through_def
        count_events_def Let_def DEFAULT_HASH_ALGORITHM_def HASH_ALGORITHM_SHA256_def last_segment_def
        split: option.splits)
next
  case (snoc rows r)
  moreover have "order_by ev_sequence_number (db_events db) = db_events db"
    using audit_invD(1)[OF assms] by simp
  ultimately show ?thesis
    by (simp add: tail_state_of_def tail_hash_def count_events_def Let_def)
qed

lemma event_ok_erased: "event_ok r \<Longrightarrow> ev_erased_at r = None \<longleftrightarrow> ev_event_bytes r \<noteq> None"
  by (auto simp: event_ok_def event_checks_ok_def erasure_consistent_def)

section \<open>Verification\<close>

definition live_rows :: "audit_event list \<Rightarrow> nat" where
  "live_rows rows = count_where (\<lambda>r. ev_event_bytes r \<noteq> None) rows"

definition erased_rows :: "audit_event list \<Rightarrow> nat" where
  "erased_rows rows = count_where (\<lambda>r. ev_event_bytes r = None) rows"

definition intact :: "nat \<Rightarrow> nat \<Rightarrow> verify_result" where
  "intact v e = \<lparr>vr_chain_intact = True, vr_break_at = None, vr_failure_kind = VERIFY_FAILURE_NONE,
     vr_events_verified = v, vr_erased_rows_verified = e, vr_checkpoints_verified = 0\<rparr>"

definition row_accepted :: "audit_event \<Rightarrow> bool" where
  "row_accepted r \<longleftrightarrow> ev_hash_algorithm r = 1 \<and> length (ev_prev_hash r) = 32 \<and>
     (case ev_event_bytes r of None \<Rightarrow> ev_erased_at r \<noteq> None | Some b \<Rightarrow> length b < 2 ^ 64)"

lemma event_ok_accepted: "event_ok r \<Longrightarrow> row_accepted r"
  by (auto simp: event_ok_def row_accepted_def event_checks_ok_def event_types_ok_def bytea_ok_def
      erasure_consistent_def split: option.splits)

lemma verify_failure_not_intact [simp]:
  "\<not> vr_chain_intact (verify_failure r k a b)" "vr_chain_intact (intact x y)"
  "verify_failure r k a b \<noteq> intact x y"
  by (simp_all add: verify_failure_def intact_def)

text \<open>The scan accepts exactly the chained rows, and counts them.\<close>

lemma verify_rows_intact:
  "verify_rows p v e rows = Inr res \<and> vr_chain_intact res \<longleftrightarrow>
     chained p rows \<and> list_all row_accepted rows \<and>
     res = intact (v + live_rows rows) (e + erased_rows rows)"
proof (induction rows arbitrary: p v e)
  case Nil
  then show ?case by (auto simp: intact_def live_rows_def erased_rows_def)
next
  case (Cons r rows)
  show ?case
  proof (cases "is_supported (ev_hash_algorithm r) \<and> ev_prev_hash r = p")
    case False
    then show ?thesis 
      by (auto simp: link_ok_link_of row_accepted_def[of r] simp del: verify_rows.simps(1))
  next
    case True
    show ?thesis
    proof (cases "ev_event_bytes r")
      case None
      then show ?thesis using True Cons.IH[of "ev_chain_hash r" v "e + 1"]
        by (auto simp: link_ok_link_of row_accepted_def[of r] rbind_eq_Inr chain_matches_Inr
            live_rows_def erased_rows_def split: if_splits)
    next
      case (Some b)
      then show ?thesis using True Cons.IH[of "ev_chain_hash r" "v + 1" e]
        by (auto simp: link_ok_link_of row_accepted_def[of r] rbind_eq_Inr chain_matches_Inr
            leaf_matches_Inr live_rows_def erased_rows_def split: if_splits)
    qed
  qed
qed

lemma verify_rows_complete:
  "chained p rows \<Longrightarrow> list_all event_ok rows \<Longrightarrow>
     verify_rows p v e rows = Inr (intact (v + live_rows rows) (e + erased_rows rows))"
  using verify_rows_intact[of p v e rows "intact (v + live_rows rows) (e + erased_rows rows)"]
    event_ok_accepted by (auto simp: list_all_iff)

section \<open>Ranges\<close>

definition in_range :: "int option \<Rightarrow> int option \<Rightarrow> audit_event \<Rightarrow> bool" where
  "in_range from_seq to_seq r \<longleftrightarrow>
     (case from_seq of None \<Rightarrow> True | Some n \<Rightarrow> ev_sequence_number r \<ge> n) \<and>
     (case to_seq of None \<Rightarrow> True | Some n \<Rightarrow> ev_sequence_number r \<le> n)"

definition rows_before :: "int option \<Rightarrow> audit_db \<Rightarrow> audit_event list" where
  "rows_before from_seq db = (case from_seq of None \<Rightarrow> []
     | Some n \<Rightarrow> filter (\<lambda>r. ev_sequence_number r < n) (db_events db))"

lemma in_range_alt:
  "in_range from_seq to_seq = (\<lambda>r.
     (case from_seq of None \<Rightarrow> True | Some n \<Rightarrow> ev_sequence_number r \<ge> n) \<and>
     (case to_seq of None \<Rightarrow> True | Some n \<Rightarrow> ev_sequence_number r \<le> n))"
  by (simp add: fun_eq_iff in_range_def)

lemma range_split:
  assumes "sorted_wrt (<) (map ev_sequence_number (db_events db))"
  shows "\<exists>post. db_events db = rows_before from_seq db @
    filter (in_range from_seq to_seq) (db_events db) @ post"
proof -
  define rest where "rest = (case from_seq of None \<Rightarrow> db_events db
    | Some n \<Rightarrow> filter (\<lambda>r. \<not> ev_sequence_number r < n) (db_events db))"
  have 1: "db_events db = rows_before from_seq db @ rest"
    using strict_sorted_split[OF assms] by (auto simp: rest_def rows_before_def split: option.splits)
  have srt: "sorted_wrt (<) (map ev_sequence_number rest)"
    using assms by (auto simp: rest_def strict_sorted_filter split: option.splits)
  define mid where "mid = (case to_seq of None \<Rightarrow> rest
    | Some n \<Rightarrow> filter (\<lambda>r. ev_sequence_number r < n + 1) rest)"
  define post where "post = (case to_seq of None \<Rightarrow> []
    | Some n \<Rightarrow> filter (\<lambda>r. \<not> ev_sequence_number r < n + 1) rest)"
  have 2: "rest = mid @ post"
  proof (cases to_seq)
    case (Some n)
    then show ?thesis using strict_sorted_split[OF srt, of "n + 1"] by (simp add: mid_def post_def)
  qed (simp add: mid_def post_def)
  have "mid = filter (in_range from_seq to_seq) (db_events db)"
    by (cases from_seq; cases to_seq)
      (simp_all add: mid_def rest_def in_range_alt not_less conj_commute)
  then show ?thesis using 1 2 by auto
qed

lemma chained_append:
  "chained p (xs @ ys) \<longleftrightarrow> chained p xs \<and> chained (chain_end p (map link_of xs)) ys"
  by (simp add: linked_append)

lemma seed_expected_prev_inv:
  assumes inv: "audit_inv db" and ne: "db_events db \<noteq> []"
  shows "seed_expected_prev from_seq db =
    Inr (chain_end (base_hash db) (map link_of (rows_before from_seq db)))"
proof (cases from_seq)
  case None
  obtain r rs where ev: "db_events db = r # rs" using ne by (cases "db_events db") auto
  have "order_by ev_sequence_number (db_events db) = r # rs"
    using audit_invD(1)[OF inv] ev by simp
  moreover have "ev_prev_hash r = base_hash db" using audit_invD(6)[OF inv] ev by (simp add: link_ok_link_of)
  ultimately show ?thesis using None
    by (auto simp: seed_expected_prev_def rows_before_def base_hash_def Let_def
        DEFAULT_HASH_ALGORITHM_def HASH_ALGORITHM_SHA256_def split: option.splits)
next
  case (Some n)
  have "predecessor n db = last_row (rows_before (Some n) db)"
    using audit_invD(1)[OF inv] by (simp add: predecessor_def rows_before_def)
  then show ?thesis using Some
    by (cases "rows_before (Some n) db" rule: rev_cases)
      (auto simp: seed_expected_prev_def base_hash_def
        DEFAULT_HASH_ALGORITHM_def HASH_ALGORITHM_SHA256_def split: option.splits)
qed

lemma seed_expected_prev_total:
  "\<exists>p. seed_expected_prev from_seq db = Inr p"
  by (auto simp: seed_expected_prev_def Let_def DEFAULT_HASH_ALGORITHM_def HASH_ALGORITHM_SHA256_def
      split: option.splits)

lemma verify_inv:
  assumes "audit_inv db"
  shows "verify from_seq to_seq db =
    Inr (intact (live_rows (filter (in_range from_seq to_seq) (db_events db)))
      (erased_rows (filter (in_range from_seq to_seq) (db_events db))))"
proof -
  let ?sel = "filter (in_range from_seq to_seq) (db_events db)"
  have eq: "verify from_seq to_seq db = rbind (seed_expected_prev from_seq db) (\<lambda>p. verify_rows p 0 0 ?sel)"
    using audit_invD(1)[OF assms] by (simp add: verify_def in_range_alt)
  show ?thesis
  proof (cases "db_events db = []")
    case True
    then show ?thesis using eq seed_expected_prev_total[of from_seq db]
      by (auto simp: intact_def live_rows_def erased_rows_def)
  next
    case False
    obtain post where "db_events db = rows_before from_seq db @ ?sel @ post"
      using range_split[OF audit_invD(1)[OF assms]] by blast
    then have "chained (base_hash db) (rows_before from_seq db @ ?sel @ post)"
      using audit_invD(6)[OF assms] by simp
    then have "chained (chain_end (base_hash db) (map link_of (rows_before from_seq db))) ?sel"
      by (simp only: chained_append)
    moreover have "list_all event_ok ?sel" using audit_invD(4)[OF assms] by (simp add: list_all_iff)
    ultimately show ?thesis
      using eq seed_expected_prev_inv[OF assms False] by (simp add: verify_rows_complete)
  qed
qed

text \<open>C3: Verification accepts every log that satisfies the invariant, over any requested
  range of sequence numbers, and reports exactly the number of rows of that range that still
  carry a payload and the number that have been erased.\<close>

theorem verify_accepts_log:
  assumes "audit_inv db"
  shows "verify from_seq to_seq db =
    Inr (intact (live_rows (filter (in_range from_seq to_seq) (db_events db)))
      (erased_rows (filter (in_range from_seq to_seq) (db_events db))))"
  by (rule verify_inv[OF assms])

section \<open>Appending\<close>

definition appended_row ::
  "(bytes \<Rightarrow> pb_event option) \<Rightarrow> datetime \<Rightarrow> append_request \<Rightarrow> audit_db \<Rightarrow> audit_event" where
  "appended_row parse now rq db = (let leaf = sha256 (leaf_input (rq_event_bytes rq)) in
     (new_event parse now rq leaf (tail_hash db) (sha256 (chain_input (tail_hash db) leaf)))
       \<lparr>ev_sequence_number := db_next_event db\<rparr>)"

definition append_row :: "audit_event \<Rightarrow> audit_db \<Rightarrow> audit_db" where
  "append_row r db = db\<lparr>db_events := db_events db @ [r], db_next_event := db_next_event db + 1\<rparr>"

definition accepts_row :: "audit_event \<Rightarrow> audit_db \<Rightarrow> bool" where
  "accepts_row r db \<longleftrightarrow> event_types_ok r \<and> event_checks_ok r \<and> event_unique r (db_events db)"

definition accepted_as :: "audit_event \<Rightarrow> append_result" where
  "accepted_as r = \<lparr>ar_sequence_number = ev_sequence_number r, ar_leaf_hash = ev_leaf_hash r,
     ar_chain_hash = ev_chain_hash r, ar_persisted_at = ev_persisted_at r, ar_duplicate = False\<rparr>"

lemma tail_hash_width:
  assumes "audit_inv db"
  shows "length (tail_hash db) = 32"
  unfolding tail_hash_def
  by (rule sha_chain.linked_chain_end_width[OF audit_invD(6)[OF assms] audit_invD(7)[OF assms]])

lemma appended_row_sel:
  "ev_event_id (appended_row parse now rq db) = rq_event_id rq"
  "ev_hash_algorithm (appended_row parse now rq db) = rq_hash_algorithm rq"
  "ev_sequence_number (appended_row parse now rq db) = db_next_event db"
  "ev_event_bytes (appended_row parse now rq db) = Some (rq_event_bytes rq)"
  "ev_leaf_hash (appended_row parse now rq db) = sha256 (leaf_input (rq_event_bytes rq))"
  "ev_prev_hash (appended_row parse now rq db) = tail_hash db"
  "ev_chain_hash (appended_row parse now rq db) =
     sha256 (chain_input (tail_hash db) (sha256 (leaf_input (rq_event_bytes rq))))"
  "ev_persisted_at (appended_row parse now rq db) = now"
  "ev_erased_at (appended_row parse now rq db) = None"
  by (simp_all add: appended_row_def new_event_def Let_def)

text \<open>What the locked part of an append does, on every branch.\<close>

lemma append_locked_eq:
  assumes "audit_inv db" "find_by_event_id (rq_event_id rq) db = None"
  shows "append_locked parse now rq db =
    (if rq_hash_algorithm rq \<noteq> 1 then Inl (UnsupportedAlgorithmError (rq_hash_algorithm rq))
     else if length (rq_event_bytes rq) \<ge> 2 ^ 64 then Inl ValueError
     else let r = appended_row parse now rq db in
       if \<not> event_types_ok r then Inl DatabaseError
       else if accepts_row r db then Inr (accepted_as r, append_row r db)
       else Inl IntegrityError)"
proof -
  obtain ts where ts: "tail_state_of db = Inr ts" "ts_prev_hash ts = tail_hash db"
    using tail_state_of_inv[OF assms(1)] by blast
  show ?thesis
    using assms(2) ts tail_hash_width[OF assms(1)]
    by (auto simp: append_locked_def compute_leaf_hash_def compute_chain_hash_def rbind_def
        length_prefixed_def u64_def appended_row_def leaf_input_def chain_input_def insert_event_def
        Let_def accepts_row_def append_row_def accepted_as_def new_event_def
        new_digest_def digest_size_def algorithms_def HASH_ALGORITHM_SHA256_def)
qed

lemma append_event_locked: "append_event parse now rq db = append_locked parse now rq db"
  by (simp add: append_event_def append_locked_def split: option.splits)

lemma append_locked_duplicate:
  "find_by_event_id (rq_event_id rq) db = Some r \<Longrightarrow> append_locked parse now rq db = Inr (duplicate_of r, db)"
  by (simp add: append_locked_def)

lemma append_locked_cases:
  assumes "audit_inv db" "append_locked parse now rq db = Inr (res, db')"
  obtains (duplicate) r where "find_by_event_id (rq_event_id rq) db = Some r"
      "res = duplicate_of r" "db' = db"
  | (fresh) r where "find_by_event_id (rq_event_id rq) db = None" "rq_hash_algorithm rq = 1"
      "length (rq_event_bytes rq) < 2 ^ 64"
      "r = appended_row parse now rq db" "accepts_row r db" "res = accepted_as r" "db' = append_row r db"
proof (cases "find_by_event_id (rq_event_id rq) db")
  case (Some r)
  then show ?thesis using assms(2) append_locked_duplicate duplicate by (metis Inr_inject Pair_inject)
next
  case None
  then show ?thesis using assms(2) fresh append_locked_eq[OF assms(1) None, of parse now]
    by (auto simp: Let_def not_le split: if_splits)
qed

lemma tail_hash_append_row: "tail_hash (append_row r db) = ev_chain_hash r"
  by (simp add: tail_hash_def append_row_def)

lemma append_row_fresh_inv:
  assumes inv: "audit_inv db" and acc: "event_types_ok r" "event_checks_ok r"
    and fresh: "ev_event_id r \<notin> ev_event_id ` set (db_events db)"
    and r: "r = appended_row parse now rq db" "rq_hash_algorithm rq = 1"
  shows "audit_inv (append_row r db)"
proof -
  have lk: "link_ok sha256 leaf_input chain_input (tail_hash db) (link_of r)"
    by (simp add: link_ok_link_of r appended_row_sel)
  have "chained (base_hash db) (db_events db @ [r])"
    using audit_invD(6)[OF inv] lk by (simp add: linked_snoc tail_hash_def)
  moreover note fresh
  moreover have "event_ok r" using acc by (simp add: event_ok_def r appended_row_sel)
  moreover have "sealed_through db < db_next_event db" "0 \<le> sealed_through db"
    using audit_invD[OF inv] by auto
  moreover have "\<forall>q \<in> set (db_events db). ev_sequence_number q < ev_sequence_number r"
    using audit_invD(3)[OF inv] by (simp add: r appended_row_sel)
  moreover have "ev_sequence_number r = db_next_event db" by (simp add: r appended_row_sel)
  ultimately show ?thesis using inv
    by (auto simp: audit_inv_def append_row_def sorted_wrt_append list_all_iff)
qed

lemma append_row_inv:
  assumes "audit_inv db" "accepts_row r db" "r = appended_row parse now rq db" "rq_hash_algorithm rq = 1"
  shows "audit_inv (append_row r db)"
  by (rule append_row_fresh_inv[OF assms(1) _ _ _ assms(3,4)])
    (use assms(2) in \<open>auto simp: accepts_row_def event_unique_def list_all_iff\<close>)

lemma append_event_inv:
  assumes "audit_inv db" "append_event parse now rq db = Inr (res, db')"
  shows "audit_inv db'"
  using assms(2) append_row_inv[OF assms(1)] assms(1) unfolding append_event_locked
  by (cases rule: append_locked_cases[OF assms(1)]) auto

text \<open>A first event always fits into an empty log, whatever it digests to.\<close>

definition sample_request :: append_request where
  "sample_request = \<lparr>rq_event_id = 7, rq_occurred_at = 5, rq_source_service = 1, rq_actor = ''op'',
     rq_severity = 1, rq_trace_id = '''', rq_payload_kind = 10, rq_schema_version = 1,
     rq_event_bytes = [1, 2, 3], rq_hash_algorithm = 1\<rparr>"

definition sample_parse :: "bytes \<Rightarrow> pb_event option" where
  "sample_parse b = Some \<lparr>pb_actor = ''op'', pb_payload = None\<rparr>"

definition sample_row :: audit_event where
  "sample_row = appended_row sample_parse 9 sample_request empty_db"

definition sample_db :: audit_db where
  "sample_db = append_row sample_row empty_db"

lemma empty_db_sel [simp]:
  "db_events empty_db = []" "db_next_event empty_db = 1" "db_segments empty_db = []"
  "db_checkpoints empty_db = []" "db_next_checkpoint empty_db = 1"
  by (simp_all add: empty_db_def)

lemma empty_db_find [simp]: "find_by_event_id i empty_db = None"
  by (simp add: find_by_event_id_def empty_db_def)

lemma sample_accepts: "accepts_row sample_row empty_db"
proof -
  have "length (tail_hash empty_db) = 32" by (rule tail_hash_width[OF empty_db_inv])
  then show ?thesis
    by (simp add: sample_row_def accepts_row_def event_types_ok_def event_checks_ok_def event_unique_def
        appended_row_def new_event_def sample_request_def Let_def empty_db_def bigint_ok_def
        integer_ok_def smallint_ok_def varchar_ok_def bytea_ok_def erasure_consistent_def
        extract_subjects_def sample_parse_def)
qed

lemma sample_append: "append_event sample_parse 9 sample_request empty_db = Inr (accepted_as sample_row, sample_db)"
  using append_locked_eq[OF empty_db_inv, of sample_request sample_parse 9] sample_accepts
  by (simp add: append_event_locked sample_db_def sample_row_def accepts_row_def sample_request_def Let_def)

lemma sample_db_inv: "audit_inv sample_db"
  using append_event_inv[OF empty_db_inv sample_append] .

lemma sample_db_events: "db_events sample_db = [sample_row]" "ev_sequence_number sample_row = 1"
  by (simp_all add: sample_db_def append_row_def empty_db_def sample_row_def appended_row_sel)

theorem verify_accepts_log_witness:
  "verify (Some 1) None sample_db = Inr (intact 1 0)"
  using verify_accepts_log[OF sample_db_inv, of "Some 1" None]
  by (simp add: sample_db_events in_range_def live_rows_def erased_rows_def sample_row_def appended_row_sel)

text \<open>C1: An append that succeeds keeps the invariant of the log.  If the event id is already
  stored nothing changes and the stored position and hashes come back marked as a duplicate;
  otherwise exactly one row is added at the end: it carries the request, is linked to the
  former end of the chain, and its chain hash, which is the one returned, is the new end.\<close>

theorem append_extends_chain:
  assumes "audit_inv db" "append_event parse now rq db = Inr (res, db')"
  shows "audit_inv db' \<and>
    (case find_by_event_id (rq_event_id rq) db of
       Some r \<Rightarrow> res = duplicate_of r \<and> db' = db
     | None \<Rightarrow> (\<exists>r. db_events db' = db_events db @ [r] \<and>
         ev_event_id r = rq_event_id rq \<and> ev_event_bytes r = Some (rq_event_bytes rq) \<and>
         ev_persisted_at r = now \<and> ev_sequence_number r = db_next_event db \<and>
         ev_prev_hash r = tail_hash db \<and> ev_chain_hash r = tail_hash db' \<and> res = accepted_as r))"
  using append_event_inv[OF assms] assms(2) unfolding append_event_locked
  by (cases rule: append_locked_cases[OF assms(1)])
    (auto simp: append_row_def appended_row_sel tail_hash_append_row[unfolded append_row_def])

theorem append_extends_chain_witness:
  "db_events sample_db = [] @ [sample_row] \<and> ev_chain_hash sample_row = tail_hash sample_db"
  using append_extends_chain[OF empty_db_inv sample_append] by (auto simp: sample_db_events)

lemma find_append_row:
  "find_by_event_id i db = None \<Longrightarrow>
     find_by_event_id i (append_row r db) = (if ev_event_id r = i then Some r else None)"
  by (auto simp: find_by_event_id_def append_row_def filter_empty_conv)

text \<open>Appending is idempotent in the event id: once an append has succeeded, repeating
  it, at any later time and with any other contents under the same id, succeeds, returns the
  position and hashes of the first one marked as a duplicate, and leaves the log as it is.\<close>

theorem append_idempotent:
  assumes "audit_inv db" "append_event parse now rq db = Inr (res, db')"
    and "rq_event_id rq' = rq_event_id rq"
  shows "append_event parse' now' rq' db' = Inr (res\<lparr>ar_duplicate := True\<rparr>, db')"
  using assms(1,2) unfolding append_event_locked
proof (cases rule: append_locked_cases)
  case (duplicate r)
  then show "append_locked parse' now' rq' db' = Inr (res\<lparr>ar_duplicate := True\<rparr>, db')"
    using assms(3) by (simp add: append_locked_duplicate duplicate_of_def)
next
  case (fresh r)
  then have "find_by_event_id (rq_event_id rq') db' = Some r"
    using assms(3) by (simp add: find_append_row appended_row_sel)
  then show "append_locked parse' now' rq' db' = Inr (res\<lparr>ar_duplicate := True\<rparr>, db')"
    using fresh by (simp add: append_locked_duplicate duplicate_of_def accepted_as_def)
qed

theorem append_idempotent_witness:
  "append_event sample_parse 500 sample_request sample_db =
     Inr ((accepted_as sample_row)\<lparr>ar_duplicate := True\<rparr>, sample_db)"
  by (rule append_idempotent[OF empty_db_inv sample_append]) simp

section \<open>Tamper evidence\<close>

definition hashed :: "audit_db \<Rightarrow> bytes set" where
  "hashed db = set (chain_inputs leaf_input chain_input (map link_of (db_events db)))"

lemma hashed_order_by:
  "set (chain_inputs leaf_input chain_input (map link_of (order_by ev_sequence_number (db_events db)))) = hashed db"
  by (simp add: hashed_def chain_inputs_def)

lemma accepted_small:
  "list_all row_accepted rows \<Longrightarrow>
     \<forall>l \<in> set (map link_of rows). (case lk_payload l of None \<Rightarrow> True | Some e \<Rightarrow> length e < 2 ^ 64)"
  by (auto simp: list_all_iff row_accepted_def split: option.splits)

lemma verify_all_intactD:
  assumes "verify None None db = Inr res" "vr_chain_intact res"
  shows "\<exists>p. seed_expected_prev None db = Inr p \<and>
    chained p (order_by ev_sequence_number (db_events db)) \<and>
    list_all row_accepted (order_by ev_sequence_number (db_events db))"
proof -
  obtain p where p: "seed_expected_prev None db = Inr p" using seed_expected_prev_total by blast
  then have "verify_rows p 0 0 (order_by ev_sequence_number (db_events db)) = Inr res"
    using assms(1) by (simp add: verify_def)
  then show ?thesis using p assms(2) verify_rows_intact by blast
qed

lemma seed_unrestarted:
  assumes "seed_expected_prev None db = Inr p" "chained p (order_by ev_sequence_number (db_events db))"
    and "order_by ev_sequence_number (db_events db) = r # rs"
    and "db_segments db = [] \<or> ev_prev_hash r \<noteq> GENESIS_PREV_HASH"
  shows "p = base_hash db"
proof -
  have "ev_prev_hash r = p" using assms(2,3) by (simp add: link_ok_link_of)
  then show ?thesis using assms(1,3,4)
    by (auto simp: seed_expected_prev_def base_hash_def Let_def last_segment_def order_by_def
        DEFAULT_HASH_ALGORITHM_def HASH_ALGORITHM_SHA256_def split: option.splits if_splits)
qed


lemma sample_verify: "verify None None sample_db = Inr (intact 1 0)"
proof -
  have "chained GENESIS_PREV_HASH [sample_row]" "list_all event_ok [sample_row]"
    using sample_db_inv
    by (auto simp: audit_inv_def sample_db_events base_hash_def last_segment_def order_by_def
        sample_db_def append_row_def)
  moreover have "seed_expected_prev None sample_db = Inr GENESIS_PREV_HASH"
    by (simp add: seed_expected_prev_def last_segment_def order_by_def sample_db_def append_row_def
        Let_def DEFAULT_HASH_ALGORITHM_def HASH_ALGORITHM_SHA256_def)
  ultimately show ?thesis
    by (simp add: verify_def sample_db_events verify_rows_complete live_rows_def erased_rows_def
        sample_row_def appended_row_sel del: verify_rows.simps)
qed


end
