(* ===== verification/AuditErasure.thy ===== *)
theory AuditErasure
  imports AuditInvariant
begin

text \<open>
  Erasing a data subject's payloads from the log, and reading the log page by page.
\<close>

section \<open>Erasure\<close>

definition erases :: "string \<Rightarrow> audit_event \<Rightarrow> bool" where
  "erases subject_id r \<longleftrightarrow> subject_id \<in> set (ev_subjects r) \<and> ev_erased_at r = None"

definition erase_row :: "datetime \<Rightarrow> int \<Rightarrow> audit_event \<Rightarrow> audit_event" where
  "erase_row now reason r = r\<lparr>ev_event_bytes := None, ev_erased_at := Some now, ev_erasure_reason := reason\<rparr>"

definition erase_rows :: "datetime \<Rightarrow> string \<Rightarrow> int \<Rightarrow> audit_db \<Rightarrow> audit_db" where
  "erase_rows now subject_id reason db =
     db\<lparr>db_events := update_where (erases subject_id) (erase_row now reason) (db_events db)\<rparr>"

lemma erase_row_sel [simp]:
  "ev_sequence_number (erase_row now reason r) = ev_sequence_number r"
  "ev_event_id (erase_row now reason r) = ev_event_id r"
  "ev_subjects (erase_row now reason r) = ev_subjects r"
  "ev_event_bytes (erase_row now reason r) = None"
  "ev_erased_at (erase_row now reason r) = Some now"
  "ev_hash_algorithm (erase_row now reason r) = ev_hash_algorithm r"
  "ev_chain_hash (erase_row now reason r) = ev_chain_hash r"
  by (simp_all add: erase_row_def)

lemma erase_row_guard: "events_guard_update True r (erase_row now reason r)"
  by (simp add: events_guard_update_def erase_row_def)

lemma erase_row_types:
  "event_ok r \<Longrightarrow> smallint_ok reason \<Longrightarrow> event_types_ok (erase_row now reason r)"
  by (simp add: event_ok_def event_types_ok_def erase_row_def smallint_ok_def)

lemma erase_row_checks:
  "event_ok r \<Longrightarrow> event_checks_ok (erase_row now reason r) \<longleftrightarrow> reason > 0"
  by (auto simp: event_ok_def event_checks_ok_def erasure_consistent_def erase_row_def)

lemma erase_subject_payloads_alt:
  "erase_subject_payloads now subject_id reason = update_events True (erases subject_id) (erase_row now reason)"
  by (simp add: fun_eq_iff erase_subject_payloads_def erases_def[abs_def] erase_row_def[abs_def])

lemma erase_succeeds:
  assumes "audit_inv db" "0 < reason" "smallint_ok reason"
  shows "erase_subject_payloads now subject_id reason db =
    Inr (count_where (erases subject_id) (db_events db), erase_rows now subject_id reason db)"
proof -
  have "\<And>r. r \<in> set (db_events db) \<Longrightarrow> event_types_ok (erase_row now reason r) \<and> event_checks_ok (erase_row now reason r)"
    using assms erase_row_types erase_row_checks audit_invD(4) by blast
  then show ?thesis
    by (auto simp: erase_subject_payloads_alt update_events_Inr erase_rows_def erase_row_guard)
qed

lemma erase_Inr:
  assumes "erase_subject_payloads now subject_id reason db = Inr (n, db')"
  shows "n = count_where (erases subject_id) (db_events db)" "db' = erase_rows now subject_id reason db"
    "\<And>r. r \<in> set (db_events db) \<Longrightarrow> erases subject_id r \<Longrightarrow>
       event_types_ok (erase_row now reason r) \<and> event_checks_ok (erase_row now reason r)"
  using assms by (auto simp: erase_subject_payloads_alt update_events_Inr erase_rows_def)

text \<open>Taking payloads away from some links leaves a chain a chain.\<close>

lemma link_of_erase_row:
  "link_of (erase_row now reason r) = Link (ev_prev_hash r) (ev_leaf_hash r) (ev_chain_hash r) None"
  by (simp add: link_of_def erase_row_def)

lemma chained_erase:
  "chained p rows \<Longrightarrow> chained p (update_where P (erase_row now reason) rows)"
  by (induction rows arbitrary: p) (auto simp: link_of_def erase_row_def)

lemma chain_end_erase:
  "chain_end p (map link_of (update_where P (erase_row now reason) rows)) = chain_end p (map link_of rows)"
  by (induction rows arbitrary: p) (auto simp: link_of_def erase_row_def)

lemma set_update_where: "set (update_where P g xs) = (\<lambda>x. if P x then g x else x) ` set xs"
  by (simp add: update_where_def)

lemma erase_rows_inv:
  assumes "audit_inv db" "erase_subject_payloads now subject_id reason db = Inr (n, db')"
  shows "audit_inv db'"
proof -
  let ?rows = "update_where (erases subject_id) (erase_row now reason) (db_events db)"
  have db': "db' = db\<lparr>db_events := ?rows\<rparr>" using erase_Inr(2)[OF assms(2)] by (simp add: erase_rows_def)
  have seqs: "map ev_sequence_number ?rows = map ev_sequence_number (db_events db)"
    and ids: "map ev_event_id ?rows = map ev_event_id (db_events db)"
    by (simp_all add: map_update_where)
  have "list_all event_ok ?rows"
    using erase_Inr(3)[OF assms(2)] audit_invD(4)[OF assms(1)]
    by (auto simp: list_all_iff set_update_where event_ok_def)
  moreover have "chained (base_hash db) ?rows" using chained_erase audit_invD(6)[OF assms(1)] by blast
  moreover have "list_all (\<lambda>r. sealed_through db < ev_sequence_number r \<and>
      ev_sequence_number r < db_next_event db) ?rows"
    using audit_invD(2,3)[OF assms(1)] by (auto simp: list_all_iff set_update_where)
  ultimately show ?thesis using assms(1) by (simp add: db' audit_inv_def seqs ids)
qed

lemma erase_counts:
  assumes "\<forall>r \<in> set rows. ev_erased_at r = None \<longleftrightarrow> ev_event_bytes r \<noteq> None"
  shows "live_rows (update_where (erases s) (erase_row now reason) rows) + count_where (erases s) rows = live_rows rows"
    "erased_rows (update_where (erases s) (erase_row now reason) rows) = erased_rows rows + count_where (erases s) rows"
  using assms by (induction rows) (auto simp: live_rows_def erased_rows_def erases_def)

lemma erase_rows_clean:
  assumes "\<forall>r \<in> set rows. ev_erased_at r = None \<longleftrightarrow> ev_event_bytes r \<noteq> None"
  shows "list_all (\<lambda>r. s \<in> set (ev_subjects r) \<longrightarrow> ev_event_bytes r = None)
    (update_where (erases s) (erase_row now reason) rows)"
  using assms by (induction rows) (auto simp: erases_def)

lemma list_all2_update_where: "list_all2 (\<lambda>r r'. r' = (if P r then g r else r)) rows (update_where P g rows)"
  by (induction rows) auto

lemma in_range_all [simp]: "in_range None None r"
  by (simp add: in_range_def)

text \<open>C7: Erasing a subject succeeds with any valid reason, reports the number of rows it
  cleared, and afterwards no row that names the subject carries a payload.  It touches
  nothing else: the rows, their sequence numbers and hashes stay, rows of other subjects keep
  their payloads, the end of the chain is the same, and the log still verifies as intact with
  exactly the cleared rows moved from the live to the erased count.\<close>

theorem erasure_complete_and_chain_preserving:
  assumes "audit_inv db" "0 < reason" "smallint_ok reason"
  shows "\<exists>n db'. erase_subject_payloads now subject_id reason db = Inr (n, db') \<and>
    n = count_where (erases subject_id) (db_events db) \<and>
    list_all (\<lambda>r. subject_id \<in> set (ev_subjects r) \<longrightarrow> ev_event_bytes r = None) (db_events db') \<and>
    list_all2 (\<lambda>r r'. r' = (if erases subject_id r then erase_row now reason r else r))
      (db_events db) (db_events db') \<and>
    tail_hash db' = tail_hash db \<and> audit_inv db' \<and>
    verify None None db' = Inr (intact (live_rows (db_events db) - n) (erased_rows (db_events db) + n))"
proof (intro exI conjI)
  let ?n = "count_where (erases subject_id) (db_events db)"
  let ?db' = "erase_rows now subject_id reason db"
  show ok: "erase_subject_payloads now subject_id reason db = Inr (?n, ?db')"
    by (rule erase_succeeds[OF assms])
  show inv': "audit_inv ?db'" by (rule erase_rows_inv[OF assms(1) ok])
  have gone: "\<forall>r \<in> set (db_events db). ev_erased_at r = None \<longleftrightarrow> ev_event_bytes r \<noteq> None"
    using audit_invD(4)[OF assms(1)] event_ok_erased by blast
  show "list_all (\<lambda>r. subject_id \<in> set (ev_subjects r) \<longrightarrow> ev_event_bytes r = None) (db_events ?db')"
    using erase_rows_clean[OF gone] by (simp add: erase_rows_def)
  show "tail_hash ?db' = tail_hash db" by (simp add: tail_hash_def erase_rows_def chain_end_erase)
  show "verify None None ?db' = Inr (intact (live_rows (db_events db) - ?n) (erased_rows (db_events db) + ?n))"
    using verify_inv[OF inv', of None None] erase_counts(2)[OF gone, of subject_id now reason]
      erase_counts(1)[OF gone, of subject_id now reason, symmetric]
    by (simp add: erase_rows_def filter_True)
  show "list_all2 (\<lambda>r r'. r' = (if erases subject_id r then erase_row now reason r else r))
      (db_events db) (db_events ?db')"
    by (simp add: erase_rows_def list_all2_update_where)
qed simp

theorem erasure_complete_and_chain_preserving_witness:
  "\<exists>db'. erase_subject_payloads 99 ''op'' 2 sample_db = Inr (1, db') \<and> audit_inv db' \<and>
     verify None None db' = Inr (intact 0 1)"
proof -
  have "erases ''op'' sample_row" "ev_event_bytes sample_row \<noteq> None"
    by (simp_all add: erases_def sample_row_def appended_row_sel appended_row_def new_event_def
        Let_def extract_subjects_def sample_parse_def)
  then show ?thesis
    using erasure_complete_and_chain_preserving[OF sample_db_inv, of 2 99 "''op''"]
    by (auto simp: smallint_ok_def sample_db_events live_rows_def erased_rows_def)
qed

end
