(* ===== verification/AuditCheckpoint.thy ===== *)
theory AuditCheckpoint
  imports AuditErasure
begin

text \<open>
  Signed checkpoints: \<^verbatim>\<open>services/audit/app/core/signing.py\<close> and
  \<^verbatim>\<open>services/audit/app/services/checkpoint_service.py\<close>.  The ed25519 implementation is a
  third-party library and so an argument \<open>lib\<close> (loading keys, signing, verifying); the file
  system is an argument \<open>files\<close>.  A private or public key is its raw bytes.  The key
  caches of the keyring and of the signer are part of the state that is passed along.
\<close>

section \<open>Keys\<close>

datatype file_content = FileMissing | FileUnreadable | FileData bytes

text \<open>\<open>Inl ()\<close>: the data is not a PEM key.  \<open>Inr None\<close>: a key of another kind.\<close>

record ed25519_lib =
  load_public :: "bytes \<Rightarrow> unit + bytes option"
  load_private :: "bytes \<Rightarrow> unit + bytes option"
  ed_public :: "bytes \<Rightarrow> bytes"
  ed_sign :: "bytes \<Rightarrow> bytes \<Rightarrow> bytes"
  ed_verify :: "bytes \<Rightarrow> bytes \<Rightarrow> bytes \<Rightarrow> bool"

type_synonym files = "string \<Rightarrow> file_content"

record keyring =
  kr_directory :: string
  kr_active_key_id :: string
  kr_active_public_key :: string
  kr_keys :: "string \<Rightarrow> bytes option"

record signer =
  si_private_key_file :: "string option"
  si_key_id :: string
  si_private :: "bytes option"
  si_keyring :: keyring

definition SIGNATURE_ALGORITHM_ED25519 :: int where "SIGNATURE_ALGORITHM_ED25519 = 1"
definition SIGNATURE_ALGORITHM_ML_DSA_44 :: int where "SIGNATURE_ALGORITHM_ML_DSA_44 = 2"

definition signature_size :: "int \<Rightarrow> nat audit_result" where
  "signature_size a = (if a = SIGNATURE_ALGORITHM_ED25519 then Inr 64
     else if a = SIGNATURE_ALGORITHM_ML_DSA_44 then Inr 2420 else Inl SigningKeyError)"

definition is_space :: "byte \<Rightarrow> bool" where
  "is_space b \<longleftrightarrow> b = 32 \<or> b = 9 \<or> b = 10 \<or> b = 11 \<or> b = 12 \<or> b = 13"

definition read_key_file :: "files \<Rightarrow> string \<Rightarrow> bytes audit_result" where
  "read_key_file files path = (case files path of
     FileMissing \<Rightarrow> Inl SigningKeyError
   | FileUnreadable \<Rightarrow> Inl SigningKeyError
   | FileData d \<Rightarrow> if list_all is_space d then Inl SigningKeyError else Inr d)"

definition keyring_load :: "ed25519_lib \<Rightarrow> files \<Rightarrow> keyring \<Rightarrow> string \<Rightarrow> bytes audit_result" where
  "keyring_load lib files kr key_id =
     (let path = (if key_id = kr_active_key_id kr then kr_active_public_key kr
                  else kr_directory kr @ ''/checkpoint_public_'' @ key_id @ ''.pem'')
      in rbind (read_key_file files path) (\<lambda>d. case load_public lib d of
           Inl _ \<Rightarrow> Inl SigningKeyError
         | Inr None \<Rightarrow> Inl SigningKeyError
         | Inr (Some pk) \<Rightarrow> Inr pk))"

definition keyring_get :: "ed25519_lib \<Rightarrow> files \<Rightarrow> string \<Rightarrow> keyring \<Rightarrow> bytes audit_result \<times> keyring" where
  "keyring_get lib files key_id kr =
     (if key_id = '''' then (Inl UnknownKeyError, kr)
      else case kr_keys kr key_id of
        Some pk \<Rightarrow> (Inr pk, kr)
      | None \<Rightarrow> (case keyring_load lib files kr key_id of
          Inl _ \<Rightarrow> (Inl UnknownKeyError, kr)
        | Inr pk \<Rightarrow> (Inr pk, kr\<lparr>kr_keys := (kr_keys kr)(key_id := Some pk)\<rparr>)))"

definition private_key :: "ed25519_lib \<Rightarrow> files \<Rightarrow> string \<Rightarrow> signer \<Rightarrow> bytes audit_result \<times> signer" where
  "private_key lib files path s = (case si_private s of
     Some sk \<Rightarrow> (Inr sk, s)
   | None \<Rightarrow> (case read_key_file files path of
       Inl e \<Rightarrow> (Inl e, s)
     | Inr d \<Rightarrow> (case load_private lib d of
         Inl _ \<Rightarrow> (Inl SigningKeyError, s)
       | Inr None \<Rightarrow> (Inl SigningKeyError, s)
       | Inr (Some sk) \<Rightarrow> (case keyring_get lib files (si_key_id s) (si_keyring s) of
           (Inl e, kr) \<Rightarrow> (Inl e, s\<lparr>si_keyring := kr\<rparr>)
         | (Inr expected, kr) \<Rightarrow>
             if ed_public lib sk \<noteq> expected then (Inl SigningKeyError, s\<lparr>si_keyring := kr\<rparr>)
             else (Inr sk, s\<lparr>si_keyring := kr, si_private := Some sk\<rparr>)))))"

definition signer_sign :: "ed25519_lib \<Rightarrow> files \<Rightarrow> bytes \<Rightarrow> signer \<Rightarrow> bytes audit_result \<times> signer" where
  "signer_sign lib files payload s = (case si_private_key_file s of
     None \<Rightarrow> (Inl SigningKeyError, s)
   | Some path \<Rightarrow> (case private_key lib files path s of
       (Inl e, s') \<Rightarrow> (Inl e, s')
     | (Inr sk, s') \<Rightarrow> (Inr (ed_sign lib sk payload), s')))"

definition signer_verify ::
  "ed25519_lib \<Rightarrow> files \<Rightarrow> bytes \<Rightarrow> bytes \<Rightarrow> string \<Rightarrow> signer \<Rightarrow> bool \<times> signer" where
  "signer_verify lib files payload signature key_id s =
     (case keyring_get lib files key_id (si_keyring s) of
       (Inl _, kr) \<Rightarrow> (False, s\<lparr>si_keyring := kr\<rparr>)
     | (Inr pk, kr) \<Rightarrow> (ed_verify lib pk signature payload, s\<lparr>si_keyring := kr\<rparr>))"

record checkpoint_settings =
  cs_private_key_file :: string
  cs_public_key_file :: string
  cs_public_key_dir :: string
  cs_key_id :: string
  cs_interval_events :: int

definition get_keyring :: "checkpoint_settings \<Rightarrow> keyring" where
  "get_keyring cs = \<lparr>kr_directory = cs_public_key_dir cs, kr_active_key_id = cs_key_id cs,
     kr_active_public_key = cs_public_key_file cs, kr_keys = Map.empty\<rparr>"

definition get_signer :: "files \<Rightarrow> checkpoint_settings \<Rightarrow> signer" where
  "get_signer files cs = \<lparr>si_private_key_file =
       (if files (cs_private_key_file cs) = FileMissing then None else Some (cs_private_key_file cs)),
     si_key_id = cs_key_id cs, si_private = None, si_keyring = get_keyring cs\<rparr>"

definition build_checkpoint_payload ::
  "string \<Rightarrow> int \<Rightarrow> int \<Rightarrow> bytes \<Rightarrow> bytes \<Rightarrow> int \<Rightarrow> int \<Rightarrow> bytes audit_result" where
  "build_checkpoint_payload key_id tree_size tail_seq tail_chain_hash prev_hash sig_alg hash_alg =
     checkpoint_payload key_id tree_size tail_seq tail_chain_hash prev_hash sig_alg hash_alg"

section \<open>Writing and checking checkpoints\<close>

definition append_checkpoint ::
  "datetime \<Rightarrow> int \<Rightarrow> bytes \<Rightarrow> int \<Rightarrow> bytes \<Rightarrow> string \<Rightarrow> bytes \<Rightarrow> bytes \<Rightarrow> int \<Rightarrow> int \<Rightarrow> audit_db \<Rightarrow>
     (audit_checkpoint \<times> audit_db) audit_result" where
  "append_checkpoint now tail_seq tail_chain_hash tree_size signature key_id prev_hash payload sig_alg hash_alg db =
     rbind (compute_checkpoint_hash payload hash_alg) (\<lambda>h. insert_checkpoint
       \<lparr>cp_checkpoint_id = 0, cp_tail_sequence_number = tail_seq, cp_tail_chain_hash = tail_chain_hash,
        cp_tree_size = tree_size, cp_hash_algorithm = hash_alg, cp_signature_algorithm = sig_alg,
        cp_signature = signature, cp_key_id = key_id, cp_signed_at = now,
        cp_prev_checkpoint_hash = prev_hash, cp_checkpoint_hash = h\<rparr> db)"

text \<open>\<^verbatim>\<open>None\<close> is returned, and nothing written, on an empty log and when the latest
  checkpoint already covers the end.\<close>

definition create_checkpoint ::
  "ed25519_lib \<Rightarrow> files \<Rightarrow> datetime \<Rightarrow> signer \<Rightarrow> audit_db \<Rightarrow> (int option \<times> audit_db) audit_result \<times> signer" where
  "create_checkpoint lib files now s db = (case tail_state_of db of
     Inl e \<Rightarrow> (Inl e, s)
   | Inr tail \<Rightarrow>
     if ts_tree_size tail = 0 then (Inr (None, db), s)
     else let previous = latest_checkpoint db in
       if (case previous of None \<Rightarrow> False
           | Some c \<Rightarrow> cp_tail_sequence_number c = ts_tail_sequence_number tail)
       then (Inr (None, db), s)
       else let prev_hash = (case previous of Some c \<Rightarrow> cp_checkpoint_hash c | None \<Rightarrow> GENESIS_CHECKPOINT_HASH) in
         case build_checkpoint_payload (si_key_id s) (ts_tree_size tail) (ts_tail_sequence_number tail)
             (ts_prev_hash tail) prev_hash SIGNATURE_ALGORITHM_ED25519 DEFAULT_HASH_ALGORITHM of
           Inl e \<Rightarrow> (Inl e, s)
         | Inr payload \<Rightarrow> (case signer_sign lib files payload s of
             (Inl e, s') \<Rightarrow> (Inl e, s')
           | (Inr signature, s') \<Rightarrow>
               (rbind (append_checkpoint now (ts_tail_sequence_number tail) (ts_prev_hash tail)
                   (ts_tree_size tail) signature (si_key_id s) prev_hash payload
                   SIGNATURE_ALGORITHM_ED25519 DEFAULT_HASH_ALGORITHM db)
                 (\<lambda>(row, db'). Inr (Some (cp_checkpoint_id row), db')), s')))"

record checkpoint_result =
  cr_failure_kind :: int
  cr_checkpoints_verified :: nat
  cr_break_at :: "int option"

definition checkpoint_failure :: "int \<Rightarrow> nat \<Rightarrow> audit_checkpoint \<Rightarrow> checkpoint_result" where
  "checkpoint_failure kind verified row = \<lparr>cr_failure_kind = kind, cr_checkpoints_verified = verified,
     cr_break_at = Some (cp_checkpoint_id row)\<rparr>"

definition row_payload :: "audit_checkpoint \<Rightarrow> bytes audit_result" where
  "row_payload row = build_checkpoint_payload (cp_key_id row) (cp_tree_size row)
     (cp_tail_sequence_number row) (cp_tail_chain_hash row) (cp_prev_checkpoint_hash row)
     (cp_signature_algorithm row) (cp_hash_algorithm row)"

fun verify_checkpoint_rows ::
  "ed25519_lib \<Rightarrow> files \<Rightarrow> audit_db \<Rightarrow> bytes \<Rightarrow> nat \<Rightarrow> audit_checkpoint list \<Rightarrow> signer \<Rightarrow>
     checkpoint_result audit_result \<times> signer" where
  "verify_checkpoint_rows lib files db expected_prev verified [] s =
     (Inr \<lparr>cr_failure_kind = VERIFY_FAILURE_NONE, cr_checkpoints_verified = verified, cr_break_at = None\<rparr>, s)"
| "verify_checkpoint_rows lib files db expected_prev verified (row # rows) s =
     (case rbind (row_payload row) (\<lambda>payload.
          rbind (checkpoint_matches payload (cp_checkpoint_hash row) (cp_hash_algorithm row))
            (\<lambda>ok. Inr (payload, ok))) of
        Inl e \<Rightarrow> (Inl e, s)
      | Inr (payload, ok) \<Rightarrow>
        if \<not> ok then (Inr (checkpoint_failure VERIFY_FAILURE_CHECKPOINT_DIVERGENCE verified row), s)
        else if cp_prev_checkpoint_hash row \<noteq> expected_prev
        then (Inr (checkpoint_failure VERIFY_FAILURE_CHECKPOINT_DIVERGENCE verified row), s)
        else case signer_verify lib files payload (cp_signature row) (cp_key_id row) s of (valid, s') \<Rightarrow>
          if \<not> valid
          then (Inr (checkpoint_failure VERIFY_FAILURE_CHECKPOINT_SIGNATURE_INVALID verified row), s')
          else if (case event_at (cp_tail_sequence_number row) db of None \<Rightarrow> False
                   | Some e \<Rightarrow> ev_chain_hash e \<noteq> cp_tail_chain_hash row)
          then (Inr (checkpoint_failure VERIFY_FAILURE_CHECKPOINT_DIVERGENCE verified row), s')
          else verify_checkpoint_rows lib files db (cp_checkpoint_hash row) (verified + 1) rows s')"

definition verify_checkpoints ::
  "ed25519_lib \<Rightarrow> files \<Rightarrow> audit_db \<Rightarrow> signer \<Rightarrow> checkpoint_result audit_result \<times> signer" where
  "verify_checkpoints lib files db s =
     verify_checkpoint_rows lib files db GENESIS_CHECKPOINT_HASH 0 (checkpoints_in_order db) s"

text \<open>One iteration of \<^verbatim>\<open>checkpoint_loop\<close> after its timer has fired; the state is the last
  sequence number it knows to be covered.\<close>

definition checkpoint_cycle ::
  "ed25519_lib \<Rightarrow> files \<Rightarrow> datetime \<Rightarrow> int \<Rightarrow> signer \<Rightarrow> audit_db \<Rightarrow> int \<times> signer \<times> audit_db" where
  "checkpoint_cycle lib files now last_sequence s db =
     (if count_since last_sequence db = 0 then (last_sequence, s, db)
      else case create_checkpoint lib files now s db of
        (Inl e, s') \<Rightarrow> (last_sequence, s', db)
      | (Inr (None, db'), s') \<Rightarrow> (last_sequence, s', db')
      | (Inr (Some i, db'), s') \<Rightarrow> (case checkpoint_by_id i db' of
          None \<Rightarrow> (last_sequence, s', db')
        | Some row \<Rightarrow> (cp_tail_sequence_number row, s', db')))"

definition append_hook :: "checkpoint_settings \<Rightarrow> int \<Rightarrow> bool" where
  "append_hook cs appended_since_checkpoint \<longleftrightarrow> appended_since_checkpoint \<ge> cs_interval_events cs"

section \<open>The payload determines the checkpoint\<close>

lemma join_results_Cons_Inr:
  "join_results (r # rs) = Inr b \<longleftrightarrow> (\<exists>x y. r = Inr x \<and> join_results rs = Inr y \<and> b = x @ y)"
  by (auto simp: rbind_eq_Inr)

lemma checkpoint_payload_Inr:
  "checkpoint_payload k t n th ph sa ha = Inr b \<longleftrightarrow>
     ha = 1 \<and> length th = 32 \<and> length ph = 32 \<and>
     (\<exists>b1 b2 b3 b4 b5 b6 b7. u64 ha = Inr b1 \<and> u64 sa = Inr b2 \<and> length_prefixed (utf8 k) = Inr b3 \<and>
        u64 t = Inr b4 \<and> u64 n = Inr b5 \<and> length_prefixed th = Inr b6 \<and> length_prefixed ph = Inr b7 \<and>
        b = DOMAIN_CHECKPOINT @ b1 @ b2 @ b3 @ b4 @ b5 @ b6 @ b7)"
  unfolding checkpoint_payload_def
  by (auto simp: rbind_eq_Inr digest_size_Inr join_results_Cons_Inr simp del: join_results.simps(2)
      split: if_splits)

text \<open>Two checkpoints have the same signed payload only if they agree in every field: key
  id, tree size, position and hash of the end of the log, previous checkpoint, and both
  algorithms.  So a signature cannot be moved to another checkpoint.\<close>

theorem checkpoint_payload_injective:
  assumes "checkpoint_payload k t n th ph sa ha = Inr b" "checkpoint_payload k' t' n' th' ph' sa' ha' = Inr b"
  shows "k = k' \<and> t = t' \<and> n = n' \<and> th = th' \<and> ph = ph' \<and> sa = sa' \<and> ha = ha'"
proof -
  obtain b1 b2 b3 b4 b5 b6 b7 where 1: "u64 ha = Inr b1" "u64 sa = Inr b2"
    "length_prefixed (utf8 k) = Inr b3" "u64 t = Inr b4" "u64 n = Inr b5" "length_prefixed th = Inr b6"
    "length_prefixed ph = Inr b7" "b = DOMAIN_CHECKPOINT @ b1 @ b2 @ b3 @ b4 @ b5 @ b6 @ b7"
    using assms(1) unfolding checkpoint_payload_Inr by blast
  obtain c1 c2 c3 c4 c5 c6 c7 where 2: "u64 ha' = Inr c1" "u64 sa' = Inr c2"
    "length_prefixed (utf8 k') = Inr c3" "u64 t' = Inr c4" "u64 n' = Inr c5" "length_prefixed th' = Inr c6"
    "length_prefixed ph' = Inr c7" "b = DOMAIN_CHECKPOINT @ c1 @ c2 @ c3 @ c4 @ c5 @ c6 @ c7"
    using assms(2) unfolding checkpoint_payload_Inr by blast
  have e1: "b1 @ b2 @ b3 @ b4 @ b5 @ b6 @ b7 = c1 @ c2 @ c3 @ c4 @ c5 @ c6 @ c7"
    using 1(8) 2(8) by simp
  note s1 = u64_split[OF 1(1) 2(1) e1]
  note s2 = u64_split[OF 1(2) 2(2) conjunct2[OF s1]]
  note s3 = length_prefixed_split[OF 1(3) 2(3) conjunct2[OF s2]]
  note s4 = u64_split[OF 1(4) 2(4) conjunct2[OF s3]]
  note s5 = u64_split[OF 1(5) 2(5) conjunct2[OF s4]]
  note s6 = length_prefixed_split[OF 1(6) 2(6) conjunct2[OF s5]]
  have "th = th' \<and> b7 = c7" using s6 .
  moreover have "ph = ph'" using length_prefixed_inject 1(7) 2(7) calculation by blast
  ultimately show ?thesis using s1 s2 s3 s4 s5 by simp
qed

theorem checkpoint_payload_injective_witness:
  "\<exists>b. checkpoint_payload ''c1'' 3 9 GENESIS_PREV_HASH GENESIS_CHECKPOINT_HASH 1 1 = Inr b \<and>
     (\<forall>n. checkpoint_payload ''c1'' 3 n GENESIS_PREV_HASH GENESIS_CHECKPOINT_HASH 1 1 = Inr b \<longrightarrow> n = 9)"
proof -
  obtain b where b: "checkpoint_payload ''c1'' 3 9 GENESIS_PREV_HASH GENESIS_CHECKPOINT_HASH 1 1 = Inr b"
    by (auto simp: checkpoint_payload_Inr u64_def length_prefixed_def)
  then show ?thesis using checkpoint_payload_injective[OF b] by blast
qed

section \<open>Keys and caches\<close>

definition key_of :: "ed25519_lib \<Rightarrow> files \<Rightarrow> keyring \<Rightarrow> string \<Rightarrow> bytes option" where
  "key_of lib files kr key_id = (if key_id = '''' then None
     else case keyring_load lib files kr key_id of Inl _ \<Rightarrow> None | Inr pk \<Rightarrow> Some pk)"

definition cache_ok :: "ed25519_lib \<Rightarrow> files \<Rightarrow> keyring \<Rightarrow> bool" where
  "cache_ok lib files kr \<longleftrightarrow> (\<forall>k pk. kr_keys kr k = Some pk \<longrightarrow> key_of lib files kr k = Some pk)"

definition signer_ok :: "ed25519_lib \<Rightarrow> files \<Rightarrow> signer \<Rightarrow> bool" where
  "signer_ok lib files s \<longleftrightarrow> cache_ok lib files (si_keyring s) \<and>
     (case si_private s of None \<Rightarrow> True
      | Some sk \<Rightarrow> key_of lib files (si_keyring s) (si_key_id s) = Some (ed_public lib sk))"

lemma key_of_cache [simp]: "key_of lib files (kr\<lparr>kr_keys := m\<rparr>) k = key_of lib files kr k"
  by (simp add: key_of_def keyring_load_def)

lemma keyring_get_spec:
  assumes "cache_ok lib files kr" "keyring_get lib files key_id kr = (r, kr')"
  shows "r = (case key_of lib files kr key_id of None \<Rightarrow> Inl UnknownKeyError | Some pk \<Rightarrow> Inr pk)"
    "cache_ok lib files kr'" "key_of lib files kr' = key_of lib files kr"
proof -
  have "r = (case key_of lib files kr key_id of None \<Rightarrow> Inl UnknownKeyError | Some pk \<Rightarrow> Inr pk) \<and>
    cache_ok lib files kr' \<and> key_of lib files kr' = key_of lib files kr"
  proof (cases "kr_keys kr key_id")
    case (Some pk)
    then have k: "key_of lib files kr key_id = Some pk" using assms(1) by (simp add: cache_ok_def)
    then have "key_id \<noteq> ''''" by (auto simp: key_of_def)
    then show ?thesis using assms Some k by (auto simp: keyring_get_def)
  next
    case None
    then show ?thesis using assms
      by (auto simp: keyring_get_def key_of_def[of lib files kr key_id] cache_ok_def fun_eq_iff
          split: if_splits sum.splits)
  qed
  then show "r = (case key_of lib files kr key_id of None \<Rightarrow> Inl UnknownKeyError | Some pk \<Rightarrow> Inr pk)"
    "cache_ok lib files kr'" "key_of lib files kr' = key_of lib files kr" by blast+
qed

lemma get_signer_ok: "signer_ok lib files (get_signer files cs)"
  by (simp add: signer_ok_def get_signer_def get_keyring_def cache_ok_def)

definition signature_valid :: "ed25519_lib \<Rightarrow> files \<Rightarrow> keyring \<Rightarrow> bytes \<Rightarrow> bytes \<Rightarrow> string \<Rightarrow> bool" where
  "signature_valid lib files kr payload signature key_id =
     (case key_of lib files kr key_id of None \<Rightarrow> False | Some pk \<Rightarrow> ed_verify lib pk signature payload)"

lemma signer_verify_spec:
  assumes "signer_ok lib files s" "signer_verify lib files payload sg k s = (b, s')"
  shows "b = signature_valid lib files (si_keyring s) payload sg k" "signer_ok lib files s'"
    "key_of lib files (si_keyring s') = key_of lib files (si_keyring s)" "si_key_id s' = si_key_id s"
proof -
  obtain r kr' where g: "keyring_get lib files k (si_keyring s) = (r, kr')" by (rule prod.exhaust)
  have ok: "cache_ok lib files (si_keyring s)" using assms(1) by (simp add: signer_ok_def)
  note spec = keyring_get_spec[OF ok g]
  show "b = signature_valid lib files (si_keyring s) payload sg k" "signer_ok lib files s'"
    "key_of lib files (si_keyring s') = key_of lib files (si_keyring s)" "si_key_id s' = si_key_id s"
    using assms g spec
    by (auto simp: signer_verify_def signature_valid_def signer_ok_def split: sum.splits option.splits)
qed

lemma signer_sign_spec:
  assumes "signer_ok lib files s" "signer_sign lib files payload s = (Inr sg, s')"
  shows "\<exists>sk. sg = ed_sign lib sk payload \<and>
      key_of lib files (si_keyring s) (si_key_id s) = Some (ed_public lib sk)"
    "signer_ok lib files s'" "key_of lib files (si_keyring s') = key_of lib files (si_keyring s)"
    "si_key_id s' = si_key_id s"
proof -
  obtain r kr' where g: "keyring_get lib files (si_key_id s) (si_keyring s) = (r, kr')" by (rule prod.exhaust)
  have ok: "cache_ok lib files (si_keyring s)" using assms(1) by (simp add: signer_ok_def)
  note spec = keyring_get_spec[OF ok g]
  show "\<exists>sk. sg = ed_sign lib sk payload \<and>
      key_of lib files (si_keyring s) (si_key_id s) = Some (ed_public lib sk)"
    "signer_ok lib files s'" "key_of lib files (si_keyring s') = key_of lib files (si_keyring s)"
    "si_key_id s' = si_key_id s"
    using assms g spec
    by (auto simp: signer_sign_def private_key_def signer_ok_def
        split: sum.splits option.splits if_splits prod.splits)
qed

section \<open>The chain of checkpoints\<close>

definition ed25519_laws :: "ed25519_lib \<Rightarrow> bool" where
  "ed25519_laws lib \<longleftrightarrow>
     (\<forall>sk m. ed_verify lib (ed_public lib sk) (ed_sign lib sk m) m \<and> length (ed_sign lib sk m) = 64)"

definition checkpoint_good :: "ed25519_lib \<Rightarrow> files \<Rightarrow> keyring \<Rightarrow> audit_db \<Rightarrow> audit_checkpoint \<Rightarrow> bool" where
  "checkpoint_good lib files kr db c \<longleftrightarrow>
     (case row_payload c of Inl _ \<Rightarrow> False | Inr p \<Rightarrow>
        checkpoint_matches p (cp_checkpoint_hash c) (cp_hash_algorithm c) = Inr True \<and>
        signature_valid lib files kr p (cp_signature c) (cp_key_id c)) \<and>
     cp_tail_sequence_number c < db_next_event db \<and>
     list_all (\<lambda>e. ev_sequence_number e = cp_tail_sequence_number c \<longrightarrow>
        ev_chain_hash e = cp_tail_chain_hash c) (db_events db)"

fun checkpoints_linked :: "bytes \<Rightarrow> audit_checkpoint list \<Rightarrow> bool" where
  "checkpoints_linked p [] \<longleftrightarrow> True"
| "checkpoints_linked p (c # cs) \<longleftrightarrow>
     cp_prev_checkpoint_hash c = p \<and> checkpoints_linked (cp_checkpoint_hash c) cs"

definition checkpoint_inv :: "ed25519_lib \<Rightarrow> files \<Rightarrow> keyring \<Rightarrow> audit_db \<Rightarrow> bool" where
  "checkpoint_inv lib files kr db \<longleftrightarrow>
     sorted_wrt (<) (map cp_checkpoint_id (db_checkpoints db)) \<and>
     list_all (\<lambda>c. cp_checkpoint_id c < db_next_checkpoint db) (db_checkpoints db) \<and>
     checkpoints_linked GENESIS_CHECKPOINT_HASH (db_checkpoints db) \<and>
     list_all (checkpoint_good lib files kr db) (db_checkpoints db)"

definition checkpoint_end :: "audit_db \<Rightarrow> bytes" where
  "checkpoint_end db = last (GENESIS_CHECKPOINT_HASH # map cp_checkpoint_hash (db_checkpoints db))"

lemma checkpoints_linked_snoc:
  "checkpoints_linked p (cs @ [c]) \<longleftrightarrow> checkpoints_linked p cs \<and>
     cp_prev_checkpoint_hash c = last (p # map cp_checkpoint_hash cs)"
  by (induction cs arbitrary: p) auto

lemma checkpoint_inv_empty: "checkpoint_inv lib files kr empty_db"
  by (simp add: checkpoint_inv_def)

text \<open>The invariant only looks at the positions and chain hashes of the log's rows, so it
  survives every change that keeps those, and every row added behind the checkpoints.\<close>

lemma checkpoint_inv_mono:
  assumes "checkpoint_inv lib files kr db"
    and "db_checkpoints db' = db_checkpoints db" "db_next_checkpoint db' = db_next_checkpoint db"
    and "db_next_event db \<le> db_next_event db'"
    and "\<And>e. e \<in> set (db_events db') \<Longrightarrow> ev_sequence_number e < db_next_event db \<Longrightarrow>
      \<exists>e0 \<in> set (db_events db). ev_sequence_number e0 = ev_sequence_number e \<and> ev_chain_hash e0 = ev_chain_hash e"
  shows "checkpoint_inv lib files kr db'"
proof -
  have "checkpoint_good lib files kr db' c" if "checkpoint_good lib files kr db c" for c
    using that assms(4,5) by (fastforce simp: checkpoint_good_def list_all_iff)
  then show ?thesis using assms(1-3) by (auto simp: checkpoint_inv_def list_all_iff)
qed

lemma checkpoint_inv_keys:
  assumes "key_of lib files kr' = key_of lib files kr"
  shows "checkpoint_inv lib files kr' db \<longleftrightarrow> checkpoint_inv lib files kr db"
proof -
  have "checkpoint_good lib files kr' db = checkpoint_good lib files kr db"
    unfolding checkpoint_good_def[abs_def] signature_valid_def assms ..
  then show ?thesis by (simp add: checkpoint_inv_def)
qed

lemma checkpoint_inv_append_row:
  "checkpoint_inv lib files kr db \<Longrightarrow> ev_sequence_number r = db_next_event db \<Longrightarrow>
     checkpoint_inv lib files kr (append_row r db)"
  by (rule checkpoint_inv_mono[of lib files kr db]) (auto simp: append_row_def)

lemma checkpoint_inv_erase_rows:
  "checkpoint_inv lib files kr db \<Longrightarrow> checkpoint_inv lib files kr (erase_rows now s reason db)"
  by (rule checkpoint_inv_mono[of lib files kr db])
    (auto simp: erase_rows_def set_update_where split: if_splits intro: bexI[rotated])

lemma verify_checkpoint_rows_good:
  assumes "list_all (checkpoint_good lib files kr db) rows" "checkpoints_linked p rows"
    and "signer_ok lib files s" "key_of lib files (si_keyring s) = key_of lib files kr"
  shows "fst (verify_checkpoint_rows lib files db p v rows s) =
    Inr \<lparr>cr_failure_kind = VERIFY_FAILURE_NONE, cr_checkpoints_verified = v + length rows, cr_break_at = None\<rparr>"
  using assms
proof (induction rows arbitrary: p v s)
  case (Cons c rows)
  obtain payload where pl: "row_payload c = Inr payload"
    "checkpoint_matches payload (cp_checkpoint_hash c) (cp_hash_algorithm c) = Inr True"
    "signature_valid lib files kr payload (cp_signature c) (cp_key_id c)"
    using Cons.prems(1) by (auto simp: checkpoint_good_def split: sum.splits)
  obtain b s' where sv: "signer_verify lib files payload (cp_signature c) (cp_key_id c) s = (b, s')"
    by (rule prod.exhaust)
  note spec = signer_verify_spec[OF Cons.prems(3) sv]
  have b: "b" using spec(1) pl(3) Cons.prems(4) by (simp add: signature_valid_def)
  have tl: "\<not> (case event_at (cp_tail_sequence_number c) db of None \<Rightarrow> False
      | Some e \<Rightarrow> ev_chain_hash e \<noteq> cp_tail_chain_hash c)"
    using Cons.prems(1) first_row_filter_Some
    by (fastforce simp: checkpoint_good_def list_all_iff event_at_def split: option.splits)
  have "fst (verify_checkpoint_rows lib files db (cp_checkpoint_hash c) (v + 1) rows s') =
    Inr \<lparr>cr_failure_kind = VERIFY_FAILURE_NONE, cr_checkpoints_verified = v + 1 + length rows, cr_break_at = None\<rparr>"
    using Cons.IH[of "cp_checkpoint_hash c" s' "v + 1"] Cons.prems spec by simp
  then show ?case using pl sv b tl Cons.prems(2) by simp
qed simp

lemma checkpoints_in_order_inv:
  "checkpoint_inv lib files kr db \<Longrightarrow> checkpoints_in_order db = db_checkpoints db"
  by (simp add: checkpoint_inv_def checkpoints_in_order_def)

definition checkpoints_intact :: "nat \<Rightarrow> checkpoint_result" where
  "checkpoints_intact n =
     \<lparr>cr_failure_kind = VERIFY_FAILURE_NONE, cr_checkpoints_verified = n, cr_break_at = None\<rparr>"

lemma verify_checkpoints_inv:
  assumes "checkpoint_inv lib files kr db" "signer_ok lib files s"
    and "key_of lib files (si_keyring s) = key_of lib files kr"
  shows "fst (verify_checkpoints lib files db s) = Inr (checkpoints_intact (length (db_checkpoints db)))"
  using verify_checkpoint_rows_good[of lib files kr db "db_checkpoints db" GENESIS_CHECKPOINT_HASH s 0] assms
  by (simp add: verify_checkpoints_def checkpoints_in_order_inv checkpoints_intact_def)
    (simp add: checkpoint_inv_def)

section \<open>Creating a checkpoint\<close>

lemma latest_checkpoint_inv:
  assumes "checkpoint_inv lib files kr db"
  shows "(case latest_checkpoint db of Some c \<Rightarrow> cp_checkpoint_hash c | None \<Rightarrow> GENESIS_CHECKPOINT_HASH) =
    checkpoint_end db"
proof -
  have "latest_checkpoint db = last_row (db_checkpoints db)"
    using assms by (simp add: latest_checkpoint_def checkpoint_inv_def)
  then show ?thesis by (cases "db_checkpoints db" rule: rev_cases) (auto simp: checkpoint_end_def)
qed

lemma create_checkpoint_cases:
  assumes "create_checkpoint lib files now s db = (Inr (Some i, db'), s')"
  obtains ts payload signature h c where
    "tail_state_of db = Inr ts" "ts_tree_size ts \<noteq> 0"
    "build_checkpoint_payload (si_key_id s) (ts_tree_size ts) (ts_tail_sequence_number ts) (ts_prev_hash ts)
       (case latest_checkpoint db of Some c \<Rightarrow> cp_checkpoint_hash c | None \<Rightarrow> GENESIS_CHECKPOINT_HASH) 1 1
       = Inr payload"
    "signer_sign lib files payload s = (Inr signature, s')"
    "compute_checkpoint_hash payload 1 = Inr h"
    "c = \<lparr>cp_checkpoint_id = db_next_checkpoint db, cp_tail_sequence_number = ts_tail_sequence_number ts,
        cp_tail_chain_hash = ts_prev_hash ts, cp_tree_size = ts_tree_size ts, cp_hash_algorithm = 1,
        cp_signature_algorithm = 1, cp_signature = signature, cp_key_id = si_key_id s,
        cp_signed_at = now, cp_prev_checkpoint_hash =
          (case latest_checkpoint db of Some c \<Rightarrow> cp_checkpoint_hash c | None \<Rightarrow> GENESIS_CHECKPOINT_HASH),
        cp_checkpoint_hash = h\<rparr>"
    "db' = db\<lparr>db_checkpoints := db_checkpoints db @ [c], db_next_checkpoint := db_next_checkpoint db + 1\<rparr>"
    "i = db_next_checkpoint db"
  using assms
  by (auto simp: create_checkpoint_def append_checkpoint_def rbind_eq_Inr insert_checkpoint_Inr Let_def
      DEFAULT_HASH_ALGORITHM_def HASH_ALGORITHM_SHA256_def SIGNATURE_ALGORITHM_ED25519_def
      split: sum.splits if_splits prod.splits)

lemma create_checkpoint_inv:
  assumes inv: "audit_inv db" and cp: "checkpoint_inv lib files kr db"
    and laws: "ed25519_laws lib" and s: "signer_ok lib files s"
    and kr: "key_of lib files (si_keyring s) = key_of lib files kr"
    and c: "create_checkpoint lib files now s db = (Inr (Some i, db'), s')"
  shows "checkpoint_inv lib files kr db' \<and> audit_inv db' \<and> signer_ok lib files s' \<and>
    key_of lib files (si_keyring s') = key_of lib files kr \<and>
    length (db_checkpoints db') = length (db_checkpoints db) + 1 \<and>
    db_events db' = db_events db \<and>
    cp_tail_chain_hash (last (db_checkpoints db')) = tail_hash db"
  using c
proof (cases rule: create_checkpoint_cases)
  case (1 ts payload signature h c)
  obtain ts' where "tail_state_of db = Inr ts'" "ts_prev_hash ts' = tail_hash db"
    "ts_tree_size ts' = int (length (db_events db))"
    "ts_tail_sequence_number ts' =
        (if db_events db = [] then sealed_through db else ev_sequence_number (last (db_events db)))"
    using tail_state_of_inv[OF inv] by blast
  then have ts: "ts_prev_hash ts = tail_hash db" "db_events db \<noteq> []"
    "ts_tail_sequence_number ts = ev_sequence_number (last (db_events db))"
    using 1(1,2) by auto
  obtain rows r where rows: "db_events db = rows @ [r]" using ts(2) by (cases "db_events db" rule: rev_cases) auto
  have last: "\<forall>e \<in> set (db_events db). ev_sequence_number e = ev_sequence_number r \<longrightarrow> e = r"
    using audit_invD(1)[OF inv] by (auto simp: rows sorted_wrt_append)
  have th: "tail_hash db = ev_chain_hash r" by (simp add: tail_hash_def rows)
  obtain sk where sk: "signature = ed_sign lib sk payload"
      "key_of lib files (si_keyring s) (si_key_id s) = Some (ed_public lib sk)"
    using signer_sign_spec(1)[OF s 1(4)] by blast
  have "row_payload c = Inr payload" using 1(3) by (simp add: row_payload_def 1(6))
  moreover have "checkpoint_matches payload (cp_checkpoint_hash c) (cp_hash_algorithm c) = Inr True"
    using 1(5) by (simp add: checkpoint_matches_def 1(6) constant_time_eq_def)
  moreover have "signature_valid lib files kr payload (cp_signature c) (cp_key_id c)"
    using laws sk kr by (simp add: signature_valid_def 1(6) ed25519_laws_def)
  moreover have "cp_tail_sequence_number c < db_next_event db"
    using audit_invD(3)[OF inv] ts by (simp add: 1(6) rows)
  moreover have "list_all (\<lambda>e. ev_sequence_number e = cp_tail_sequence_number c \<longrightarrow>
        ev_chain_hash e = cp_tail_chain_hash c) (db_events db)"
    using last ts th by (auto simp: 1(6) list_all_iff rows)
  ultimately have good: "checkpoint_good lib files kr db c" by (simp add: checkpoint_good_def)
  have same: "checkpoint_good lib files kr db' d = checkpoint_good lib files kr db d" for d
    by (simp add: checkpoint_good_def 1(7))
  have "cp_prev_checkpoint_hash c = checkpoint_end db" using latest_checkpoint_inv[OF cp] by (simp add: 1(6))
  then have "checkpoint_inv lib files kr db'"
    using cp good
    by (auto simp: checkpoint_inv_def 1(7) same[unfolded 1(7)] sorted_wrt_append list_all_iff
        checkpoints_linked_snoc checkpoint_end_def) (auto simp: 1(6))
  moreover have "audit_inv db'" using inv by (simp add: audit_inv_def 1(7))
  moreover have "cp_tail_chain_hash c = tail_hash db" using ts by (simp add: 1(6))
  ultimately show ?thesis using signer_sign_spec(2,3)[OF s 1(4)] kr by (simp add: 1(7))
qed

text \<open>C8: A checkpoint that is written verifies.  On a log and a checkpoint table in order,
  with keys for which signing and verifying fit together, a successful run adds one
  checkpoint that carries the chain hash of the end of the log, leaves the events alone, and
  a following verification accepts all checkpoints, the new one included: payload digest,
  link to the previous checkpoint, signature under the published key, and agreement with the
  stored event.\<close>

theorem created_checkpoint_verifies:
  assumes "audit_inv db" "checkpoint_inv lib files (si_keyring s) db" "ed25519_laws lib"
    and "signer_ok lib files s" "create_checkpoint lib files now s db = (Inr (Some i, db'), s')"
  shows "fst (verify_checkpoints lib files db' s') = Inr (checkpoints_intact (length (db_checkpoints db) + 1)) \<and>
    db_events db' = db_events db \<and> cp_tail_chain_hash (last (db_checkpoints db')) = tail_hash db \<and>
    checkpoint_inv lib files (si_keyring s) db'"
  using create_checkpoint_inv[OF assms(1-4) refl assms(5)] verify_checkpoints_inv by fastforce

definition sample_lib :: ed25519_lib where
  "sample_lib = \<lparr>load_public = (\<lambda>d. Inr (Some d)), load_private = (\<lambda>d. Inr (Some d)),
     ed_public = (\<lambda>sk. sk), ed_sign = (\<lambda>sk m. replicate 64 0),
     ed_verify = (\<lambda>pk sg m. sg = replicate 64 0)\<rparr>"

definition sample_files :: files where
  "sample_files path = FileData [1]"

definition sample_signer :: signer where
  "sample_signer = get_signer sample_files \<lparr>cs_private_key_file = ''priv'', cs_public_key_file = ''pub'',
     cs_public_key_dir = ''keys'', cs_key_id = ''c1'', cs_interval_events = 1000\<rparr>"

lemma sample_laws: "ed25519_laws sample_lib"
  by (simp add: ed25519_laws_def sample_lib_def)

lemma sample_signer_ok: "signer_ok sample_lib sample_files sample_signer"
  by (simp add: sample_signer_def get_signer_ok)

lemma sample_sign: "\<exists>s'. signer_sign sample_lib sample_files payload sample_signer = (Inr (replicate 64 0), s')"
  by (simp add: signer_sign_def private_key_def sample_signer_def get_signer_def get_keyring_def
      sample_files_def sample_lib_def read_key_file_def keyring_get_def keyring_load_def is_space_def)

lemma sample_db_checkpoints: "db_checkpoints sample_db = []" "db_next_checkpoint sample_db = 1"
  by (simp_all add: sample_db_def append_row_def)

lemma sample_payload:
  assumes "length th = 32"
  shows "\<exists>p. build_checkpoint_payload ''c1'' 1 1 th GENESIS_CHECKPOINT_HASH 1 1 = Inr p \<and> length p < 2 ^ 64"
proof -
  have lp: "length_prefixed b = Inr (be_bytes 8 (length b) @ b)" if "length b \<le> 32" for b
    using that by (simp add: length_prefixed_Inr)
  have u: "u64 1 = Inr (be_bytes 8 1)" by (simp add: u64_def)
  show ?thesis
    using assms by (simp add: build_checkpoint_payload_def checkpoint_payload_def u lp DOMAIN_CHECKPOINT_def)
qed

lemma sample_create:
  "\<exists>db' s'. create_checkpoint sample_lib sample_files 100 sample_signer sample_db = (Inr (Some 1, db'), s')"
proof -
  obtain ts where ts: "tail_state_of sample_db = Inr ts" "ts_prev_hash ts = tail_hash sample_db"
    "ts_tree_size ts = 1" "ts_tail_sequence_number ts = 1"
    using tail_state_of_inv[OF sample_db_inv] by (auto simp: sample_db_events)
  have w: "length (tail_hash sample_db) = 32" by (rule tail_hash_width[OF sample_db_inv])
  obtain p where p: "build_checkpoint_payload ''c1'' 1 1 (tail_hash sample_db) GENESIS_CHECKPOINT_HASH 1 1 = Inr p"
    "length p < 2 ^ 64"
    using sample_payload[OF w] by blast
  obtain s' where s': "signer_sign sample_lib sample_files p sample_signer = (Inr (replicate 64 0), s')"
    using sample_sign by blast
  have kid: "si_key_id sample_signer = ''c1''" by (simp add: sample_signer_def get_signer_def)
  obtain h where h: "compute_checkpoint_hash p 1 = Inr h" using p(2) compute_checkpoint_hash_Inr by blast
  note h = h compute_hash_length(3)[OF h]
  have l: "latest_checkpoint sample_db = None"
    by (simp add: latest_checkpoint_def sample_db_checkpoints order_by_def)
  have "\<exists>db'. append_checkpoint 100 1 (tail_hash sample_db) 1 (replicate 64 0) ''c1'' GENESIS_CHECKPOINT_HASH
      p 1 1 sample_db = Inr (db') \<and> cp_checkpoint_id (fst db') = 1"
    using h w by (simp add: append_checkpoint_def insert_checkpoint_def Let_def sample_db_checkpoints
        checkpoint_checks_ok_def checkpoint_unique_def varchar_ok_def)
  then show ?thesis
    using ts p(1) s'
    by (auto simp: create_checkpoint_def l kid DEFAULT_HASH_ALGORITHM_def HASH_ALGORITHM_SHA256_def
        SIGNATURE_ALGORITHM_ED25519_def)
qed

theorem created_checkpoint_verifies_witness:
  "\<exists>db' s'. create_checkpoint sample_lib sample_files 100 sample_signer sample_db = (Inr (Some 1, db'), s') \<and>
     fst (verify_checkpoints sample_lib sample_files db' s') = Inr (checkpoints_intact 1)"
proof -
  obtain db' s' where c: "create_checkpoint sample_lib sample_files 100 sample_signer sample_db = (Inr (Some 1, db'), s')"
    using sample_create by blast
  have "checkpoint_inv sample_lib sample_files (si_keyring sample_signer) sample_db"
    by (simp add: checkpoint_inv_def sample_db_checkpoints)
  then show ?thesis
    using created_checkpoint_verifies[OF sample_db_inv _ sample_laws sample_signer_ok c] c
    by (auto simp: sample_db_checkpoints)
qed

section \<open>A log that lost its tail\<close>

lemma take_inv:
  assumes "audit_inv db"
  shows "audit_inv (db\<lparr>db_events := take n (db_events db)\<rparr>)"
proof -
  have eq: "db_events db = take n (db_events db) @ drop n (db_events db)" by simp
  have "chained (base_hash db) (take n (db_events db) @ drop n (db_events db))"
    using audit_invD(6)[OF assms] by simp
  then have "chained (base_hash db) (take n (db_events db))" by (simp only: chained_append)
  moreover have "sorted_wrt (<) (map ev_sequence_number (take n (db_events db)))"
    using audit_invD(1)[OF assms] by (simp add: take_map[symmetric] sorted_wrt_take)
  moreover have "distinct (map ev_event_id (take n (db_events db)))"
    using audit_invD(5)[OF assms] by (simp add: take_map[symmetric] distinct_take)
  ultimately show ?thesis using assms
    by (auto simp: audit_inv_def list_all_iff dest: in_set_takeD)
qed

text \<open>Removing any number of rows from the end of the log goes unnoticed: the chain
  verifies as intact and so do all checkpoints, also those that cover the removed rows,
  because a checkpoint whose event is missing is not compared with anything.\<close>

theorem truncation_accepted:
  assumes "audit_inv db" "checkpoint_inv lib files (si_keyring s) db" "signer_ok lib files s"
  shows "let cut = db\<lparr>db_events := take n (db_events db)\<rparr> in
    (\<exists>v e. verify None None cut = Inr (intact v e)) \<and>
    fst (verify_checkpoints lib files cut s) = Inr (checkpoints_intact (length (db_checkpoints db)))"
proof -
  let ?cut = "db\<lparr>db_events := take n (db_events db)\<rparr>"
  have "checkpoint_inv lib files (si_keyring s) ?cut"
    by (rule checkpoint_inv_mono[OF assms(2)]) (auto dest: in_set_takeD)
  then have "fst (verify_checkpoints lib files ?cut s) = Inr (checkpoints_intact (length (db_checkpoints ?cut)))"
    using verify_checkpoints_inv assms(3) by blast
  then show ?thesis using verify_inv[OF take_inv[OF assms(1)], of None None n] by (auto simp: Let_def)
qed

theorem truncation_accepted_witness:
  "\<exists>db' s'. create_checkpoint sample_lib sample_files 100 sample_signer sample_db = (Inr (Some 1, db'), s') \<and>
     fst (verify_checkpoints sample_lib sample_files (db'\<lparr>db_events := []\<rparr>) s') = Inr (checkpoints_intact 1)"
proof -
  obtain db' s' where c: "create_checkpoint sample_lib sample_files 100 sample_signer sample_db = (Inr (Some 1, db'), s')"
    using sample_create by blast
  have "checkpoint_inv sample_lib sample_files (si_keyring sample_signer) sample_db"
    by (simp add: checkpoint_inv_def sample_db_checkpoints)
  note made = create_checkpoint_inv[OF sample_db_inv this sample_laws sample_signer_ok refl c]
  then have "checkpoint_inv sample_lib sample_files (si_keyring s') db'"
    using checkpoint_inv_keys by blast
  then show ?thesis
    using truncation_accepted[of db' sample_lib sample_files s' 0] made c
    by (auto simp: Let_def sample_db_checkpoints)
qed

end
