(* ===== verification/AuditRetention.thy ===== *)
theory AuditRetention
  imports AuditCheckpoint
begin

text \<open>
  Retention (\<^verbatim>\<open>services/audit/app/services/retention.py\<close>) and the sealing command of
  \<^verbatim>\<open>services/audit/tools/operator.py\<close>: the oldest part of the log is recorded as a sealed
  segment and its rows are dropped, so that the rest still hangs off the sealed end.
\<close>

section \<open>Choosing a segment\<close>

record retention_settings =
  rs_retention_days :: int
  rs_segment_interval_days :: int
  rs_max_rows_per_run :: nat

record segment_candidate =
  sc_first_sequence_number :: int
  sc_last_sequence_number :: int
  sc_first_prev_hash :: bytes
  sc_terminal_chain_hash :: bytes
  sc_row_count :: int
  sc_hash_algorithm :: int
  sc_covers_from :: datetime
  sc_covers_to :: datetime

record seal_outcome =
  so_segment_id :: int
  so_first_sequence_number :: int
  so_last_sequence_number :: int
  so_row_count :: int
  so_terminal_chain_hash :: bytes
  so_covers_from :: datetime
  so_covers_to :: datetime
  so_checkpoint_id :: "int option"

definition retention_cutoff :: "retention_settings \<Rightarrow> datetime \<Rightarrow> datetime" where
  "retention_cutoff rs now = now - days (rs_retention_days rs)"

definition max_sealed :: "audit_db \<Rightarrow> int" where
  "max_sealed db = (case map sg_last_sequence_number (db_segments db) of
     [] \<Rightarrow> 0 | n # ns \<Rightarrow> foldl max n ns)"

definition oldest_live :: "int \<Rightarrow> audit_db \<Rightarrow> audit_event option" where
  "oldest_live after db = first_row (order_by ev_sequence_number
     (filter (\<lambda>r. ev_sequence_number r > after) (db_events db)))"

definition candidate_rows :: "retention_settings \<Rightarrow> datetime \<Rightarrow> audit_db \<Rightarrow> audit_event list" where
  "candidate_rows rs window_end db = take (rs_max_rows_per_run rs) (order_by ev_sequence_number
     (filter (\<lambda>r. ev_persisted_at r < window_end)
       (filter (\<lambda>r. ev_sequence_number r > max_sealed db) (db_events db))))"

definition next_segment ::
  "retention_settings \<Rightarrow> datetime \<Rightarrow> audit_db \<Rightarrow> segment_candidate option audit_result" where
  "next_segment rs now db = (case oldest_live (max_sealed db) db of
     None \<Rightarrow> Inr None
   | Some oldest \<Rightarrow>
     let window_end = ev_persisted_at oldest + days (rs_segment_interval_days rs) in
     if window_end > retention_cutoff rs now then Inr None
     else let rows = candidate_rows rs window_end db in
       if rows = [] then Inr None
       else let head = hd rows; tail = last rows in
         case oldest_live (ev_sequence_number tail) db of
           None \<Rightarrow> Inr None
         | Some successor \<Rightarrow>
             if ev_prev_hash successor \<noteq> ev_chain_hash tail then Inl RetentionError
             else if length (remdups (map ev_hash_algorithm rows)) \<noteq> 1 then Inl RetentionError
             else Inr (Some \<lparr>sc_first_sequence_number = ev_sequence_number head,
               sc_last_sequence_number = ev_sequence_number tail,
               sc_first_prev_hash = ev_prev_hash head, sc_terminal_chain_hash = ev_chain_hash tail,
               sc_row_count = int (length rows), sc_hash_algorithm = hd (remdups (map ev_hash_algorithm rows)),
               sc_covers_from = ev_persisted_at head, sc_covers_to = ev_persisted_at tail\<rparr>))"

section \<open>Sealing it and dropping its rows\<close>

definition candidate_range :: "segment_candidate \<Rightarrow> audit_event \<Rightarrow> bool" where
  "candidate_range c r \<longleftrightarrow> ev_sequence_number r \<ge> sc_first_sequence_number c
     \<and> ev_sequence_number r \<le> sc_last_sequence_number c"

definition new_segment :: "datetime \<Rightarrow> segment_candidate \<Rightarrow> int option \<Rightarrow> audit_segment" where
  "new_segment now c checkpoint_id = \<lparr>sg_segment_id = 0,
     sg_first_sequence_number = sc_first_sequence_number c,
     sg_last_sequence_number = sc_last_sequence_number c,
     sg_first_prev_hash = sc_first_prev_hash c, sg_terminal_chain_hash = sc_terminal_chain_hash c,
     sg_row_count = sc_row_count c, sg_hash_algorithm = sc_hash_algorithm c,
     sg_covers_from = sc_covers_from c, sg_covers_to = sc_covers_to c, sg_sealed_at = now,
     sg_checkpoint_id = checkpoint_id\<rparr>"

definition seal_and_drop ::
  "datetime \<Rightarrow> segment_candidate \<Rightarrow> audit_db \<Rightarrow> (seal_outcome \<times> audit_db) audit_result" where
  "seal_and_drop now c db = (let checkpoint = latest_checkpoint db in
     if (case checkpoint of None \<Rightarrow> False | Some k \<Rightarrow> cp_tail_sequence_number k < sc_last_sequence_number c)
     then Inl RetentionError
     else let checkpoint_id = map_option cp_checkpoint_id checkpoint in
       rbind (insert_segment (new_segment now c checkpoint_id) db) (\<lambda>(segment_id, db1).
       rbind (delete_events True (candidate_range c) db1) (\<lambda>(deleted, db2).
         if int deleted \<noteq> sc_row_count c then Inl RetentionError
         else case oldest_live (sc_last_sequence_number c) db2 of
           None \<Rightarrow> Inl RetentionError
         | Some survivor \<Rightarrow>
             if ev_prev_hash survivor \<noteq> sc_terminal_chain_hash c then Inl RetentionError
             else Inr (\<lparr>so_segment_id = segment_id,
               so_first_sequence_number = sc_first_sequence_number c,
               so_last_sequence_number = sc_last_sequence_number c,
               so_row_count = sc_row_count c, so_terminal_chain_hash = sc_terminal_chain_hash c,
               so_covers_from = sc_covers_from c, so_covers_to = sc_covers_to c,
               so_checkpoint_id = checkpoint_id\<rparr>, db2))))"

text \<open>The command seals up to \<open>n\<close> segments, each in its own transaction; the result is the
  exit code and the database.  An exception other than \<open>RetentionError\<close> ends the command
  with a traceback, exit code 1 as well.\<close>

fun seal_command :: "retention_settings \<Rightarrow> datetime \<Rightarrow> bool \<Rightarrow> nat \<Rightarrow> audit_db \<Rightarrow> int \<times> audit_db" where
  "seal_command rs now dry_run 0 db = (0, db)"
| "seal_command rs now dry_run (Suc n) db = (case next_segment rs now db of
     Inl _ \<Rightarrow> (1, db)
   | Inr None \<Rightarrow> (0, db)
   | Inr (Some c) \<Rightarrow>
       if dry_run then (0, db)
       else case seal_and_drop now c db of
         Inl _ \<Rightarrow> (1, db)
       | Inr (outcome, db') \<Rightarrow> seal_command rs now dry_run n db')"

section \<open>Sealing keeps the log verifiable\<close>

lemma foldl_max_sorted:
  "sorted_wrt (<) (n # ns) \<Longrightarrow> foldl max n ns = last (n # (ns :: int list))"
  by (induction ns arbitrary: n) auto

lemma max_sealed_inv:
  assumes "audit_inv db"
  shows "max_sealed db = sealed_through db"
proof -
  have srt: "sorted_wrt (<) (map sg_last_sequence_number (db_segments db))"
    using assms by (simp add: audit_inv_def)
  then have ls: "last_segment db = last_row (db_segments db)" by (simp add: last_segment_def)
  show ?thesis
  proof (cases "db_segments db")
    case (Cons s ss)
    then have "foldl max (sg_last_sequence_number s) (map sg_last_sequence_number ss) =
        last (sg_last_sequence_number s # map sg_last_sequence_number ss)"
      using srt by (intro foldl_max_sorted) simp
    also have "\<dots> = sg_last_sequence_number (last (s # ss))"
      by (metis last_map list.discI list.simps(9))
    finally show ?thesis using Cons ls by (simp add: max_sealed_def sealed_through_def last_row_Some)
  qed (simp add: max_sealed_def sealed_through_def ls)
qed

lemma strict_sorted_same_key:
  assumes "sorted_wrt (<) (map f xs)" "x \<in> set xs" "y \<in> set xs" "f x = (f y :: int)"
  shows "x = y"
  using assms by (induction xs) auto

lemma last_of_prefix:
  assumes srt: "sorted_wrt (<) (map f xs)" and r: "r \<in> set xs"
  shows "filter (\<lambda>x. f x < f r + 1) xs \<noteq> [] \<and> last (filter (\<lambda>x. f x < (f r + 1 :: int)) xs) = r"
proof -
  let ?del = "filter (\<lambda>x. f x < f r + 1) xs"
  have mem: "r \<in> set ?del" using r by simp
  then obtain pre l where del: "?del = pre @ [l]"
    by (metis empty_iff list.set(1) rev_exhaust)
  have "sorted_wrt (<) (map f (pre @ [l]))" using strict_sorted_filter[OF srt, of "\<lambda>x. f x < f r + 1"] del by simp
  then have "r \<in> set pre \<Longrightarrow> f r < f l" by (auto simp: sorted_wrt_append)
  moreover have "f l \<le> f r" "l \<in> set xs"
  proof -
    have "l \<in> set ?del" unfolding del by simp
    then show "f l \<le> f r" "l \<in> set xs" by simp_all
  qed
  ultimately show ?thesis using del mem by auto
qed

lemma next_segment_Some:
  assumes inv: "audit_inv db" and pos: "0 < rs_segment_interval_days rs"
    and ns: "next_segment rs now db = Inr (Some c)"
  obtains r where "r \<in> set (db_events db)" "sc_first_sequence_number c = ev_sequence_number (hd (db_events db))"
    "sc_last_sequence_number c = ev_sequence_number r" "sc_terminal_chain_hash c = ev_chain_hash r"
    "sc_first_prev_hash c = ev_prev_hash (hd (db_events db))" "db_events db \<noteq> []"
proof -
  have srt: "sorted_wrt (<) (map ev_sequence_number (db_events db))" by (rule audit_invD(1)[OF inv])
  have live: "filter (\<lambda>r. ev_sequence_number r > max_sealed db) (db_events db) = db_events db"
    using audit_invD(2)[OF inv] by (simp add: max_sealed_inv[OF inv] filter_id_conv)
  obtain old rest where ev: "db_events db = old # rest"
    using ns srt by (cases "db_events db") (auto simp: next_segment_def oldest_live_def live)
  let ?w = "ev_persisted_at old + days (rs_segment_interval_days rs)"
  let ?rows = "candidate_rows rs ?w db"
  have old: "oldest_live (max_sealed db) db = Some old"     using srt unfolding oldest_live_def live by (simp add: ev)
  have rows: "?rows \<noteq> []" "c = \<lparr>sc_first_sequence_number = ev_sequence_number (hd ?rows),
               sc_last_sequence_number = ev_sequence_number (last ?rows),
               sc_first_prev_hash = ev_prev_hash (hd ?rows), sc_terminal_chain_hash = ev_chain_hash (last ?rows),
               sc_row_count = int (length ?rows), sc_hash_algorithm = hd (remdups (map ev_hash_algorithm ?rows)),
               sc_covers_from = ev_persisted_at (hd ?rows), sc_covers_to = ev_persisted_at (last ?rows)\<rparr>"
    using ns old by (auto simp: next_segment_def Let_def split: if_splits option.splits)
  have cr: "?rows = take (rs_max_rows_per_run rs) (filter (\<lambda>r. ev_persisted_at r < ?w) (db_events db))"
    using srt by (simp add: candidate_rows_def live)
  have "ev_persisted_at old < ?w" using pos by (simp add: days_def)
  then have "hd ?rows = old" using rows(1) cr ev by (auto simp: hd_take)
  moreover have "last ?rows \<in> set (db_events db)"
    using rows(1) cr by (metis in_set_takeD last_in_set filter_is_subset subsetD)
  ultimately show ?thesis using that[of "last ?rows"] rows(2) ev by simp
qed

lemma seal_and_drop_effect:
  assumes inv: "audit_inv db" and pos: "0 < rs_segment_interval_days rs"
    and ns: "next_segment rs now db = Inr (Some c)" and sd: "seal_and_drop now' c db = Inr (out, db')"
  obtains del keep where "db_events db = del @ keep" "del \<noteq> []" "keep \<noteq> []"
    "ev_sequence_number (last del) = sc_last_sequence_number c"
    "ev_chain_hash (last del) = sc_terminal_chain_hash c" "ev_prev_hash (hd del) = sc_first_prev_hash c"
    "int (length del) = sc_row_count c"
    "db' = db\<lparr>db_events := keep, db_segments := db_segments db @ [(new_segment now' c
        (map_option cp_checkpoint_id (latest_checkpoint db)))\<lparr>sg_segment_id := db_next_segment db\<rparr>],
        db_next_segment := db_next_segment db + 1\<rparr>"
    "segment_checks_ok (new_segment now' c (map_option cp_checkpoint_id (latest_checkpoint db)))"
proof -
  have srt: "sorted_wrt (<) (map ev_sequence_number (db_events db))" by (rule audit_invD(1)[OF inv])
  obtain r where r: "r \<in> set (db_events db)" "sc_first_sequence_number c = ev_sequence_number (hd (db_events db))"
    "sc_last_sequence_number c = ev_sequence_number r" "sc_terminal_chain_hash c = ev_chain_hash r"
    "sc_first_prev_hash c = ev_prev_hash (hd (db_events db))" "db_events db \<noteq> []"
    using next_segment_Some[OF inv pos ns] by blast
  let ?del = "filter (\<lambda>x. ev_sequence_number x < ev_sequence_number r + 1) (db_events db)"
  let ?keep = "filter (\<lambda>x. \<not> ev_sequence_number x < ev_sequence_number r + 1) (db_events db)"
  have split: "?del @ ?keep = db_events db" by (rule strict_sorted_split[OF srt])
  note last = last_of_prefix[OF srt r(1)]
  obtain old rest where ev: "db_events db = old # rest" using r(6) by (cases "db_events db") auto
  have first: "\<forall>x \<in> set (db_events db). sc_first_sequence_number c \<le> ev_sequence_number x"
    using srt r(2) by (auto simp: ev)
  then have range: "\<And>x. x \<in> set (db_events db) \<Longrightarrow>
      candidate_range c x \<longleftrightarrow> ev_sequence_number x < ev_sequence_number r + 1"
    by (auto simp: candidate_range_def r(3))
  then have keep: "filter (\<lambda>x. \<not> candidate_range c x) (db_events db) = ?keep"
    and del: "filter (candidate_range c) (db_events db) = ?del"
    by (auto intro: filter_cong)
  have hd: "hd ?del = hd (db_events db)" using last split by (metis hd_append)
  obtain db1 i where seg: "insert_segment (new_segment now' c (map_option cp_checkpoint_id (latest_checkpoint db))) db = Inr (i, db1)"
    using sd by (auto simp: seal_and_drop_def Let_def rbind_eq_Inr split: if_splits)
  then have i: "i = db_next_segment db"
    "segment_checks_ok (new_segment now' c (map_option cp_checkpoint_id (latest_checkpoint db)))"
    by (auto simp: insert_segment_Inr segment_checks_ok_def)
  have db1: "db1 = db\<lparr>db_segments := db_segments db @ [(new_segment now' c
      (map_option cp_checkpoint_id (latest_checkpoint db)))\<lparr>sg_segment_id := i\<rparr>],
      db_next_segment := db_next_segment db + 1\<rparr>"
    using seg by (auto simp: insert_segment_Inr)
  have dl: "delete_events True (candidate_range c) db1 = Inr (length ?del, db1\<lparr>db_events := ?keep\<rparr>)"
    by (simp add: delete_events_def count_where_def keep del db1)
  have fin: "int (length ?del) = sc_row_count c" "oldest_live (sc_last_sequence_number c) (db1\<lparr>db_events := ?keep\<rparr>) \<noteq> None"
      "db' = db1\<lparr>db_events := ?keep\<rparr>"
    using sd seg dl by (auto simp: seal_and_drop_def Let_def split: if_splits option.splits)
  have ne: "?keep \<noteq> []"
  proof
    assume e: "?keep = []"
    have "oldest_live (sc_last_sequence_number c) (db1\<lparr>db_events := ?keep\<rparr>) = None"
      unfolding e by (simp add: oldest_live_def order_by_def)
    then show False using fin(2) by simp
  qed
  show ?thesis
    by (rule that[OF split[symmetric] conjunct1[OF last] ne])
      (use last r hd fin i db1 in simp_all)
qed

lemma seal_segments_sorted:
  assumes "audit_inv db" "sealed_through db < n"
  shows "sorted_wrt (<) (map sg_last_sequence_number (db_segments db) @ [n])"
proof -
  have srt: "sorted_wrt (<) (map sg_last_sequence_number (db_segments db))"
    using assms(1) by (simp add: audit_inv_def)
  have "\<forall>s \<in> set (db_segments db). sg_last_sequence_number s \<le> sealed_through db"
    using srt by (cases "db_segments db" rule: rev_cases)
      (auto simp: sealed_through_def last_segment_def sorted_wrt_append order_less_imp_le)
  then show ?thesis using srt assms(2) by (auto simp: sorted_wrt_append)
qed

lemma seal_keeps_inv:
  assumes inv: "audit_inv db" and pos: "0 < rs_segment_interval_days rs"
    and ns: "next_segment rs now db = Inr (Some c)" and sd: "seal_and_drop now' c db = Inr (out, db')"
  shows "audit_inv db' \<and> base_hash db' = sc_terminal_chain_hash c \<and> tail_hash db' = tail_hash db \<and>
    sc_first_prev_hash c = base_hash db \<and> sealed_through db' = sc_last_sequence_number c"
proof -
  obtain del keep where e: "db_events db = del @ keep" "del \<noteq> []" "keep \<noteq> []"
    "ev_sequence_number (last del) = sc_last_sequence_number c"
    "ev_chain_hash (last del) = sc_terminal_chain_hash c" "ev_prev_hash (hd del) = sc_first_prev_hash c"
    "int (length del) = sc_row_count c"
    "db' = db\<lparr>db_events := keep, db_segments := db_segments db @ [(new_segment now' c
        (map_option cp_checkpoint_id (latest_checkpoint db)))\<lparr>sg_segment_id := db_next_segment db\<rparr>],
        db_next_segment := db_next_segment db + 1\<rparr>"
    "segment_checks_ok (new_segment now' c (map_option cp_checkpoint_id (latest_checkpoint db)))"
    using seal_and_drop_effect[OF assms] by metis
  obtain pre l where pl: "del = pre @ [l]" using e(2) by (cases del rule: rev_cases) auto
  obtain h t where ht: "del = h # t" using e(2) by (cases del) auto
  have l: "l \<in> set (db_events db)" by (simp add: e(1) pl)
  have thru: "sealed_through db < sc_last_sequence_number c" "sc_last_sequence_number c < db_next_event db"
    using audit_invD(2,3)[OF inv l] e(4) pl by simp_all
  have segs: "sorted_wrt (<) (map sg_last_sequence_number (db_segments db'))"
    using seal_segments_sorted[OF inv thru(1)] by (simp add: e(8) new_segment_def)
  then have ls: "last_segment db' = Some (last (db_segments db'))"
    by (simp add: last_segment_def last_row_Some e(8))
  have base: "base_hash db' = sc_terminal_chain_hash c" and st: "sealed_through db' = sc_last_sequence_number c"
    using ls by (simp_all add: base_hash_def sealed_through_def e(8) new_segment_def)
  have chd: "chained (base_hash db) (del @ keep)" using audit_invD(6)[OF inv] e(1) by simp
  then have ck: "chained (chain_end (base_hash db) (map link_of del)) keep" by (simp only: chained_append)
  have ce: "chain_end (base_hash db) (map link_of del) = sc_terminal_chain_hash c" using e(5) pl by simp
  have "sorted_wrt (<) (map ev_sequence_number (del @ keep))" using audit_invD(1)[OF inv] e(1) by simp
  then have sk: "sorted_wrt (<) (map ev_sequence_number keep)"
    "\<forall>r \<in> set keep. sc_last_sequence_number c < ev_sequence_number r"
    using e(4) pl by (auto simp: sorted_wrt_append)
  have w: "length (sc_terminal_chain_hash c) = 32"
    using e(9) by (simp add: segment_checks_ok_def new_segment_def)
  have evs: "db_events db' = keep" "db_next_event db' = db_next_event db" by (simp_all add: e(8))
  have "audit_inv db'"
    unfolding audit_inv_def base st evs
    using sk segs thru ck ce w audit_invD[OF inv] e(1) by (auto simp: list_all_iff)
  moreover have "tail_hash db' = tail_hash db"
    unfolding tail_hash_def base evs e(1) ce[symmetric] by (simp add: chain_end_def)
  moreover have "sc_first_prev_hash c = base_hash db" using chd e(6) ht by (simp add: link_ok_link_of)
  ultimately show ?thesis using base st by simp
qed

text \<open>C6: Sealing keeps the log verifiable.  When the retention run seals the segment it
  chose, what remains satisfies the invariant of the log and verifies as intact with exact
  counts; the rows dropped are the oldest ones, as many as the segment records; the segment
  continues the previously sealed end and the remaining rows continue the segment; the end of
  the log, which the checkpoints sign, is unchanged; and all checkpoints still verify.\<close>

theorem sealing_preserves_verifiability:
  assumes "audit_inv db" "0 < rs_segment_interval_days rs"
    and "next_segment rs now db = Inr (Some c)" "seal_and_drop now' c db = Inr (out, db')"
    and "checkpoint_inv lib files (si_keyring s) db" "signer_ok lib files s"
  shows "audit_inv db' \<and>
    verify None None db' = Inr (intact (live_rows (db_events db')) (erased_rows (db_events db'))) \<and>
    (\<exists>dropped. db_events db = dropped @ db_events db' \<and> int (length dropped) = so_row_count out) \<and>
    sc_first_prev_hash c = base_hash db \<and> base_hash db' = sc_terminal_chain_hash c \<and>
    tail_hash db' = tail_hash db \<and>
    fst (verify_checkpoints lib files db' s) = Inr (checkpoints_intact (length (db_checkpoints db)))"
proof -
  note keeps = seal_keeps_inv[OF assms(1-4)]
  obtain del where e: "db_events db = del @ db_events db'" "int (length del) = sc_row_count c"
    "db_checkpoints db' = db_checkpoints db" "db_next_checkpoint db' = db_next_checkpoint db"
    "db_next_event db' = db_next_event db"
    using seal_and_drop_effect[OF assms(1-4)] by (metis (no_types, lifting) audit_db.select_convs(1,2,5,6)
      audit_db.surjective audit_db.update_convs(1,3,4))
  have "so_row_count out = sc_row_count c"
    using assms(4) by (auto simp: seal_and_drop_def Let_def rbind_eq_Inr split: if_splits option.splits)
  moreover have "checkpoint_inv lib files (si_keyring s) db'"
    by (rule checkpoint_inv_mono[OF assms(5)]) (use e in auto)
  ultimately show ?thesis
    using keeps verify_inv[of db' None None] verify_checkpoints_inv[OF _ assms(6) refl, of db'] e
    by (simp add: filter_True)
qed

lemma seal_and_drop_miscount:
  assumes "int (length (filter (candidate_range c) (db_events db))) \<noteq> sc_row_count c"
  shows "\<exists>e. seal_and_drop now c db = Inl e"
  using assms by (auto simp: seal_and_drop_def Let_def insert_segment_def delete_events_def
      count_where_def rbind_def)

lemma candidate_rows_gap:
  assumes srt: "sorted_wrt (<) (map ev_sequence_number (db_events db))"
    and old: "oldest_live (max_sealed db) db = Some old" and pos: "0 < rs_segment_interval_days rs"
    and w: "w = ev_persisted_at old + days (rs_segment_interval_days rs)"
    and late: "late \<in> set (db_events db)" "ev_sequence_number old < ev_sequence_number late" "w \<le> ev_persisted_at late"
    and later: "later \<in> set (candidate_rows rs w db)" "ev_sequence_number late < ev_sequence_number later"
  shows "length (candidate_rows rs w db) < length (filter (\<lambda>r.
      ev_sequence_number r \<ge> ev_sequence_number (hd (candidate_rows rs w db)) \<and>
      ev_sequence_number r \<le> ev_sequence_number (last (candidate_rows rs w db))) (db_events db))"
proof -
  let ?rows = "candidate_rows rs w db"
  let ?live = "filter (\<lambda>r. ev_sequence_number r > max_sealed db) (db_events db)"
  let ?F = "filter (\<lambda>r. ev_sequence_number r \<ge> ev_sequence_number (hd ?rows) \<and>
      ev_sequence_number r \<le> ev_sequence_number (last ?rows)) (db_events db)"
  have sl: "sorted_wrt (<) (map ev_sequence_number ?live)" by (rule strict_sorted_filter[OF srt])
  have rows: "?rows = take (rs_max_rows_per_run rs) (filter (\<lambda>r. ev_persisted_at r < w) ?live)"
    using sl unfolding candidate_rows_def by (simp only: strict_order_by_filter)
  have "first_row ?live = Some old"
    using old srt unfolding oldest_live_def by (simp only: strict_order_by_filter)
  then obtain rest where live: "?live = old # rest" by (cases ?live) simp_all
  have hd: "hd ?rows = old"
    using later(1) rows live pos w by (cases "rs_max_rows_per_run rs") (auto simp: days_def)
  have "sorted_wrt (<) (map ev_sequence_number ?rows)"
    unfolding rows take_map[symmetric] by (intro sorted_wrt_take strict_sorted_filter sl)
  then have sr: "sorted_wrt (<) (map ev_sequence_number ?rows)" .
  have ne: "?rows \<noteq> []" using later(1) by auto
  then obtain pre l where pl: "?rows = pre @ [l]" by (metis rev_exhaust)
  have top: "\<And>x. x \<in> set ?rows \<Longrightarrow> ev_sequence_number x \<le> ev_sequence_number (last ?rows)"
    using sr by (auto simp: pl sorted_wrt_append order_less_imp_le)
  obtain h t where ht: "?rows = h # t" using ne by (cases ?rows) auto
  have bot: "\<And>x. x \<in> set ?rows \<Longrightarrow> ev_sequence_number (hd ?rows) \<le> ev_sequence_number x"
    using sr by (auto simp: ht order_less_imp_le)
  have sub: "set ?rows \<subseteq> set (db_events db)" by (auto simp: rows dest: in_set_takeD)
  have notin: "late \<notin> set ?rows" using late(3) by (auto simp: rows dest: in_set_takeD)
  have "insert late (set ?rows) \<subseteq> set ?F"
    using sub top bot late(1,2) later hd by (auto intro: order_trans[OF order_less_imp_le])
  moreover have dist: "distinct ?rows" "distinct ?F"
    using sr srt by (metis distinct_map strict_sorted_iff, metis distinct_map distinct_filter strict_sorted_iff)
  ultimately have "card (insert late (set ?rows)) \<le> card (set ?F)" by (intro card_mono) auto
  moreover have "card (set ?F) = length ?F" "card (set ?rows) = length ?rows"
    using dist distinct_card by blast+
  ultimately show ?thesis using notin by simp
qed

text \<open>A row whose persisted time is later than that of a row behind it can block
  retention for good.  The persisted time is the start of the appending transaction, which
  begins before the chain lock is taken, so two appends can store their times in either
  order.  If such a row falls out of the segment window while a row behind it is chosen, the
  sealing command changes nothing, whenever it is run and however many segments it may seal:
  the choice is the same every time, and dropping its range finds more rows than it counted.\<close>

theorem clock_inversion_blocks_sealing:
  assumes "sorted_wrt (<) (map ev_sequence_number (db_events db))"
    and "oldest_live (max_sealed db) db = Some old" and "0 < rs_segment_interval_days rs"
    and "late \<in> set (db_events db)" "ev_sequence_number old < ev_sequence_number late"
    and "ev_persisted_at old + days (rs_segment_interval_days rs) \<le> ev_persisted_at late"
    and "later \<in> set (candidate_rows rs (ev_persisted_at old + days (rs_segment_interval_days rs)) db)"
    and "ev_sequence_number late < ev_sequence_number later"
  shows "snd (seal_command rs now False n db) = db"
proof (cases n)
  case (Suc m)
  let ?rows = "candidate_rows rs (ev_persisted_at old + days (rs_segment_interval_days rs)) db"
  note gap = candidate_rows_gap[OF assms(1-3) refl assms(4-8)]
  show ?thesis
  proof (cases "next_segment rs now db")
    case (Inr res)
    show ?thesis
    proof (cases res)
      case (Some c)
      then have "sc_first_sequence_number c = ev_sequence_number (hd ?rows)"
        "sc_last_sequence_number c = ev_sequence_number (last ?rows)" "sc_row_count c = int (length ?rows)"
        using Inr assms(2) by (auto simp: next_segment_def Let_def split: if_splits option.splits)
      then have "int (length (filter (candidate_range c) (db_events db))) \<noteq> sc_row_count c"
        using gap by (simp add: candidate_range_def[abs_def])
      then obtain e where "seal_and_drop now c db = Inl e" using seal_and_drop_miscount by blast
      then show ?thesis using Inr Some Suc by simp
    qed (simp add: Suc Inr)
  qed (simp add: Suc)
qed simp

definition inverted_row :: "int \<Rightarrow> datetime \<Rightarrow> audit_event" where
  "inverted_row n t = sample_row\<lparr>ev_sequence_number := n, ev_persisted_at := t\<rparr>"

theorem clock_inversion_blocks_sealing_witness:
  "snd (seal_command \<lparr>rs_retention_days = 1, rs_segment_interval_days = 1, rs_max_rows_per_run = 10\<rparr>
     (days 1000) False 3
     (empty_db\<lparr>db_events := [inverted_row 1 0, inverted_row 2 (days 1), inverted_row 3 5, inverted_row 4 (days 2)]\<rparr>)) =
   empty_db\<lparr>db_events := [inverted_row 1 0, inverted_row 2 (days 1), inverted_row 3 5, inverted_row 4 (days 2)]\<rparr>"
proof -
  let ?db = "empty_db\<lparr>db_events := [inverted_row 1 0, inverted_row 2 (days 1), inverted_row 3 5, inverted_row 4 (days 2)]\<rparr>"
  have e: "ev_sequence_number (inverted_row n t) = n" "ev_persisted_at (inverted_row n t) = t" for n t
    by (simp_all add: inverted_row_def)
  have m: "max_sealed (empty_db\<lparr>db_events := rows\<rparr>) = 0" for rows by (simp add: max_sealed_def)
  have "oldest_live (max_sealed ?db) ?db = Some (inverted_row 1 0)" unfolding m by (simp add: oldest_live_def e)
  then show ?thesis
    by (rule clock_inversion_blocks_sealing[where late = "inverted_row 2 (days 1)" and later = "inverted_row 3 5", rotated])
      (simp_all add: e candidate_rows_def m days_def)
qed

text \<open>A log of two rows whose first one is old enough to be sealed.\<close>

definition second_row :: audit_event where
  "second_row = appended_row sample_parse (days 5) (sample_request\<lparr>rq_event_id := 8\<rparr>) sample_db"

definition two_rows :: audit_db where
  "two_rows = append_row second_row sample_db"

definition sample_retention :: retention_settings where
  "sample_retention = \<lparr>rs_retention_days = 1, rs_segment_interval_days = 1, rs_max_rows_per_run = 10\<rparr>"

lemma second_row_sel:
  "ev_prev_hash second_row = ev_chain_hash sample_row" "ev_sequence_number second_row = 2"
  "ev_persisted_at second_row = days 5" "ev_hash_algorithm sample_row = 1"
  "ev_persisted_at sample_row = 9"
  by (simp_all add: second_row_def sample_row_def sample_request_def appended_row_sel tail_hash_append_row sample_db_def)
    (simp add: append_row_def)

lemma two_rows_events [simp]:
  "db_events two_rows = [sample_row, second_row]" "db_segments two_rows = []"
  "db_checkpoints two_rows = []" "db_next_segment two_rows = db_next_segment empty_db"
  by (simp_all add: two_rows_def sample_db_def append_row_def)

lemma two_rows_inv: "audit_inv two_rows"
proof -
  have w: "length (tail_hash sample_db) = 32" by (rule tail_hash_width[OF sample_db_inv])
  have n: "db_next_event sample_db = 2" by (simp add: sample_db_def append_row_def)
  show ?thesis
    unfolding two_rows_def
    by (rule append_row_fresh_inv[OF sample_db_inv _ _ _ second_row_def])
      (use w n in \<open>simp_all add: second_row_def event_types_ok_def event_checks_ok_def
        appended_row_def new_event_def sample_request_def Let_def bigint_ok_def
        integer_ok_def smallint_ok_def varchar_ok_def bytea_ok_def erasure_consistent_def
        extract_subjects_def sample_parse_def sample_db_events sample_row_def\<close>)
qed

lemma two_rows_next: "max_sealed two_rows = 0"
  by (simp add: max_sealed_def)

definition sample_candidate :: segment_candidate where
  "sample_candidate = \<lparr>sc_first_sequence_number = 1, sc_last_sequence_number = 1,
     sc_first_prev_hash = ev_prev_hash sample_row, sc_terminal_chain_hash = ev_chain_hash sample_row,
     sc_row_count = 1, sc_hash_algorithm = 1, sc_covers_from = 9, sc_covers_to = 9\<rparr>"

lemma two_rows_segment: "next_segment sample_retention (days 100) two_rows = Inr (Some sample_candidate)"
  by (simp add: next_segment_def oldest_live_def candidate_rows_def two_rows_next sample_db_events second_row_sel
      sample_retention_def days_def retention_cutoff_def sample_candidate_def Let_def)

lemma two_rows_seal: "\<exists>out db'. seal_and_drop (days 100) sample_candidate two_rows = Inr (out, db') \<and> so_row_count out = 1"
proof -
  have "event_ok sample_row" using audit_invD(4)[OF sample_db_inv] by (simp add: sample_db_events)
  then have w: "length (ev_prev_hash sample_row) = 32" "length (ev_chain_hash sample_row) = 32"
    by (simp_all add: event_ok_def event_checks_ok_def)
  have l: "latest_checkpoint two_rows = None" by (simp add: latest_checkpoint_def order_by_def)
  show ?thesis
    using w by (simp add: seal_and_drop_def l insert_segment_def segment_checks_ok_def segment_unique_def
      new_segment_def sample_candidate_def Let_def delete_events_def candidate_range_def count_where_def
      sample_db_events second_row_sel oldest_live_def)
qed

theorem sealing_preserves_verifiability_witness:
  "\<exists>out db'. seal_and_drop (days 100) sample_candidate two_rows = Inr (out, db') \<and>
     audit_inv db' \<and> verify None None db' = Inr (intact (live_rows (db_events db')) (erased_rows (db_events db'))) \<and>
     (\<exists>dropped. [sample_row, second_row] = dropped @ db_events db' \<and> length dropped = 1)"
proof -
  obtain out db' where sd: "seal_and_drop (days 100) sample_candidate two_rows = Inr (out, db')" "so_row_count out = 1"
    using two_rows_seal by blast
  have "checkpoint_inv sample_lib sample_files (si_keyring sample_signer) two_rows"
    by (simp add: checkpoint_inv_def)
  then show ?thesis
    using sealing_preserves_verifiability[OF two_rows_inv _ two_rows_segment sd(1) _ sample_signer_ok] sd
    by (auto simp: sample_retention_def)
qed

end
