(* ===== verification/PyText.thy ===== *)
theory PyText
  imports Prelude
begin

text \<open>
  The parts of Python's text handling that the services rely on: \<^verbatim>\<open>int(text, base)\<close> for
  bases up to 36, \<^verbatim>\<open>str(n)\<close>, \<^verbatim>\<open>str.strip\<close>, \<^verbatim>\<open>str.replace(old, "")\<close>,
  \<^verbatim>\<open>str.startswith\<close> and \<^verbatim>\<open>str.removeprefix\<close>, and the reading of a UUID by \<^verbatim>\<open>uuid.UUID\<close>.
  Digits and white space are the ASCII ones.
\<close>

definition char_code :: "char \<Rightarrow> nat" where
  "char_code c = of_char c"

definition is_white :: "char \<Rightarrow> bool" where
  "is_white c \<longleftrightarrow> char_code c \<in> {9, 10, 11, 12, 13, 28, 29, 30, 31, 32}"

definition strip_chars :: "(char \<Rightarrow> bool) \<Rightarrow> string \<Rightarrow> string" where
  "strip_chars P s = rev (dropWhile P (rev (dropWhile P s)))"

definition starts_with :: "string \<Rightarrow> string \<Rightarrow> bool" where
  "starts_with p s \<longleftrightarrow> take (length p) s = p"

definition remove_prefix :: "string \<Rightarrow> string \<Rightarrow> string" where
  "remove_prefix p s = (if starts_with p s then drop (length p) s else s)"

fun remove_all :: "nat \<Rightarrow> string \<Rightarrow> string \<Rightarrow> string" where
  "remove_all 0 p s = s"
| "remove_all (Suc n) p s = (case s of [] \<Rightarrow> [] | c # cs \<Rightarrow>
     if starts_with p s then remove_all n p (drop (length p) s) else c # remove_all n p cs)"

definition replace_empty :: "string \<Rightarrow> string \<Rightarrow> string" where
  "replace_empty p s = remove_all (length s) p s"

definition py_digit :: "nat \<Rightarrow> char \<Rightarrow> nat option" where
  "py_digit base c = (let n = char_code c;
       v = (if 48 \<le> n \<and> n \<le> 57 then n - 48
            else if 97 \<le> n \<and> n \<le> 122 then n - 87
            else if 65 \<le> n \<and> n \<le> 90 then n - 55 else 99)
     in if v < base then Some v else None)"

text \<open>Digits, with single underscores between them; \<open>gap\<close> holds where a digit must follow.\<close>

fun py_digits :: "nat \<Rightarrow> nat \<Rightarrow> bool \<Rightarrow> string \<Rightarrow> nat option" where
  "py_digits base acc gap [] = (if gap then None else Some acc)"
| "py_digits base acc gap (c # cs) =
     (if c = CHR ''_'' then (if gap then None else py_digits base acc True cs)
      else case py_digit base c of None \<Rightarrow> None
        | Some d \<Rightarrow> py_digits base (acc * base + d) False cs)"

definition py_unsigned :: "nat \<Rightarrow> string \<Rightarrow> nat option" where
  "py_unsigned base s =
     (if base = 16 \<and> (starts_with ''0x'' s \<or> starts_with ''0X'' s)
      then py_digits base 0 True (remove_prefix ''_'' (drop 2 s))
      else py_digits base 0 True s)"

definition py_int :: "nat \<Rightarrow> string \<Rightarrow> int option" where
  "py_int base s = (let t = strip_chars is_white s in
     if starts_with ''-'' t then map_option (\<lambda>n. - int n) (py_unsigned base (drop 1 t))
     else if starts_with ''+'' t then map_option int (py_unsigned base (drop 1 t))
     else map_option int (py_unsigned base t))"

definition digit_char :: "nat \<Rightarrow> char" where
  "digit_char d = char_of (48 + d)"

fun str_nat :: "nat \<Rightarrow> string" where
  "str_nat n = (if n < 10 then [digit_char n] else str_nat (n div 10) @ [digit_char (n mod 10)])"

definition str_int :: "int \<Rightarrow> string" where
  "str_int n = (if n < 0 then ''-'' @ str_nat (nat (- n)) else str_nat (nat n))"

text \<open>\<^verbatim>\<open>uuid.UUID(text)\<close>: the number, or \<open>None\<close> for a \<^verbatim>\<open>ValueError\<close>.\<close>

definition uuid_value :: "string \<Rightarrow> nat option" where
  "uuid_value s = (let h = replace_empty ''-'' (strip_chars (\<lambda>c. c = CHR ''{'' \<or> c = CHR ''}'')
       (replace_empty ''uuid:'' (replace_empty ''urn:'' s)))
     in if length h \<noteq> 32 then None else case py_int 16 h of None \<Rightarrow> None
        | Some v \<Rightarrow> if 0 \<le> v \<and> v < 2 ^ 128 then Some (nat v) else None)"

declare str_nat.simps [simp del]

lemma char_code_digit_char: "d < 10 \<Longrightarrow> char_code (digit_char d) = 48 + d"
  by (simp add: char_code_def digit_char_def of_char_of)

lemma py_digit_digit_char: "d < 10 \<Longrightarrow> py_digit 10 (digit_char d) = Some d"
  by (simp add: py_digit_def char_code_digit_char)

definition all_digits :: "string \<Rightarrow> bool" where
  "all_digits s \<longleftrightarrow> list_all (\<lambda>c. \<exists>d < 10. c = digit_char d) s"

lemma digit_char_not_underscore: "d < 10 \<Longrightarrow> digit_char d \<noteq> CHR ''_''"
  using char_code_digit_char[of d] by (auto simp: char_code_def)

lemma py_digits_all_digits:
  "all_digits s \<Longrightarrow> py_digits 10 acc gap s = (if s = [] \<and> gap then None
     else Some (foldl (\<lambda>a c. a * 10 + (char_code c - 48)) acc s))"
  by (induction s arbitrary: acc gap)
    (auto simp: all_digits_def py_digit_digit_char char_code_digit_char digit_char_not_underscore)

lemma str_nat_digits: "all_digits (str_nat n)"
proof (induction n rule: str_nat.induct)
  case (1 n)
  have "\<exists>d < 10. digit_char (n mod 10) = digit_char d" by (rule exI[of _ "n mod 10"]) simp
  then show ?case using 1 by (subst str_nat.simps) (auto simp: all_digits_def)
qed

lemma str_nat_value: "foldl (\<lambda>a c. a * 10 + (char_code c - 48)) 0 (str_nat n) = n"
proof (induction n rule: str_nat.induct)
  case (1 n)
  then show ?case by (subst str_nat.simps) (auto simp: char_code_digit_char)
qed

lemma str_nat_nonempty [simp]: "str_nat n \<noteq> []"
  by (subst str_nat.simps) simp

lemma digit_char_not_white: "d < 10 \<Longrightarrow> \<not> is_white (digit_char d)"
  by (auto simp: is_white_def char_code_digit_char)

lemma strip_all_digits:
  assumes "all_digits s"
  shows "strip_chars is_white s = s"
proof -
  have "dropWhile is_white t = t" if "all_digits t" for t
    using that by (cases t) (auto simp: all_digits_def digit_char_not_white)
  moreover have "all_digits (rev s)" using assms by (simp add: all_digits_def list_all_iff)
  ultimately show ?thesis using assms by (simp add: strip_chars_def)
qed

lemma all_digits_not_sign:
  "all_digits s \<Longrightarrow> \<not> starts_with ''-'' s \<and> \<not> starts_with ''+'' s"
proof (cases s)
  case (Cons c cs)
  moreover assume "all_digits s"
  ultimately obtain d where "d < 10" "c = digit_char d" by (auto simp: all_digits_def)
  then have "char_code c \<noteq> 45" "char_code c \<noteq> 43" by (simp_all add: char_code_digit_char)
  then have "c \<noteq> CHR ''-''" "c \<noteq> CHR ''+''" by (auto simp: char_code_def)
  then show ?thesis by (simp add: starts_with_def Cons)
qed (simp add: starts_with_def)

text \<open>Reading back a printed number.\<close>

lemma py_int_str_nat: "py_int 10 (str_nat n) = Some (int n)"
  using all_digits_not_sign[OF str_nat_digits, of n]
  by (simp add: py_int_def strip_all_digits[OF str_nat_digits] py_unsigned_def
      py_digits_all_digits[OF str_nat_digits] str_nat_value)

lemma py_int_str_int: "0 \<le> n \<Longrightarrow> py_int 10 (str_int n) = Some n"
  by (simp add: str_int_def py_int_str_nat)

lemma str_int_nonempty [simp]: "str_int n \<noteq> ''''"
  by (simp add: str_int_def)

text \<open>\<^verbatim>\<open>len(text)\<close> and \<^verbatim>\<open>text[:n]\<close> count code points: a character
  whose byte is not a UTF-8 continuation byte begins one.\<close>

definition is_lead :: "char \<Rightarrow> bool" where
  "is_lead c \<longleftrightarrow> \<not> (128 \<le> char_code c \<and> char_code c < 192)"

definition py_len :: "string \<Rightarrow> nat" where
  "py_len s = length (filter is_lead s)"

fun py_take :: "nat \<Rightarrow> string \<Rightarrow> string" where
  "py_take n [] = []"
| "py_take n (c # cs) = (if is_lead c then (case n of 0 \<Rightarrow> [] | Suc m \<Rightarrow> c # py_take m cs) else c # py_take n cs)"

lemma py_len_take: "py_len (py_take n s) \<le> n"
  by (induction n s rule: py_take.induct) (auto simp: py_len_def split: nat.splits)

lemma py_len_append [simp]: "py_len (s @ t) = py_len s + py_len t"
  by (simp add: py_len_def)

text \<open>\<^verbatim>\<open>text.split(sep)\<close> for a separator of one character, \<^verbatim>\<open>text.rfind(c)\<close>,
  \<^verbatim>\<open>sep.join(parts)\<close> and \<^verbatim>\<open>html.escape(text)\<close>.\<close>

fun split_on :: "char \<Rightarrow> string \<Rightarrow> string list" where
  "split_on sep [] = [[]]"
| "split_on sep (c # cs) = (if c = sep then [] # split_on sep cs
     else (case split_on sep cs of [] \<Rightarrow> [[c]] | p # ps \<Rightarrow> (c # p) # ps))"

fun join_with :: "string \<Rightarrow> string list \<Rightarrow> string" where
  "join_with sep [] = ''''"
| "join_with sep [p] = p"
| "join_with sep (p # ps) = p @ sep @ join_with sep ps"

definition rfind_char :: "char \<Rightarrow> string \<Rightarrow> nat option" where
  "rfind_char c s = (if c \<in> set s then Some (length s - 1 - length (takeWhile (\<lambda>x. x \<noteq> c) (rev s))) else None)"

definition lower_char :: "char \<Rightarrow> char" where
  "lower_char c = (let n = char_code c in if 65 \<le> n \<and> n \<le> 90 then char_of (n + 32) else c)"

definition html_escape :: "string \<Rightarrow> string" where
  "html_escape s = concat (map (\<lambda>c. if c = CHR ''&'' then ''&amp;'' else if c = CHR ''<'' then ''&lt;''
     else if c = CHR ''>'' then ''&gt;'' else if c = CHR 0x22 then ''&quot;''
     else if c = CHR 0x27 then ''&#x27;'' else [c]) s)"

lemma html_escape_safe: "CHR ''<'' \<notin> set (html_escape s) \<and> CHR ''>'' \<notin> set (html_escape s)"
  by (auto simp: html_escape_def)

end
