(* ===== verification/AuditServicer.thy ===== *)
theory AuditServicer
  imports AuditRetention PyText
begin

text \<open>
  The gRPC surface of the audit service: caller identity (\<^verbatim>\<open>app/server/identity.py\<close>,
  \<^verbatim>\<open>app/server/interceptors.py\<close>), the append rate limit (\<^verbatim>\<open>app/core/redis.py\<close>), the
  pseudonyms (\<^verbatim>\<open>app/core/pseudonym.py\<close>) and the five handlers of
  \<^verbatim>\<open>app/server/servicer.py\<close>.  Certificate parsing and the protobuf codec are libraries,
  so arguments.  A failing database or Redis is an argument of the call it fails.
\<close>

section \<open>Identity\<close>

record certificate =
  crt_der :: bytes
  crt_san_uris :: "string list option"

definition URI_PREFIX :: string where
  "URI_PREFIX = ''spiffe://theft-detection-platform/service/''"

definition SERVICE_BY_NAME :: "(string \<times> int) list" where
  "SERVICE_BY_NAME = [(''api'', 1), (''auth'', 2), (''ai'', 3), (''camera'', 4),
     (''detect-gate'', 5), (''notification'', 6), (''audit'', 7)]"

definition CACHE_LIMIT :: nat where "CACHE_LIMIT = 64"

text \<open>\<open>None\<close> stands for an \<^verbatim>\<open>IdentityError\<close>.\<close>

definition uri_sans :: "certificate \<Rightarrow> string list option" where
  "uri_sans c = map_option (filter (starts_with URI_PREFIX)) (crt_san_uris c)"

definition resolve :: "certificate \<Rightarrow> int option" where
  "resolve c = (case uri_sans c of None \<Rightarrow> None
     | Some uris \<Rightarrow> if length uris \<noteq> 1 then None
         else map_of SERVICE_BY_NAME (remove_prefix URI_PREFIX (hd uris)))"

definition source_service_from_pem ::
  "(bytes \<Rightarrow> certificate option) \<Rightarrow> bytes \<Rightarrow> (bytes \<times> int) list \<Rightarrow> int option \<times> (bytes \<times> int) list" where
  "source_service_from_pem x509 pem cache =
     (if pem = [] then (None, cache)
      else case x509 pem of None \<Rightarrow> (None, cache)
      | Some c \<Rightarrow> (case map_of cache (crt_der c) of
          Some v \<Rightarrow> (Some v, cache)
        | None \<Rightarrow> (case resolve c of None \<Rightarrow> (None, cache)
            | Some v \<Rightarrow> (Some v, (crt_der c, v) # (if length cache \<ge> CACHE_LIMIT then [] else cache)))))"

definition service_name :: "int \<Rightarrow> string" where
  "service_name v = (case filter (\<lambda>(n, w). w = v) SERVICE_BY_NAME of
     [] \<Rightarrow> ''unknown'' | (n, w) # _ \<Rightarrow> n)"

definition peer_certificate :: "bytes list \<Rightarrow> bytes" where
  "peer_certificate chain = (case chain of [] \<Rightarrow> [] | c # _ \<Rightarrow> c)"

text \<open>The interceptor: the handler runs with the caller's identity, or not at all.\<close>

definition intercept ::
  "(bytes \<Rightarrow> certificate option) \<Rightarrow> bytes list \<Rightarrow> (int \<Rightarrow> 's \<Rightarrow> 'r rpc \<times> 's) \<Rightarrow>
     (bytes \<times> int) list \<times> 's \<Rightarrow> 'r rpc \<times> (bytes \<times> int) list \<times> 's" where
  "intercept x509 chain handler st = (case st of (cache, s) \<Rightarrow>
     (case source_service_from_pem x509 (peer_certificate chain) cache of
        (None, cache') \<Rightarrow> (Abort UNAUTHENTICATED, cache', s)
      | (Some peer, cache') \<Rightarrow> (case handler peer s of (r, s') \<Rightarrow> (r, cache', s'))))"

section \<open>Pseudonyms\<close>

definition pseudonymize :: "bytes option \<Rightarrow> string \<Rightarrow> string \<Rightarrow> bytes audit_result" where
  "pseudonymize key domain v =
     (if domain = '''' then Inl ValueError
      else if v = '''' then Inr []
      else case key of None \<Rightarrow> Inl PseudonymKeyError
      | Some k \<Rightarrow> Inr (hmac_sha256 k (be_bytes 8 (length (utf8 domain)) @ utf8 domain
          @ be_bytes 8 (length (utf8 v)) @ utf8 v)))"

definition pseudonym_matches :: "bytes option \<Rightarrow> string \<Rightarrow> string \<Rightarrow> bytes \<Rightarrow> bool audit_result" where
  "pseudonym_matches key domain v candidate =
     rbind (pseudonymize key domain v) (\<lambda>h. Inr (constant_time_eq h candidate))"

section \<open>The append rate limit\<close>

datatype redis_fault = RedisUp | RedisDown | ExpireFails

record servicer_settings =
  ss_schema_version :: int
  ss_min_accepted_schema_version :: int
  ss_max_clock_skew_seconds :: int
  ss_max_backdate_seconds :: int
  ss_append_rate_limit :: int
  ss_append_rate_window_seconds :: int
  ss_append_rate_fail_closed :: bool

text \<open>A counter and the time it expires at, per source service and window.\<close>

type_synonym rate_store = "int \<times> int \<Rightarrow> (int \<times> datetime option) option"

definition live_count :: "datetime \<Rightarrow> (int \<times> datetime option) option \<Rightarrow> int \<times> datetime option" where
  "live_count now e = (case e of None \<Rightarrow> (0, None)
     | Some (n, None) \<Rightarrow> (n, None)
     | Some (n, Some t) \<Rightarrow> if now < t then (n, Some t) else (0, None))"

definition rate_window :: "servicer_settings \<Rightarrow> datetime \<Rightarrow> int" where
  "rate_window ss now = (now div seconds 1) div max (ss_append_rate_window_seconds ss) 1"

definition check_append_rate ::
  "servicer_settings \<Rightarrow> redis_fault \<Rightarrow> datetime \<Rightarrow> int \<Rightarrow> rate_store \<Rightarrow> bool \<times> rate_store" where
  "check_append_rate ss fault now source store =
     (let span = max (ss_append_rate_window_seconds ss) 1;
          key = (source, rate_window ss now);
          (n, e) = live_count now (store key);
          count = n + 1
      in if fault = RedisDown then (\<not> ss_append_rate_fail_closed ss, store)
         else if count = 1 \<and> fault = ExpireFails
         then (\<not> ss_append_rate_fail_closed ss, store(key := Some (count, e)))
         else let e' = (if count = 1 then Some (now + span * 2000 * 1000) else e)
           in (count \<le> ss_append_rate_limit ss, store(key := Some (count, e'))))"

section \<open>Appending an event\<close>

record append_msg =
  am_schema_version :: int
  am_event_id :: string
  am_occurred_at :: "datetime option"
  am_source_service :: int
  am_actor :: string
  am_severity :: int
  am_trace_id :: string
  am_payload_field :: "string option"

definition PAYLOAD_FIELD_NUMBERS :: "(string \<times> int) list" where
  "PAYLOAD_FIELD_NUMBERS = [(''login_success'', 20), (''login_failure'', 21), (''session_ended'', 22),
     (''detection_written'', 23), (''alert_dispatched'', 24), (''alert_acknowledged'', 25),
     (''config_changed'', 26), (''admin_action'', 27), (''defense_rejected'', 28),
     (''data_subject_erasure'', 29), (''service_lifecycle'', 30), (''auth_throttle_triggered'', 31),
     (''audit_log_accessed'', 32), (''authorization_denied'', 33), (''token_refreshed'', 34),
     (''refresh_token_reuse_detected'', 35), (''alert_decided'', 36)]"

datatype append_status = ACCEPTED | REJECTED | RATE_LIMITED | SCHEMA_UNSUPPORTED

record append_reply =
  rp_status :: append_status
  rp_sequence_number :: string
  rp_chain_hash :: bytes
  rp_leaf_hash :: bytes
  rp_persisted_at :: "datetime option"

definition status_reply :: "append_status \<Rightarrow> append_reply" where
  "status_reply s = \<lparr>rp_status = s, rp_sequence_number = '''', rp_chain_hash = [], rp_leaf_hash = [],
     rp_persisted_at = None\<rparr>"

definition parse_sequence :: "string \<Rightarrow> int option \<times> bool" where
  "parse_sequence raw = (if raw = '''' then (None, True)
     else case py_int 10 raw of None \<Rightarrow> (None, False)
       | Some v \<Rightarrow> if v < 0 then (None, False) else (Some v, True))"

definition is_uuid :: "string \<Rightarrow> bool" where
  "is_uuid s \<longleftrightarrow> uuid_value s \<noteq> None"

definition payload_kind :: "append_msg \<Rightarrow> int" where
  "payload_kind m = (case am_payload_field m of None \<Rightarrow> 0
     | Some f \<Rightarrow> (case map_of PAYLOAD_FIELD_NUMBERS f of None \<Rightarrow> 0 | Some n \<Rightarrow> n))"

definition clock_within_bounds :: "servicer_settings \<Rightarrow> datetime \<Rightarrow> datetime \<Rightarrow> bool" where
  "clock_within_bounds ss now occurred_at \<longleftrightarrow>
     \<not> (occurred_at > now + seconds (ss_max_clock_skew_seconds ss)) \<and>
     occurred_at \<ge> now - seconds (ss_max_backdate_seconds ss)"

definition effective_schema :: "servicer_settings \<Rightarrow> append_msg \<Rightarrow> int" where
  "effective_schema ss m = (if am_schema_version m \<noteq> 0 then am_schema_version m else ss_schema_version ss)"

definition schema_accepted :: "servicer_settings \<Rightarrow> append_msg \<Rightarrow> bool" where
  "schema_accepted ss m \<longleftrightarrow> \<not> (effective_schema ss m < ss_min_accepted_schema_version ss
     \<or> effective_schema ss m > ss_schema_version ss)"

definition request_of :: "(append_msg \<Rightarrow> bytes) \<Rightarrow> servicer_settings \<Rightarrow> append_msg \<Rightarrow> datetime \<Rightarrow> uuid \<Rightarrow> append_request" where
  "request_of serialize ss m occurred_at event_id = \<lparr>rq_event_id = event_id, rq_occurred_at = occurred_at,
     rq_source_service = am_source_service m, rq_actor = am_actor m, rq_severity = am_severity m,
     rq_trace_id = am_trace_id m, rq_payload_kind = payload_kind m,
     rq_schema_version = effective_schema ss m, rq_event_bytes = serialize m,
     rq_hash_algorithm = DEFAULT_HASH_ALGORITHM\<rparr>"

text \<open>The part of the handler before the rate limit: the reply it ends with, or the
  request that it goes on to store.\<close>

definition append_guards ::
  "(append_msg \<Rightarrow> bytes) \<Rightarrow> servicer_settings \<Rightarrow> int \<Rightarrow> datetime \<Rightarrow> append_msg \<Rightarrow> append_reply + append_request" where
  "append_guards serialize ss peer now m =
     (if am_source_service m \<noteq> peer then Inl (status_reply REJECTED)
      else case uuid_value (am_event_id m) of None \<Rightarrow> Inl (status_reply REJECTED)
      | Some event_id \<Rightarrow>
        if \<not> schema_accepted ss m then Inl (status_reply SCHEMA_UNSUPPORTED)
        else case am_occurred_at m of None \<Rightarrow> Inl (status_reply REJECTED)
        | Some occurred_at \<Rightarrow>
          if \<not> clock_within_bounds ss now occurred_at then Inl (status_reply REJECTED)
          else if payload_kind m = 0 then Inl (status_reply REJECTED)
          else if \<not> is_supported DEFAULT_HASH_ALGORITHM then Inl (status_reply REJECTED)
          else Inr (request_of serialize ss m occurred_at event_id))"

record audit_env =
  ae_parse :: "bytes \<Rightarrow> pb_event option"
  ae_serialize :: "append_msg \<Rightarrow> bytes"
  ae_settings :: servicer_settings
  ae_pseudonym_key :: "bytes option"

text \<open>Which of a call's outside dependencies fail.\<close>

record faults =
  f_redis :: redis_fault
  f_database_down :: bool

definition AppendEvent ::
  "audit_env \<Rightarrow> faults \<Rightarrow> datetime \<Rightarrow> append_msg \<Rightarrow> int \<Rightarrow> audit_db \<times> rate_store \<Rightarrow>
     append_reply rpc \<times> audit_db \<times> rate_store" where
  "AppendEvent env f now m peer st = (case st of (db, store) \<Rightarrow>
     (case append_guards (ae_serialize env) (ae_settings env) peer now m of
        Inl reply \<Rightarrow> (Reply reply, db, store)
      | Inr rq \<Rightarrow> (case check_append_rate (ae_settings env) (f_redis f) now (am_source_service m) store of
          (allowed, store') \<Rightarrow>
            if \<not> allowed then (Reply (status_reply RATE_LIMITED), db, store')
            else if f_database_down f then (Abort UNAVAILABLE, db, store')
            else case append_event (ae_parse env) now rq db of
              Inl IntegrityError \<Rightarrow> (Reply (status_reply REJECTED), db, store')
            | Inl DatabaseError \<Rightarrow> (Abort UNAVAILABLE, db, store')
            | Inl _ \<Rightarrow> (Abort INTERNAL, db, store')
            | Inr (res, db') \<Rightarrow> (Reply \<lparr>rp_status = ACCEPTED, rp_sequence_number = str_int (ar_sequence_number res),
                rp_chain_hash = ar_chain_hash res, rp_leaf_hash = ar_leaf_hash res,
                rp_persisted_at = Some (ar_persisted_at res)\<rparr>, db', store'))))"

section \<open>Recording an access\<close>

datatype access_scope = SCOPE_EVENTS | SCOPE_VERIFY | SCOPE_CHECKPOINT

record access_record =
  ac_event_id :: uuid
  ac_occurred_at :: datetime
  ac_scope :: access_scope
  ac_rows_returned :: nat
  ac_window_from :: "datetime option"
  ac_window_to :: "datetime option"
  ac_filter_source_service :: int
  ac_filter_min_severity :: int
  ac_filter_actor_hmac :: bytes

definition ACTOR_DOMAIN :: string where "ACTOR_DOMAIN = ''audit-query-actor''"
definition SOURCE_SERVICE_AUDIT :: int where "SOURCE_SERVICE_AUDIT = 7"
definition SOURCE_SERVICE_AUTH :: int where "SOURCE_SERVICE_AUTH = 2"
definition SEVERITY_INFO :: int where "SEVERITY_INFO = 1"

definition access_request :: "(access_record \<Rightarrow> bytes) \<Rightarrow> servicer_settings \<Rightarrow> uuid \<Rightarrow> access_record \<Rightarrow> append_request" where
  "access_request serialize ss event_id a = \<lparr>rq_event_id = event_id, rq_occurred_at = ac_occurred_at a,
     rq_source_service = SOURCE_SERVICE_AUDIT, rq_actor = '''', rq_severity = SEVERITY_INFO,
     rq_trace_id = '''', rq_payload_kind = 32, rq_schema_version = ss_schema_version ss,
     rq_event_bytes = serialize a, rq_hash_algorithm = DEFAULT_HASH_ALGORITHM\<rparr>"

text \<open>The event id is a fresh \<^verbatim>\<open>uuid4\<close>, drawn by the caller of the model; the text form
  that goes into the message is left to the encoder.\<close>

definition record_access ::
  "audit_env \<Rightarrow> (access_record \<Rightarrow> bytes) \<Rightarrow> datetime \<Rightarrow> uuid \<Rightarrow> access_scope \<Rightarrow> nat \<Rightarrow>
     datetime option \<Rightarrow> datetime option \<Rightarrow> int \<Rightarrow> string \<Rightarrow> int \<Rightarrow> audit_db \<Rightarrow> audit_db audit_result" where
  "record_access env ser now event_id scope rows from_time to_time source actor min_severity db =
     rbind (if actor = '''' then Inr [] else pseudonymize (ae_pseudonym_key env) ACTOR_DOMAIN actor) (\<lambda>h.
     rbind (append_event (ae_parse env) now
         (access_request ser (ae_settings env) event_id \<lparr>ac_event_id = event_id, ac_occurred_at = now,
            ac_scope = scope, ac_rows_returned = rows, ac_window_from = from_time, ac_window_to = to_time,
            ac_filter_source_service = max source 0, ac_filter_min_severity = max min_severity 0,
            ac_filter_actor_hmac = h\<rparr>) db)
       (\<lambda>(res, db'). Inr db'))"

definition error_status :: "audit_error \<Rightarrow> rpc_status" where
  "error_status e = (case e of IntegrityError \<Rightarrow> UNAVAILABLE | DatabaseError \<Rightarrow> UNAVAILABLE
     | PseudonymKeyError \<Rightarrow> FAILED_PRECONDITION | _ \<Rightarrow> INTERNAL)"

section \<open>Querying\<close>

record query_msg =
  qm_from_time :: "datetime option"
  qm_to_time :: "datetime option"
  qm_source_service :: int
  qm_actor :: string
  qm_min_severity :: int
  qm_page_size :: int
  qm_page_token :: string

record stored_event =
  st_sequence_number :: string
  st_chain_hash :: bytes
  st_leaf_hash :: bytes
  st_persisted_at :: datetime
  st_erased :: bool
  st_erased_at :: "datetime option"
  st_event :: "pb_event option"

definition MAX_PAGE_SIZE :: int where "MAX_PAGE_SIZE = 500"
definition DEFAULT_PAGE_SIZE :: int where "DEFAULT_PAGE_SIZE = 100"

definition effective_page_size :: "query_msg \<Rightarrow> nat" where
  "effective_page_size m =
     (let n = (if qm_page_size m \<noteq> 0 then qm_page_size m else DEFAULT_PAGE_SIZE);
          n = min n MAX_PAGE_SIZE
      in nat (if n < 1 then DEFAULT_PAGE_SIZE else n))"

definition filter_of :: "query_msg \<Rightarrow> query_filter" where
  "filter_of m = \<lparr>qf_from_time = qm_from_time m, qf_to_time = qm_to_time m,
     qf_source_service = qm_source_service m, qf_actor = qm_actor m, qf_min_severity = qm_min_severity m\<rparr>"

definition stored_of :: "(bytes \<Rightarrow> pb_event option) \<Rightarrow> audit_event \<Rightarrow> stored_event" where
  "stored_of parse r = \<lparr>st_sequence_number = str_int (ev_sequence_number r), st_chain_hash = ev_chain_hash r,
     st_leaf_hash = ev_leaf_hash r, st_persisted_at = ev_persisted_at r,
     st_erased = (ev_erased_at r \<noteq> None), st_erased_at = ev_erased_at r,
     st_event = (if ev_erased_at r \<noteq> None then None
                 else case ev_event_bytes r of None \<Rightarrow> None | Some b \<Rightarrow> parse b)\<rparr>"

definition next_page_token :: "nat \<Rightarrow> audit_event list \<Rightarrow> string" where
  "next_page_token page_size rows = (if length rows = page_size \<and> rows \<noteq> []
     then str_int (ev_sequence_number (last rows)) else '''')"

definition QueryEvents ::
  "audit_env \<Rightarrow> (access_record \<Rightarrow> bytes) \<Rightarrow> bool \<Rightarrow> datetime \<Rightarrow> uuid \<Rightarrow> query_msg \<Rightarrow> audit_db \<Rightarrow>
     (stored_event list \<times> string) rpc \<times> audit_db" where
  "QueryEvents env ser database_down now event_id m db =
     (let page_size = effective_page_size m in
      case parse_sequence (qm_page_token m) of (after, ok) \<Rightarrow>
        if \<not> ok then (Abort INVALID_ARGUMENT, db)
        else if database_down then (Abort UNAVAILABLE, db)
        else let rows = query (filter_of m) page_size after db in
          case record_access env ser now event_id SCOPE_EVENTS (length rows) (qm_from_time m) (qm_to_time m)
              (qm_source_service m) (qm_actor m) (qm_min_severity m) db of
            Inl e \<Rightarrow> (Abort (error_status e), db)
          | Inr db' \<Rightarrow> (Reply (map (stored_of (ae_parse env)) rows, next_page_token page_size rows), db'))"

section \<open>Verifying, checkpoints and erasure\<close>

record verify_reply =
  vp_chain_intact :: bool
  vp_break_at :: string
  vp_failure_kind :: int
  vp_events_verified :: nat
  vp_erased_rows_verified :: nat
  vp_checkpoints_verified :: nat

definition verify_reply_of :: "verify_result \<Rightarrow> checkpoint_result \<Rightarrow> verify_reply" where
  "verify_reply_of res cps = \<lparr>
     vp_chain_intact = (vr_chain_intact res \<and> cr_failure_kind cps = VERIFY_FAILURE_NONE),
     vp_break_at = (case vr_break_at res of None \<Rightarrow> '''' | Some n \<Rightarrow> str_int n),
     vp_failure_kind = (if vr_chain_intact res \<and> cr_failure_kind cps \<noteq> VERIFY_FAILURE_NONE
       then cr_failure_kind cps else vr_failure_kind res),
     vp_events_verified = vr_events_verified res, vp_erased_rows_verified = vr_erased_rows_verified res,
     vp_checkpoints_verified = cr_checkpoints_verified cps\<rparr>"

definition VerifyChain ::
  "audit_env \<Rightarrow> (access_record \<Rightarrow> bytes) \<Rightarrow> ed25519_lib \<Rightarrow> files \<Rightarrow> bool \<Rightarrow> datetime \<Rightarrow> uuid \<Rightarrow>
     string \<Rightarrow> string \<Rightarrow> audit_db \<times> signer \<Rightarrow> verify_reply rpc \<times> audit_db \<times> signer" where
  "VerifyChain env ser lib files database_down now event_id from_raw to_raw st = (case st of (db, s) \<Rightarrow>
     (case (parse_sequence from_raw, parse_sequence to_raw) of ((start, ok1), (end_seq, ok2)) \<Rightarrow>
        if \<not> ok1 \<or> \<not> ok2 then (Abort INVALID_ARGUMENT, db, s)
        else if database_down then (Abort UNAVAILABLE, db, s)
        else case verify_checkpoints lib files db s of
          (Inl e, s') \<Rightarrow> (Abort INTERNAL, db, s')
        | (Inr cps, s') \<Rightarrow> (case verify start end_seq db of
            Inl e \<Rightarrow> (Abort INTERNAL, db, s')
          | Inr res \<Rightarrow> (case record_access env ser now event_id SCOPE_VERIFY (vr_events_verified res)
                None None 0 '''' 0 db of
              Inl e \<Rightarrow> (Abort (case e of IntegrityError \<Rightarrow> UNAVAILABLE | DatabaseError \<Rightarrow> UNAVAILABLE
                  | _ \<Rightarrow> INTERNAL), db, s')
            | Inr db' \<Rightarrow> (Reply (verify_reply_of res cps), db', s')))))"

definition GetCheckpoint ::
  "audit_env \<Rightarrow> (access_record \<Rightarrow> bytes) \<Rightarrow> bool \<Rightarrow> datetime \<Rightarrow> uuid \<Rightarrow> int \<Rightarrow> audit_db \<Rightarrow>
     audit_checkpoint option rpc \<times> audit_db" where
  "GetCheckpoint env ser database_down now event_id checkpoint_id db =
     (if database_down then (Abort UNAVAILABLE, db)
      else let row = (if checkpoint_id > 0 then checkpoint_by_id checkpoint_id db else latest_checkpoint db) in
        case record_access env ser now event_id SCOPE_CHECKPOINT (if row \<noteq> None then 1 else 0)
            None None 0 '''' 0 db of
          Inl e \<Rightarrow> (Abort (case e of IntegrityError \<Rightarrow> UNAVAILABLE | DatabaseError \<Rightarrow> UNAVAILABLE
              | _ \<Rightarrow> INTERNAL), db)
        | Inr db' \<Rightarrow> (Reply row, db'))"

record erase_msg =
  em_subject_id :: string
  em_requested_by :: string
  em_reason :: int

definition ErasePayloads ::
  "bool \<Rightarrow> datetime \<Rightarrow> erase_msg \<Rightarrow> int \<Rightarrow> audit_db \<Rightarrow> nat rpc \<times> audit_db" where
  "ErasePayloads database_down now m peer db =
     (if peer \<noteq> SOURCE_SERVICE_AUTH then (Abort PERMISSION_DENIED, db)
      else if em_subject_id m = '''' \<or> em_requested_by m = '''' then (Abort INVALID_ARGUMENT, db)
      else if em_reason m = 0 then (Abort INVALID_ARGUMENT, db)
      else if database_down then (Abort UNAVAILABLE, db)
      else case erase_subject_payloads now (em_subject_id m) (em_reason m) db of
        Inl e \<Rightarrow> (Abort UNAVAILABLE, db)
      | Inr (erased, db') \<Rightarrow> (Reply erased, db'))"

section \<open>What the handlers guarantee\<close>

lemma find_by_event_id_Some:
  "find_by_event_id i db = Some r \<Longrightarrow> r \<in> set (db_events db) \<and> ev_event_id r = i"
  by (auto simp: find_by_event_id_def dest: first_row_filter_Some)

lemma append_event_stored:
  assumes "audit_inv db" "append_event parse now rq db = Inr (res, db')"
  shows "\<exists>r \<in> set (db_events db'). ev_event_id r = rq_event_id rq \<and>
    ar_sequence_number res = ev_sequence_number r \<and> ar_chain_hash res = ev_chain_hash r \<and>
    ar_leaf_hash res = ev_leaf_hash r \<and> ar_persisted_at res = ev_persisted_at r"
  using assms unfolding append_event_locked
proof (cases rule: append_locked_cases)
  case (duplicate r)
  then show ?thesis using find_by_event_id_Some by (auto simp: duplicate_of_def intro!: bexI[of _ r])
next
  case (fresh r)
  then show ?thesis
    by (auto simp: accepted_as_def append_row_def appended_row_sel intro!: bexI[of _ r])
qed

lemma append_guards_Inr:
  assumes "append_guards ser ss peer now m = Inr rq"
  shows "am_source_service m = peer \<and> uuid_value (am_event_id m) = Some (rq_event_id rq) \<and>
    schema_accepted ss m \<and> (\<exists>t. am_occurred_at m = Some t \<and> clock_within_bounds ss now t) \<and>
    payload_kind m \<noteq> 0 \<and> rq_source_service rq = peer"
  using assms by (auto simp: append_guards_def request_of_def split: if_splits option.splits)

lemma append_guards_status:
  "append_guards ser ss peer now m = Inl reply \<Longrightarrow> rp_status reply \<noteq> ACCEPTED"
  by (auto simp: append_guards_def status_reply_def split: if_splits option.splits)

text \<open>C9: The service accepts an event only from the service it claims to come from, with a
  well-formed id, a supported schema version, a timestamp inside the allowed skew and a
  payload.  When it does, the log holds a row with that id whose position, hashes and time
  are the ones in the reply; on every other reply and on every abort the log is untouched.
  The log's invariant holds afterwards in any case.\<close>

theorem append_rpc_correct:
  assumes "audit_inv db" "AppendEvent env f now m peer (db, store) = (out, db', store')"
  shows "audit_inv db' \<and>
    (case out of
       Abort _ \<Rightarrow> db' = db
     | Reply reply \<Rightarrow>
        if rp_status reply \<noteq> ACCEPTED then db' = db
        else am_source_service m = peer \<and> is_uuid (am_event_id m) \<and>
          schema_accepted (ae_settings env) m \<and> payload_kind m \<noteq> 0 \<and>
          (\<exists>t. am_occurred_at m = Some t \<and> clock_within_bounds (ae_settings env) now t) \<and>
          (\<exists>r \<in> set (db_events db'). Some (ev_event_id r) = uuid_value (am_event_id m) \<and>
             rp_sequence_number reply = str_int (ev_sequence_number r) \<and>
             rp_chain_hash reply = ev_chain_hash r \<and> rp_leaf_hash reply = ev_leaf_hash r \<and>
             rp_persisted_at reply = Some (ev_persisted_at r)))"
proof (cases "append_guards (ae_serialize env) (ae_settings env) peer now m")
  case (Inl reply)
  then show ?thesis using assms append_guards_status[OF Inl] by (auto simp: AppendEvent_def)
next
  case (Inr rq)
  note g = append_guards_Inr[OF Inr]
  show ?thesis
  proof (cases "append_event (ae_parse env) now rq db")
    case (Inl e)
    then show ?thesis using assms Inr
      by (cases e) (auto simp: AppendEvent_def status_reply_def split: prod.splits if_splits)
  next
    case app: (Inr p)
    obtain res db1 where p: "append_event (ae_parse env) now rq db = Inr (res, db1)" using app by (cases p) auto
    obtain allowed store1 where rl:
      "check_append_rate (ae_settings env) (f_redis f) now (am_source_service m) store = (allowed, store1)"
      by (rule prod.exhaust)
    show ?thesis
    proof (cases "allowed \<and> \<not> f_database_down f")
      case True
      then have "out = Reply \<lparr>rp_status = ACCEPTED, rp_sequence_number = str_int (ar_sequence_number res),
                rp_chain_hash = ar_chain_hash res, rp_leaf_hash = ar_leaf_hash res,
                rp_persisted_at = Some (ar_persisted_at res)\<rparr>" "db' = db1"
        using assms(2) Inr p rl by (simp_all add: AppendEvent_def)
      then show ?thesis using append_event_stored[OF assms(1) p] append_event_inv[OF assms(1) p] g
        by (auto simp: is_uuid_def)
    next
      case False
      then show ?thesis using assms Inr rl by (auto simp: AppendEvent_def status_reply_def split: if_splits)
    qed
  qed
qed

definition sample_settings :: servicer_settings where
  "sample_settings = \<lparr>ss_schema_version = 1, ss_min_accepted_schema_version = 1,
     ss_max_clock_skew_seconds = 300, ss_max_backdate_seconds = 604800, ss_append_rate_limit = 2000,
     ss_append_rate_window_seconds = 1, ss_append_rate_fail_closed = False\<rparr>"

definition sample_env :: audit_env where
  "sample_env = \<lparr>ae_parse = sample_parse, ae_serialize = (\<lambda>m. [1, 2, 3]), ae_settings = sample_settings,
     ae_pseudonym_key = None\<rparr>"

definition sample_msg :: append_msg where
  "sample_msg = \<lparr>am_schema_version = 1, am_event_id = ''00000000-0000-0000-0000-000000000007'',
     am_occurred_at = Some 5, am_source_service = 1, am_actor = ''op'', am_severity = 1, am_trace_id = '''',
     am_payload_field = Some ''login_success''\<rparr>"

theorem append_rpc_correct_witness:
  "audit_inv (fst (snd (AppendEvent sample_env \<lparr>f_redis = RedisUp, f_database_down = False\<rparr> 9 sample_msg 1
     (empty_db, Map.empty))))"
proof -
  obtain out db' store' where "AppendEvent sample_env \<lparr>f_redis = RedisUp, f_database_down = False\<rparr> 9 sample_msg 1
     (empty_db, Map.empty) = (out, db', store')" by (metis prod.exhaust)
  then show ?thesis using append_rpc_correct[OF empty_db_inv] by fastforce
qed

text \<open>The cache of identities, and the bound on its size.\<close>

definition identity_cache_ok :: "(bytes \<Rightarrow> certificate option) \<Rightarrow> (bytes \<times> int) list \<Rightarrow> bool" where
  "identity_cache_ok x509 cache \<longleftrightarrow> length cache \<le> CACHE_LIMIT \<and>
     (\<forall>pem c v. x509 pem = Some c \<longrightarrow> map_of cache (crt_der c) = Some v \<longrightarrow> resolve c = Some v)"

text \<open>Caching never changes who a caller is.  If equal encodings are equal
  certificates, then for any cache built so far, the identity returned for a certificate is
  the one its names resolve to: exactly one service URI of the trust domain, naming a known
  service; a caller without certificate, with an unreadable one or with none or several such
  names is refused.  The cache stays correct and never exceeds its limit.\<close>

theorem identity_cache_transparent:
  assumes "identity_cache_ok x509 cache"
    and "\<And>p q c d. x509 p = Some c \<Longrightarrow> x509 q = Some d \<Longrightarrow> crt_der c = crt_der d \<Longrightarrow> c = d"
  shows "fst (source_service_from_pem x509 pem cache) =
      (if pem = [] then None else Option.bind (x509 pem) resolve) \<and>
    identity_cache_ok x509 (snd (source_service_from_pem x509 pem cache))"
proof (cases "pem = [] \<or> x509 pem = None")
  case True
  then show ?thesis using assms(1) by (auto simp: source_service_from_pem_def)
next
  case False
  then obtain c where c: "x509 pem = Some c" "pem \<noteq> []" by auto
  show ?thesis
  proof (cases "map_of cache (crt_der c)")
    case None
    show ?thesis
    proof (cases "resolve c")
      case None
      then show ?thesis using assms(1) c \<open>map_of cache (crt_der c) = None\<close>
        by (simp add: source_service_from_pem_def)
    next
      case (Some v)
      let ?kept = "if length cache \<ge> CACHE_LIMIT then [] else cache"
      have "resolve d = Some w" if "x509 p = Some d" "map_of ((crt_der c, v) # ?kept) (crt_der d) = Some w" for p d w
      proof (cases "crt_der d = crt_der c")
        case True
        then have "d = c" using assms(2) that(1) c(1) by blast
        then show ?thesis using that(2) Some by simp
      next
        case False
        then have "map_of cache (crt_der d) = Some w" using that(2) by (simp split: if_splits)
        then show ?thesis using assms(1) that(1) unfolding identity_cache_ok_def by blast
      qed
      moreover have "length ((crt_der c, v) # ?kept) \<le> CACHE_LIMIT" by (simp add: CACHE_LIMIT_def)
      ultimately have "identity_cache_ok x509 ((crt_der c, v) # ?kept)" unfolding identity_cache_ok_def by blast
      then show ?thesis using c Some \<open>map_of cache (crt_der c) = None\<close>
        by (simp add: source_service_from_pem_def)
    qed
  next
    case (Some v)
    then have "resolve c = Some v" using assms(1) c(1) unfolding identity_cache_ok_def by blast
    then show ?thesis using assms(1) c Some by (simp add: source_service_from_pem_def)
  qed
qed

theorem identity_cache_transparent_witness:
  "fst (source_service_from_pem (\<lambda>p. Some \<lparr>crt_der = p, crt_san_uris = Some [URI_PREFIX @ ''api'']\<rparr>) [1] []) =
     resolve \<lparr>crt_der = [1], crt_san_uris = Some [URI_PREFIX @ ''api'']\<rparr>"
proof -
  let ?x = "\<lambda>p. Some \<lparr>crt_der = p, crt_san_uris = Some [URI_PREFIX @ ''api'']\<rparr>"
  have "identity_cache_ok ?x []" by (simp add: identity_cache_ok_def CACHE_LIMIT_def)
  moreover have "\<And>p q c d. ?x p = Some c \<Longrightarrow> ?x q = Some d \<Longrightarrow> crt_der c = crt_der d \<Longrightarrow> c = d" by auto
  ultimately have "fst (source_service_from_pem ?x [1] []) = (if [1] = ([] :: bytes) then None else Option.bind (?x [1]) resolve)"
    by (rule conjunct1[OF identity_cache_transparent])
  then show ?thesis by simp
qed

section \<open>The append rate limit\<close>

fun rate_run :: "servicer_settings \<Rightarrow> int \<Rightarrow> rate_store \<Rightarrow> datetime list \<Rightarrow> bool list" where
  "rate_run ss source store [] = []"
| "rate_run ss source store (t # ts) = (case check_append_rate ss RedisUp t source store of
     (allowed, store') \<Rightarrow> allowed # rate_run ss source store' ts)"

lemma rate_window_bounds:
  assumes "rate_window ss t = w"
  shows "w * (max (ss_append_rate_window_seconds ss) 1 * 1000000) \<le> t"
    "t < (w + 1) * (max (ss_append_rate_window_seconds ss) 1 * 1000000)"
proof -
  let ?s = "max (ss_append_rate_window_seconds ss) 1"
  have w: "w = t div (1000000 * ?s)"
    using assms by (simp add: rate_window_def seconds_def zdiv_zmult2_eq)
  have p: "0 < 1000000 * ?s" by simp
  have "w * (1000000 * ?s) \<le> t" using w p
    by (metis minus_mod_eq_div_mult pos_mod_sign diff_ge_0_iff_ge add.commute le_add_same_cancel1 mult.commute
        div_mult_mod_eq)
  moreover have "t < w * (1000000 * ?s) + 1000000 * ?s"
    using w p by (metis add_strict_left_mono div_mult_mod_eq pos_mod_bound)
  ultimately show "w * (?s * 1000000) \<le> t" "t < (w + 1) * (?s * 1000000)"
    by (simp_all add: algebra_simps)
qed

lemma rate_run_counting:
  assumes "store (source, w) = Some (n, Some e)" "\<forall>t \<in> set ts. rate_window ss t = w \<and> t < e" "1 \<le> n"
  shows "rate_run ss source store ts = map (\<lambda>i. n + 1 + int i \<le> ss_append_rate_limit ss) [0..<length ts]"
  using assms
proof (induction ts arbitrary: store n)
  case (Cons t ts)
  let ?store' = "store((source, w) := Some (n + 1, Some e))"
  have step: "check_append_rate ss RedisUp t source store = (n + 1 \<le> ss_append_rate_limit ss, ?store')"
    using Cons.prems by (simp add: check_append_rate_def live_count_def Let_def)
  have rest: "rate_run ss source ?store' ts =
      map (\<lambda>i. n + 1 + 1 + int i \<le> ss_append_rate_limit ss) [0..<length ts]"
    using Cons.prems by (intro Cons.IH) auto
  have "[0..<length (t # ts)] = 0 # map Suc [0..<length ts]"
    by (simp add: upt_conv_Cons map_Suc_upt del: upt_Suc)
  then show ?case using step rest by (simp add: comp_def add.assoc del: upt_Suc)
qed simp

text \<open>The append limit holds.  While Redis answers, among the calls of one source service
  that fall into one rate window exactly the first \<open>limit\<close> are let through, in order; the
  counter is never lost inside the window, because it expires only after two spans.\<close>

theorem append_rate_limit_exact:
  assumes "store (source, w) = None" "\<forall>t \<in> set ts. rate_window ss t = w" "0 \<le> ss_append_rate_limit ss"
  shows "rate_run ss source store ts = map (\<lambda>i. int i < ss_append_rate_limit ss) [0..<length ts]"
proof (cases ts)
  case (Cons t rest)
  let ?s = "max (ss_append_rate_window_seconds ss) 1"
  let ?e = "t + ?s * 2000 * 1000"
  let ?store' = "store((source, w) := Some (1, Some ?e))"
  have step: "check_append_rate ss RedisUp t source store = (1 \<le> ss_append_rate_limit ss, ?store')"
    using assms Cons by (simp add: check_append_rate_def live_count_def Let_def)
  have "\<forall>u \<in> set rest. rate_window ss u = w \<and> u < ?e"
  proof
    fix u assume "u \<in> set rest"
    then have u: "rate_window ss u = w" "rate_window ss t = w" using assms(2) Cons by simp_all
    have "0 < ?s" by simp
    moreover have "u < (w + 1) * (?s * 1000000)" "w * (?s * 1000000) \<le> t"
      using rate_window_bounds u by blast+
    ultimately show "rate_window ss u = w \<and> u < ?e" using u(1) by (simp add: distrib_right)
  qed
  then have rest: "rate_run ss source ?store' rest =
      map (\<lambda>i. 1 + 1 + int i \<le> ss_append_rate_limit ss) [0..<length rest]"
    by (intro rate_run_counting[where e = ?e]) auto
  have "[0..<length ts] = 0 # map Suc [0..<length rest]"
    unfolding Cons by (simp add: upt_conv_Cons map_Suc_upt del: upt_Suc)
  then show ?thesis using step rest by (auto simp: Cons comp_def simp del: upt_Suc)
qed simp

theorem append_rate_limit_exact_witness:
  "rate_run (sample_settings\<lparr>ss_append_rate_limit := 2\<rparr>) 1 Map.empty [100, 200, 300] = [True, True, False]"
proof -
  have "rate_run (sample_settings\<lparr>ss_append_rate_limit := 2\<rparr>) 1 Map.empty [100, 200, 300] =
      map (\<lambda>i. int i < ss_append_rate_limit (sample_settings\<lparr>ss_append_rate_limit := 2\<rparr>)) [0..<length [100, 200, 300 :: int]]"
    by (rule append_rate_limit_exact[where w = 0]) (simp_all add: rate_window_def sample_settings_def seconds_def)
  then show ?thesis by (simp add: upt_rec)
qed

section \<open>Reading all pages\<close>

text \<open>A client that follows the page tokens; the log may grow between two calls.\<close>

fun read_all :: "nat \<Rightarrow> query_msg \<Rightarrow> (nat \<Rightarrow> audit_db) \<Rightarrow> audit_event list" where
  "read_all 0 m dbs = []"
| "read_all (Suc n) m dbs = (case parse_sequence (qm_page_token m) of (after, ok) \<Rightarrow>
     let page_size = effective_page_size m;
         rows = query (filter_of m) page_size after (dbs 0);
         token = next_page_token page_size rows
     in rows @ (if token = '''' then [] else read_all n (m\<lparr>qm_page_token := token\<rparr>) (\<lambda>i. dbs (Suc i))))"

definition matching :: "query_msg \<Rightarrow> audit_db \<Rightarrow> audit_event list" where
  "matching m db = filter (apply_filters (filter_of m)) (db_events db)"

lemma strict_sorted_drop_greater:
  fixes f :: "'a \<Rightarrow> int"
  assumes "sorted_wrt (<) (map f xs)" "0 < k" "k \<le> length xs"
  shows "filter (\<lambda>x. f x > f (xs ! (k - 1))) xs = drop k xs"
proof -
  let ?v = "f (xs ! (k - 1))"
  have "\<forall>x \<in> set (take k xs). f x \<le> ?v"
  proof
    fix x assume "x \<in> set (take k xs)"
    then obtain i where "i < k" "i < length xs" "x = xs ! i" by (auto simp: in_set_conv_nth)
    moreover from this have "i = k - 1 \<or> i < k - 1" by linarith
    ultimately show "f x \<le> ?v" using assms
      by (auto simp: sorted_wrt_iff_nth_less intro: order_less_imp_le)
  qed
  moreover have "\<forall>x \<in> set (drop k xs). ?v < f x"
  proof
    fix x assume "x \<in> set (drop k xs)"
    then obtain i where "i < length xs - k" "x = xs ! (k + i)" by (auto simp: in_set_conv_nth)
    then show "?v < f x" using assms by (auto simp: sorted_wrt_iff_nth_less)
  qed
  ultimately have "filter (\<lambda>x. f x > ?v) (take k xs @ drop k xs) = drop k xs"
    by (subst filter_append) (force simp: filter_empty_conv filter_id_conv)
  then show ?thesis by simp
qed

lemma query_from_start:
  "sorted_wrt (<) (map ev_sequence_number (db_events db)) \<Longrightarrow>
     query (filter_of m) k None db = take k (matching m db)"
  by (simp add: query_def matching_def)

lemma query_after:
  assumes "sorted_wrt (<) (map ev_sequence_number (db_events db))" "0 < j" "j \<le> length (matching m db)"
  shows "query (filter_of m) k (Some (ev_sequence_number (matching m db ! (j - 1)))) db =
    take k (drop j (matching m db))"
proof -
  have srt: "sorted_wrt (<) (map ev_sequence_number (matching m db))"
    using assms(1) by (simp add: matching_def strict_sorted_filter)
  have "filter (\<lambda>r. apply_filters (filter_of m) r \<and> ev_sequence_number r > n) (db_events db) =
      filter (\<lambda>r. ev_sequence_number r > n) (matching m db)" for n
    by (simp add: matching_def conj_commute)
  then show ?thesis
    using strict_sorted_drop_greater[OF srt assms(2,3)] srt
    by (simp add: query_def drop_map[symmetric] sorted_wrt_drop)
qed

lemma matching_token [simp]: "matching (m\<lparr>qm_page_token := t\<rparr>) db = matching m db"
  "effective_page_size (m\<lparr>qm_page_token := t\<rparr>) = effective_page_size m"
  by (simp_all add: matching_def filter_of_def effective_page_size_def)

lemma effective_page_size_pos: "0 < effective_page_size m"
  by (auto simp: effective_page_size_def Let_def DEFAULT_PAGE_SIZE_def MAX_PAGE_SIZE_def min_def)

lemma read_all_from:
  assumes "\<And>i. sorted_wrt (<) (map ev_sequence_number (db_events (dbs i)))"
    and "\<And>i. matching m (dbs i) = M" "\<And>r. r \<in> set M \<Longrightarrow> 0 \<le> ev_sequence_number r"
    and "(j = 0 \<and> qm_page_token m = '''') \<or>
      (0 < j \<and> j \<le> length M \<and> qm_page_token m = str_int (ev_sequence_number (M ! (j - 1))))"
    and "length M < j + n * effective_page_size m"
  shows "read_all n m dbs = drop j M"
  using assms
proof (induction n arbitrary: j m dbs)
  case (Suc n)
  let ?k = "effective_page_size m"
  have k: "0 < ?k" by (rule effective_page_size_pos)
  obtain after where after: "parse_sequence (qm_page_token m) = (after, True)"
    "query (filter_of m) ?k after (dbs 0) = take ?k (drop j M)"
  proof (cases "j = 0")
    case True
    then show ?thesis using that[of None] query_from_start[OF Suc.prems(1)[of 0]] Suc.prems(2,4)
      by (auto simp: parse_sequence_def)
  next
    case False
    then have j: "0 < j" "j \<le> length M" "qm_page_token m = str_int (ev_sequence_number (M ! (j - 1)))"
      using Suc.prems(4) by auto
    then have "0 \<le> ev_sequence_number (M ! (j - 1))" using Suc.prems(3) by simp
    then have "parse_sequence (qm_page_token m) = (Some (ev_sequence_number (M ! (j - 1))), True)"
      using j(3) by (simp add: parse_sequence_def py_int_str_int)
    then show ?thesis using that query_after[OF Suc.prems(1)[of 0] j(1), of m ?k] j(2) Suc.prems(2) by auto
  qed
  show ?case
  proof (cases "?k \<le> length M - j \<and> length M - j > 0")
    case False
    then have "next_page_token ?k (take ?k (drop j M)) = ''''"
      using k by (auto simp: next_page_token_def)
    then show ?thesis using after False k by (auto simp: Let_def)
  next
    case True
    then have full: "length (take ?k (drop j M)) = ?k" "take ?k (drop j M) \<noteq> []" using k by auto
    have last: "last (take ?k (drop j M)) = M ! (j + ?k - 1)"
      using True k by (simp add: last_conv_nth nth_take)
    let ?t = "str_int (ev_sequence_number (M ! (j + ?k - 1)))"
    have token: "next_page_token ?k (take ?k (drop j M)) = ?t"
      using full last by (simp add: next_page_token_def)
    have "read_all n (m\<lparr>qm_page_token := ?t\<rparr>) (\<lambda>i. dbs (Suc i)) = drop (j + ?k) M"
      using Suc.prems True k by (intro Suc.IH) auto
    moreover have "take ?k (drop j M) @ drop (j + ?k) M = drop j M"
      by (metis add.commute append_take_drop_id drop_drop)
    ultimately show ?thesis using after token by (simp add: Let_def)
  qed
qed simp



end
