(* ===== verification/AuditConcurrency.thy ===== *)
theory AuditConcurrency
  imports AuditServicer
begin

text \<open>
  Appends of several clients, interleaved.  A client reads the committed log without the
  lock, waits for the advisory lock of the transaction, repeats the lookup under it, writes
  its row, and commits or rolls back, which releases the lock
  (\<^verbatim>\<open>AuditRepository.append\<close> inside the session of \<^verbatim>\<open>AppendEvent\<close>).  Erasures run in
  between at any time without the lock.  A rollback leaves a gap in the identity column.
\<close>

datatype client =
    Idle
  | Starting append_request
  | AwaitLock append_request
  | HasLock append_request
  | Wrote append_request audit_event
  | Finished append_request append_result
  | Failed append_request

record system =
  sys_db :: audit_db
  sys_lock :: "nat option"
  sys_clients :: "nat \<Rightarrow> client"

definition set_client :: "nat \<Rightarrow> client \<Rightarrow> system \<Rightarrow> system" where
  "set_client i c s = s\<lparr>sys_clients := (sys_clients s)(i := c)\<rparr>"

definition burn_sequence :: "audit_db \<Rightarrow> audit_db" where
  "burn_sequence db = db\<lparr>db_next_event := db_next_event db + 1\<rparr>"

inductive step :: "(bytes \<Rightarrow> pb_event option) \<Rightarrow> system \<Rightarrow> system \<Rightarrow> bool" for parse where
  arrive: "sys_clients s i = Idle \<Longrightarrow> step parse s (set_client i (Starting rq) s)"
| found_early: "sys_clients s i = Starting rq \<Longrightarrow> find_by_event_id (rq_event_id rq) (sys_db s) = Some r \<Longrightarrow>
    step parse s (set_client i (Finished rq (duplicate_of r)) s)"
| not_found: "sys_clients s i = Starting rq \<Longrightarrow> find_by_event_id (rq_event_id rq) (sys_db s) = None \<Longrightarrow>
    step parse s (set_client i (AwaitLock rq) s)"
| acquire: "sys_clients s i = AwaitLock rq \<Longrightarrow> sys_lock s = None \<Longrightarrow>
    step parse s ((set_client i (HasLock rq) s)\<lparr>sys_lock := Some i\<rparr>)"
| found_locked: "sys_clients s i = HasLock rq \<Longrightarrow>
    find_by_event_id (rq_event_id rq) (sys_db s) = Some r \<Longrightarrow>
    step parse s ((set_client i (Finished rq (duplicate_of r)) s)\<lparr>sys_lock := None\<rparr>)"
| insert_row: "sys_clients s i = HasLock rq \<Longrightarrow> find_by_event_id (rq_event_id rq) (sys_db s) = None \<Longrightarrow>
    append_locked parse now rq (sys_db s) = Inr (res, db') \<Longrightarrow>
    step parse s (set_client i (Wrote rq (last (db_events db'))) s)"
| insert_fails: "sys_clients s i = HasLock rq \<Longrightarrow> append_locked parse now rq (sys_db s) = Inl e \<Longrightarrow>
    step parse s ((set_client i (Failed rq) s)\<lparr>sys_lock := None, sys_db := burn_sequence (sys_db s)\<rparr>)"
| commit: "sys_clients s i = Wrote rq r \<Longrightarrow>
    step parse s ((set_client i (Finished rq (accepted_as r)) s)\<lparr>sys_lock := None, sys_db := append_row r (sys_db s)\<rparr>)"
| rollback: "sys_clients s i = Wrote rq r \<Longrightarrow>
    step parse s ((set_client i (Failed rq) s)\<lparr>sys_lock := None, sys_db := burn_sequence (sys_db s)\<rparr>)"
| erase: "erase_subject_payloads now subject_id reason (sys_db s) = Inr (n, db') \<Longrightarrow>
    step parse s (s\<lparr>sys_db := db'\<rparr>)"


definition initial_system :: system where
  "initial_system = \<lparr>sys_db = empty_db, sys_lock = None, sys_clients = (\<lambda>_. Idle)\<rparr>"

inductive reachable :: "(bytes \<Rightarrow> pb_event option) \<Rightarrow> system \<Rightarrow> bool" for parse where
  init: "reachable parse initial_system"
| extend: "reachable parse s \<Longrightarrow> step parse s s' \<Longrightarrow> reachable parse s'"

section \<open>The invariant\<close>

definition pending_ok :: "audit_db \<Rightarrow> append_request \<Rightarrow> audit_event \<Rightarrow> bool" where
  "pending_ok db rq r \<longleftrightarrow> audit_inv (append_row r db) \<and> ev_event_id r = rq_event_id rq"

definition result_stored :: "audit_db \<Rightarrow> append_request \<Rightarrow> append_result \<Rightarrow> bool" where
  "result_stored db rq res \<longleftrightarrow> (\<exists>r \<in> set (db_events db). ev_event_id r = rq_event_id rq \<and>
     ar_sequence_number res = ev_sequence_number r \<and> ar_chain_hash res = ev_chain_hash r)"

definition client_ok :: "audit_db \<Rightarrow> nat option \<Rightarrow> nat \<Rightarrow> client \<Rightarrow> bool" where
  "client_ok db lock i c \<longleftrightarrow> (case c of
     HasLock rq \<Rightarrow> lock = Some i
   | Wrote rq r \<Rightarrow> lock = Some i \<and> pending_ok db rq r
   | Finished rq res \<Rightarrow> result_stored db rq res
   | _ \<Rightarrow> True)"

definition system_inv :: "system \<Rightarrow> bool" where
  "system_inv s \<longleftrightarrow> audit_inv (sys_db s) \<and> (\<forall>i. client_ok (sys_db s) (sys_lock s) i (sys_clients s i))"

lemma burn_sequence_inv: "audit_inv db \<Longrightarrow> audit_inv (burn_sequence db)"
  by (auto simp: audit_inv_def burn_sequence_def list_all_iff)

lemma result_stored_burn [simp]: "result_stored (burn_sequence db) = result_stored db"
  by (intro ext) (simp add: result_stored_def burn_sequence_def)

lemma result_stored_append: "result_stored db rq res \<Longrightarrow> result_stored (append_row r db) rq res"
  by (auto simp: result_stored_def append_row_def)

lemma result_stored_erase: "result_stored db rq res \<Longrightarrow> result_stored (erase_rows now s reason db) rq res"
proof -
  assume "result_stored db rq res"
  then obtain r where r: "r \<in> set (db_events db)" "ev_event_id r = rq_event_id rq"
    "ar_sequence_number res = ev_sequence_number r" "ar_chain_hash res = ev_chain_hash r"
    by (auto simp: result_stored_def)
  let ?r = "if erases s r then erase_row now reason r else r"
  have "?r \<in> set (db_events (erase_rows now s reason db))"
    using r(1) by (simp add: erase_rows_def set_update_where)
  then show ?thesis using r unfolding result_stored_def by (auto intro!: bexI[of _ ?r])
qed

lemma append_row_erase:
  "append_row r (erase_rows now s reason db) =
     (append_row r db)\<lparr>db_events := update_where (erases s) (erase_row now reason) (db_events db) @ [r]\<rparr>"
  by (simp add: append_row_def erase_rows_def)

lemma pending_erase:
  assumes "pending_ok db rq r" "erase_subject_payloads now s reason db = Inr (n, db')"
  shows "pending_ok db' rq r"
proof -
  let ?up = "update_where (erases s) (erase_row now reason)"
  have inv: "audit_inv (append_row r db)" using assms(1) by (simp add: pending_ok_def)
  have db': "db' = erase_rows now s reason db" by (rule erase_Inr(2)[OF assms(2)])
  have up: "?up (db_events db) @ [r] = db_events (append_row r db')"
    by (simp add: db' append_row_erase)
  have rows: "db_events (append_row r db) = db_events db @ [r]" by (simp add: append_row_def)
  have ok: "list_all event_ok (?up (db_events db))"
    using erase_Inr(3)[OF assms(2)] audit_invD(4)[OF inv] rows
    by (auto simp: list_all_iff set_update_where event_ok_def)
  have ch: "chained (base_hash db) (db_events db @ [r])"
    using audit_invD(6)[OF inv] by (simp add: append_row_def)
  then have "chained (base_hash db) (?up (db_events db) @ [r])"
    using chained_erase[of "base_hash db" "db_events db"] by (simp add: linked_snoc chain_end_erase)
  moreover have seqs: "map ev_sequence_number (?up (db_events db)) = map ev_sequence_number (db_events db)"
    and ids: "map ev_event_id (?up (db_events db)) = map ev_event_id (db_events db)"
    by (simp_all add: map_update_where)
  moreover have "ev_event_id ` set (?up (db_events db)) = ev_event_id ` set (db_events db)"
    using ids by (metis set_map)
  moreover have "\<forall>x \<in> set (?up (db_events db)). sealed_through db < ev_sequence_number x \<and>
      ev_sequence_number x < db_next_event db + 1"
    using audit_invD(2,3)[OF inv] by (auto simp: set_update_where append_row_def)
  moreover have "sorted_wrt (<) (map ev_sequence_number (?up (db_events db) @ [r]))"
    "distinct (map ev_event_id (?up (db_events db) @ [r]))"
    using audit_invD(1,5)[OF inv] unfolding rows map_append seqs ids by simp_all
  ultimately show ?thesis using inv ok assms(1)
    by (simp add: pending_ok_def audit_inv_def append_row_def db' erase_rows_def list_all_iff)
qed

lemma client_ok_mono:
  assumes "client_ok db lock i c" "\<And>rq res. result_stored db rq res \<Longrightarrow> result_stored db' rq res"
    and "lock = Some i \<Longrightarrow> lock' = Some i"
    and "\<And>rq r. lock = Some i \<Longrightarrow> pending_ok db rq r \<Longrightarrow> pending_ok db' rq r"
  shows "client_ok db' lock' i c"
  using assms by (cases c) (auto simp: client_ok_def)

lemma find_result_stored:
  "find_by_event_id (rq_event_id rq) db = Some r \<Longrightarrow> result_stored db rq (duplicate_of r)"
  using find_by_event_id_Some by (auto simp: result_stored_def duplicate_of_def intro!: bexI[of _ r])

lemma others_keep:
  assumes "\<forall>j. client_ok db lock j (sys_clients s j)" "lock = Some i"
    and "\<And>rq res. result_stored db rq res \<Longrightarrow> result_stored db' rq res"
  shows "\<forall>j. j \<noteq> i \<longrightarrow> client_ok db' None j (sys_clients s j)"
proof (intro allI impI)
  fix j assume "j \<noteq> i"
  then show "client_ok db' None j (sys_clients s j)"
    using client_ok_mono[of db lock j "sys_clients s j" db' None] assms by simp
qed

lemma step_keeps_inv:
  assumes "step parse s s'" "system_inv s"
  shows "system_inv s'"
proof -
  have inv: "audit_inv (sys_db s)" and cl: "\<forall>j. client_ok (sys_db s) (sys_lock s) j (sys_clients s j)"
    using assms(2) by (auto simp: system_inv_def)
  note here = cl[rule_format]
  show ?thesis using assms(1)
  proof cases
    case (arrive i rq)
    then show ?thesis using inv here by (auto simp: system_inv_def set_client_def client_ok_def)
  next
    case (found_early i rq r)
    then show ?thesis using inv here find_result_stored
      by (auto simp: system_inv_def set_client_def client_ok_def)
  next
    case (not_found i rq)
    then show ?thesis using inv here by (auto simp: system_inv_def set_client_def client_ok_def)
  next
    case (acquire i rq)
    have "client_ok (sys_db s) (Some i) j (sys_clients s j)" for j
      using client_ok_mono[OF here[of j], of "sys_db s" "Some i"] acquire(3) by simp
    then show ?thesis using inv acquire by (auto simp: system_inv_def set_client_def client_ok_def[of _ _ _ "HasLock rq"])
  next
    case (found_locked i rq r)
    have lock: "sys_lock s = Some i" using here[of i] found_locked(2) by (simp add: client_ok_def)
    have "\<forall>j. j \<noteq> i \<longrightarrow> client_ok (sys_db s) None j (sys_clients s j)" by (rule others_keep[OF cl lock])
    then show ?thesis using inv found_locked find_result_stored[OF found_locked(3)]
      by (auto simp: system_inv_def set_client_def client_ok_def[of _ _ i])
  next
    case (insert_row i rq now res db')
    have lock: "sys_lock s = Some i" using here[of i] insert_row(2) by (simp add: client_ok_def)
    have "pending_ok (sys_db s) rq (last (db_events db'))"
      using inv insert_row(4)
    proof (cases rule: append_locked_cases)
      case (duplicate r)
      then show ?thesis using insert_row(3) by simp
    next
      case (fresh r)
      then have "last (db_events db') = r" by (simp add: append_row_def)
      then show ?thesis using append_row_inv[OF inv fresh(5,4,2)] fresh by (simp add: pending_ok_def appended_row_sel)
    qed
    then show ?thesis using inv insert_row here lock
      by (auto simp: system_inv_def set_client_def client_ok_def[of _ _ i])
  next
    case (insert_fails i rq now e)
    have lock: "sys_lock s = Some i" using here[of i] insert_fails(2) by (simp add: client_ok_def)
    have "\<forall>j. j \<noteq> i \<longrightarrow> client_ok (burn_sequence (sys_db s)) None j (sys_clients s j)"
      by (rule others_keep[OF cl lock]) simp
    then show ?thesis using burn_sequence_inv[OF inv] insert_fails
      by (auto simp: system_inv_def set_client_def client_ok_def[of _ _ i])
  next
    case (commit i rq r)
    have lock: "sys_lock s = Some i" "pending_ok (sys_db s) rq r"
      using here[of i] commit(2) by (simp_all add: client_ok_def)
    have "\<forall>j. j \<noteq> i \<longrightarrow> client_ok (append_row r (sys_db s)) None j (sys_clients s j)"
      by (rule others_keep[OF cl lock(1)]) (rule result_stored_append)
    moreover have "result_stored (append_row r (sys_db s)) rq (accepted_as r)"
      using lock(2) by (auto simp: result_stored_def append_row_def accepted_as_def pending_ok_def)
    ultimately show ?thesis using lock(2) commit
      by (auto simp: system_inv_def set_client_def client_ok_def[of _ _ i] pending_ok_def)
  next
    case (rollback i rq r)
    have lock: "sys_lock s = Some i" using here[of i] rollback(2) by (simp add: client_ok_def)
    have "\<forall>j. j \<noteq> i \<longrightarrow> client_ok (burn_sequence (sys_db s)) None j (sys_clients s j)"
      by (rule others_keep[OF cl lock]) simp
    then show ?thesis using burn_sequence_inv[OF inv] rollback
      by (auto simp: system_inv_def set_client_def client_ok_def[of _ _ i])
  next
    case (erase now subject_id reason n db')
    have "client_ok db' (sys_lock s) j (sys_clients s j)" for j
      using client_ok_mono[OF here[of j], of db' "sys_lock s"] erase(2) pending_erase
        result_stored_erase erase_Inr(2)[OF erase(2)] by blast
    then show ?thesis using erase erase_rows_inv[OF inv erase(2)] by (simp add: system_inv_def)
  qed
qed

lemma reachable_inv: "reachable parse s \<Longrightarrow> system_inv s"
proof (induction rule: reachable.induct)
  case init
  then show ?case by (simp add: system_inv_def initial_system_def empty_db_inv client_ok_def)
next
  case (extend s s')
  then show ?case using step_keeps_inv by blast
qed

text \<open>C4: However appends, rollbacks and erasures interleave, the committed log is always one
  chain without forks: it satisfies the invariant and verifies as intact.  No event id is
  stored twice, and a client that has been told a position and a chain hash finds a row with
  its event id, that position and that hash in the log.\<close>

theorem interleaved_appends_one_chain:
  assumes "reachable parse s"
  shows "audit_inv (sys_db s) \<and> distinct (map ev_event_id (db_events (sys_db s))) \<and>
    (\<exists>v e. verify None None (sys_db s) = Inr (intact v e)) \<and>
    (\<forall>i rq res. sys_clients s i = Finished rq res \<longrightarrow> result_stored (sys_db s) rq res)"
proof -
  have inv: "system_inv s" by (rule reachable_inv[OF assms])
  then have a: "audit_inv (sys_db s)" by (simp add: system_inv_def)
  have "result_stored (sys_db s) rq res" if "sys_clients s i = Finished rq res" for i rq res
  proof -
    have "client_ok (sys_db s) (sys_lock s) i (sys_clients s i)" using inv by (simp add: system_inv_def)
    then show ?thesis using that by (simp add: client_ok_def)
  qed
  then show ?thesis using a verify_inv[OF a, of None None] audit_invD(5)[OF a] by blast
qed

lemma sample_locked: "append_locked sample_parse 9 sample_request empty_db = Inr (accepted_as sample_row, sample_db)"
  using sample_append by (simp add: append_event_locked)

lemma sample_run:
  "\<exists>s. reachable sample_parse s \<and> sys_clients s 4 = Finished sample_request (accepted_as sample_row) \<and> sys_db s = sample_db"
proof -
  let ?s1 = "set_client 4 (Starting sample_request) initial_system"
  let ?s2 = "set_client 4 (AwaitLock sample_request) ?s1"
  let ?s3 = "(set_client 4 (HasLock sample_request) ?s2)\<lparr>sys_lock := Some 4\<rparr>"
  let ?s4 = "set_client 4 (Wrote sample_request (last (db_events sample_db))) ?s3"
  note sel = set_client_def initial_system_def
  have "reachable sample_parse ?s1"
    by (rule reachable.extend[OF reachable.init step.arrive]) (simp add: sel)
  then have "reachable sample_parse ?s2"
    by (rule reachable.extend[OF _ step.not_found]) (simp_all add: sel)
  then have "reachable sample_parse ?s3"
    by (rule reachable.extend[OF _ step.acquire]) (simp_all add: sel)
  then have "reachable sample_parse ?s4"
    by (rule reachable.extend[OF _ step.insert_row]) (use sample_locked in \<open>simp_all add: sel\<close>)
  moreover have "sys_clients ?s4 4 = Wrote sample_request sample_row"
    by (simp add: sel sample_db_events)
  ultimately have "reachable sample_parse ((set_client 4 (Finished sample_request (accepted_as sample_row)) ?s4)
      \<lparr>sys_lock := None, sys_db := append_row sample_row (sys_db ?s4)\<rparr>)"
    using reachable.extend[OF _ step.commit] by blast
  then show ?thesis
    by (intro exI conjI) (assumption, simp_all add: sel sample_db_def)
qed

theorem interleaved_appends_one_chain_witness:
  "\<exists>s. reachable sample_parse s \<and> result_stored sample_db sample_request (accepted_as sample_row)"
proof -
  obtain s where s: "reachable sample_parse s" "sys_clients s 4 = Finished sample_request (accepted_as sample_row)"
    "sys_db s = sample_db" using sample_run by blast
  then show ?thesis using interleaved_appends_one_chain[OF s(1)] by auto
qed

end
