(* ===== verification/AuthStore.thy ===== *)
theory AuthStore
  imports Sha256 PyText
begin

text \<open>
  The state of the auth service: the tables of \<^verbatim>\<open>services/auth/app/db/models\<close> with the
  statements of \<^verbatim>\<open>app/repositories\<close>, and the Redis keys of \<^verbatim>\<open>app/core/redis.py\<close>.  A row
  deleted from \<^verbatim>\<open>users\<close> or \<^verbatim>\<open>sessions\<close> takes the rows that reference it with it.
  Events queued for the audit service are kept as values; their protobuf form is not modelled.
\<close>

section \<open>Tables\<close>

record user =
  us_id :: uuid
  us_username :: string
  us_password_hash :: string
  us_roles :: "string list"
  us_is_active :: bool
  us_created_at :: datetime

record login_session =
  se_id :: uuid
  se_user_id :: uuid
  se_source_ip :: string
  se_user_agent :: string
  se_revoked :: bool
  se_created_at :: datetime
  se_last_used_at :: datetime

record refresh_token =
  rt_jti :: uuid
  rt_family_id :: uuid
  rt_session_id :: uuid
  rt_token_hash :: string
  rt_rotated_from :: "uuid option"
  rt_revoked :: bool
  rt_rotated_at :: "datetime option"
  rt_replaced_by :: "uuid option"
  rt_expires_at :: datetime

record telegram_binding =
  tb_user_id :: uuid
  tb_telegram_user_id :: int
  tb_created_at :: datetime

datatype auth_event =
    LoginSuccess uuid uuid "string list"
  | LoginFailure string int int
  | ThrottleTriggered string int
  | TokenRefreshed uuid uuid uuid
  | RefreshReuseDetected "uuid option" uuid uuid
  | SessionEnded string string int
  | AdminUserCreated uuid uuid
  | AdminRolesGranted uuid uuid
  | AdminRolesRevoked uuid uuid
  | AdminUserEnabled uuid uuid
  | AdminUserDisabled uuid uuid
  | AdminPasswordReset uuid uuid
  | AdminSessionRevoked uuid uuid
  | AdminSessionRevokedBy string string
  | TelegramLinkChanged uuid "int option" "int option"
  | SubjectErasure uuid string int bool

definition USER_LOGOUT :: int where "USER_LOGOUT = 1"
definition SESSION_REVOKED :: int where "SESSION_REVOKED = 3"

record auth_db =
  au_users :: "user list"
  au_sessions :: "login_session list"
  au_tokens :: "refresh_token list"
  au_bindings :: "telegram_binding list"
  au_outbox :: "auth_event list"

text \<open>The text of a UUID as the database returns it.\<close>

definition str_uuid :: "uuid \<Rightarrow> string" where
  "str_uuid n = (let h = hex (be_bytes 16 n) in take 8 h @ ''-'' @ take 4 (drop 8 h) @ ''-'' @
     take 4 (drop 12 h) @ ''-'' @ take 4 (drop 16 h) @ ''-'' @ drop 20 h)"

datatype store_error = UniqueViolation | ForeignKeyViolation

definition ADMIN :: string where "ADMIN = ''admin''"

section \<open>Refresh tokens\<close>

definition get_by_jti :: "uuid \<Rightarrow> auth_db \<Rightarrow> refresh_token option" where
  "get_by_jti jti db = first_row (filter (\<lambda>t. rt_jti t = jti) (au_tokens db))"

definition get_by_jti_and_hash :: "uuid \<Rightarrow> string \<Rightarrow> auth_db \<Rightarrow> refresh_token option" where
  "get_by_jti_and_hash jti h db =
     first_row (filter (\<lambda>t. rt_jti t = jti \<and> rt_token_hash t = h) (au_tokens db))"

definition create_token ::
  "uuid \<Rightarrow> uuid \<Rightarrow> uuid \<Rightarrow> string \<Rightarrow> datetime \<Rightarrow> uuid option \<Rightarrow> auth_db \<Rightarrow> store_error + auth_db" where
  "create_token jti family_id session_id token_hash expires_at rotated_from db =
     (if list_ex (\<lambda>t. rt_jti t = jti \<or> rt_token_hash t = token_hash) (au_tokens db) then Inl UniqueViolation
      else if \<not> list_ex (\<lambda>s. se_id s = session_id) (au_sessions db) then Inl ForeignKeyViolation
      else Inr (db\<lparr>au_tokens := au_tokens db @ [\<lparr>rt_jti = jti, rt_family_id = family_id,
        rt_session_id = session_id, rt_token_hash = token_hash, rt_rotated_from = rotated_from,
        rt_revoked = False, rt_rotated_at = None, rt_replaced_by = None, rt_expires_at = expires_at\<rparr>]\<rparr>))"

definition mark_rotated :: "datetime \<Rightarrow> uuid \<Rightarrow> uuid \<Rightarrow> auth_db \<Rightarrow> auth_db" where
  "mark_rotated now jti replaced_by db = db\<lparr>au_tokens := update_where (\<lambda>t. rt_jti t = jti)
     (\<lambda>t. t\<lparr>rt_revoked := True, rt_rotated_at := Some now, rt_replaced_by := Some replaced_by\<rparr>) (au_tokens db)\<rparr>"

definition revoke_family :: "uuid \<Rightarrow> auth_db \<Rightarrow> auth_db" where
  "revoke_family family_id db = db\<lparr>au_tokens := update_where (\<lambda>t. rt_family_id t = family_id)
     (\<lambda>t. t\<lparr>rt_revoked := True\<rparr>) (au_tokens db)\<rparr>"

section \<open>Sessions\<close>

definition create_session ::
  "datetime \<Rightarrow> uuid \<Rightarrow> uuid \<Rightarrow> string \<Rightarrow> string \<Rightarrow> auth_db \<Rightarrow> store_error + auth_db" where
  "create_session now session_id user_id ip agent db =
     (if list_ex (\<lambda>s. se_id s = session_id) (au_sessions db) then Inl UniqueViolation
      else Inr (db\<lparr>au_sessions := au_sessions db @ [\<lparr>se_id = session_id, se_user_id = user_id,
        se_source_ip = ip, se_user_agent = agent, se_revoked = False, se_created_at = now,
        se_last_used_at = now\<rparr>]\<rparr>))"

definition session_by_id :: "uuid \<Rightarrow> auth_db \<Rightarrow> login_session option" where
  "session_by_id i db = first_row (filter (\<lambda>s. se_id s = i) (au_sessions db))"

definition touch_session :: "datetime \<Rightarrow> uuid \<Rightarrow> auth_db \<Rightarrow> auth_db" where
  "touch_session now i db = db\<lparr>au_sessions := update_where (\<lambda>s. se_id s = i \<and> \<not> se_revoked s)
     (\<lambda>s. s\<lparr>se_last_used_at := now\<rparr>) (au_sessions db)\<rparr>"

definition idle_ids :: "datetime \<Rightarrow> auth_db \<Rightarrow> uuid list" where
  "idle_ids cutoff db = map se_id (filter (\<lambda>s. \<not> se_revoked s \<and> se_last_used_at s < cutoff) (au_sessions db))"

definition revoke_where :: "(login_session \<Rightarrow> bool) \<Rightarrow> auth_db \<Rightarrow> nat \<times> auth_db" where
  "revoke_where P db = (count_where (\<lambda>s. P s \<and> \<not> se_revoked s) (au_sessions db),
     db\<lparr>au_sessions := update_where (\<lambda>s. P s \<and> \<not> se_revoked s) (\<lambda>s. s\<lparr>se_revoked := True\<rparr>) (au_sessions db)\<rparr>)"

definition revoke_ids :: "uuid list \<Rightarrow> auth_db \<Rightarrow> nat \<times> auth_db" where
  "revoke_ids ids db = (if ids = [] then (0, db) else revoke_where (\<lambda>s. se_id s \<in> set ids) db)"

definition revoke_session :: "uuid \<Rightarrow> auth_db \<Rightarrow> bool \<times> auth_db" where
  "revoke_session i db = (case revoke_where (\<lambda>s. se_id s = i) db of (n, db') \<Rightarrow> (n = 1, db'))"

definition revoke_all_for_user :: "uuid \<Rightarrow> auth_db \<Rightarrow> nat \<times> auth_db" where
  "revoke_all_for_user u db = revoke_where (\<lambda>s. se_user_id s = u) db"

definition live_ids_for_user :: "uuid \<Rightarrow> auth_db \<Rightarrow> uuid list" where
  "live_ids_for_user u db = map se_id (filter (\<lambda>s. se_user_id s = u \<and> \<not> se_revoked s) (au_sessions db))"

definition last_used_by_user :: "uuid list \<Rightarrow> auth_db \<Rightarrow> uuid \<Rightarrow> datetime option" where
  "last_used_by_user ids db u = (if u \<notin> set ids then None
     else case map se_last_used_at (filter (\<lambda>s. se_user_id s = u) (au_sessions db)) of
       [] \<Rightarrow> None | t # ts \<Rightarrow> Some (foldl max t ts))"

definition count_live :: "datetime \<Rightarrow> auth_db \<Rightarrow> nat" where
  "count_live now db = length (remdups (map se_id (filter (\<lambda>s. \<not> se_revoked s \<and>
     list_ex (\<lambda>u. us_id u = se_user_id s \<and> us_is_active u) (au_users db) \<and>
     list_ex (\<lambda>t. rt_session_id t = se_id s \<and> \<not> rt_revoked t \<and> rt_expires_at t > now) (au_tokens db))
     (au_sessions db))))"

definition delete_sessions_for_user :: "uuid \<Rightarrow> auth_db \<Rightarrow> nat \<times> auth_db" where
  "delete_sessions_for_user u db = (let gone = map se_id (filter (\<lambda>s. se_user_id s = u) (au_sessions db)) in
     (length gone, db\<lparr>au_sessions := filter (\<lambda>s. se_user_id s \<noteq> u) (au_sessions db),
        au_tokens := filter (\<lambda>t. rt_session_id t \<notin> set gone) (au_tokens db)\<rparr>))"

section \<open>Users\<close>

definition get_by_username :: "string \<Rightarrow> auth_db \<Rightarrow> user option" where
  "get_by_username n db = first_row (filter (\<lambda>u. us_username u = n) (au_users db))"

definition user_by_id :: "uuid \<Rightarrow> auth_db \<Rightarrow> user option" where
  "user_by_id i db = first_row (filter (\<lambda>u. us_id u = i) (au_users db))"

definition create_user_row ::
  "datetime \<Rightarrow> uuid \<Rightarrow> string \<Rightarrow> string \<Rightarrow> string list \<Rightarrow> auth_db \<Rightarrow> store_error + auth_db" where
  "create_user_row now i username password_hash roles db =
     (if list_ex (\<lambda>u. us_id u = i \<or> us_username u = username) (au_users db) then Inl UniqueViolation
      else Inr (db\<lparr>au_users := au_users db @ [\<lparr>us_id = i, us_username = username,
        us_password_hash = password_hash, us_roles = roles, us_is_active = True, us_created_at = now\<rparr>]\<rparr>))"

definition update_user :: "uuid \<Rightarrow> (user \<Rightarrow> user) \<Rightarrow> auth_db \<Rightarrow> auth_db" where
  "update_user i g db = db\<lparr>au_users := update_where (\<lambda>u. us_id u = i) g (au_users db)\<rparr>"

definition count_admins :: "auth_db \<Rightarrow> nat" where
  "count_admins db = count_where (\<lambda>u. ADMIN \<in> set (us_roles u) \<and> us_is_active u) (au_users db)"

definition count_by_active :: "auth_db \<Rightarrow> nat \<times> nat" where
  "count_by_active db = (count_where us_is_active (au_users db), count_where (\<lambda>u. \<not> us_is_active u) (au_users db))"

definition delete_user_row :: "uuid \<Rightarrow> auth_db \<Rightarrow> auth_db" where
  "delete_user_row i db = db\<lparr>au_users := filter (\<lambda>u. us_id u \<noteq> i) (au_users db),
     au_bindings := filter (\<lambda>b. tb_user_id b \<noteq> i) (au_bindings db)\<rparr>"

section \<open>Telegram bindings and the outbox\<close>

definition binding_for_user :: "uuid \<Rightarrow> auth_db \<Rightarrow> telegram_binding option" where
  "binding_for_user u db = first_row (filter (\<lambda>b. tb_user_id b = u) (au_bindings db))"

definition binding_by_telegram_id :: "int \<Rightarrow> auth_db \<Rightarrow> telegram_binding option" where
  "binding_by_telegram_id n db = first_row (filter (\<lambda>b. tb_telegram_user_id b = n) (au_bindings db))"

definition bind_telegram_row :: "datetime \<Rightarrow> uuid \<Rightarrow> int \<Rightarrow> auth_db \<Rightarrow> store_error + auth_db" where
  "bind_telegram_row now u n db =
     (if list_ex (\<lambda>b. tb_telegram_user_id b = n \<and> tb_user_id b \<noteq> u) (au_bindings db) then Inl UniqueViolation
      else if list_ex (\<lambda>b. tb_user_id b = u) (au_bindings db)
      then Inr (db\<lparr>au_bindings := update_where (\<lambda>b. tb_user_id b = u)
        (\<lambda>b. b\<lparr>tb_telegram_user_id := n, tb_created_at := now\<rparr>) (au_bindings db)\<rparr>)
      else if \<not> list_ex (\<lambda>w. us_id w = u) (au_users db) then Inl ForeignKeyViolation
      else Inr (db\<lparr>au_bindings := au_bindings db @
        [\<lparr>tb_user_id = u, tb_telegram_user_id = n, tb_created_at = now\<rparr>]\<rparr>))"

definition unbind_telegram_row :: "uuid \<Rightarrow> auth_db \<Rightarrow> int option \<times> auth_db" where
  "unbind_telegram_row u db = (map_option tb_telegram_user_id (binding_for_user u db),
     db\<lparr>au_bindings := filter (\<lambda>b. tb_user_id b \<noteq> u) (au_bindings db)\<rparr>)"

definition enqueue :: "auth_event \<Rightarrow> auth_db \<Rightarrow> auth_db" where
  "enqueue e db = db\<lparr>au_outbox := au_outbox db @ [e]\<rparr>"

lemma enqueue_sel [simp]:
  "au_users (enqueue e db) = au_users db" "au_sessions (enqueue e db) = au_sessions db"
  "au_tokens (enqueue e db) = au_tokens db" "au_bindings (enqueue e db) = au_bindings db"
  "au_outbox (enqueue e db) = au_outbox db @ [e]"
  by (simp_all add: enqueue_def)

section \<open>Redis\<close>

text \<open>Every key holds a value and the time it expires, if any.\<close>

type_synonym 'v entry = "('v \<times> datetime option) option"

definition live :: "datetime \<Rightarrow> 'v entry \<Rightarrow> 'v option" where
  "live now e = (case e of None \<Rightarrow> None | Some (v, None) \<Rightarrow> Some v
     | Some (v, Some t) \<Rightarrow> if now < t then Some v else None)"

record auth_cache =
  ca_failures :: "string \<Rightarrow> int entry"
  ca_revoked_jti :: "string \<Rightarrow> unit entry"
  ca_revoked_sid :: "string \<Rightarrow> unit entry"
  ca_published :: "string list"
  ca_links :: "string \<Rightarrow> uuid entry"
  ca_owners :: "uuid \<Rightarrow> string entry"

record lockout_settings =
  ls_max_attempts :: int
  ls_window_seconds :: int
  ls_block_seconds :: int

definition pttl_ms :: "datetime \<Rightarrow> 'v entry \<Rightarrow> int" where
  "pttl_ms now e = (case live now e of None \<Rightarrow> - 2
     | Some v \<Rightarrow> (case e of Some (_, Some t) \<Rightarrow> (t - now) div 1000 | _ \<Rightarrow> - 1))"

definition check_script :: "datetime \<Rightarrow> int \<Rightarrow> int entry \<Rightarrow> int \<times> int" where
  "check_script now limit e = (let count = (case live now e of None \<Rightarrow> 0 | Some n \<Rightarrow> n) in
     if count \<ge> limit then (let ttl = pttl_ms now e in (1, if ttl < 0 then 0 else ttl)) else (0, 0))"

definition record_script :: "datetime \<Rightarrow> int \<Rightarrow> int \<Rightarrow> int \<Rightarrow> int entry \<Rightarrow> (int \<times> int) \<times> int entry" where
  "record_script now limit window_ms block_ms e =
     (let (count, expiry) = (case live now e of None \<Rightarrow> (1, None) | Some n \<Rightarrow> (n + 1, snd (the e)));
          expiry = (if count = 1 then Some (now + window_ms * 1000) else expiry)
      in if count = limit then ((1, count), Some (count, Some (now + block_ms * 1000)))
         else if count > limit then ((0, count), Some (count, Some (now + block_ms * 1000)))
         else ((0, count), Some (count, expiry)))"

definition login_key :: "string \<Rightarrow> string \<Rightarrow> string" where
  "login_key ip username = ''login:fail:'' @ ip @ '':'' @ username"

definition check_login :: "lockout_settings \<Rightarrow> datetime \<Rightarrow> string \<Rightarrow> string \<Rightarrow> auth_cache \<Rightarrow> bool \<times> int" where
  "check_login ls now ip username ca =
     (case check_script now (ls_max_attempts ls) (ca_failures ca (login_key ip username)) of (l, ms) \<Rightarrow> (l \<noteq> 0, ms))"

definition record_failure ::
  "lockout_settings \<Rightarrow> datetime \<Rightarrow> string \<Rightarrow> string \<Rightarrow> auth_cache \<Rightarrow> (bool \<times> int) \<times> auth_cache" where
  "record_failure ls now ip username ca =
     (case record_script now (ls_max_attempts ls) (ls_window_seconds ls * 1000) (ls_block_seconds ls * 1000)
         (ca_failures ca (login_key ip username)) of
       ((t, n), e) \<Rightarrow> ((t \<noteq> 0, n), ca\<lparr>ca_failures := (ca_failures ca)(login_key ip username := e)\<rparr>))"

definition reset_failures :: "string \<Rightarrow> string \<Rightarrow> auth_cache \<Rightarrow> auth_cache" where
  "reset_failures ip username ca = ca\<lparr>ca_failures := (ca_failures ca)(login_key ip username := None)\<rparr>"

definition revoke_jti :: "datetime \<Rightarrow> string \<Rightarrow> int \<Rightarrow> auth_cache \<Rightarrow> auth_cache" where
  "revoke_jti now jti ttl ca =
     ca\<lparr>ca_revoked_jti := (ca_revoked_jti ca)(jti := Some ((), Some (now + seconds ttl)))\<rparr>"

definition revoke_sid :: "datetime \<Rightarrow> string \<Rightarrow> int \<Rightarrow> auth_cache \<Rightarrow> auth_cache" where
  "revoke_sid now sid ttl ca =
     ca\<lparr>ca_revoked_sid := (ca_revoked_sid ca)(sid := Some ((), Some (now + seconds ttl))),
        ca_published := ca_published ca @ [sid]\<rparr>"

definition is_token_revoked :: "datetime \<Rightarrow> string \<Rightarrow> string \<Rightarrow> auth_cache \<Rightarrow> bool" where
  "is_token_revoked now jti sid ca \<longleftrightarrow>
     live now (ca_revoked_jti ca jti) \<noteq> None \<or> live now (ca_revoked_sid ca sid) \<noteq> None"

definition store_telegram_link :: "datetime \<Rightarrow> uuid \<Rightarrow> string \<Rightarrow> int \<Rightarrow> auth_cache \<Rightarrow> auth_cache" where
  "store_telegram_link now u h ttl ca =
     (let previous = live now (ca_owners ca u);
          links = (ca_links ca)(h := Some (u, Some (now + seconds ttl)));
          ca' = ca\<lparr>ca_links := links, ca_owners := (ca_owners ca)(u := Some (h, Some (now + seconds ttl)))\<rparr>
      in case previous of None \<Rightarrow> ca'
         | Some p \<Rightarrow> if p \<noteq> '''' \<and> p \<noteq> h then ca'\<lparr>ca_links := links(p := None)\<rparr> else ca')"

definition consume_telegram_link :: "datetime \<Rightarrow> string \<Rightarrow> auth_cache \<Rightarrow> uuid option \<times> auth_cache" where
  "consume_telegram_link now h ca =
     (live now (ca_links ca h), ca\<lparr>ca_links := (ca_links ca)(h := None)\<rparr>)"

end
