(* ===== verification/AuthSessions.thy ===== *)
theory AuthSessions
  imports AuthStore
begin

text \<open>
  Login, refresh and logout (\<^verbatim>\<open>services/auth/app/api/v1/auth.py\<close>).  Password hashing
  (argon2) and the signed access token (JWT) are libraries: verifying a password is an
  argument, and an access token is represented by the claims it carries.  Fresh identifiers,
  secrets and the clock are arguments of each request.  Reading an IP address
  (\<^verbatim>\<open>ipaddress\<close>) is an argument as well.  An error that no handler catches is a 500.
\<close>

section \<open>Requests\<close>

record auth_settings =
  as_access_token_ttl :: int
  as_refresh_token_ttl :: int
  as_refresh_grace :: int
  as_lockout :: lockout_settings

record access_claims =
  cl_sub :: uuid
  cl_username :: string
  cl_roles :: "string list"
  cl_sid :: uuid
  cl_jti :: string
  cl_exp :: int

datatype http_failure = HttpFailure nat string

record http_request =
  hr_peer :: string
  hr_server_port :: "int option"
  hr_forwarded_for :: string
  hr_user_agent :: string
  hr_cookies :: "string \<Rightarrow> string option"
  hr_csrf_header :: "string option"

definition on_edge_listener :: "int option \<Rightarrow> http_request \<Rightarrow> bool" where
  "on_edge_listener edge_port r \<longleftrightarrow> edge_port \<noteq> None \<and> hr_server_port r \<noteq> None \<and> hr_server_port r = edge_port"

definition forwarded_hops :: "string \<Rightarrow> string list" where
  "forwarded_hops forwarded = filter (\<lambda>h. h \<noteq> '''') (map (strip_chars is_white) (split_on (CHR '','') forwarded))"

fun first_untrusted :: "(string \<Rightarrow> 'a option) \<Rightarrow> ('a \<Rightarrow> bool) \<Rightarrow> string list \<Rightarrow> string option" where
  "first_untrusted parse trusted [] = None"
| "first_untrusted parse trusted (h # hs) = (case parse h of
     None \<Rightarrow> first_untrusted parse trusted hs
   | Some a \<Rightarrow> if trusted a then first_untrusted parse trusted hs else Some h)"

definition client_ip ::
  "(string \<Rightarrow> 'a option) \<Rightarrow> ('a \<Rightarrow> bool) \<Rightarrow> int option \<Rightarrow> http_request \<Rightarrow> string" where
  "client_ip parse trusted edge_port r = (let peer = hr_peer r in
     if peer = '''' then ''''
     else case parse peer of None \<Rightarrow> peer
     | Some a \<Rightarrow>
       if \<not> (on_edge_listener edge_port r \<or> trusted a) then peer
       else if hr_forwarded_for r = '''' then peer
       else case first_untrusted parse trusted (rev (forwarded_hops (hr_forwarded_for r))) of
         Some h \<Rightarrow> h | None \<Rightarrow> peer)"

definition user_agent :: "http_request \<Rightarrow> string" where
  "user_agent r = take 512 (hr_user_agent r)"

definition csrf_protect :: "string \<Rightarrow> http_request \<Rightarrow> http_failure + unit" where
  "csrf_protect csrf_cookie_name r = (case (hr_cookies r csrf_cookie_name, hr_csrf_header r) of
     (Some c, Some h) \<Rightarrow> if c = '''' \<or> h = '''' then Inl (HttpFailure 403 ''csrf token missing'')
        else if utf8 c \<noteq> utf8 h then Inl (HttpFailure 403 ''csrf token mismatch'') else Inr ()
   | _ \<Rightarrow> Inl (HttpFailure 403 ''csrf token missing''))"

section \<open>Refresh tokens as the client holds them\<close>

definition hash_refresh_secret :: "string \<Rightarrow> string" where
  "hash_refresh_secret secret = hex (sha256 (utf8 secret))"

definition split_refresh_token :: "string \<Rightarrow> (string \<times> string) option" where
  "split_refresh_token raw = (let jti = takeWhile (\<lambda>c. c \<noteq> CHR ''.'') raw;
       rest = dropWhile (\<lambda>c. c \<noteq> CHR ''.'') raw
     in if rest = [] \<or> jti = [] \<or> tl rest = [] then None else Some (jti, tl rest))"

definition build_refresh_token :: "string \<Rightarrow> string \<Rightarrow> string" where
  "build_refresh_token jti secret = jti @ ''.'' @ secret"

section \<open>Which token a presented one stands for\<close>

definition MAX_SUCCESSOR_HOPS :: nat where "MAX_SUCCESSOR_HOPS = 3"

fun follow_successors :: "nat \<Rightarrow> datetime \<Rightarrow> auth_db \<Rightarrow> refresh_token \<Rightarrow> refresh_token option" where
  "follow_successors 0 now db cursor = None"
| "follow_successors (Suc n) now db cursor = (case rt_replaced_by cursor of
     None \<Rightarrow> None
   | Some j \<Rightarrow> (case get_by_jti j db of
       None \<Rightarrow> None
     | Some candidate \<Rightarrow> if \<not> rt_revoked candidate \<and> rt_expires_at candidate > now then Some candidate
         else follow_successors n now db candidate))"

definition resolve_presented_refresh :: "datetime \<Rightarrow> int \<Rightarrow> auth_db \<Rightarrow> refresh_token \<Rightarrow> refresh_token option" where
  "resolve_presented_refresh now grace db stored =
     (if \<not> rt_revoked stored then Some stored
      else case rt_rotated_at stored of None \<Rightarrow> None
      | Some t \<Rightarrow> if now - t > seconds grace then None
          else follow_successors MAX_SUCCESSOR_HOPS now db stored)"

section \<open>Login\<close>

record login_ok =
  lo_claims :: access_claims
  lo_refresh_jti :: uuid
  lo_refresh_secret :: string

type_synonym auth_state = "auth_db \<times> auth_cache"

definition enqueue_login_failure ::
  "auth_settings \<Rightarrow> string \<Rightarrow> int \<Rightarrow> bool \<Rightarrow> int \<Rightarrow> bool \<Rightarrow> auth_db \<Rightarrow> auth_db" where
  "enqueue_login_failure st username reason tripped attempts pseudonyms_ok db =
     (let db1 = (if pseudonyms_ok then enqueue (LoginFailure username reason attempts) db else db)
      in if \<not> tripped then db1
         else if pseudonyms_ok then enqueue (ThrottleTriggered username attempts) db1 else db1)"

definition UNKNOWN_SUBJECT :: int where "UNKNOWN_SUBJECT = 1"
definition BAD_CREDENTIAL :: int where "BAD_CREDENTIAL = 2"
definition ACCOUNT_DISABLED :: int where "ACCOUNT_DISABLED = 3"

definition rejected_login ::
  "auth_settings \<Rightarrow> datetime \<Rightarrow> bool \<Rightarrow> string \<Rightarrow> string \<Rightarrow> int \<Rightarrow> auth_state \<Rightarrow> (http_failure + login_ok) \<times> auth_state" where
  "rejected_login st now pseudonyms_ok ip username reason s = (case s of (db, ca) \<Rightarrow>
     (case record_failure (as_lockout st) now ip username ca of ((tripped, attempts), ca') \<Rightarrow>
        (Inl (HttpFailure 401 ''invalid credentials''),
         enqueue_login_failure st username reason tripped attempts pseudonyms_ok db, ca')))"

definition login ::
  "auth_settings \<Rightarrow> (string \<Rightarrow> string \<Rightarrow> bool) \<Rightarrow> bool \<Rightarrow> datetime \<Rightarrow> uuid \<Rightarrow> uuid \<Rightarrow> string \<Rightarrow> string \<Rightarrow>
     string \<Rightarrow> string \<Rightarrow> string \<Rightarrow> string \<Rightarrow> auth_state \<Rightarrow> (http_failure + login_ok) \<times> auth_state" where
  "login st verify_password pseudonyms_ok now session_id root_jti secret access_jti ip agent username password s =
   (case s of (db, ca) \<Rightarrow>
     if fst (check_login (as_lockout st) now ip username ca)
     then (Inl (HttpFailure 429 ''too many failed login attempts''), s)
     else case get_by_username username db of
       None \<Rightarrow> rejected_login st now pseudonyms_ok ip username UNKNOWN_SUBJECT s
     | Some u \<Rightarrow>
       if \<not> verify_password (us_password_hash u) password
       then rejected_login st now pseudonyms_ok ip username BAD_CREDENTIAL s
       else if \<not> us_is_active u
       then (Inl (HttpFailure 401 ''invalid credentials''),
             enqueue_login_failure st username ACCOUNT_DISABLED False 0 pseudonyms_ok db, ca)
       else case rbind (create_session now session_id (us_id u) ip agent db)
           (create_token root_jti root_jti session_id (hash_refresh_secret secret)
             (now + seconds (as_refresh_token_ttl st)) None) of
         Inl e \<Rightarrow> (Inl (HttpFailure 500 ''''), s)
       | Inr db' \<Rightarrow>
           (Inr \<lparr>lo_claims = \<lparr>cl_sub = us_id u, cl_username = us_username u, cl_roles = us_roles u,
               cl_sid = session_id, cl_jti = access_jti,
               cl_exp = (now + seconds (as_access_token_ttl st)) div seconds 1\<rparr>,
               lo_refresh_jti = root_jti, lo_refresh_secret = secret\<rparr>,
            enqueue (LoginSuccess (us_id u) session_id (us_roles u)) db', reset_failures ip username ca))"

section \<open>Refresh\<close>

text \<open>What the handler decides from the database before it writes.\<close>

datatype refresh_decision =
    Refused string
  | ReuseOf refresh_token
  | Rotate refresh_token login_session user

definition SESSION_INVALID :: string where "SESSION_INVALID = ''session_invalid''"
definition CODE_ACCOUNT_DISABLED :: string where "CODE_ACCOUNT_DISABLED = ''account_disabled''"

definition refresh_decide :: "auth_settings \<Rightarrow> datetime \<Rightarrow> refresh_token option \<Rightarrow> auth_db \<Rightarrow> refresh_decision" where
  "refresh_decide st now presented db = (case presented of
     None \<Rightarrow> Refused SESSION_INVALID
   | Some stored \<Rightarrow> (case resolve_presented_refresh now (as_refresh_grace st) db stored of
       None \<Rightarrow> if rt_rotated_at stored \<noteq> None then ReuseOf stored else Refused SESSION_INVALID
     | Some usable \<Rightarrow>
         if rt_expires_at usable \<le> now then Refused SESSION_INVALID
         else case session_by_id (rt_session_id usable) db of
           None \<Rightarrow> Refused SESSION_INVALID
         | Some se \<Rightarrow> if se_revoked se then Refused SESSION_INVALID
             else case user_by_id (se_user_id se) db of
               None \<Rightarrow> Refused SESSION_INVALID
             | Some u \<Rightarrow> if \<not> us_is_active u then Refused CODE_ACCOUNT_DISABLED else Rotate usable se u))"

definition kill_family_on_reuse :: "auth_settings \<Rightarrow> datetime \<Rightarrow> refresh_token \<Rightarrow> auth_state \<Rightarrow> auth_state" where
  "kill_family_on_reuse st now stored s = (case s of (db, ca) \<Rightarrow>
     let db1 = revoke_family (rt_family_id stored) db;
         subject = map_option se_user_id (session_by_id (rt_session_id stored) db1)
     in case revoke_session (rt_session_id stored) db1 of (was_live, db2) \<Rightarrow>
       (enqueue (RefreshReuseDetected subject (rt_session_id stored) (rt_family_id stored)) db2,
        if was_live then revoke_sid now (str_uuid (rt_session_id stored)) (as_access_token_ttl st) ca else ca))"

definition rotate ::
  "auth_settings \<Rightarrow> datetime \<Rightarrow> uuid \<Rightarrow> string \<Rightarrow> refresh_token \<Rightarrow> login_session \<Rightarrow> user \<Rightarrow> auth_db \<Rightarrow>
     store_error + auth_db" where
  "rotate st now next_jti next_secret usable se u db =
     rbind (create_token next_jti (rt_family_id usable) (se_id se) (hash_refresh_secret next_secret)
         (now + seconds (as_refresh_token_ttl st)) (Some (rt_jti usable))
         (mark_rotated now (rt_jti usable) next_jti (touch_session now (se_id se) db)))
       (\<lambda>db'. Inr (enqueue (TokenRefreshed (us_id u) (se_id se) (rt_family_id usable)) db'))"

definition refresh_stored ::
  "auth_settings \<Rightarrow> datetime \<Rightarrow> uuid \<Rightarrow> string \<Rightarrow> string \<Rightarrow> refresh_token option \<Rightarrow> auth_state \<Rightarrow>
     (http_failure + login_ok) \<times> auth_state" where
  "refresh_stored st now next_jti next_secret access_jti presented s = (case s of (db, ca) \<Rightarrow>
     (case refresh_decide st now presented db of
       Refused code \<Rightarrow> (Inl (HttpFailure 401 code), s)
     | ReuseOf stored \<Rightarrow> (Inl (HttpFailure 401 SESSION_INVALID), kill_family_on_reuse st now stored s)
     | Rotate usable se u \<Rightarrow> (case rotate st now next_jti next_secret usable se u db of
         Inl e \<Rightarrow> (Inl (HttpFailure 500 ''''), s)
       | Inr db' \<Rightarrow> (Inr \<lparr>lo_claims = \<lparr>cl_sub = us_id u, cl_username = us_username u, cl_roles = us_roles u,
               cl_sid = se_id se, cl_jti = access_jti,
               cl_exp = (now + seconds (as_access_token_ttl st)) div seconds 1\<rparr>,
               lo_refresh_jti = next_jti, lo_refresh_secret = next_secret\<rparr>, db', ca))))"

text \<open>The cookie's first part goes to a \<^verbatim>\<open>UUID\<close> column as it is: text that is not a UUID is
  a database error there, and the request fails with a 500.\<close>

definition refresh ::
  "auth_settings \<Rightarrow> string \<Rightarrow> datetime \<Rightarrow> uuid \<Rightarrow> string \<Rightarrow> string \<Rightarrow> http_request \<Rightarrow> auth_state \<Rightarrow>
     (http_failure + login_ok) \<times> auth_state" where
  "refresh st cookie_name now next_jti next_secret access_jti r s =
     (case hr_cookies r cookie_name of
       None \<Rightarrow> (Inl (HttpFailure 401 SESSION_INVALID), s)
     | Some raw \<Rightarrow> if raw = '''' then (Inl (HttpFailure 401 SESSION_INVALID), s)
       else case split_refresh_token raw of
         None \<Rightarrow> (Inl (HttpFailure 401 SESSION_INVALID), s)
       | Some (jti, secret) \<Rightarrow> (case uuid_value jti of
           None \<Rightarrow> (Inl (HttpFailure 500 ''''), s)
         | Some j \<Rightarrow> refresh_stored st now next_jti next_secret access_jti
             (get_by_jti_and_hash j (hash_refresh_secret secret) (fst s)) s))"

section \<open>Logout\<close>

text \<open>The claims of the presented access token; \<^verbatim>\<open>None\<close> when there is none or it does not decode.\<close>

record token_claims =
  tc_sub :: string
  tc_username :: string
  tc_roles :: "string list"
  tc_sid :: string
  tc_jti :: string
  tc_exp :: int

definition logout :: "auth_settings \<Rightarrow> datetime \<Rightarrow> token_claims option \<Rightarrow> auth_state \<Rightarrow> (http_failure + bool) \<times> auth_state" where
  "logout st now claims s = (case s of (db, ca) \<Rightarrow> (case claims of
     None \<Rightarrow> (Inr False, s)
   | Some c \<Rightarrow>
     let remaining = tc_exp c - now div seconds 1;
         jti_revoked = (tc_jti c \<noteq> '''' \<and> tc_exp c \<noteq> 0 \<and> remaining > 0);
         ca1 = (if jti_revoked then revoke_jti now (tc_jti c) remaining ca else ca)
     in if tc_sid c = ''''
        then (Inr jti_revoked, (if jti_revoked then enqueue (SessionEnded (tc_sub c) '''' USER_LOGOUT) db else db), ca1)
        else case uuid_value (tc_sid c) of
          None \<Rightarrow> (Inl (HttpFailure 500 ''''), db, ca1)
        | Some sid \<Rightarrow> (case revoke_session sid db of (was_live, db1) \<Rightarrow>
            (Inr True, enqueue (SessionEnded (tc_sub c) (tc_sid c) USER_LOGOUT) db1,
             if was_live then revoke_sid now (tc_sid c) (as_access_token_ttl st) ca1 else ca1))))"

section \<open>At most one live token per family\<close>

definition token_inv :: "auth_db \<Rightarrow> bool" where
  "token_inv db \<longleftrightarrow> distinct (map rt_jti (au_tokens db)) \<and>
     (\<forall>t \<in> set (au_tokens db). \<exists>r \<in> set (au_tokens db). rt_jti r = rt_family_id t \<and> rt_session_id r = rt_session_id t) \<and>
     (\<forall>t \<in> set (au_tokens db). \<forall>u \<in> set (au_tokens db).
        rt_family_id t = rt_family_id u \<longrightarrow> \<not> rt_revoked t \<longrightarrow> \<not> rt_revoked u \<longrightarrow> t = u)"

lemma update_where_key:
  assumes "x \<in> set xs" "k (g x) = k x"
  shows "\<exists>y \<in> set (update_where P g xs). k y = k x"
  using assms by (cases "P x") (auto simp: update_where_def)

lemma distinct_map_inj: "distinct (map f xs) \<Longrightarrow> x \<in> set xs \<Longrightarrow> y \<in> set xs \<Longrightarrow> f x = f y \<Longrightarrow> x = y"
  by (simp add: distinct_map inj_on_def)

lemma token_inv_cong: "au_tokens db' = au_tokens db \<Longrightarrow> token_inv db' \<longleftrightarrow> token_inv db"
  by (simp add: token_inv_def)

lemma tokens_unchanged [simp]:
  "au_tokens (touch_session now i db) = au_tokens db"
  "au_tokens (snd (revoke_where P db)) = au_tokens db"
  "au_tokens (snd (revoke_session i db)) = au_tokens db"
  "au_tokens (update_user i g db) = au_tokens db"
  by (simp_all add: touch_session_def revoke_where_def revoke_session_def update_user_def)

lemma create_session_tokens: "create_session now i u ip agent db = Inr db' \<Longrightarrow> au_tokens db' = au_tokens db"
  by (auto simp: create_session_def split: if_splits)

lemma create_token_Inr:
  "create_token jti fam sid h e rf db = Inr db' \<longleftrightarrow>
     (\<forall>t \<in> set (au_tokens db). rt_jti t \<noteq> jti \<and> rt_token_hash t \<noteq> h) \<and>
     list_ex (\<lambda>s. se_id s = sid) (au_sessions db) \<and>
     db' = db\<lparr>au_tokens := au_tokens db @ [\<lparr>rt_jti = jti, rt_family_id = fam, rt_session_id = sid,
        rt_token_hash = h, rt_rotated_from = rf, rt_revoked = False, rt_rotated_at = None,
        rt_replaced_by = None, rt_expires_at = e\<rparr>]\<rparr>"
  by (auto simp: create_token_def list_ex_iff)

text \<open>Adding a token keeps the invariant when its family has no live token and its root is
  there, or it is itself the root of a new family.\<close>

lemma create_token_inv:
  assumes "token_inv db" "create_token jti fam sid h e rf db = Inr db'"
    and root: "fam = jti \<or> (\<exists>r \<in> set (au_tokens db). rt_jti r = fam \<and> rt_session_id r = sid)"
    and dead: "\<forall>t \<in> set (au_tokens db). rt_family_id t = fam \<longrightarrow> rt_revoked t"
  shows "token_inv db'"
proof -
  have db': "db' = db\<lparr>au_tokens := au_tokens db @ [\<lparr>rt_jti = jti, rt_family_id = fam, rt_session_id = sid,
        rt_token_hash = h, rt_rotated_from = rf, rt_revoked = False, rt_rotated_at = None,
        rt_replaced_by = None, rt_expires_at = e\<rparr>]\<rparr>"
    and fresh: "\<forall>t \<in> set (au_tokens db). rt_jti t \<noteq> jti"
    using assms(2) by (auto simp: create_token_Inr)
  show ?thesis
    using assms(1) fresh root dead unfolding db' token_inv_def by auto
qed

lemma update_tokens_inv:
  assumes "token_inv db" "\<And>t. rt_jti (g t) = rt_jti t" "\<And>t. rt_family_id (g t) = rt_family_id t"
    "\<And>t. rt_session_id (g t) = rt_session_id t" "\<And>t. rt_revoked (g t)"
  shows "token_inv (db\<lparr>au_tokens := update_where P g (au_tokens db)\<rparr>)"
proof -
  define h where "h t = (if P t then g t else t)" for t
  have h: "rt_jti (h t) = rt_jti t" "rt_family_id (h t) = rt_family_id t" "rt_session_id (h t) = rt_session_id t"
    "\<not> rt_revoked (h t) \<Longrightarrow> h t = t" for t
    using assms(2-5) by (auto simp: h_def)
  have up: "update_where P g (au_tokens db) = map h (au_tokens db)" by (simp add: update_where_def h_def)
  have "distinct (map rt_jti (map h (au_tokens db)))" using assms(1) h(1) by (simp add: token_inv_def comp_def)
  moreover have "\<exists>r \<in> set (map h (au_tokens db)). rt_jti r = rt_family_id (h t) \<and> rt_session_id r = rt_session_id (h t)"
    if "t \<in> set (au_tokens db)" for t
  proof -
    obtain r where "r \<in> set (au_tokens db)" "rt_jti r = rt_family_id t" "rt_session_id r = rt_session_id t"
      using assms(1) \<open>t \<in> set (au_tokens db)\<close> unfolding token_inv_def by blast
    then show ?thesis using h by (intro bexI[of _ "h r"]) simp_all
  qed
  moreover have "h t = h u"
    if "t \<in> set (au_tokens db)" "u \<in> set (au_tokens db)" "rt_family_id (h t) = rt_family_id (h u)"
      "\<not> rt_revoked (h t)" "\<not> rt_revoked (h u)" for t u
    using that h(2) h(4)[of t] h(4)[of u] assms(1) unfolding token_inv_def by metis
  ultimately show ?thesis unfolding up token_inv_def by simp
qed

lemma mark_rotated_inv: "token_inv db \<Longrightarrow> token_inv (mark_rotated now jti r db)"
  unfolding mark_rotated_def by (rule update_tokens_inv) simp_all

lemma revoke_family_inv: "token_inv db \<Longrightarrow> token_inv (revoke_family f db)"
  unfolding revoke_family_def by (rule update_tokens_inv) simp_all

lemma enqueue_inv [simp]: "token_inv (enqueue e db) \<longleftrightarrow> token_inv db"
  by (rule token_inv_cong) simp

lemma get_by_jti_in: "get_by_jti j db = Some t \<Longrightarrow> t \<in> set (au_tokens db)"
  by (auto simp: get_by_jti_def dest: first_row_filter_Some)

lemma get_by_jti_and_hash_in:
  "get_by_jti_and_hash j h db = Some t \<Longrightarrow> t \<in> set (au_tokens db) \<and> rt_jti t = j \<and> rt_token_hash t = h"
  by (auto simp: get_by_jti_and_hash_def dest: first_row_filter_Some)

lemma follow_successors_Some:
  "follow_successors n now db c = Some t \<Longrightarrow>
     t \<in> set (au_tokens db) \<and> \<not> rt_revoked t \<and> rt_expires_at t > now"
  by (induction n arbitrary: c) (auto split: option.splits if_splits dest: get_by_jti_in)

lemma resolve_presented_Some:
  "resolve_presented_refresh now grace db stored = Some t \<Longrightarrow> stored \<in> set (au_tokens db) \<Longrightarrow>
     t \<in> set (au_tokens db) \<and> \<not> rt_revoked t"
  by (auto simp: resolve_presented_refresh_def dest: follow_successors_Some split: if_splits option.splits)

lemma refresh_decide_Rotate:
  assumes "refresh_decide st now (Some stored) db = Rotate t se u" "stored \<in> set (au_tokens db)"
  shows "t \<in> set (au_tokens db) \<and> \<not> rt_revoked t \<and> rt_expires_at t > now \<and>
    resolve_presented_refresh now (as_refresh_grace st) db stored = Some t \<and>
    se \<in> set (au_sessions db) \<and> se_id se = rt_session_id t \<and> \<not> se_revoked se \<and>
    u \<in> set (au_users db) \<and> us_id u = se_user_id se \<and> us_is_active u"
  using assms resolve_presented_Some
  by (auto simp: refresh_decide_def session_by_id_def user_by_id_def not_le
      dest!: first_row_filter_Some split: option.splits if_splits)

lemma rotate_dead:
  assumes "token_inv db" "t \<in> set (au_tokens db)" "\<not> rt_revoked t"
  shows "\<forall>x \<in> set (au_tokens (mark_rotated now (rt_jti t) r db)). rt_family_id x = rt_family_id t \<longrightarrow> rt_revoked x"
  using assms unfolding token_inv_def mark_rotated_def by (auto simp: update_where_def)

lemma mark_rotated_root:
  assumes "r \<in> set (au_tokens db)"
  shows "\<exists>r' \<in> set (au_tokens (mark_rotated now j k db)). rt_jti r' = rt_jti r \<and> rt_session_id r' = rt_session_id r"
  using update_where_key[OF assms, of "\<lambda>t. (rt_jti t, rt_session_id t)"]
  by (simp add: mark_rotated_def)

lemma rotate_inv:
  assumes inv: "token_inv db" and t: "t \<in> set (au_tokens db)" "\<not> rt_revoked t" and se: "se_id se = rt_session_id t"
    and r: "rotate st now j s t se u db = Inr db'"
  shows "token_inv db'"
proof -
  let ?db1 = "mark_rotated now (rt_jti t) j (touch_session now (se_id se) db)"
  obtain db2 where db2: "create_token j (rt_family_id t) (se_id se) (hash_refresh_secret s)
      (now + seconds (as_refresh_token_ttl st)) (Some (rt_jti t)) ?db1 = Inr db2" "token_inv db' \<longleftrightarrow> token_inv db2"
    using r by (auto simp: rotate_def rbind_eq_Inr)
  have inv0: "token_inv (touch_session now (se_id se) db)" using inv token_inv_cong[of "touch_session now (se_id se) db" db] by simp
  then have inv1: "token_inv ?db1" by (rule mark_rotated_inv)
  have dead: "\<forall>x \<in> set (au_tokens ?db1). rt_family_id x = rt_family_id t \<longrightarrow> rt_revoked x"
    using rotate_dead[OF inv0] t by simp
  obtain root where root: "root \<in> set (au_tokens db)" "rt_jti root = rt_family_id t" "rt_session_id root = rt_session_id t"
    using inv t(1) unfolding token_inv_def by blast
  have "\<exists>r \<in> set (au_tokens ?db1). rt_jti r = rt_family_id t \<and> rt_session_id r = se_id se"
    using mark_rotated_root[of root "touch_session now (se_id se) db"] root se by simp
  then show ?thesis unfolding db2(2) using dead by (intro create_token_inv[OF inv1 db2(1)]) simp_all
qed

lemma kill_family_inv:
  "token_inv db \<Longrightarrow> token_inv (fst (kill_family_on_reuse st now stored (db, ca)))"
  using token_inv_cong[OF tokens_unchanged(3), of "rt_session_id stored" "revoke_family (rt_family_id stored) db"]
    revoke_family_inv[of db "rt_family_id stored"]
  by (simp add: kill_family_on_reuse_def Let_def case_prod_beta)

lemma refresh_stored_inv:
  assumes "token_inv db" "\<And>t. presented = Some t \<Longrightarrow> t \<in> set (au_tokens db)"
    and "refresh_stored st now j s aj presented (db, ca) = (out, db', ca')"
  shows "token_inv db'"
proof (cases "refresh_decide st now presented db")
  case (Refused c)
  then show ?thesis using assms by (simp add: refresh_stored_def)
next
  case (ReuseOf stored)
  then show ?thesis using assms(3) kill_family_inv[OF assms(1), of st now stored ca]
    by (simp add: refresh_stored_def)
next
  case (Rotate t se u)
  then obtain stored where p: "presented = Some stored" by (cases presented) (auto simp: refresh_decide_def)
  note d = refresh_decide_Rotate[OF Rotate[unfolded p] assms(2)[OF p]]
  show ?thesis
  proof (cases "rotate st now j s t se u db")
    case (Inr db1)
    then show ?thesis using assms(1,3) rotate_inv[OF assms(1) _ _ _ Inr] d Rotate by (simp add: refresh_stored_def)
  qed (use assms(1,3) Rotate in \<open>simp add: refresh_stored_def\<close>)
qed

lemma refresh_inv:
  assumes "token_inv db" "refresh st cn now j s aj r (db, ca) = (out, db', ca')"
  shows "token_inv db'"
proof -
  have "token_inv db'" if "refresh_stored st now j s aj (get_by_jti_and_hash i h db) (db, ca) = (out, db', ca')" for i h
    by (rule refresh_stored_inv[OF assms(1) _ that]) (auto dest: get_by_jti_and_hash_in)
  then show ?thesis using assms by (auto simp: refresh_def split: option.splits if_splits prod.splits)
qed

lemma login_inv:
  assumes "token_inv db" "login st vp pk now sid rj sec aj ip ag un pw (db, ca) = (out, db', ca')"
  shows "token_inv db'"
proof -
  have fail: "token_inv (enqueue_login_failure st a b c d e db)" for a b c d e
    using assms(1) by (simp add: enqueue_login_failure_def Let_def)
  have "token_inv db2" if "create_session now sid u ip ag db = Inr db1" "create_token rj rj sid h e None db1 = Inr db2" for u db1 db2 h e
  proof (rule create_token_inv[OF _ that(2)])
    have same: "au_tokens db1 = au_tokens db" by (rule create_session_tokens[OF that(1)])
    show "token_inv db1" using assms(1) token_inv_cong[OF same] by blast
    show "\<forall>t \<in> set (au_tokens db1). rt_family_id t = rj \<longrightarrow> rt_revoked t"
      using that(2) assms(1) unfolding same create_token_Inr token_inv_def by metis
  qed simp
  then show ?thesis using assms(2) fail assms(1)
    by (auto simp: login_def rejected_login_def rbind_def split: if_splits option.splits sum.splits prod.splits)
qed

lemma logout_inv:
  assumes "token_inv db" "logout st now c (db, ca) = (out, db', ca')"
  shows "token_inv db'"
proof -
  have "token_inv db1" if "revoke_session i db = (b, db1)" for i b db1
    using that assms(1) token_inv_cong[of db1 db] by (metis snd_conv tokens_unchanged(3))
  then show ?thesis using assms by (auto simp: logout_def Let_def split: option.splits if_splits prod.splits)
qed

section \<open>Successors stay in the family\<close>

definition links_inv :: "auth_db \<Rightarrow> bool" where
  "links_inv db \<longleftrightarrow> (\<forall>t \<in> set (au_tokens db). \<forall>j. rt_replaced_by t = Some j \<longrightarrow>
     (\<exists>u \<in> set (au_tokens db). rt_jti u = j \<and> rt_family_id u = rt_family_id t))"

lemma links_inv_cong: "au_tokens db' = au_tokens db \<Longrightarrow> links_inv db' \<longleftrightarrow> links_inv db"
  by (simp add: links_inv_def)

lemma enqueue_links [simp]: "links_inv (enqueue e db) \<longleftrightarrow> links_inv db"
  by (rule links_inv_cong) simp

lemma create_token_links:
  assumes "links_inv db" "create_token jti fam sid h e rf db = Inr db'"
  shows "links_inv db'"
  using assms unfolding links_inv_def create_token_Inr by auto

lemma revoke_family_links:
  assumes "links_inv db"
  shows "links_inv (revoke_family f db)"
proof -
  define h :: "refresh_token \<Rightarrow> refresh_token" where "h t = (if rt_family_id t = f then t\<lparr>rt_revoked := True\<rparr> else t)" for t
  have h: "rt_jti (h t) = rt_jti t" "rt_family_id (h t) = rt_family_id t" "rt_replaced_by (h t) = rt_replaced_by t" for t
    by (simp_all add: h_def)
  have "au_tokens (revoke_family f db) = map h (au_tokens db)" by (simp add: revoke_family_def update_where_def h_def)
  then show ?thesis using assms h unfolding links_inv_def by (simp add: ball_simps)
qed

lemma rotate_Inr:
  assumes "rotate st now j s t se u db = Inr db'"
  shows "(\<forall>x \<in> set (au_tokens db). rt_jti x \<noteq> j) \<and>
    au_tokens db' = map (\<lambda>x. if rt_jti x = rt_jti t then x\<lparr>rt_revoked := True, rt_rotated_at := Some now,
        rt_replaced_by := Some j\<rparr> else x) (au_tokens db) @
      [\<lparr>rt_jti = j, rt_family_id = rt_family_id t, rt_session_id = se_id se, rt_token_hash = hash_refresh_secret s,
        rt_rotated_from = Some (rt_jti t), rt_revoked = False, rt_rotated_at = None, rt_replaced_by = None,
        rt_expires_at = now + seconds (as_refresh_token_ttl st)\<rparr>] \<and>
    au_users db' = au_users db \<and>
    au_sessions db' = au_sessions (touch_session now (se_id se) db) \<and>
    au_outbox db' = au_outbox db @ [TokenRefreshed (us_id u) (se_id se) (rt_family_id t)]"
proof -
  obtain db1 where c: "create_token j (rt_family_id t) (se_id se) (hash_refresh_secret s)
      (now + seconds (as_refresh_token_ttl st)) (Some (rt_jti t))
      (mark_rotated now (rt_jti t) j (touch_session now (se_id se) db)) = Inr db1"
    and db': "db' = enqueue (TokenRefreshed (us_id u) (se_id se) (rt_family_id t)) db1"
    using assms by (auto simp: rotate_def rbind_eq_Inr)
  have "map rt_jti (au_tokens (mark_rotated now (rt_jti t) j (touch_session now (se_id se) db))) = map rt_jti (au_tokens db)"
    by (simp add: mark_rotated_def map_update_where)
  then have "rt_jti ` set (au_tokens (mark_rotated now (rt_jti t) j (touch_session now (se_id se) db))) = rt_jti ` set (au_tokens db)"
    by (metis set_map)
  then have "\<forall>x \<in> set (au_tokens db). rt_jti x \<noteq> j"
    using c[unfolded create_token_Inr, THEN conjunct1] by (metis image_iff)
  then show ?thesis using c unfolding db' create_token_Inr
    by (simp add: mark_rotated_def touch_session_def update_where_def)
qed

lemma rotate_links:
  assumes links: "links_inv db" and r: "rotate st now j s t se u db = Inr db'"
    and t: "token_inv db" "t \<in> set (au_tokens db)"
  shows "links_inv db'"
proof -
  define h :: "refresh_token \<Rightarrow> refresh_token" where "h x = (if rt_jti x = rt_jti t then x\<lparr>rt_revoked := True, rt_rotated_at := Some now,
        rt_replaced_by := Some j\<rparr> else x)" for x
  have h: "rt_jti (h x) = rt_jti x" "rt_family_id (h x) = rt_family_id x" for x by (simp_all add: h_def)
  have other: "rt_replaced_by (h x) = rt_replaced_by x" if "rt_jti x \<noteq> rt_jti t" for x using that by (simp add: h_def)
  have self: "x = t \<and> rt_replaced_by (h x) = Some j" if "x \<in> set (au_tokens db)" "rt_jti x = rt_jti t" for x
    using t that distinct_map_inj[of rt_jti "au_tokens db" x t] by (simp add: token_inv_def h_def)
  define new where "new = \<lparr>rt_jti = j, rt_family_id = rt_family_id t, rt_session_id = se_id se,
        rt_token_hash = hash_refresh_secret s, rt_rotated_from = Some (rt_jti t), rt_revoked = False,
        rt_rotated_at = None, rt_replaced_by = None, rt_expires_at = now + seconds (as_refresh_token_ttl st)\<rparr>"
  have new: "rt_jti new = j" "rt_family_id new = rt_family_id t" "rt_replaced_by new = None"
    by (simp_all add: new_def)
  have toks: "au_tokens db' = map h (au_tokens db) @ [new]"
    using rotate_Inr[OF r] unfolding h_def[abs_def] new_def by blast
  have "\<exists>v \<in> set (au_tokens db'). rt_jti v = k \<and> rt_family_id v = rt_family_id (h x)"
    if x: "x \<in> set (au_tokens db)" "rt_replaced_by (h x) = Some k" for x k
  proof (cases "rt_jti x = rt_jti t")
    case True
    then show ?thesis using self[OF x(1) True] x(2) new h(2) unfolding toks by simp
  next
    case False
    then obtain v where "v \<in> set (au_tokens db)" "rt_jti v = k" "rt_family_id v = rt_family_id x"
      using links x other[OF False] unfolding links_inv_def by metis
    then show ?thesis using h unfolding toks by (intro bexI[of _ "h v"]) simp_all
  qed
  then show ?thesis using new(3) unfolding links_inv_def toks by auto
qed

lemma follow_successors_family:
  assumes "links_inv db" "distinct (map rt_jti (au_tokens db))" "c \<in> set (au_tokens db)"
    and "follow_successors n now db c = Some t"
  shows "rt_family_id t = rt_family_id c"
  using assms(3,4)
proof (induction n arbitrary: c)
  case (Suc n)
  then obtain j d where d: "rt_replaced_by c = Some j" "get_by_jti j db = Some d"
    by (auto split: option.splits)
  have "rt_jti d = j" using d(2) by (auto simp: get_by_jti_def dest: first_row_filter_Some)
  moreover obtain v where "v \<in> set (au_tokens db)" "rt_jti v = j" "rt_family_id v = rt_family_id c"
    using assms(1) Suc.prems(1) d(1) unfolding links_inv_def by blast
  ultimately have "rt_family_id d = rt_family_id c"
    using distinct_map_inj[OF assms(2) get_by_jti_in[OF d(2)]] by metis
  then show ?case using Suc.prems(2) d Suc.IH[OF get_by_jti_in[OF d(2)]] by (auto split: if_splits)
qed simp

end
