(* ===== verification/AuthUsers.thy ===== *)
theory AuthUsers
  imports AuthSessions
begin

text \<open>
  Who is calling (\<^verbatim>\<open>services/auth/app/core/authz.py\<close>), the administration of users
  (\<^verbatim>\<open>app/api/v1/users.py\<close>) and the idle-session sweep (\<^verbatim>\<open>app/services/session_sweep.py\<close>).
  Path parameters are text; one that PostgreSQL cannot read as a UUID is a database error,
  answered with a 500.  The call to the audit service's \<^verbatim>\<open>ErasePayloads\<close> is an argument.
\<close>

section \<open>The caller\<close>

record actor =
  ac_user_id :: uuid
  ac_username :: string
  ac_roles :: "string list"
  ac_session_id :: string

definition unauthenticated :: http_failure where
  "unauthenticated = HttpFailure 401 ''not authenticated''"

definition current_actor :: "datetime \<Rightarrow> bool \<Rightarrow> token_claims option \<Rightarrow> auth_state \<Rightarrow> http_failure + actor" where
  "current_actor now redis_up claims s = (case claims of None \<Rightarrow> Inl unauthenticated
   | Some c \<Rightarrow> if tc_jti c = '''' \<or> tc_sid c = '''' then Inl unauthenticated
       else if \<not> redis_up then Inl (HttpFailure 503 ''revocation store unavailable'')
       else if is_token_revoked now (tc_jti c) (tc_sid c) (snd s) then Inl unauthenticated
       else case uuid_value (tc_sub c) of None \<Rightarrow> Inl (HttpFailure 500 '''')
       | Some i \<Rightarrow> (case user_by_id i (fst s) of None \<Rightarrow> Inl unauthenticated
         | Some u \<Rightarrow> if us_is_active u
             then Inr \<lparr>ac_user_id = us_id u, ac_username = us_username u, ac_roles = us_roles u,
               ac_session_id = tc_sid c\<rparr>
             else Inl unauthenticated))"

definition require_admin :: "datetime \<Rightarrow> bool \<Rightarrow> token_claims option \<Rightarrow> auth_state \<Rightarrow> http_failure + actor" where
  "require_admin now redis_up claims s = rbind (current_actor now redis_up claims s)
     (\<lambda>a. if ADMIN \<in> set (ac_roles a) then Inr a else Inl (HttpFailure 403 ''admin role required''))"

section \<open>Parts of the handlers\<close>

definition load_user :: "string \<Rightarrow> auth_db \<Rightarrow> http_failure + user" where
  "load_user user_id db = (case uuid_value user_id of None \<Rightarrow> Inl (HttpFailure 500 '''')
     | Some i \<Rightarrow> (case user_by_id i db of None \<Rightarrow> Inl (HttpFailure 404 ''user not found'') | Some u \<Rightarrow> Inr u))"

definition guard_last_admin :: "auth_db \<Rightarrow> user \<Rightarrow> http_failure + unit" where
  "guard_last_admin db target = (if ADMIN \<notin> set (us_roles target) \<or> \<not> us_is_active target then Inr ()
     else if count_admins db \<le> 1
     then Inl (HttpFailure 409 ''the last active admin cannot be disabled or demoted'') else Inr ())"

definition drop_sessions :: "uuid \<Rightarrow> actor \<Rightarrow> auth_db \<Rightarrow> uuid list \<times> auth_db" where
  "drop_sessions i a db = (let l = live_ids_for_user i db in
     if l = [] then ([], db)
     else (l, fold (\<lambda>sid. enqueue (AdminSessionRevoked (ac_user_id a) sid)) l (snd (revoke_all_for_user i db))))"

definition push_revocations :: "auth_settings \<Rightarrow> datetime \<Rightarrow> uuid list \<Rightarrow> auth_cache \<Rightarrow> auth_cache" where
  "push_revocations st now ids ca = fold (\<lambda>sid. revoke_sid now (str_uuid sid) (as_access_token_ttl st)) ids ca"

record user_summary =
  sm_user :: user
  sm_last_active_at :: "datetime option"

definition summary :: "user \<Rightarrow> auth_db \<Rightarrow> user_summary" where
  "summary u db = \<lparr>sm_user = u, sm_last_active_at = last_used_by_user [us_id u] db (us_id u)\<rparr>"

section \<open>Reading\<close>

definition user_counts :: "datetime \<Rightarrow> auth_db \<Rightarrow> nat \<times> nat \<times> nat \<times> nat" where
  "user_counts now db = (case count_by_active db of (a, d) \<Rightarrow> (a + d, a, d, count_live now db))"

text \<open>\<open>ilike\<close> is the database's case-insensitive match against the pattern.\<close>

definition filtered :: "(string \<Rightarrow> string \<Rightarrow> bool) \<Rightarrow> string option \<Rightarrow> string option \<Rightarrow> bool option \<Rightarrow> user \<Rightarrow> bool" where
  "filtered ilike search role active u \<longleftrightarrow>
     (case search of None \<Rightarrow> True | Some t \<Rightarrow> t = '''' \<or> ilike (us_username u) (''%'' @ t @ ''%'')) \<and>
     (case role of None \<Rightarrow> True | Some r \<Rightarrow> r \<in> set (us_roles u)) \<and>
     (case active of None \<Rightarrow> True | Some b \<Rightarrow> us_is_active u = b)"

definition list_users ::
  "(string \<Rightarrow> string \<Rightarrow> bool) \<Rightarrow> string option \<Rightarrow> string option \<Rightarrow> bool option \<Rightarrow> nat \<Rightarrow> nat \<Rightarrow> auth_db \<Rightarrow>
     user_summary list \<times> nat" where
  "list_users ilike search role active limit offset db =
     (let rows = order_by us_created_at (filter (filtered ilike search role active) (au_users db))
      in (map (\<lambda>u. summary u db) (take limit (drop offset rows)),
          count_where (filtered ilike search role active) (au_users db)))"

definition get_user :: "string \<Rightarrow> auth_db \<Rightarrow> http_failure + user_summary" where
  "get_user user_id db = rbind (load_user user_id db) (\<lambda>u. Inr (summary u db))"

section \<open>Writing\<close>

definition normalise_roles :: "string list \<Rightarrow> string list option" where
  "normalise_roles roles = (if roles = [] then None
     else Some (foldl (\<lambda>seen r. if r \<in> set seen then seen else seen @ [r]) [] roles))"

definition create_user ::
  "datetime \<Rightarrow> uuid \<Rightarrow> actor \<Rightarrow> string \<Rightarrow> string \<Rightarrow> string list \<Rightarrow> auth_db \<Rightarrow> (http_failure + user_summary) \<times> auth_db" where
  "create_user now new_id a username password_hash roles db =
     (if get_by_username username db \<noteq> None then (Inl (HttpFailure 409 ''username already exists''), db)
      else case create_user_row now new_id username password_hash roles db of
        Inl e \<Rightarrow> (Inl (HttpFailure 500 ''''), db)
      | Inr db1 \<Rightarrow> (Inr \<lparr>sm_user = \<lparr>us_id = new_id, us_username = username, us_password_hash = password_hash,
            us_roles = roles, us_is_active = True, us_created_at = now\<rparr>, sm_last_active_at = None\<rparr>,
          enqueue (AdminUserCreated (ac_user_id a) new_id) db1))"

definition update_roles :: "string \<Rightarrow> string list \<Rightarrow> actor \<Rightarrow> auth_db \<Rightarrow> (http_failure + user_summary) \<times> auth_db" where
  "update_roles user_id requested a db = (case load_user user_id db of Inl e \<Rightarrow> (Inl e, db)
   | Inr u \<Rightarrow>
     let before = set (us_roles u); after = set requested;
         losing_admin = (ADMIN \<in> before \<and> ADMIN \<notin> after)
     in if before = after then (Inr (summary u db), db)
        else if losing_admin \<and> us_id u = ac_user_id a
        then (Inl (HttpFailure 409 ''an admin cannot remove their own admin role''), db)
        else case (if losing_admin then guard_last_admin db u else Inr ()) of
          Inl e \<Rightarrow> (Inl e, db)
        | Inr _ \<Rightarrow>
          let db1 = update_user (us_id u) (\<lambda>u. u\<lparr>us_roles := requested\<rparr>) db;
              db2 = (if after - before \<noteq> {} then enqueue (AdminRolesGranted (ac_user_id a) (us_id u)) db1 else db1);
              db3 = (if before - after \<noteq> {} then enqueue (AdminRolesRevoked (ac_user_id a) (us_id u)) db2 else db2)
          in (Inr (summary (u\<lparr>us_roles := requested\<rparr>) db3), db3))"

definition set_active ::
  "auth_settings \<Rightarrow> datetime \<Rightarrow> string \<Rightarrow> bool \<Rightarrow> actor \<Rightarrow> auth_state \<Rightarrow> (http_failure + user_summary) \<times> auth_state" where
  "set_active st now user_id active a s = (case s of (db, ca) \<Rightarrow> (case load_user user_id db of
     Inl e \<Rightarrow> (Inl e, s)
   | Inr u \<Rightarrow>
     if us_is_active u = active then (Inr (summary u db), s)
     else if \<not> active \<and> us_id u = ac_user_id a
     then (Inl (HttpFailure 409 ''an admin cannot disable their own account''), s)
     else case (if active then Inr () else guard_last_admin db u) of
       Inl e \<Rightarrow> (Inl e, s)
     | Inr _ \<Rightarrow>
       let db1 = update_user (us_id u) (\<lambda>u. u\<lparr>us_is_active := active\<rparr>) db;
           (dropped, db2) = (if active then ([], db1) else drop_sessions (us_id u) a db1);
           db3 = enqueue (if active then AdminUserEnabled (ac_user_id a) (us_id u)
                  else AdminUserDisabled (ac_user_id a) (us_id u)) db2
       in (Inr (summary (u\<lparr>us_is_active := active\<rparr>) db3), db3, push_revocations st now dropped ca)))"

definition reset_password ::
  "auth_settings \<Rightarrow> datetime \<Rightarrow> string \<Rightarrow> string \<Rightarrow> actor \<Rightarrow> auth_state \<Rightarrow> (http_failure + unit) \<times> auth_state" where
  "reset_password st now user_id password_hash a s = (case s of (db, ca) \<Rightarrow> (case load_user user_id db of
     Inl e \<Rightarrow> (Inl e, s)
   | Inr u \<Rightarrow> (case drop_sessions (us_id u) a (update_user (us_id u) (\<lambda>u. u\<lparr>us_password_hash := password_hash\<rparr>) db) of
       (dropped, db1) \<Rightarrow> (Inr (), enqueue (AdminPasswordReset (ac_user_id a) (us_id u)) db1,
         push_revocations st now dropped ca))))"

definition revoke_sessions ::
  "auth_settings \<Rightarrow> datetime \<Rightarrow> string \<Rightarrow> actor \<Rightarrow> auth_state \<Rightarrow> (http_failure + nat) \<times> auth_state" where
  "revoke_sessions st now user_id a s = (case s of (db, ca) \<Rightarrow> (case load_user user_id db of
     Inl e \<Rightarrow> (Inl e, s)
   | Inr u \<Rightarrow> (case drop_sessions (us_id u) a db of
       (dropped, db1) \<Rightarrow> (Inr (length dropped), db1, push_revocations st now dropped ca))))"

text \<open>Deleting a user takes two transactions, with the call to the audit service in between.\<close>

definition delete_user_check :: "string \<Rightarrow> actor \<Rightarrow> auth_db \<Rightarrow> http_failure + uuid list" where
  "delete_user_check user_id a db = rbind (load_user user_id db) (\<lambda>u.
     if us_id u = ac_user_id a then Inl (HttpFailure 409 ''an admin cannot delete their own account'')
     else rbind (guard_last_admin db u) (\<lambda>_. Inr (live_ids_for_user (us_id u) db)))"

definition delete_user_apply :: "string \<Rightarrow> actor \<Rightarrow> int \<Rightarrow> bool \<Rightarrow> bool \<Rightarrow> auth_db \<Rightarrow> http_failure + auth_db" where
  "delete_user_apply user_id a erased completed pseudonyms_ok db = rbind (load_user user_id db) (\<lambda>u.
     let db1 = delete_user_row (us_id u) (snd (delete_sessions_for_user (us_id u) db))
     in Inr (if pseudonyms_ok then enqueue (SubjectErasure (ac_user_id a) user_id erased completed) db1 else db1))"

definition delete_user ::
  "auth_settings \<Rightarrow> datetime \<Rightarrow> (string \<Rightarrow> (int \<times> bool) option) \<Rightarrow> bool \<Rightarrow> string \<Rightarrow> actor \<Rightarrow> auth_state \<Rightarrow>
     (http_failure + int \<times> bool) \<times> auth_state" where
  "delete_user st now erase_subject pseudonyms_ok user_id a s = (case s of (db, ca) \<Rightarrow>
     (case delete_user_check user_id a db of Inl e \<Rightarrow> (Inl e, s)
      | Inr l \<Rightarrow> (case erase_subject user_id of
          None \<Rightarrow> (Inl (HttpFailure 503 ''the audit service is unreachable, nothing was deleted''), s)
        | Some (erased, completed) \<Rightarrow> (case delete_user_apply user_id a erased completed pseudonyms_ok db of
            Inl e \<Rightarrow> (Inl e, s)
          | Inr db1 \<Rightarrow> (Inr (erased, completed), db1, push_revocations st now l ca)))))"

section \<open>Idle sessions\<close>

definition MAX_PER_CYCLE :: nat where "MAX_PER_CYCLE = 500"

definition sweep_once :: "auth_settings \<Rightarrow> int \<Rightarrow> datetime \<Rightarrow> auth_state \<Rightarrow> nat \<times> auth_state" where
  "sweep_once st idle_timeout now s = (case s of (db, ca) \<Rightarrow>
     let idle = idle_ids (now - seconds idle_timeout) db;
         batch = take MAX_PER_CYCLE idle
     in if idle = [] then (0, s)
        else case revoke_ids batch db of (n, db1) \<Rightarrow> (n, db1, push_revocations st now batch ca))"

end
