(* ===== verification/AuthRpc.thy ===== *)
theory AuthRpc
  imports AuthUsers
begin

text \<open>
  Telegram links (\<^verbatim>\<open>services/auth/app/api/v1/telegram.py\<close>, \<^verbatim>\<open>app/core/telegram_link.py\<close>)
  and the auth service's RPCs (\<^verbatim>\<open>app/server/servicer.py\<close>).  The caller's identity, decoding
  a token, and whether Redis and PostgreSQL answer are arguments.
\<close>

section \<open>Telegram links\<close>

definition link_char :: "char \<Rightarrow> bool" where
  "link_char c \<longleftrightarrow> (let n = char_code c in (65 \<le> n \<and> n \<le> 90) \<or> (97 \<le> n \<and> n \<le> 122) \<or> (48 \<le> n \<and> n \<le> 57)
     \<or> n = 95 \<or> n = 45)"

definition is_well_formed_link_token :: "string \<Rightarrow> bool" where
  "is_well_formed_link_token token \<longleftrightarrow> length token = 43 \<and> list_all link_char token"

definition hash_link_token :: "string \<Rightarrow> string" where
  "hash_link_token token = hex (sha256 (utf8 token))"

definition telegram_status :: "actor \<Rightarrow> auth_db \<Rightarrow> datetime option" where
  "telegram_status a db = map_option tb_created_at (binding_for_user (ac_user_id a) db)"

definition issue_link ::
  "string \<Rightarrow> int \<Rightarrow> datetime \<Rightarrow> bool \<Rightarrow> string \<Rightarrow> actor \<Rightarrow> auth_state \<Rightarrow>
     (http_failure + string \<times> datetime) \<times> auth_state" where
  "issue_link bot_username ttl now redis_up token a s = (case s of (db, ca) \<Rightarrow>
     if bot_username = '''' then (Inl (HttpFailure 503 ''telegram linking is not configured''), s)
     else if \<not> redis_up then (Inl (HttpFailure 503 ''link store unavailable''), s)
     else (Inr (''https://t.me/'' @ bot_username @ ''?start='' @ token, now + seconds ttl),
           db, store_telegram_link now (ac_user_id a) (hash_link_token token) ttl ca))"

definition unlink_telegram :: "actor \<Rightarrow> auth_db \<Rightarrow> auth_db" where
  "unlink_telegram a db = (case unbind_telegram_row (ac_user_id a) db of
     (None, db1) \<Rightarrow> db1
   | (Some previous, db1) \<Rightarrow> enqueue (TelegramLinkChanged (ac_user_id a) (Some previous) None) db1)"

section \<open>Replies\<close>

datatype rpc_abort = PermissionDenied string | InvalidArgument string | Unavailable string

datatype token_failure = EXPIRED | AUDIENCE_MISMATCH | SIGNATURE_INVALID | MALFORMED

datatype verification_status =
    STATUS_VALID | STATUS_EXPIRED | STATUS_REVOKED | STATUS_MALFORMED
  | STATUS_SIGNATURE_INVALID | STATUS_AUDIENCE_MISMATCH

fun failure_status :: "token_failure \<Rightarrow> verification_status" where
  "failure_status EXPIRED = STATUS_EXPIRED"
| "failure_status AUDIENCE_MISMATCH = STATUS_AUDIENCE_MISMATCH"
| "failure_status SIGNATURE_INVALID = STATUS_SIGNATURE_INVALID"
| "failure_status MALFORMED = STATUS_MALFORMED"

section \<open>Verifying tokens and sessions\<close>

definition VerifyToken ::
  "(string \<Rightarrow> token_failure + token_claims) \<Rightarrow> datetime \<Rightarrow> bool \<Rightarrow> string \<Rightarrow> auth_cache \<Rightarrow>
     rpc_abort + verification_status \<times> token_claims option" where
  "VerifyToken decode now redis_up token ca = (case decode token of
     Inl f \<Rightarrow> Inr (failure_status f, None)
   | Inr c \<Rightarrow> if \<not> redis_up then Inl (Unavailable ''revocation store unavailable'')
       else if is_token_revoked now (tc_jti c) (tc_sid c) ca then Inr (STATUS_REVOKED, None)
       else Inr (STATUS_VALID, Some c))"

record introspection =
  in_active :: bool
  in_session :: login_session
  in_roles :: "string list"

definition IntrospectSession :: "bool \<Rightarrow> string \<Rightarrow> auth_db \<Rightarrow> rpc_abort + introspection option" where
  "IntrospectSession db_up session_id db =
     (case (if db_up then uuid_value session_id else None) of
       None \<Rightarrow> Inl (Unavailable ''session store unavailable'')
     | Some i \<Rightarrow> Inr (case session_by_id i db of None \<Rightarrow> None
         | Some se \<Rightarrow> Some \<lparr>in_active = (\<not> se_revoked se), in_session = se,
             in_roles = (case user_by_id (se_user_id se) db of None \<Rightarrow> []
               | Some u \<Rightarrow> if us_is_active u then us_roles u else [])\<rparr>))"

definition SOURCE_API :: int where "SOURCE_API = 1"
definition SOURCE_NOTIFICATION :: int where "SOURCE_NOTIFICATION = 6"

datatype lookup_subject = BySubjectUser string | BySubjectTelegram int

definition LookupOperator ::
  "bool \<Rightarrow> int \<Rightarrow> lookup_subject option \<Rightarrow> auth_db \<Rightarrow> rpc_abort + user option" where
  "LookupOperator db_up caller subject db =
     (if caller \<noteq> SOURCE_API then Inl (PermissionDenied ''caller is not allowed'')
      else case subject of
        None \<Rightarrow> Inl (InvalidArgument ''subject required'')
      | Some (BySubjectUser t) \<Rightarrow> (case uuid_value t of None \<Rightarrow> Inr None
          | Some i \<Rightarrow> if db_up then Inr (user_by_id i db) else Inl (Unavailable ''user store unavailable''))
      | Some (BySubjectTelegram n) \<Rightarrow> if \<not> db_up then Inl (Unavailable ''user store unavailable'')
          else Inr (case binding_by_telegram_id n db of None \<Rightarrow> None | Some b \<Rightarrow> user_by_id (tb_user_id b) db))"

section \<open>Binding a Telegram account\<close>

datatype bind_status = BOUND string | TOKEN_INVALID | ACCOUNT_IN_USE

definition bind_user :: "datetime \<Rightarrow> uuid \<Rightarrow> int \<Rightarrow> auth_db \<Rightarrow> bind_status \<times> auth_db" where
  "bind_user now i telegram_user_id db = (case user_by_id i db of
     None \<Rightarrow> (TOKEN_INVALID, db)
   | Some u \<Rightarrow> if \<not> us_is_active u then (TOKEN_INVALID, db)
       else let previous = map_option tb_telegram_user_id (binding_for_user (us_id u) db)
         in if previous = Some telegram_user_id then (BOUND (us_username u), db)
            else case bind_telegram_row now (us_id u) telegram_user_id db of
              Inl e \<Rightarrow> (ACCOUNT_IN_USE, db)
            | Inr db1 \<Rightarrow> (BOUND (us_username u),
                enqueue (TelegramLinkChanged (us_id u) previous (Some telegram_user_id)) db1))"

definition BindTelegram ::
  "datetime \<Rightarrow> bool \<Rightarrow> bool \<Rightarrow> int \<Rightarrow> int \<Rightarrow> string \<Rightarrow> auth_state \<Rightarrow> (rpc_abort + bind_status) \<times> auth_state" where
  "BindTelegram now redis_up db_up caller telegram_user_id link_token s = (case s of (db, ca) \<Rightarrow>
     if caller \<noteq> SOURCE_NOTIFICATION then (Inl (PermissionDenied ''caller is not allowed''), s)
     else if telegram_user_id \<le> 0 \<or> \<not> is_well_formed_link_token link_token then (Inr TOKEN_INVALID, s)
     else if \<not> redis_up then (Inl (Unavailable ''link store unavailable''), s)
     else case consume_telegram_link now (hash_link_token link_token) ca of
       (None, ca1) \<Rightarrow> (Inr TOKEN_INVALID, db, ca1)
     | (Some i, ca1) \<Rightarrow> if \<not> db_up then (Inl (Unavailable ''user store unavailable''), db, ca1)
         else (case bind_user now i telegram_user_id db of (r, db1) \<Rightarrow> (Inr r, db1, ca1)))"

section \<open>Revoking a session\<close>

definition RevokeSession ::
  "auth_settings \<Rightarrow> datetime \<Rightarrow> bool \<Rightarrow> bool \<Rightarrow> string \<Rightarrow> string \<Rightarrow> auth_state \<Rightarrow> (rpc_abort + bool) \<times> auth_state" where
  "RevokeSession st now redis_up db_up session_id revoked_by s = (case s of (db, ca) \<Rightarrow>
     case (if db_up then uuid_value session_id else None) of
       None \<Rightarrow> (Inl (Unavailable ''session store unavailable''), s)
     | Some i \<Rightarrow>
       let found = session_by_id i db;
           subject = (case found of None \<Rightarrow> '''' | Some se \<Rightarrow> str_uuid (se_user_id se));
           (was_live, db1) = revoke_session i db;
           db2 = (if was_live then enqueue (SessionEnded subject session_id SESSION_REVOKED) db1 else db1);
           db3 = (if was_live \<and> revoked_by \<noteq> '''' then enqueue (AdminSessionRevokedBy revoked_by session_id) db2
                  else db2)
       in (Inr (found \<noteq> None), db3,
           if was_live \<and> redis_up then revoke_sid now session_id (as_access_token_ttl st) ca else ca))"

end
