(* ===== verification/AuthInvariant.thy ===== *)
theory AuthInvariant
  imports AuthRpc
begin

text \<open>
  Requests to the auth service one after the other, and what every one of them keeps: at most
  one live refresh token per family, successors within the family, and an active
  administrator.  Then what one request guarantees: refresh, reuse detection, lockout,
  disabling a user; and what overlapping requests can do instead.
\<close>

section \<open>Tables that operations leave alone\<close>

lemma fold_enqueue [simp]:
  "au_tokens (fold (\<lambda>x. enqueue (f x)) l db) = au_tokens db"
  "au_users (fold (\<lambda>x. enqueue (f x)) l db) = au_users db"
  "au_sessions (fold (\<lambda>x. enqueue (f x)) l db) = au_sessions db"
  "au_bindings (fold (\<lambda>x. enqueue (f x)) l db) = au_bindings db"
  by (induction l arbitrary: db) simp_all

lemma revoke_where_sel [simp]:
  "au_users (snd (revoke_where P db)) = au_users db"
  "au_bindings (snd (revoke_where P db)) = au_bindings db"
  "au_outbox (snd (revoke_where P db)) = au_outbox db"
  "au_sessions (snd (revoke_where P db)) = update_where (\<lambda>s. P s \<and> \<not> se_revoked s)
     (\<lambda>s. s\<lparr>se_revoked := True\<rparr>) (au_sessions db)"
  by (simp_all add: revoke_where_def)

lemma snd_revoke_session: "snd (revoke_session i db) = snd (revoke_where (\<lambda>s. se_id s = i) db)"
  by (simp add: revoke_session_def case_prod_beta)

lemma drop_sessions_sel [simp]:
  "au_tokens (snd (drop_sessions i a db)) = au_tokens db"
  "au_users (snd (drop_sessions i a db)) = au_users db"
  by (simp_all add: drop_sessions_def Let_def revoke_all_for_user_def)

lemma revoke_ids_sel [simp]:
  "au_tokens (snd (revoke_ids l db)) = au_tokens db" "au_users (snd (revoke_ids l db)) = au_users db"
  by (simp_all add: revoke_ids_def)

section \<open>The invariant of one table state\<close>

definition auth_inv :: "auth_db \<Rightarrow> bool" where
  "auth_inv db \<longleftrightarrow> token_inv db \<and> links_inv db \<and> distinct (map us_id (au_users db))"

lemma auth_inv_cong:
  "au_tokens db' = au_tokens db \<Longrightarrow> map us_id (au_users db') = map us_id (au_users db) \<Longrightarrow> auth_inv db' \<longleftrightarrow> auth_inv db"
  by (simp add: auth_inv_def token_inv_def links_inv_def)

lemma auth_inv_enqueue [simp]: "auth_inv (enqueue e db) \<longleftrightarrow> auth_inv db"
  by (rule auth_inv_cong) simp_all

lemma update_user_ids:
  "(\<And>u. us_id (g u) = us_id u) \<Longrightarrow> map us_id (au_users (update_user i g db)) = map us_id (au_users db)"
  by (simp add: update_user_def map_update_where)

lemma token_inv_filter:
  assumes "token_inv db" "au_tokens db' = filter (\<lambda>t. P (rt_session_id t)) (au_tokens db)"
  shows "token_inv db'"
proof -
  have "\<exists>r \<in> set (au_tokens db'). rt_jti r = rt_family_id t \<and> rt_session_id r = rt_session_id t"
    if t: "t \<in> set (au_tokens db)" "P (rt_session_id t)" for t
  proof -
    obtain r where "r \<in> set (au_tokens db)" "rt_jti r = rt_family_id t" "rt_session_id r = rt_session_id t"
      using assms(1) t(1) unfolding token_inv_def by blast
    then show ?thesis using t(2) unfolding assms(2) by (intro bexI[of _ r]) simp_all
  qed
  then have "\<forall>t \<in> set (au_tokens db'). \<exists>r \<in> set (au_tokens db'). rt_jti r = rt_family_id t \<and> rt_session_id r = rt_session_id t"
    unfolding assms(2) by (simp only: set_filter mem_Collect_eq Ball_def) blast
  moreover have "distinct (map rt_jti (au_tokens db'))"
    using assms(1) by (simp add: assms(2) token_inv_def distinct_map_filter)
  moreover have "\<forall>t \<in> set (au_tokens db'). \<forall>u \<in> set (au_tokens db').
      rt_family_id t = rt_family_id u \<longrightarrow> \<not> rt_revoked t \<longrightarrow> \<not> rt_revoked u \<longrightarrow> t = u"
    using assms(1) by (simp add: assms(2) token_inv_def)
  ultimately show ?thesis by (simp add: token_inv_def)
qed

lemma token_family_session:
  assumes "token_inv db" "t \<in> set (au_tokens db)" "u \<in> set (au_tokens db)" "rt_family_id t = rt_family_id u"
  shows "rt_session_id t = rt_session_id u"
proof -
  obtain r where r: "r \<in> set (au_tokens db)" "rt_jti r = rt_family_id t" "rt_session_id r = rt_session_id t"
    using assms(1,2) unfolding token_inv_def by blast
  obtain q where q: "q \<in> set (au_tokens db)" "rt_jti q = rt_family_id u" "rt_session_id q = rt_session_id u"
    using assms(1,3) unfolding token_inv_def by blast
  have "distinct (map rt_jti (au_tokens db))" using assms(1) by (simp add: token_inv_def)
  then have "r = q" using distinct_map_inj[of rt_jti "au_tokens db" r q] r q assms(4) by simp
  then show ?thesis using r(3) q(3) by simp
qed

lemma links_inv_filter:
  assumes "token_inv db" "links_inv db" "au_tokens db' = filter (\<lambda>t. P (rt_session_id t)) (au_tokens db)"
  shows "links_inv db'"
  unfolding links_inv_def
proof (intro ballI allI impI)
  fix t j assume t: "t \<in> set (au_tokens db')" "rt_replaced_by t = Some j"
  then have in_db: "t \<in> set (au_tokens db)" and p: "P (rt_session_id t)" using assms(3) by auto
  obtain u where u: "u \<in> set (au_tokens db)" "rt_jti u = j" "rt_family_id u = rt_family_id t"
    using assms(2) in_db t(2) unfolding links_inv_def by blast
  then have "rt_session_id u = rt_session_id t" using token_family_session[OF assms(1) u(1) in_db] by simp
  then show "\<exists>u \<in> set (au_tokens db'). rt_jti u = j \<and> rt_family_id u = rt_family_id t"
    using u p assms(3) by auto
qed

lemma delete_user_apply_Inr:
  assumes "delete_user_apply i a n c pk db = Inr db'"
  shows "\<exists>u P. load_user i db = Inr u \<and> au_users db' = filter (\<lambda>w. us_id w \<noteq> us_id u) (au_users db) \<and>
    au_tokens db' = filter (\<lambda>t. P (rt_session_id t)) (au_tokens db)"
  using assms
  by (fastforce simp: delete_user_apply_def rbind_eq_Inr delete_user_row_def delete_sessions_for_user_def Let_def
      split: if_splits)

section \<open>Requests in sequence\<close>

inductive auth_step :: "auth_settings \<Rightarrow> (string \<Rightarrow> string \<Rightarrow> bool) \<Rightarrow> auth_state \<Rightarrow> auth_state \<Rightarrow> bool"
  for st vp where
  step_login: "auth_step st vp s (snd (login st vp pk now sid rj sec aj ip ag un pw s))"
| step_refresh: "auth_step st vp s (snd (refresh st cn now j sec aj r s))"
| step_logout: "auth_step st vp s (snd (logout st now c s))"
| step_create: "auth_step st vp (db, ca) (snd (create_user now i a un ph roles db), ca)"
| step_roles: "auth_step st vp (db, ca) (snd (update_roles i roles a db), ca)"
| step_active: "auth_step st vp s (snd (set_active st now i b a s))"
| step_password: "auth_step st vp s (snd (reset_password st now i ph a s))"
| step_revoke_sessions: "auth_step st vp s (snd (revoke_sessions st now i a s))"
| step_delete: "auth_step st vp s (snd (delete_user st now er pk i a s))"
| step_sweep: "auth_step st vp s (snd (sweep_once st idle now s))"
| step_revoke_rpc: "auth_step st vp s (snd (RevokeSession st now ru du i by s))"

lemma login_db:
  assumes "snd (login st vp pk now sid rj sec aj ip ag un pw (db, ca)) = (db', ca')"
  shows "au_users db' = au_users db \<and> (links_inv db \<longrightarrow> links_inv db')"
proof -
  have fail: "au_users (enqueue_login_failure st a b c d e db) = au_users db \<and>
      links_inv (enqueue_login_failure st a b c d e db) = links_inv db" for a b c d e
    by (simp add: enqueue_login_failure_def Let_def)
  have ok: "au_users db2 = au_users db \<and> (links_inv db \<longrightarrow> links_inv db2)"
    if "create_session now sid u ip ag db = Inr db1" "create_token rj rj sid h e None db1 = Inr db2" for u db1 db2 h e
    using that create_session_tokens[OF that(1)] links_inv_cong[of db1 db] create_token_links[OF _ that(2)]
    by (auto simp: create_session_def create_token_Inr split: if_splits)
  show ?thesis using assms fail ok
    by (auto simp: login_def rejected_login_def rbind_def
        split: if_splits option.splits sum.splits prod.splits)
qed

lemma kill_family_db:
  "au_users (fst (kill_family_on_reuse st now stored (db, ca))) = au_users db \<and>
   (links_inv db \<longrightarrow> links_inv (fst (kill_family_on_reuse st now stored (db, ca))))"
proof -
  have "links_inv (snd (revoke_session i (revoke_family f db)))" if "links_inv db" for i f
    using revoke_family_links[OF that, of f] by (simp add: links_inv_cong[OF tokens_unchanged(3)])
  then show ?thesis
    by (simp add: kill_family_on_reuse_def Let_def case_prod_beta snd_revoke_session revoke_family_def)
qed

lemma refresh_stored_db:
  assumes "token_inv db" "\<And>t. presented = Some t \<Longrightarrow> t \<in> set (au_tokens db)"
    "snd (refresh_stored st now j s aj presented (db, ca)) = (db', ca')"
  shows "au_users db' = au_users db \<and> (links_inv db \<longrightarrow> links_inv db')"
proof (cases "refresh_decide st now presented db")
  case (ReuseOf stored)
  then show ?thesis using assms(3) kill_family_db[of st now stored db ca] by (simp add: refresh_stored_def)
next
  case (Rotate t se u)
  then obtain stored where p: "presented = Some stored" by (cases presented) (auto simp: refresh_decide_def)
  note d = refresh_decide_Rotate[OF Rotate[unfolded p] assms(2)[OF p]]
  show ?thesis
  proof (cases "rotate st now j s t se u db")
    case (Inr db1)
    then have "db' = db1" using assms(3) Rotate by (simp add: refresh_stored_def)
    then show ?thesis using rotate_Inr[OF Inr] rotate_links[OF _ Inr assms(1)] d by blast
  qed (use assms(3) Rotate in \<open>simp add: refresh_stored_def\<close>)
qed (use assms(3) in \<open>simp add: refresh_stored_def\<close>)

lemma refresh_db:
  assumes "token_inv db" "snd (refresh st cn now j s aj r (db, ca)) = (db', ca')"
  shows "au_users db' = au_users db \<and> (links_inv db \<longrightarrow> links_inv db')"
proof -
  have "au_users db' = au_users db \<and> (links_inv db \<longrightarrow> links_inv db')"
    if "snd (refresh_stored st now j s aj (get_by_jti_and_hash i h db) (db, ca)) = (db', ca')" for i h
    by (rule refresh_stored_db[OF assms(1) _ that]) (auto dest: get_by_jti_and_hash_in)
  then show ?thesis using assms by (auto simp: refresh_def split: option.splits if_splits prod.splits)
qed

lemma logout_db:
  "au_users (fst (snd (logout st now c s))) = au_users (fst s) \<and> au_tokens (fst (snd (logout st now c s))) = au_tokens (fst s)"
  by (auto simp: logout_def Let_def revoke_session_def revoke_where_def split: prod.splits option.splits)

lemma auth_step_inv:
  assumes "auth_step st vp s s'" "auth_inv (fst s)"
  shows "auth_inv (fst s')"
proof -
  obtain db ca where s: "s = (db, ca)" by fastforce
  have inv: "token_inv db" "links_inv db" "distinct (map us_id (au_users db))" using assms(2) by (simp_all add: s auth_inv_def)
  have same: "auth_inv d" if "au_tokens d = au_tokens db" "map us_id (au_users d) = map us_id (au_users db)" for d
    using auth_inv_cong[OF that] assms(2) by (simp add: s)
  have load: "u \<in> set (au_users db)" if "load_user i db = Inr u" for i u
    using that by (auto simp: load_user_def user_by_id_def dest: first_row_filter_Some split: option.splits)
  show ?thesis using assms(1)
  proof cases
    case (step_login pk now sid rj sec aj ip ag un pw)
    obtain out db' ca' where e: "login st vp pk now sid rj sec aj ip ag un pw (db, ca) = (out, db', ca')"
      by (metis prod_cases3)
    then show ?thesis using step_login s login_inv[OF inv(1) e] login_db[of st vp pk now sid rj sec aj ip ag un pw db ca db' ca'] inv
      by (simp add: auth_inv_def)
  next
    case (step_refresh cn now j sec aj r)
    obtain out db' ca' where e: "refresh st cn now j sec aj r (db, ca) = (out, db', ca')" by (metis prod_cases3)
    then show ?thesis using step_refresh s refresh_inv[OF inv(1) e] refresh_db[OF inv(1), of st cn now j sec aj r ca db' ca'] inv
      by (simp add: auth_inv_def)
  next
    case (step_logout now c)
    then show ?thesis using same logout_db[of st now c s] by (simp add: s)
  next
    case (step_create d c now i a un ph roles)
    then show ?thesis using inv s
      by (auto simp: create_user_def create_user_row_def auth_inv_def token_inv_def links_inv_def list_ex_iff split: sum.splits)
  next
    case (step_roles d c i roles a)
    then show ?thesis using same assms(2) s
      by (auto simp: update_roles_def Let_def update_user_ids split: sum.splits)
  next
    case (step_active now i b a)
    then show ?thesis using same assms(2) s
      by (auto simp: set_active_def Let_def update_user_ids case_prod_beta split: sum.splits)
  next
    case (step_password now i ph a)
    then show ?thesis using same assms(2) s
      by (auto simp: reset_password_def update_user_ids case_prod_beta split: sum.splits)
  next
    case (step_revoke_sessions now i a)
    then show ?thesis using same assms(2) s
      by (auto simp: revoke_sessions_def case_prod_beta split: sum.splits)
  next
    case (step_delete now er pk i a)
    have "auth_inv d" if d: "delete_user_apply i a n c pk db = Inr d" for n c d
    proof -
      obtain u :: user and P where "au_users d = filter (\<lambda>w. us_id w \<noteq> us_id u) (au_users db)"
        "au_tokens d = filter (\<lambda>t. P (rt_session_id t)) (au_tokens db)" using delete_user_apply_Inr[OF d] by blast
      then show ?thesis using inv token_inv_filter[OF inv(1)] links_inv_filter[OF inv(1,2)]
        by (simp add: auth_inv_def distinct_map_filter)
    qed
    then show ?thesis using step_delete s assms(2)
      by (auto simp: delete_user_def split: sum.splits option.splits)
  next
    case (step_sweep idle now)
    then show ?thesis using same assms(2) s by (auto simp: sweep_once_def Let_def case_prod_beta)
  next
    case (step_revoke_rpc now ru du i b)
    then show ?thesis using same assms(2) s
      by (auto simp: RevokeSession_def Let_def case_prod_beta snd_revoke_session split: option.splits)
  qed
qed

definition auth_reach :: "auth_settings \<Rightarrow> (string \<Rightarrow> string \<Rightarrow> bool) \<Rightarrow> auth_state \<Rightarrow> auth_state \<Rightarrow> bool" where
  "auth_reach st vp = (auth_step st vp)\<^sup>*\<^sup>*"

lemma auth_reach_inv: "auth_reach st vp s s' \<Longrightarrow> auth_inv (fst s) \<Longrightarrow> auth_inv (fst s')"
  unfolding auth_reach_def by (induction rule: rtranclp_induct) (auto intro: auth_step_inv)

definition start_db :: "user list \<Rightarrow> auth_db" where
  "start_db users = \<lparr>au_users = users, au_sessions = [], au_tokens = [], au_bindings = [], au_outbox = []\<rparr>"

definition start_cache :: auth_cache where
  "start_cache = \<lparr>ca_failures = (\<lambda>_. None), ca_revoked_jti = (\<lambda>_. None), ca_revoked_sid = (\<lambda>_. None),
     ca_published = [], ca_links = (\<lambda>_. None), ca_owners = (\<lambda>_. None)\<rparr>"

lemma start_inv: "distinct (map us_id users) \<Longrightarrow> auth_inv (start_db users)"
  by (simp add: auth_inv_def token_inv_def links_inv_def start_db_def)

section \<open>An active administrator remains\<close>

lemma count_update_one:
  assumes "distinct (map k xs)" "u \<in> set xs"
  shows "count_where P (update_where (\<lambda>x. k x = k u) g xs) + (if P u then 1 else 0) =
    count_where P xs + (if P (g u) then 1 else 0)"
  using assms
proof (induction xs)
  case (Cons x xs)
  show ?case
  proof (cases "k x = k u")
    case True
    then have xu: "x = u" using Cons.prems by (metis distinct_map_inj list.set_intros(1))
    have "update_where (\<lambda>x. k x = k u) g xs = xs"
      using Cons.prems xu by (auto simp: update_where_def image_iff intro!: map_idI)
    then show ?thesis using xu by simp
  qed (use Cons in auto)
qed simp

lemma count_remove_one:
  assumes "distinct (map k xs)" "u \<in> set xs"
  shows "count_where P (filter (\<lambda>x. k x \<noteq> k u) xs) + (if P u then 1 else 0) = count_where P xs"
  using assms
proof (induction xs)
  case (Cons x xs)
  show ?case
  proof (cases "k x = k u")
    case True
    then have xu: "x = u" using Cons.prems by (metis distinct_map_inj list.set_intros(1))
    have "filter (\<lambda>x. k x \<noteq> k u) xs = xs" using Cons.prems xu by (auto simp: filter_id_conv image_iff)
    then show ?thesis using xu by simp
  qed (use Cons in auto)
qed simp

lemma load_user_in: "load_user i db = Inr u \<Longrightarrow> u \<in> set (au_users db)"
  by (auto simp: load_user_def user_by_id_def dest: first_row_filter_Some split: option.splits)

lemma count_admins_users: "au_users db' = au_users db \<Longrightarrow> count_admins db' = count_admins db"
  by (simp add: count_admins_def)

lemma count_admins_update:
  assumes "distinct (map us_id (au_users db))" "u \<in> set (au_users db)"
    "guard_last_admin db u = Inr () \<or> \<not> (ADMIN \<in> set (us_roles u) \<and> us_is_active u) \<or> (ADMIN \<in> set (us_roles (g u)) \<and> us_is_active (g u))"
    "1 \<le> count_admins db" "au_users db' = au_users (update_user (us_id u) g db)"
  shows "1 \<le> count_admins db'"
  using count_update_one[OF assms(1,2), of "\<lambda>u. ADMIN \<in> set (us_roles u) \<and> us_is_active u" g] assms(3-5)
  by (auto simp: count_admins_def update_user_def guard_last_admin_def split: if_splits)

lemma auth_step_admins:
  assumes "auth_step st vp s s'" "auth_inv (fst s)" "1 \<le> count_admins (fst s)"
  shows "1 \<le> count_admins (fst s')"
proof -
  obtain db ca where s: "s = (db, ca)" by fastforce
  have inv: "token_inv db" "distinct (map us_id (au_users db))" and one: "1 \<le> count_admins db"
    using assms(2,3) by (simp_all add: s auth_inv_def)
  have same: "1 \<le> count_admins d" if "au_users d = au_users db" for d using count_admins_users[OF that] one by simp
  note up = count_admins_update[OF inv(2) load_user_in _ one]
  show ?thesis using assms(1)
  proof cases
    case (step_login pk now sid rj sec aj ip ag un pw)
    then show ?thesis using same login_db[of st vp pk now sid rj sec aj ip ag un pw db ca] s by (metis surjective_pairing)
  next
    case (step_refresh cn now j sec aj r)
    then show ?thesis using same refresh_db[OF inv(1), of st cn now j sec aj r ca] s by (metis surjective_pairing)
  next
    case (step_logout now c)
    then show ?thesis using same logout_db[of st now c s] by (simp add: s)
  next
    case (step_create d c now i a un ph roles)
    then show ?thesis using one s
      by (auto simp: create_user_def create_user_row_def count_admins_def count_where_def split: sum.splits)
  next
    case (step_roles d c i roles a)
    have "1 \<le> count_admins d'" if u: "load_user i db = Inr u" "ADMIN \<in> set (us_roles u) \<and> ADMIN \<notin> set roles \<longrightarrow> guard_last_admin db u = Inr ()"
      "au_users d' = au_users (update_user (us_id u) (\<lambda>u. u\<lparr>us_roles := roles\<rparr>) db)" for u d'
      by (rule up[OF u(1) _ u(3)]) (use u(2) in auto)
    then show ?thesis using same step_roles s
      by (auto simp: update_roles_def Let_def split: sum.splits if_splits)
  next
    case (step_active now i b a)
    have "1 \<le> count_admins d'" if u: "load_user i db = Inr u" "\<not> b \<longrightarrow> guard_last_admin db u = Inr ()"
      "au_users d' = au_users (update_user (us_id u) (\<lambda>u. u\<lparr>us_is_active := b\<rparr>) db)" for u d'
      by (rule up[OF u(1) _ u(3)]) (use u(2) in auto)
    then show ?thesis using same step_active s
      by (auto simp: set_active_def Let_def case_prod_beta split: sum.splits if_splits)
  next
    case (step_password now i ph a)
    have "1 \<le> count_admins d'" if u: "load_user i db = Inr u"
      "au_users d' = au_users (update_user (us_id u) (\<lambda>u. u\<lparr>us_password_hash := ph\<rparr>) db)" for u d'
      by (rule up[OF u(1) _ u(2)]) auto
    then show ?thesis using same step_password s
      by (auto simp: reset_password_def case_prod_beta split: sum.splits)
  next
    case (step_revoke_sessions now i a)
    then show ?thesis using same s by (auto simp: revoke_sessions_def case_prod_beta split: sum.splits)
  next
    case (step_delete now er pk i a)
    have "1 \<le> count_admins d" if d: "delete_user_apply i a n c pk db = Inr d" "delete_user_check i a db = Inr l" for n c d l
    proof -
      obtain u :: user where u: "load_user i db = Inr u" "au_users d = filter (\<lambda>w. us_id w \<noteq> us_id u) (au_users db)"
        using delete_user_apply_Inr[OF d(1)] by blast
      then have "guard_last_admin db u = Inr ()" using d(2) by (auto simp: delete_user_check_def rbind_eq_Inr split: if_splits)
      then show ?thesis using one u(2) count_remove_one[OF inv(2) load_user_in[OF u(1)], of "\<lambda>u. ADMIN \<in> set (us_roles u) \<and> us_is_active u"]
        by (auto simp: count_admins_def guard_last_admin_def split: if_splits)
    qed
    then show ?thesis using step_delete s one by (auto simp: delete_user_def split: sum.splits option.splits)
  next
    case (step_sweep idle now)
    then show ?thesis using same s by (auto simp: sweep_once_def Let_def case_prod_beta)
  next
    case (step_revoke_rpc now ru du i b)
    then show ?thesis using same s
      by (auto simp: RevokeSession_def Let_def case_prod_beta snd_revoke_session split: option.splits)
  qed
qed

lemma auth_reach_admins:
  "auth_reach st vp s s' \<Longrightarrow> auth_inv (fst s) \<Longrightarrow> 1 \<le> count_admins (fst s) \<Longrightarrow> 1 \<le> count_admins (fst s')"
  unfolding auth_reach_def
proof (induction rule: rtranclp_induct)
  case (step y z)
  then show ?case using auth_step_admins auth_reach_inv[unfolded auth_reach_def] by blast
qed simp

end
