(* ===== verification/Sha256Vectors.thy ===== *)
theory Sha256Vectors
  imports Sha256
begin

text \<open>
  Digests of one-character messages, computed by the simplifier from the definition of
  \<open>sha256\<close>: the schedule, the 64 rounds in eight steps, and the output.  They agree with the
  standard's algorithm and serve the witnesses that need two secrets with different hashes.
\<close>

lemma be_bytes_8_8: "be_bytes 8 8 = [0, 0, 0, 0, 0, 0, 0, 8]"
  by code_simp

lemma be_bytes_4: "be_bytes 4 n = [word_of_nat (n div 256 div 256 div 256), word_of_nat (n div 256 div 256),
    word_of_nat (n div 256), word_of_nat n]"
proof -
  have "(4 :: nat) = Suc (Suc (Suc (Suc 0)))" by simp
  then show ?thesis by (simp only: be_bytes.simps append.simps)
qed

lemma zeros_54: "replicate 54 (0 :: byte) = [0, 0, 0, 0, 0, 0, 0, 0, 0, 0, 0, 0, 0, 0, 0, 0, 0, 0, 0, 0, 0,
    0, 0, 0, 0, 0, 0, 0, 0, 0, 0, 0, 0, 0, 0, 0, 0, 0, 0, 0, 0, 0, 0, 0, 0, 0, 0, 0, 0, 0, 0, 0, 0, 0]"
  by code_simp

lemma sha_pad_one: "sha_pad [b] = [b, 0x80] @ replicate 54 0 @ [0, 0, 0, 0, 0, 0, 0, 8]"
  by (simp add: sha_pad_def be_bytes_8_8)

lemma sha256_one:
  "sha256 [b] = sha_output (sha_compress sha_init (sha_words ([b, 0x80] @ replicate 54 0 @ [0, 0, 0, 0, 0,
      0, 0, 8])))"
  by (simp add: sha256_def sha_pad_one)

lemma sha_n_extend_1: "foldl sha_extend [1853882368, 0, 0, 0, 0, 0, 0, 0, 0, 0, 0, 0, 0, 0, 0, 8] [16, 17,
    18, 19, 20, 21, 22, 23, 24, 25, 26, 27] =
   [1853882368, 0, 0, 0, 0, 0, 0, 0, 0, 0, 0, 0, 0, 0, 0, 8, 1853882368, 327680, 1809040, 536871234,
       3189376744, 8475648, 1132908119, 4009762821, 3203835904, 341124344, 2704275025, 4110427345]"
  by (simp add: sha_extend_def rotr_def Let_def)

lemma sha_n_extend_2: "foldl sha_extend [1853882368, 0, 0, 0, 0, 0, 0, 0, 0, 0, 0, 0, 0, 0, 0, 8,
    1853882368, 327680, 1809040, 536871234, 3189376744, 8475648, 1132908119, 4009762821, 3203835904,
    341124344, 2704275025, 4110427345] [28, 29, 30, 31, 32, 33, 34, 35, 36, 37, 38, 39] =
   [1853882368, 0, 0, 0, 0, 0, 0, 0, 0, 0, 0, 0, 0, 0, 0, 8, 1853882368, 327680, 1809040, 536871234,
       3189376744, 8475648, 1132908119, 4009762821, 3203835904, 341124344, 2704275025, 4110427345,
       105644879, 1515606656, 2161250549, 2936698781, 219812848, 3706903467, 3232860469, 2749958456,
       1661859228, 1011427703, 1429619726, 1784133577]"
  by (simp add: sha_extend_def rotr_def Let_def)

lemma sha_n_extend_3: "foldl sha_extend [1853882368, 0, 0, 0, 0, 0, 0, 0, 0, 0, 0, 0, 0, 0, 0, 8,
    1853882368, 327680, 1809040, 536871234, 3189376744, 8475648, 1132908119, 4009762821, 3203835904,
    341124344, 2704275025, 4110427345, 105644879, 1515606656, 2161250549, 2936698781, 219812848, 3706903467,
    3232860469, 2749958456, 1661859228, 1011427703, 1429619726, 1784133577] [40, 41, 42, 43, 44, 45, 46, 47,
    48, 49, 50, 51] =
   [1853882368, 0, 0, 0, 0, 0, 0, 0, 0, 0, 0, 0, 0, 0, 0, 8, 1853882368, 327680, 1809040, 536871234,
       3189376744, 8475648, 1132908119, 4009762821, 3203835904, 341124344, 2704275025, 4110427345,
       105644879, 1515606656, 2161250549, 2936698781, 219812848, 3706903467, 3232860469, 2749958456,
       1661859228, 1011427703, 1429619726, 1784133577, 1108950298, 1291945254, 3000395804, 3897140138,
       3675592657, 340613086, 3349548617, 1467680208, 465900984, 2213242226, 4175300749, 2801191413]"
  by (simp add: sha_extend_def rotr_def Let_def)

lemma sha_n_extend_4: "foldl sha_extend [1853882368, 0, 0, 0, 0, 0, 0, 0, 0, 0, 0, 0, 0, 0, 0, 8,
    1853882368, 327680, 1809040, 536871234, 3189376744, 8475648, 1132908119, 4009762821, 3203835904,
    341124344, 2704275025, 4110427345, 105644879, 1515606656, 2161250549, 2936698781, 219812848, 3706903467,
    3232860469, 2749958456, 1661859228, 1011427703, 1429619726, 1784133577, 1108950298, 1291945254,
    3000395804, 3897140138, 3675592657, 340613086, 3349548617, 1467680208, 465900984, 2213242226,
    4175300749, 2801191413] [52, 53, 54, 55, 56, 57, 58, 59, 60, 61, 62, 63] =
   [1853882368, 0, 0, 0, 0, 0, 0, 0, 0, 0, 0, 0, 0, 0, 0, 8, 1853882368, 327680, 1809040, 536871234,
       3189376744, 8475648, 1132908119, 4009762821, 3203835904, 341124344, 2704275025, 4110427345,
       105644879, 1515606656, 2161250549, 2936698781, 219812848, 3706903467, 3232860469, 2749958456,
       1661859228, 1011427703, 1429619726, 1784133577, 1108950298, 1291945254, 3000395804, 3897140138,
       3675592657, 340613086, 3349548617, 1467680208, 465900984, 2213242226, 4175300749, 2801191413,
       3765517022, 1223443227, 3643407705, 2744863067, 2880037192, 3368427141, 1185413642, 2457618836,
       296604332, 2755499478, 696171690, 2982059905]"
  by (simp add: sha_extend_def rotr_def Let_def)

lemma sha_n_schedule: "sha_schedule [1853882368, 0, 0, 0, 0, 0, 0, 0, 0, 0, 0, 0, 0, 0, 0, 8] =
   [1853882368, 0, 0, 0, 0, 0, 0, 0, 0, 0, 0, 0, 0, 0, 0, 8, 1853882368, 327680, 1809040, 536871234,
       3189376744, 8475648, 1132908119, 4009762821, 3203835904, 341124344, 2704275025, 4110427345,
       105644879, 1515606656, 2161250549, 2936698781, 219812848, 3706903467, 3232860469, 2749958456,
       1661859228, 1011427703, 1429619726, 1784133577, 1108950298, 1291945254, 3000395804, 3897140138,
       3675592657, 340613086, 3349548617, 1467680208, 465900984, 2213242226, 4175300749, 2801191413,
       3765517022, 1223443227, 3643407705, 2744863067, 2880037192, 3368427141, 1185413642, 2457618836,
       296604332, 2755499478, 696171690, 2982059905]"
proof -
  have "[16 ..< 64 :: nat] = [16, 17, 18, 19, 20, 21, 22, 23, 24, 25, 26, 27] @ [28, 29, 30, 31, 32, 33, 34,
      35, 36, 37, 38, 39] @ [40, 41, 42, 43, 44, 45, 46, 47, 48, 49, 50, 51] @ [52, 53, 54, 55, 56, 57, 58,
      59, 60, 61, 62, 63]" by (simp add: upt_rec)
  then show ?thesis unfolding sha_schedule_def by (simp only: foldl_append sha_n_extend_1 sha_n_extend_2
      sha_n_extend_3 sha_n_extend_4)
qed

lemma sha_n_rounds_1: "foldl sha_round (ShaState 1779033703 3144134277 1013904242 2773480762 1359893119
    2600822924 528734635 1541459225) [(1116352408, 1853882368), (1899447441, 0), (3049323471, 0),
    (3921009573, 0), (961987163, 0), (1508970993, 0), (2453635748, 0), (2870763221, 0)] =
   ShaState 1472235053 1764922101 3390613933 1091089524 2018775374 1487086980 1173258688 1167724016"
  by (simp add: rotr_def)

lemma sha_n_rounds_2: "foldl sha_round (ShaState 1472235053 1764922101 3390613933 1091089524 2018775374
    1487086980 1173258688 1167724016) [(3624381080, 0), (310598401, 0), (607225278, 0), (1426881987, 0),
    (1925078388, 0), (2162078206, 0), (2614888103, 0), (3248222580, 8)] =
   ShaState 62873942 2739631801 1752411193 224821576 276242370 2194378890 2281575175 1760117015"
  by (simp add: rotr_def)

lemma sha_n_rounds_3: "foldl sha_round (ShaState 62873942 2739631801 1752411193 224821576 276242370
    2194378890 2281575175 1760117015) [(3835390401, 1853882368), (4022224774, 327680), (264347078, 1809040),
    (604807628, 536871234), (770255983, 3189376744), (1249150122, 8475648), (1555081692, 1132908119),
    (1996064986, 4009762821)] =
   ShaState 2800093443 153846554 795653583 244188273 4240648621 796836036 1820803369 3714208695"
  by (simp add: rotr_def)

lemma sha_n_rounds_4: "foldl sha_round (ShaState 2800093443 153846554 795653583 244188273 4240648621
    796836036 1820803369 3714208695) [(2554220882, 3203835904), (2821834349, 341124344), (2952996808,
    2704275025), (3210313671, 4110427345), (3336571891, 105644879), (3584528711, 1515606656), (113926993,
    2161250549), (338241895, 2936698781)] =
   ShaState 592011111 3075484470 2047123074 172624439 3493417381 1789375011 2895604759 833793934"
  by (simp add: rotr_def)

lemma sha_n_rounds_5: "foldl sha_round (ShaState 592011111 3075484470 2047123074 172624439 3493417381
    1789375011 2895604759 833793934) [(666307205, 219812848), (773529912, 3706903467), (1294757372,
    3232860469), (1396182291, 2749958456), (1695183700, 1661859228), (1986661051, 1011427703), (2177026350,
    1429619726), (2456956037, 1784133577)] =
   ShaState 2720664205 3265786413 2264560447 2740737669 1572671028 3183561667 1929157780 3105902845"
  by (simp add: rotr_def)

lemma sha_n_rounds_6: "foldl sha_round (ShaState 2720664205 3265786413 2264560447 2740737669 1572671028
    3183561667 1929157780 3105902845) [(2730485921, 1108950298), (2820302411, 1291945254), (3259730800,
    3000395804), (3345764771, 3897140138), (3516065817, 3675592657), (3600352804, 340613086), (4094571909,
    3349548617), (275423344, 1467680208)] =
   ShaState 2746118780 2549321180 749681501 1395172868 2736991767 580464853 3744099399 1633607826"
  by (simp add: rotr_def)

lemma sha_n_rounds_7: "foldl sha_round (ShaState 2746118780 2549321180 749681501 1395172868 2736991767
    580464853 3744099399 1633607826) [(430227734, 465900984), (506948616, 2213242226), (659060556,
    4175300749), (883997877, 2801191413), (958139571, 3765517022), (1322822218, 1223443227), (1537002063,
    3643407705), (1747873779, 2744863067)] =
   ShaState 3862173608 228215971 430356279 522744985 530170789 2554858039 1189628942 3854641737"
  by (simp add: rotr_def)

lemma sha_n_rounds_8: "foldl sha_round (ShaState 3862173608 228215971 430356279 522744985 530170789
    2554858039 1189628942 3854641737) [(1955562222, 2880037192), (2024104815, 3368427141), (2227730452,
    1185413642), (2361852424, 2457618836), (2428436474, 296604332), (2756734187, 2755499478), (3204031479,
    696171690), (3329325298, 2982059905)] =
   ShaState 2970405752 2552492712 2274003817 319599926 4291172757 3861823619 3424925143 3672600736"
  by (simp add: rotr_def)

lemma sha_n_words: "sha_words ([110, 0x80] @ replicate 54 0 @ [0, 0, 0, 0, 0, 0, 0, 8]) = [1853882368, 0, 0,
    0, 0, 0, 0, 0, 0, 0, 0, 0, 0, 0, 0, 8]"
  by (simp add: zeros_54 be_value_def)

lemma sha_n_zip: "zip round_constants [1853882368, 0, 0, 0, 0, 0, 0, 0, 0, 0, 0, 0, 0, 0, 0, 8, 1853882368,
    327680, 1809040, 536871234, 3189376744, 8475648, 1132908119, 4009762821, 3203835904, 341124344,
    2704275025, 4110427345, 105644879, 1515606656, 2161250549, 2936698781, 219812848, 3706903467,
    3232860469, 2749958456, 1661859228, 1011427703, 1429619726, 1784133577, 1108950298, 1291945254,
    3000395804, 3897140138, 3675592657, 340613086, 3349548617, 1467680208, 465900984, 2213242226,
    4175300749, 2801191413, 3765517022, 1223443227, 3643407705, 2744863067, 2880037192, 3368427141,
    1185413642, 2457618836, 296604332, 2755499478, 696171690, 2982059905] =
   [(1116352408, 1853882368), (1899447441, 0), (3049323471, 0), (3921009573, 0), (961987163, 0),
       (1508970993, 0), (2453635748, 0), (2870763221, 0)] @ [(3624381080, 0), (310598401, 0), (607225278,
       0), (1426881987, 0), (1925078388, 0), (2162078206, 0), (2614888103, 0), (3248222580, 8)] @
       [(3835390401, 1853882368), (4022224774, 327680), (264347078, 1809040), (604807628, 536871234),
       (770255983, 3189376744), (1249150122, 8475648), (1555081692, 1132908119), (1996064986, 4009762821)] @
       [(2554220882, 3203835904), (2821834349, 341124344), (2952996808, 2704275025), (3210313671,
       4110427345), (3336571891, 105644879), (3584528711, 1515606656), (113926993, 2161250549), (338241895,
       2936698781)] @ [(666307205, 219812848), (773529912, 3706903467), (1294757372, 3232860469),
       (1396182291, 2749958456), (1695183700, 1661859228), (1986661051, 1011427703), (2177026350,
       1429619726), (2456956037, 1784133577)] @ [(2730485921, 1108950298), (2820302411, 1291945254),
       (3259730800, 3000395804), (3345764771, 3897140138), (3516065817, 3675592657), (3600352804,
       340613086), (4094571909, 3349548617), (275423344, 1467680208)] @ [(430227734, 465900984), (506948616,
       2213242226), (659060556, 4175300749), (883997877, 2801191413), (958139571, 3765517022), (1322822218,
       1223443227), (1537002063, 3643407705), (1747873779, 2744863067)] @ [(1955562222, 2880037192),
       (2024104815, 3368427141), (2227730452, 1185413642), (2361852424, 2457618836), (2428436474,
       296604332), (2756734187, 2755499478), (3204031479, 696171690), (3329325298, 2982059905)]"
  by (simp add: round_constants_def)

lemma sha256_n: "sha256 (utf8 ''n'') = [27, 22, 177, 223, 83, 139, 161, 45, 195, 249, 126, 219, 184, 92,
    170, 112, 80, 212, 108, 20, 129, 52, 41, 15, 235, 168, 15, 130, 54, 200, 61, 185]"
proof -
  have u: "utf8 ''n'' = [110]" by (simp add: utf8_def)
  show ?thesis unfolding u sha256_one sha_n_words sha_compress_def sha_n_schedule sha_n_zip foldl_append
      sha_init_def sha_n_rounds_1 sha_n_rounds_2 sha_n_rounds_3 sha_n_rounds_4 sha_n_rounds_5 sha_n_rounds_6
          sha_n_rounds_7 sha_n_rounds_8
    by (simp add: be_bytes_4)
qed


lemma sha_s_extend_1: "foldl sha_extend [1937768448, 0, 0, 0, 0, 0, 0, 0, 0, 0, 0, 0, 0, 0, 0, 8] [16, 17,
    18, 19, 20, 21, 22, 23, 24, 25, 26, 27] =
   [1937768448, 0, 0, 0, 0, 0, 0, 0, 0, 0, 0, 0, 0, 0, 0, 8, 1937768448, 327680, 1890224, 536871234,
       4046325560, 8475648, 3276221755, 4093648901, 1930381312, 341580856, 1830614390, 2127308506]"
  by (simp add: sha_extend_def rotr_def Let_def)

lemma sha_s_extend_2: "foldl sha_extend [1937768448, 0, 0, 0, 0, 0, 0, 0, 0, 0, 0, 0, 0, 0, 0, 8,
    1937768448, 327680, 1890224, 536871234, 4046325560, 8475648, 3276221755, 4093648901, 1930381312,
    341580856, 1830614390, 2127308506] [28, 29, 30, 31, 32, 33, 34, 35, 36, 37, 38, 39] =
   [1937768448, 0, 0, 0, 0, 0, 0, 0, 0, 0, 0, 0, 0, 0, 0, 8, 1937768448, 327680, 1890224, 536871234,
       4046325560, 8475648, 3276221755, 4093648901, 1930381312, 341580856, 1830614390, 2127308506,
       3834646544, 1525739761, 238381796, 3893796610, 3758739903, 1600963970, 3519649061, 3976229214,
       2570207465, 3927393612, 823589036, 4207364783]"
  by (simp add: sha_extend_def rotr_def Let_def)

lemma sha_s_extend_3: "foldl sha_extend [1937768448, 0, 0, 0, 0, 0, 0, 0, 0, 0, 0, 0, 0, 0, 0, 8,
    1937768448, 327680, 1890224, 536871234, 4046325560, 8475648, 3276221755, 4093648901, 1930381312,
    341580856, 1830614390, 2127308506, 3834646544, 1525739761, 238381796, 3893796610, 3758739903,
    1600963970, 3519649061, 3976229214, 2570207465, 3927393612, 823589036, 4207364783] [40, 41, 42, 43, 44,
    45, 46, 47, 48, 49, 50, 51] =
   [1937768448, 0, 0, 0, 0, 0, 0, 0, 0, 0, 0, 0, 0, 0, 0, 8, 1937768448, 327680, 1890224, 536871234,
       4046325560, 8475648, 3276221755, 4093648901, 1930381312, 341580856, 1830614390, 2127308506,
       3834646544, 1525739761, 238381796, 3893796610, 3758739903, 1600963970, 3519649061, 3976229214,
       2570207465, 3927393612, 823589036, 4207364783, 3950585665, 243704137, 3290562707, 3588983300,
       3840512180, 3554883659, 3263483643, 3864462108, 727089673, 3124172338, 4113709587, 2349454458]"
  by (simp add: sha_extend_def rotr_def Let_def)

lemma sha_s_extend_4: "foldl sha_extend [1937768448, 0, 0, 0, 0, 0, 0, 0, 0, 0, 0, 0, 0, 0, 0, 8,
    1937768448, 327680, 1890224, 536871234, 4046325560, 8475648, 3276221755, 4093648901, 1930381312,
    341580856, 1830614390, 2127308506, 3834646544, 1525739761, 238381796, 3893796610, 3758739903,
    1600963970, 3519649061, 3976229214, 2570207465, 3927393612, 823589036, 4207364783, 3950585665,
    243704137, 3290562707, 3588983300, 3840512180, 3554883659, 3263483643, 3864462108, 727089673,
    3124172338, 4113709587, 2349454458] [52, 53, 54, 55, 56, 57, 58, 59, 60, 61, 62, 63] =
   [1937768448, 0, 0, 0, 0, 0, 0, 0, 0, 0, 0, 0, 0, 0, 0, 8, 1937768448, 327680, 1890224, 536871234,
       4046325560, 8475648, 3276221755, 4093648901, 1930381312, 341580856, 1830614390, 2127308506,
       3834646544, 1525739761, 238381796, 3893796610, 3758739903, 1600963970, 3519649061, 3976229214,
       2570207465, 3927393612, 823589036, 4207364783, 3950585665, 243704137, 3290562707, 3588983300,
       3840512180, 3554883659, 3263483643, 3864462108, 727089673, 3124172338, 4113709587, 2349454458,
       491929227, 1570318552, 34098885, 2934422629, 269122451, 3967265719, 3028504789, 625850107,
       1219058450, 537038165, 3727116903, 3307727585]"
  by (simp add: sha_extend_def rotr_def Let_def)

lemma sha_s_schedule: "sha_schedule [1937768448, 0, 0, 0, 0, 0, 0, 0, 0, 0, 0, 0, 0, 0, 0, 8] =
   [1937768448, 0, 0, 0, 0, 0, 0, 0, 0, 0, 0, 0, 0, 0, 0, 8, 1937768448, 327680, 1890224, 536871234,
       4046325560, 8475648, 3276221755, 4093648901, 1930381312, 341580856, 1830614390, 2127308506,
       3834646544, 1525739761, 238381796, 3893796610, 3758739903, 1600963970, 3519649061, 3976229214,
       2570207465, 3927393612, 823589036, 4207364783, 3950585665, 243704137, 3290562707, 3588983300,
       3840512180, 3554883659, 3263483643, 3864462108, 727089673, 3124172338, 4113709587, 2349454458,
       491929227, 1570318552, 34098885, 2934422629, 269122451, 3967265719, 3028504789, 625850107,
       1219058450, 537038165, 3727116903, 3307727585]"
proof -
  have "[16 ..< 64 :: nat] = [16, 17, 18, 19, 20, 21, 22, 23, 24, 25, 26, 27] @ [28, 29, 30, 31, 32, 33, 34,
      35, 36, 37, 38, 39] @ [40, 41, 42, 43, 44, 45, 46, 47, 48, 49, 50, 51] @ [52, 53, 54, 55, 56, 57, 58,
      59, 60, 61, 62, 63]" by (simp add: upt_rec)
  then show ?thesis unfolding sha_schedule_def by (simp only: foldl_append sha_s_extend_1 sha_s_extend_2
      sha_s_extend_3 sha_s_extend_4)
qed

lemma sha_s_rounds_1: "foldl sha_round (ShaState 1779033703 3144134277 1013904242 2773480762 1359893119
    2600822924 528734635 1541459225) [(1116352408, 1937768448), (1899447441, 0), (3049323471, 0),
    (3921009573, 0), (961987163, 0), (1508970993, 0), (2453635748, 0), (2870763221, 0)] =
   ShaState 3697271662 3760387871 1882489397 3901847808 2181318913 3922025874 694236748 785085971"
  by (simp add: rotr_def)

lemma sha_s_rounds_2: "foldl sha_round (ShaState 3697271662 3760387871 1882489397 3901847808 2181318913
    3922025874 694236748 785085971) [(3624381080, 0), (310598401, 0), (607225278, 0), (1426881987, 0),
    (1925078388, 0), (2162078206, 0), (2614888103, 0), (3248222580, 8)] =
   ShaState 3253962933 560260329 242724495 875771879 1813991004 3217598517 1814361243 2198731741"
  by (simp add: rotr_def)

lemma sha_s_rounds_3: "foldl sha_round (ShaState 3253962933 560260329 242724495 875771879 1813991004
    3217598517 1814361243 2198731741) [(3835390401, 1937768448), (4022224774, 327680), (264347078, 1890224),
    (604807628, 536871234), (770255983, 4046325560), (1249150122, 8475648), (1555081692, 3276221755),
    (1996064986, 4093648901)] =
   ShaState 3043141545 734533521 1631486329 3774459667 3290012963 2054881365 4028147163 636512560"
  by (simp add: rotr_def)

lemma sha_s_rounds_4: "foldl sha_round (ShaState 3043141545 734533521 1631486329 3774459667 3290012963
    2054881365 4028147163 636512560) [(2554220882, 1930381312), (2821834349, 341580856), (2952996808,
    1830614390), (3210313671, 2127308506), (3336571891, 3834646544), (3584528711, 1525739761), (113926993,
    238381796), (338241895, 3893796610)] =
   ShaState 2156203253 2219148993 2763402586 397303531 2508506089 3624560414 2659344501 1644209817"
  by (simp add: rotr_def)

lemma sha_s_rounds_5: "foldl sha_round (ShaState 2156203253 2219148993 2763402586 397303531 2508506089
    3624560414 2659344501 1644209817) [(666307205, 3758739903), (773529912, 1600963970), (1294757372,
    3519649061), (1396182291, 3976229214), (1695183700, 2570207465), (1986661051, 3927393612), (2177026350,
    823589036), (2456956037, 4207364783)] =
   ShaState 2943134378 4281559314 2452422920 4215049299 2067813816 2497683914 3972513201 3408670624"
  by (simp add: rotr_def)

lemma sha_s_rounds_6: "foldl sha_round (ShaState 2943134378 4281559314 2452422920 4215049299 2067813816
    2497683914 3972513201 3408670624) [(2730485921, 3950585665), (2820302411, 243704137), (3259730800,
    3290562707), (3345764771, 3588983300), (3516065817, 3840512180), (3600352804, 3554883659), (4094571909,
    3263483643), (275423344, 3864462108)] =
   ShaState 3218680501 341233350 3360838755 3331560226 4158145699 3610967306 3626349630 497759872"
  by (simp add: rotr_def)

lemma sha_s_rounds_7: "foldl sha_round (ShaState 3218680501 341233350 3360838755 3331560226 4158145699
    3610967306 3626349630 497759872) [(430227734, 727089673), (506948616, 3124172338), (659060556,
    4113709587), (883997877, 2349454458), (958139571, 491929227), (1322822218, 1570318552), (1537002063,
    34098885), (1747873779, 2934422629)] =
   ShaState 3556773776 3714097620 1681766190 4031377066 2250112224 1359426025 3520339591 110452968"
  by (simp add: rotr_def)

lemma sha_s_rounds_8: "foldl sha_round (ShaState 3556773776 3714097620 1681766190 4031377066 2250112224
    1359426025 3520339591 110452968) [(1955562222, 269122451), (2024104815, 3967265719), (2227730452,
    3028504789), (2361852424, 625850107), (2428436474, 1219058450), (2756734187, 537038165), (3204031479,
    3727116903), (3329325298, 3307727585)] =
   ShaState 2586872608 3109930040 1303820876 208656418 2974309266 868890384 537822051 4141736560"
  by (simp add: rotr_def)

lemma sha_s_words: "sha_words ([115, 0x80] @ replicate 54 0 @ [0, 0, 0, 0, 0, 0, 0, 8]) = [1937768448, 0, 0,
    0, 0, 0, 0, 0, 0, 0, 0, 0, 0, 0, 0, 8]"
  by (simp add: zeros_54 be_value_def)

lemma sha_s_zip: "zip round_constants [1937768448, 0, 0, 0, 0, 0, 0, 0, 0, 0, 0, 0, 0, 0, 0, 8, 1937768448,
    327680, 1890224, 536871234, 4046325560, 8475648, 3276221755, 4093648901, 1930381312, 341580856,
    1830614390, 2127308506, 3834646544, 1525739761, 238381796, 3893796610, 3758739903, 1600963970,
    3519649061, 3976229214, 2570207465, 3927393612, 823589036, 4207364783, 3950585665, 243704137,
    3290562707, 3588983300, 3840512180, 3554883659, 3263483643, 3864462108, 727089673, 3124172338,
    4113709587, 2349454458, 491929227, 1570318552, 34098885, 2934422629, 269122451, 3967265719, 3028504789,
    625850107, 1219058450, 537038165, 3727116903, 3307727585] =
   [(1116352408, 1937768448), (1899447441, 0), (3049323471, 0), (3921009573, 0), (961987163, 0),
       (1508970993, 0), (2453635748, 0), (2870763221, 0)] @ [(3624381080, 0), (310598401, 0), (607225278,
       0), (1426881987, 0), (1925078388, 0), (2162078206, 0), (2614888103, 0), (3248222580, 8)] @
       [(3835390401, 1937768448), (4022224774, 327680), (264347078, 1890224), (604807628, 536871234),
       (770255983, 4046325560), (1249150122, 8475648), (1555081692, 3276221755), (1996064986, 4093648901)] @
       [(2554220882, 1930381312), (2821834349, 341580856), (2952996808, 1830614390), (3210313671,
       2127308506), (3336571891, 3834646544), (3584528711, 1525739761), (113926993, 238381796), (338241895,
       3893796610)] @ [(666307205, 3758739903), (773529912, 1600963970), (1294757372, 3519649061),
       (1396182291, 3976229214), (1695183700, 2570207465), (1986661051, 3927393612), (2177026350,
       823589036), (2456956037, 4207364783)] @ [(2730485921, 3950585665), (2820302411, 243704137),
       (3259730800, 3290562707), (3345764771, 3588983300), (3516065817, 3840512180), (3600352804,
       3554883659), (4094571909, 3263483643), (275423344, 3864462108)] @ [(430227734, 727089673),
       (506948616, 3124172338), (659060556, 4113709587), (883997877, 2349454458), (958139571, 491929227),
       (1322822218, 1570318552), (1537002063, 34098885), (1747873779, 2934422629)] @ [(1955562222,
       269122451), (2024104815, 3967265719), (2227730452, 3028504789), (2361852424, 625850107), (2428436474,
       1219058450), (2756734187, 537038165), (3204031479, 3727116903), (3329325298, 3307727585)]"
  by (simp add: round_constants_def)

lemma sha256_s: "sha256 (utf8 ''s'') = [4, 58, 113, 135, 116, 197, 114, 189, 138, 37, 173, 190, 177, 191,
    205, 92, 2, 86, 174, 17, 206, 207, 159, 156, 63, 146, 93, 14, 82, 190, 175, 137]"
proof -
  have u: "utf8 ''s'' = [115]" by (simp add: utf8_def)
  show ?thesis unfolding u sha256_one sha_s_words sha_compress_def sha_s_schedule sha_s_zip foldl_append
      sha_init_def sha_s_rounds_1 sha_s_rounds_2 sha_s_rounds_3 sha_s_rounds_4 sha_s_rounds_5 sha_s_rounds_6
          sha_s_rounds_7 sha_s_rounds_8
    by (simp add: be_bytes_4)
qed

end
