(* ===== verification/AuthProperties.thy ===== *)
theory AuthProperties
  imports AuthInvariant Sha256Vectors
begin

text \<open>
  What the auth service promises: refresh tokens, reuse detection, lockout, administration,
  and two places where overlapping requests break a promise that single requests keep.
\<close>

section \<open>Refresh token families\<close>

definition demo_settings :: auth_settings where
  "demo_settings = \<lparr>as_access_token_ttl = 900, as_refresh_token_ttl = 3600, as_refresh_grace = 10,
     as_lockout = \<lparr>ls_max_attempts = 2, ls_window_seconds = 60, ls_block_seconds = 300\<rparr>\<rparr>"

definition demo_user :: "uuid \<Rightarrow> string \<Rightarrow> string list \<Rightarrow> user" where
  "demo_user i name roles = \<lparr>us_id = i, us_username = name, us_password_hash = ''h'', us_roles = roles,
     us_is_active = True, us_created_at = 0\<rparr>"

definition demo_login :: "auth_state" where
  "demo_login = snd (login demo_settings (\<lambda>h p. p = ''pw'') True 0 1 2 ''s'' ''j'' '''' '''' ''u7'' ''pw''
     (start_db [demo_user 7 ''u7'' [ADMIN]], start_cache))"

lemma demo_login_eq:
  "au_users (fst demo_login) = [demo_user 7 ''u7'' [ADMIN]]"
  "au_sessions (fst demo_login) = [\<lparr>se_id = 1, se_user_id = 7, se_source_ip = '''', se_user_agent = '''',
     se_revoked = False, se_created_at = 0, se_last_used_at = 0\<rparr>]"
  "au_tokens (fst demo_login) = [\<lparr>rt_jti = 2, rt_family_id = 2, rt_session_id = 1,
     rt_token_hash = hash_refresh_secret ''s'', rt_rotated_from = None, rt_revoked = False, rt_rotated_at = None,
     rt_replaced_by = None, rt_expires_at = seconds 3600\<rparr>]"
  by (simp_all add: demo_login_def login_def check_login_def check_script_def live_def start_cache_def demo_settings_def
      get_by_username_def start_db_def demo_user_def first_row_def create_session_def create_token_def)

lemma demo_login_reach: "auth_reach demo_settings (\<lambda>h p. p = ''pw'') (start_db [demo_user 7 ''u7'' [ADMIN]], start_cache) demo_login"
  unfolding auth_reach_def demo_login_def by (rule r_into_rtranclp, rule step_login)

definition demo_cookie :: http_request where
  "demo_cookie = \<lparr>hr_peer = '''', hr_server_port = None, hr_forwarded_for = '''', hr_user_agent = '''',
     hr_cookies = (\<lambda>_. Some ''00000000000000000000000000000002.s''), hr_csrf_header = None\<rparr>"

lemma demo_cookie_uuid: "uuid_value ''00000000000000000000000000000002'' = Some 2"
  by code_simp

lemma demo_cookie_split: "split_refresh_token ''00000000000000000000000000000002.s'' = Some (''00000000000000000000000000000002'', ''s'')"
  by (simp add: split_refresh_token_def)

text \<open>C11: In every state the auth service reaches by handling requests one after the other
  (login, refresh, logout, administration, the idle sweep, the revoke RPC), a refresh-token
  family has at most one live token.\<close>

theorem family_single_live_token:
  assumes "distinct (map us_id users)" "auth_reach st vp (start_db users, start_cache) s"
    "t \<in> set (au_tokens (fst s))" "u \<in> set (au_tokens (fst s))" "rt_family_id t = rt_family_id u"
    "\<not> rt_revoked t" "\<not> rt_revoked u"
  shows "t = u"
  using auth_reach_inv[OF assms(2)] start_inv[OF assms(1)] assms(3-) by (simp add: auth_inv_def token_inv_def)

lemma family_single_live_token_witness:
  "au_tokens (fst demo_login) \<noteq> [] \<and> hd (au_tokens (fst demo_login)) = last (au_tokens (fst demo_login))"
  using family_single_live_token[OF _ demo_login_reach, of "hd (au_tokens (fst demo_login))" "last (au_tokens (fst demo_login))"]
  by (simp add: demo_login_eq)

definition presented_token :: "string \<Rightarrow> http_request \<Rightarrow> auth_db \<Rightarrow> refresh_token option" where
  "presented_token cookie_name r db = (case hr_cookies r cookie_name of None \<Rightarrow> None
   | Some raw \<Rightarrow> (case split_refresh_token raw of None \<Rightarrow> None
     | Some (j, secret) \<Rightarrow> (case uuid_value j of None \<Rightarrow> None
       | Some i \<Rightarrow> get_by_jti_and_hash i (hash_refresh_secret secret) db)))"

lemma split_nonempty: "split_refresh_token raw = Some p \<Longrightarrow> raw \<noteq> ''''"
  by (auto simp: split_refresh_token_def Let_def split: if_splits)

lemma refresh_presented:
  "presented_token cn r db = Some t \<Longrightarrow>
     refresh st cn now j s aj r (db, ca) = refresh_stored st now j s aj (Some t) (db, ca) \<and> t \<in> set (au_tokens db)"
  using split_nonempty get_by_jti_and_hash_in
  by (auto simp: presented_token_def refresh_def split: option.splits prod.splits)

lemma refresh_Inr_presented:
  assumes "refresh st cn now j s aj r (db, ca) = (Inr ok, s')"
  obtains t where "presented_token cn r db = Some t"
  using assms by (auto simp: presented_token_def refresh_def refresh_stored_def refresh_decide_def
      split: option.splits if_splits prod.splits)

lemma resolve_family:
  assumes "auth_inv db" "stored \<in> set (au_tokens db)" "resolve_presented_refresh now grace db stored = Some t"
  shows "rt_family_id t = rt_family_id stored \<and> (t = stored \<and> \<not> rt_revoked stored \<or>
    rt_revoked stored \<and> (\<exists>x. rt_rotated_at stored = Some x \<and> now - x \<le> seconds grace))"
  using assms follow_successors_family[of db stored MAX_SUCCESSOR_HOPS now t]
  by (auto simp: resolve_presented_refresh_def auth_inv_def token_inv_def split: if_splits option.splits)

lemma get_by_jti_unique:
  assumes "distinct (map rt_jti (au_tokens db))" "t \<in> set (au_tokens db)"
  shows "get_by_jti (rt_jti t) db = Some t"
proof -
  have "filter (\<lambda>x. rt_jti x = rt_jti t) (au_tokens db) \<noteq> []" using assms(2) by (auto simp: filter_empty_conv)
  then obtain u where u: "get_by_jti (rt_jti t) db = Some u" by (auto simp: get_by_jti_def first_row_def neq_Nil_conv)
  then have "u \<in> set (au_tokens db)" "rt_jti u = rt_jti t" by (auto simp: get_by_jti_def dest: first_row_filter_Some)
  then show ?thesis using u distinct_map_inj[OF assms(1) _ assms(2)] by simp
qed

lemma refresh_granted:
  assumes "auth_inv db" "refresh st cn now j s aj r (db, ca) = (Inr ok, db', ca')"
  shows "\<exists>stored t se u. presented_token cn r db = Some stored \<and>
    rt_family_id t = rt_family_id stored \<and> t \<in> set (au_tokens db) \<and> \<not> rt_revoked t \<and> now < rt_expires_at t \<and>
    (t = stored \<or> rt_revoked stored \<and> (\<exists>x. rt_rotated_at stored = Some x \<and> now - x \<le> seconds (as_refresh_grace st))) \<and>
    se \<in> set (au_sessions db) \<and> se_id se = rt_session_id t \<and> \<not> se_revoked se \<and>
    u \<in> set (au_users db) \<and> us_id u = se_user_id se \<and> us_is_active u \<and>
    cl_sub (lo_claims ok) = us_id u \<and> cl_roles (lo_claims ok) = us_roles u \<and> cl_sid (lo_claims ok) = se_id se \<and>
    get_by_jti (rt_jti t) db' = Some (t\<lparr>rt_revoked := True, rt_rotated_at := Some now, rt_replaced_by := Some j\<rparr>) \<and>
    get_by_jti j db' = Some \<lparr>rt_jti = j, rt_family_id = rt_family_id t, rt_session_id = se_id se,
      rt_token_hash = hash_refresh_secret s, rt_rotated_from = Some (rt_jti t), rt_revoked = False, rt_rotated_at = None,
      rt_replaced_by = None, rt_expires_at = now + seconds (as_refresh_token_ttl st)\<rparr> \<and>
    lo_refresh_jti ok = j \<and> lo_refresh_secret ok = s"
proof -
  obtain stored where p: "presented_token cn r db = Some stored" using refresh_Inr_presented[OF assms(2)] by blast
  note q = refresh_presented[OF p, of st now j s aj ca]
  then have e: "refresh_stored st now j s aj (Some stored) (db, ca) = (Inr ok, db', ca')" using assms(2) by simp
  then obtain t se u where d: "refresh_decide st now (Some stored) db = Rotate t se u"
    by (auto simp: refresh_stored_def split: refresh_decision.splits)
  obtain db1 where r: "rotate st now j s t se u db = Inr db1" using e d by (auto simp: refresh_stored_def split: sum.splits)
  have ok: "db' = db1" "lo_refresh_jti ok = j" "lo_refresh_secret ok = s" "cl_sub (lo_claims ok) = us_id u"
    "cl_roles (lo_claims ok) = us_roles u" "cl_sid (lo_claims ok) = se_id se"
    using e d r by (auto simp: refresh_stored_def)
  note dec = refresh_decide_Rotate[OF d conjunct2[OF q]]
  have fam: "rt_family_id t = rt_family_id stored"
    "t = stored \<or> rt_revoked stored \<and> (\<exists>x. rt_rotated_at stored = Some x \<and> now - x \<le> seconds (as_refresh_grace st))"
    using resolve_family[OF assms(1) conjunct2[OF q]] dec by blast+
  have inv: "distinct (map rt_jti (au_tokens db))" using assms(1) by (simp add: auth_inv_def token_inv_def)
  note rt = rotate_Inr[OF r]
  have dist: "distinct (map rt_jti (au_tokens db'))"
  proof -
    have "map rt_jti (au_tokens db') = map rt_jti (au_tokens db) @ [j]"
      using rt unfolding ok(1) by (simp add: comp_def if_distrib cong: if_cong)
    then show ?thesis using inv rt by (auto simp: image_iff)
  qed
  have old: "t\<lparr>rt_revoked := True, rt_rotated_at := Some now, rt_replaced_by := Some j\<rparr> \<in> set (au_tokens db')"
  proof -
    have "t\<lparr>rt_revoked := True, rt_rotated_at := Some now, rt_replaced_by := Some j\<rparr> \<in>
      (\<lambda>x. if rt_jti x = rt_jti t then x\<lparr>rt_revoked := True, rt_rotated_at := Some now,
        rt_replaced_by := Some j\<rparr> else x) ` set (au_tokens db)"
      by (rule image_eqI[of _ _ t]) (use dec in simp_all)
    then show ?thesis using rt unfolding ok(1) by simp
  qed
  have new: "\<lparr>rt_jti = j, rt_family_id = rt_family_id t, rt_session_id = se_id se,
      rt_token_hash = hash_refresh_secret s, rt_rotated_from = Some (rt_jti t), rt_revoked = False, rt_rotated_at = None,
      rt_replaced_by = None, rt_expires_at = now + seconds (as_refresh_token_ttl st)\<rparr> \<in> set (au_tokens db')"
    using rt unfolding ok(1) by simp
  have g: "get_by_jti (rt_jti t) db' = Some (t\<lparr>rt_revoked := True, rt_rotated_at := Some now, rt_replaced_by := Some j\<rparr>)"
    "get_by_jti j db' = Some \<lparr>rt_jti = j, rt_family_id = rt_family_id t, rt_session_id = se_id se,
      rt_token_hash = hash_refresh_secret s, rt_rotated_from = Some (rt_jti t), rt_revoked = False, rt_rotated_at = None,
      rt_replaced_by = None, rt_expires_at = now + seconds (as_refresh_token_ttl st)\<rparr>"
    using get_by_jti_unique[OF dist old] get_by_jti_unique[OF dist new] by simp_all
  have parts: "t \<in> set (au_tokens db)" "\<not> rt_revoked t" "now < rt_expires_at t" "se \<in> set (au_sessions db)"
    "se_id se = rt_session_id t" "\<not> se_revoked se" "u \<in> set (au_users db)" "us_id u = se_user_id se" "us_is_active u"
    using dec by simp_all
  show ?thesis
    by (rule exI[of _ stored], rule exI[of _ t], rule exI[of _ se], rule exI[of _ u]) (intro conjI p fam parts ok g)
qed

lemma revoke_family_dead: "\<forall>t \<in> set (au_tokens (revoke_family f db)). rt_family_id t = f \<longrightarrow> rt_revoked t"
proof -
  have "au_tokens (revoke_family f db) =
      update_where (\<lambda>t. rt_family_id t = f) (\<lambda>t. t\<lparr>rt_revoked := True\<rparr>) (au_tokens db)"
    by (simp add: revoke_family_def)
  then show ?thesis by (simp only:) (rule update_where_all, simp)
qed

lemma revoke_session_dead: "\<forall>se \<in> set (au_sessions (snd (revoke_session i db))). se_id se = i \<longrightarrow> se_revoked se"
  unfolding snd_revoke_session revoke_where_sel by (rule update_where_all) auto

lemma kill_family_dead:
  assumes "kill_family_on_reuse st now stored (db, ca) = (db', ca')"
  shows "(\<forall>t \<in> set (au_tokens db'). rt_family_id t = rt_family_id stored \<longrightarrow> rt_revoked t) \<and>
    (\<forall>se \<in> set (au_sessions db'). se_id se = rt_session_id stored \<longrightarrow> se_revoked se) \<and>
    (\<exists>subject. last (au_outbox db') = RefreshReuseDetected subject (rt_session_id stored) (rt_family_id stored))"
  using assms revoke_family_dead[of "rt_family_id stored" db]
    revoke_session_dead[of "rt_session_id stored" "revoke_family (rt_family_id stored) db"]
  by (simp add: kill_family_on_reuse_def Let_def case_prod_beta) fastforce

lemma refresh_refused:
  assumes "auth_inv db" "refresh st cn now j s aj r (db, ca) = (Inl e, db', ca')"
  shows "db' = db \<and> ca' = ca \<or>
    (\<exists>stored. presented_token cn r db = Some stored \<and> rt_revoked stored \<and> rt_rotated_at stored \<noteq> None \<and>
      e = HttpFailure 401 SESSION_INVALID \<and>
      (\<forall>t \<in> set (au_tokens db'). rt_family_id t \<noteq> rt_family_id stored \<or> rt_revoked t) \<and>
      (\<forall>se \<in> set (au_sessions db'). se_id se \<noteq> rt_session_id stored \<or> se_revoked se))"
proof (cases "presented_token cn r db")
  case None
  then show ?thesis using assms(2)
    by (auto simp: presented_token_def refresh_def refresh_stored_def refresh_decide_def split: option.splits if_splits prod.splits)
next
  case (Some stored)
  have e: "refresh_stored st now j s aj (Some stored) (db, ca) = (Inl e, db', ca')"
    using assms(2) refresh_presented[OF Some, of st now j s aj ca] by simp
  show ?thesis
  proof (cases "refresh_decide st now (Some stored) db")
    case (ReuseOf x)
    then have x: "x = stored" "rt_rotated_at stored \<noteq> None" "rt_revoked stored"
      by (auto simp: refresh_decide_def resolve_presented_refresh_def split: option.splits if_splits)
    have k: "e = HttpFailure 401 SESSION_INVALID" "kill_family_on_reuse st now stored (db, ca) = (db', ca')"
      using e ReuseOf x(1) by (simp_all add: refresh_stored_def)
    show ?thesis using x(2,3) k(1) kill_family_dead[OF k(2)] Some by blast
  qed (use e in \<open>auto simp: refresh_stored_def split: sum.splits\<close>)
qed

lemma demo_inv: "auth_inv (fst demo_login)"
  by (rule auth_reach_inv[OF demo_login_reach]) (simp add: start_inv)

lemma demo_presented: "presented_token ''r'' demo_cookie (fst demo_login) = Some (hd (au_tokens (fst demo_login)))"
  by (simp add: presented_token_def demo_cookie_def demo_cookie_split demo_cookie_uuid get_by_jti_and_hash_def demo_login_eq first_row_def)

lemma demo_decide:
  "refresh_decide demo_settings 5 (Some (hd (au_tokens (fst demo_login)))) (fst demo_login) =
     Rotate (hd (au_tokens (fst demo_login))) (hd (au_sessions (fst demo_login))) (demo_user 7 ''u7'' [ADMIN])"
  by (simp add: refresh_decide_def demo_login_eq resolve_presented_refresh_def session_by_id_def user_by_id_def first_row_def
      demo_user_def seconds_def)



section \<open>Reuse of a rotated token\<close>

lemma family_dead_refresh:
  assumes inv: "auth_inv db" and t: "t \<in> set (au_tokens db)"
    and dead: "\<forall>x \<in> set (au_tokens db). rt_family_id x = rt_family_id t \<longrightarrow> rt_revoked x"
  shows "\<exists>s'. refresh_stored st now j s aj (Some t) (db, ca) = (Inl (HttpFailure 401 SESSION_INVALID), s')"
proof -
  have "resolve_presented_refresh now (as_refresh_grace st) db t = None"
  proof (rule ccontr)
    assume "resolve_presented_refresh now (as_refresh_grace st) db t \<noteq> None"
    then obtain u where u: "resolve_presented_refresh now (as_refresh_grace st) db t = Some u" by blast
    then show False using resolve_presented_Some[OF u t] resolve_family[OF inv t u] dead by blast
  qed
  then show ?thesis by (simp add: refresh_stored_def refresh_decide_def)
qed

lemma refresh_reuse_state:
  assumes "presented_token cn r db = Some stored" "rt_revoked stored" "rt_rotated_at stored = Some x"
    "resolve_presented_refresh now (as_refresh_grace st) db stored = None"
  shows "refresh st cn now j s aj r (db, ca) =
    (Inl (HttpFailure 401 SESSION_INVALID), kill_family_on_reuse st now stored (db, ca))"
  using refresh_presented[OF assms(1), of st now j s aj ca] assms(3,4) by (simp add: refresh_stored_def refresh_decide_def)

text \<open>C13: Presenting a rotated refresh token outside the grace period is answered with 401, is
  recorded, and ends the whole family: none of its tokens is live any more, its session is
  revoked, and whichever token of the family is presented afterwards is refused.\<close>

theorem refresh_reuse_ends_family:
  assumes "auth_inv db" "presented_token cn r db = Some stored" "rt_revoked stored"
    "rt_rotated_at stored = Some x" "now - x > seconds (as_refresh_grace st)"
    "refresh st cn now j s aj r (db, ca) = (out, db', ca')"
  shows "out = Inl (HttpFailure 401 SESSION_INVALID) \<and>
    (\<exists>subject. last (au_outbox db') = RefreshReuseDetected subject (rt_session_id stored) (rt_family_id stored)) \<and>
    (\<forall>se \<in> set (au_sessions db'). se_id se = rt_session_id stored \<longrightarrow> se_revoked se) \<and>
    (\<forall>r' t now' j' s' aj'. presented_token cn r' db' = Some t \<longrightarrow> rt_family_id t = rt_family_id stored \<longrightarrow>
      fst (refresh st cn now' j' s' aj' r' (db', ca')) = Inl (HttpFailure 401 SESSION_INVALID))"
proof -
  have none: "resolve_presented_refresh now (as_refresh_grace st) db stored = None"
    using assms(3-5) by (simp add: resolve_presented_refresh_def)
  have out: "out = Inl (HttpFailure 401 SESSION_INVALID)" "kill_family_on_reuse st now stored (db, ca) = (db', ca')"
    using refresh_reuse_state[OF assms(2-4) none, of j s aj ca] assms(6) by simp_all
  note dead = kill_family_dead[OF out(2)]
  have inv': "auth_inv db'"
    using auth_step_inv[OF step_refresh, of "(db, ca)" st cn now j s aj r] assms(1,6) by simp
  have "fst (refresh st cn now' j' s' aj' r' (db', ca')) = Inl (HttpFailure 401 SESSION_INVALID)"
    if p: "presented_token cn r' db' = Some t" and f: "rt_family_id t = rt_family_id stored" for r' t now' j' s' aj'
  proof -
    have t: "t \<in> set (au_tokens db')" "refresh st cn now' j' s' aj' r' (db', ca') = refresh_stored st now' j' s' aj' (Some t) (db', ca')"
      using refresh_presented[OF p, of st now' j' s' aj' ca'] by simp_all
    show ?thesis using family_dead_refresh[OF inv' t(1), of st now' j' s' aj' ca'] dead f t(2) by auto
  qed
  then show ?thesis using out(1) dead by blast
qed

definition demo_rotated :: auth_db where
  "demo_rotated = (fst demo_login)\<lparr>au_tokens := [
     (hd (au_tokens (fst demo_login)))\<lparr>rt_revoked := True, rt_rotated_at := Some 1, rt_replaced_by := Some 3\<rparr>,
     \<lparr>rt_jti = 3, rt_family_id = 2, rt_session_id = 1, rt_token_hash = ''x'', rt_rotated_from = Some 2,
       rt_revoked = False, rt_rotated_at = None, rt_replaced_by = None, rt_expires_at = seconds 3600\<rparr>]\<rparr>"

lemma demo_rotated_inv: "auth_inv demo_rotated"
  by (simp add: auth_inv_def token_inv_def links_inv_def demo_rotated_def demo_login_eq)

lemma demo_rotated_presented:
  "presented_token ''r'' demo_cookie demo_rotated = Some (hd (au_tokens demo_rotated))"
  by (simp add: presented_token_def demo_cookie_def demo_cookie_split demo_cookie_uuid get_by_jti_and_hash_def
      demo_rotated_def demo_login_eq first_row_def)

lemma refresh_reuse_ends_family_witness:
  "fst (refresh demo_settings ''r'' 20000000 9 ''n'' ''k'' demo_cookie (demo_rotated, start_cache)) =
     Inl (HttpFailure 401 SESSION_INVALID)"
proof -
  obtain out db' ca' where e: "refresh demo_settings ''r'' 20000000 9 ''n'' ''k'' demo_cookie (demo_rotated, start_cache) = (out, db', ca')"
    by (metis prod_cases3)
  have "rt_revoked (hd (au_tokens demo_rotated))" "rt_rotated_at (hd (au_tokens demo_rotated)) = Some 1"
    "(20000000 :: int) - 1 > seconds (as_refresh_grace demo_settings)"
    by (simp_all add: demo_rotated_def seconds_def demo_settings_def)
  then show ?thesis unfolding e
    using refresh_reuse_ends_family[OF demo_rotated_inv demo_rotated_presented _ _ _ e] by simp
qed

section \<open>Access of a disabled user\<close>

lemma live_Some: "live now (Some (v, Some t)) = (if now < t then Some v else None)"
  by (simp add: live_def)

lemma push_revocations_set:
  assumes "i \<in> set ids"
  shows "ca_revoked_sid (push_revocations st now ids ca) (str_uuid i) = Some ((), Some (now + seconds (as_access_token_ttl st)))"
  using assms unfolding push_revocations_def
  by (induction ids arbitrary: ca rule: rev_induct) (auto simp: revoke_sid_def)

lemma fst_drop_sessions [simp]: "fst (drop_sessions i a db) = live_ids_for_user i db"
  by (simp add: drop_sessions_def Let_def)

lemma drop_sessions_dead:
  "\<forall>se \<in> set (au_sessions (snd (drop_sessions i a db))). se_user_id se = i \<longrightarrow> se_revoked se"
proof (cases "live_ids_for_user i db = []")
  case True
  then show ?thesis by (auto simp: drop_sessions_def live_ids_for_user_def filter_empty_conv)
next
  case False
  then have "au_sessions (snd (drop_sessions i a db)) = update_where (\<lambda>s. se_user_id s = i \<and> \<not> se_revoked s)
      (\<lambda>s. s\<lparr>se_revoked := True\<rparr>) (au_sessions db)"
    by (simp add: drop_sessions_def Let_def revoke_all_for_user_def)
  then show ?thesis by (simp only:) (rule update_where_all, auto)
qed

lemma set_active_effect:
  assumes "load_user i db = Inr u" "us_is_active u" "set_active st now i False a (db, ca) = (Inr sm, db', ca')"
  defines "db1 \<equiv> update_user (us_id u) (\<lambda>u. u\<lparr>us_is_active := False\<rparr>) db"
  shows "db' = enqueue (AdminUserDisabled (ac_user_id a) (us_id u)) (snd (drop_sessions (us_id u) a db1))"
    "ca' = push_revocations st now (live_ids_for_user (us_id u) db1) ca"
    "au_sessions db1 = au_sessions db"
  using assms(1-3)
  by (auto simp: set_active_def Let_def db1_def case_prod_beta update_user_def split: sum.splits if_splits)

text \<open>Disabling a user ends the user's access at once: every session of the user is revoked,
  and until the last access token issued to a session that was live has expired, that token is
  refused by the service's own endpoints and reported as revoked to the other services.\<close>

lemma disabling_ends_access:
  assumes "load_user i db = Inr u" "us_is_active u"
    "set_active st now i False a (db, ca) = (Inr sm, db', ca')"
    "se \<in> set (au_sessions db)" "se_user_id se = us_id u" "\<not> se_revoked se"
    "tc_sid c = str_uuid (se_id se)" "tc_jti c \<noteq> ''''" "tc_sid c \<noteq> ''''" "now' < now + seconds (as_access_token_ttl st)"
    "decode token = Inr c"
  shows "(\<forall>x \<in> set (au_sessions db'). se_user_id x = us_id u \<longrightarrow> se_revoked x) \<and>
    current_actor now' True (Some c) (db', ca') = Inl unauthenticated \<and>
    VerifyToken decode now' True token ca' = Inr (STATUS_REVOKED, None)"
proof -
  define db1 where "db1 = update_user (us_id u) (\<lambda>u. u\<lparr>us_is_active := False\<rparr>) db"
  note e = set_active_effect[OF assms(1-3), folded db1_def]
  have "se_id se \<in> set (live_ids_for_user (us_id u) db1)"
    using assms(4-6) by (auto simp: live_ids_for_user_def e(3))
  then have "is_token_revoked now' (tc_jti c) (tc_sid c) ca'"
    using assms(7,10) by (simp add: e(2) is_token_revoked_def push_revocations_set live_Some)
  then show ?thesis using assms(8,9,11) drop_sessions_dead[of "us_id u" a db1]
    by (simp add: e(1) current_actor_def VerifyToken_def)
qed

lemma demo_uuid_7: "uuid_value ''00000000000000000000000000000007'' = Some 7"
  by code_simp

definition demo_plain :: auth_db where
  "demo_plain = (fst demo_login)\<lparr>au_users := [demo_user 7 ''u7'' []]\<rparr>"

definition demo_actor :: actor where
  "demo_actor = \<lparr>ac_user_id = 8, ac_username = ''u8'', ac_roles = [ADMIN], ac_session_id = ''z''\<rparr>"

definition demo_claims :: token_claims where
  "demo_claims = \<lparr>tc_sub = ''7'', tc_username = ''u7'', tc_roles = [], tc_sid = str_uuid 1, tc_jti = ''j'', tc_exp = 900\<rparr>"

lemma str_uuid_nonempty: "str_uuid i \<noteq> ''''"
  by (simp add: str_uuid_def Let_def)

lemma demo_load: "load_user ''00000000000000000000000000000007'' demo_plain = Inr (demo_user 7 ''u7'' [])"
  by (simp add: load_user_def demo_uuid_7 user_by_id_def demo_plain_def first_row_def demo_user_def)

lemma disabling_ends_access_witness:
  "\<exists>sm db' ca'. set_active demo_settings 0 ''00000000000000000000000000000007'' False demo_actor (demo_plain, start_cache) =
      (Inr sm, db', ca') \<and> current_actor 5 True (Some demo_claims) (db', ca') = Inl unauthenticated"
proof -
  have "\<exists>sm db' ca'. set_active demo_settings 0 ''00000000000000000000000000000007'' False demo_actor (demo_plain, start_cache) =
      (Inr sm, db', ca')"
    by (simp add: set_active_def demo_load demo_actor_def guard_last_admin_def Let_def case_prod_beta) (simp add: demo_user_def)
  then obtain sm db' ca' where e: "set_active demo_settings 0 ''00000000000000000000000000000007'' False demo_actor
      (demo_plain, start_cache) = (Inr sm, db', ca')" by blast
  have "current_actor 5 True (Some demo_claims) (db', ca') = Inl unauthenticated"
    using disabling_ends_access[OF demo_load _ e, of "hd (au_sessions demo_plain)" demo_claims 5 "\<lambda>_. Inr demo_claims" "''t''"]
    by (simp add: demo_plain_def demo_login_eq demo_user_def demo_claims_def str_uuid_nonempty demo_settings_def seconds_def)
  then show ?thesis using e by blast
qed

text \<open>C14: Whatever requests are handled one after the other, at least one active administrator
  remains if there was one at the start.\<close>

theorem active_admin_remains:
  assumes "distinct (map us_id users)" "1 \<le> count_admins (start_db users)"
    "auth_reach st vp (start_db users, start_cache) s"
  shows "\<exists>u \<in> set (au_users (fst s)). ADMIN \<in> set (us_roles u) \<and> us_is_active u"
proof -
  have "1 \<le> count_admins (fst s)" using auth_reach_admins[OF assms(3)] start_inv[OF assms(1)] assms(2) by simp
  then have "filter (\<lambda>u. ADMIN \<in> set (us_roles u) \<and> us_is_active u) (au_users (fst s)) \<noteq> []"
    by (auto simp: count_admins_def count_where_def)
  then show ?thesis by (auto simp: filter_empty_conv)
qed

lemma active_admin_remains_witness:
  "\<exists>u \<in> set (au_users (fst demo_login)). ADMIN \<in> set (us_roles u) \<and> us_is_active u"
  by (rule active_admin_remains[OF _ _ demo_login_reach]) (simp_all add: count_admins_def start_db_def demo_user_def)

section \<open>Lockout\<close>

definition wrong_password :: "(string \<Rightarrow> string \<Rightarrow> bool) \<Rightarrow> string \<Rightarrow> string \<Rightarrow> auth_db \<Rightarrow> bool" where
  "wrong_password vp un pw db \<longleftrightarrow> (case get_by_username un db of None \<Rightarrow> True | Some u \<Rightarrow> \<not> vp (us_password_hash u) pw)"

definition login_at ::
  "auth_settings \<Rightarrow> (string \<Rightarrow> string \<Rightarrow> bool) \<Rightarrow> string \<Rightarrow> string \<Rightarrow> string \<Rightarrow> datetime \<Rightarrow> auth_state \<Rightarrow>
     (http_failure + login_ok) \<times> auth_state" where
  "login_at st vp ip un pw now = login st vp True now 0 0 '''' '''' ip '''' un pw"

definition attempts ::
  "auth_settings \<Rightarrow> (string \<Rightarrow> string \<Rightarrow> bool) \<Rightarrow> string \<Rightarrow> string \<Rightarrow> string \<Rightarrow> datetime list \<Rightarrow> auth_state \<Rightarrow> auth_state" where
  "attempts st vp ip un pw ts s = fold (\<lambda>t s. snd (login_at st vp ip un pw t s)) ts s"

lemma attempts_snoc: "attempts st vp ip un pw (ts @ [t]) s = snd (login_at st vp ip un pw t (attempts st vp ip un pw ts s))"
  by (simp add: attempts_def)

lemma enqueue_login_failure_users [simp]: "au_users (enqueue_login_failure st a b c d e db) = au_users db"
  by (simp add: enqueue_login_failure_def Let_def)

lemma wrong_password_users: "au_users db' = au_users db \<Longrightarrow> wrong_password vp un pw db' = wrong_password vp un pw db"
  by (simp add: wrong_password_def get_by_username_def)

text \<open>One attempt with a wrong password, by the value of the counter it finds.\<close>

lemma login_wrong:
  assumes "wrong_password vp un pw db" "ls = as_lockout st"
    "live now (ca_failures ca (login_key ip un)) = (if n = 0 then None else Some (int n))"
    "n \<noteq> 0 \<Longrightarrow> ca_failures ca (login_key ip un) = Some (int n, Some e)" "int n < ls_max_attempts ls"
  shows "\<exists>db' ca'. login_at st vp ip un pw now (db, ca) = (Inl (HttpFailure 401 ''invalid credentials''), db', ca') \<and>
    au_users db' = au_users db \<and> ca_failures ca' (login_key ip un) = Some (int n + 1,
      Some (if int n + 1 = ls_max_attempts ls then now + seconds (ls_block_seconds ls)
            else if n = 0 then now + seconds (ls_window_seconds ls) else e))"
proof -
  have nolock: "\<not> fst (check_login ls now ip un ca)"
    using assms(3,5) by (simp add: check_login_def check_script_def case_prod_beta split: if_splits)
  have rej: "\<exists>r. login_at st vp ip un pw now (db, ca) = rejected_login st now True ip un r (db, ca)"
    using assms(1,2) nolock unfolding wrong_password_def
    by (auto simp: login_at_def login_def split: option.splits)
  have "ca_failures (snd (record_failure ls now ip un ca)) (login_key ip un) = Some (int n + 1,
      Some (if int n + 1 = ls_max_attempts ls then now + seconds (ls_block_seconds ls)
            else if n = 0 then now + seconds (ls_window_seconds ls) else e))"
    using assms(3-5) by (auto simp: record_failure_def record_script_def Let_def seconds_def case_prod_beta)
  then show ?thesis using rej assms(2) by (fastforce simp: rejected_login_def case_prod_beta)
qed

lemma attempts_state:
  assumes "wrong_password vp un pw db" "ca_failures ca (login_key ip un) = None" "ls = as_lockout st"
    and "sorted ts" "\<forall>t \<in> set ts. t < hd ts + seconds (ls_window_seconds ls)" "int (length ts) \<le> ls_max_attempts ls"
    and "ts \<noteq> []"
  shows "\<exists>db' ca'. attempts st vp ip un pw ts (db, ca) = (db', ca') \<and> au_users db' = au_users db \<and>
    ca_failures ca' (login_key ip un) = Some (int (length ts), Some (if int (length ts) = ls_max_attempts ls
      then last ts + seconds (ls_block_seconds ls) else hd ts + seconds (ls_window_seconds ls))) \<and>
    fst (login_at st vp ip un pw (last ts) (attempts st vp ip un pw (butlast ts) (db, ca))) =
      Inl (HttpFailure 401 ''invalid credentials'')"
  using assms(4-7)
proof (induction ts rule: rev_induct)
  case (snoc t ts)
  show ?case
  proof (cases "ts = []")
    case True
    then show ?thesis using login_wrong[OF assms(1,3), where ca = ca and n = 0 and ip = ip and now = t] assms(2) snoc.prems(3)
      by (auto simp: attempts_def live_def)
  next
    case False
    have h: "hd (ts @ [t]) = hd ts" using False by simp
    have pre: "sorted ts" "\<forall>t \<in> set ts. t < hd ts + seconds (ls_window_seconds ls)" "int (length ts) \<le> ls_max_attempts ls"
      "int (length ts) < ls_max_attempts ls" "t < hd ts + seconds (ls_window_seconds ls)"
      using snoc.prems h by (auto simp: sorted_append)
    obtain db1 ca1 where 1: "attempts st vp ip un pw ts (db, ca) = (db1, ca1)" "au_users db1 = au_users db"
      "ca_failures ca1 (login_key ip un) = Some (int (length ts), Some (hd ts + seconds (ls_window_seconds ls)))"
      using snoc.IH[OF pre(1-3) False] pre(4) by auto
    have w: "wrong_password vp un pw db1" using assms(1) wrong_password_users[OF 1(2)] by simp
    obtain db2 ca2 where 2: "login_at st vp ip un pw t (db1, ca1) = (Inl (HttpFailure 401 ''invalid credentials''), db2, ca2)"
      "au_users db2 = au_users db1" "ca_failures ca2 (login_key ip un) = Some (int (length ts) + 1,
        Some (if int (length ts) + 1 = ls_max_attempts ls then t + seconds (ls_block_seconds ls)
            else if length ts = 0 then t + seconds (ls_window_seconds ls) else hd ts + seconds (ls_window_seconds ls)))"
      using login_wrong[OF w assms(3), where ca = ca1 and ip = ip and n = "length ts" and now = t
          and e = "hd ts + seconds (ls_window_seconds ls)"] 1(3) pre(4,5) False
      by (auto simp: live_Some)
    show ?thesis using 1(1,2) 2 False h by (simp add: attempts_snoc)
  qed
qed simp

text \<open>C16: The lockout is exact.  Wrong passwords for one name from one address, all within the
  window of the first, are answered with 401 as long as they are at most the allowed number;
  once that number is reached every further attempt, even with the right password, is answered
  with 429 until the block time after the last failure has passed, and not any longer.\<close>

theorem login_lockout_exact:
  assumes "wrong_password vp un pw db" "ca_failures ca (login_key ip un) = None"
    "sorted ts" "ts \<noteq> []" "\<forall>t \<in> set ts. t < hd ts + seconds (ls_window_seconds (as_lockout st))"
    "int (length ts) \<le> ls_max_attempts (as_lockout st)"
  shows "fst (login_at st vp ip un pw (last ts) (attempts st vp ip un pw (butlast ts) (db, ca))) =
      Inl (HttpFailure 401 ''invalid credentials'') \<and>
    (fst (login st vp pk now sid rj sec aj ip ag un pw' (attempts st vp ip un pw ts (db, ca))) =
       Inl (HttpFailure 429 ''too many failed login attempts'') \<longleftrightarrow>
     int (length ts) = ls_max_attempts (as_lockout st) \<and> now < last ts + seconds (ls_block_seconds (as_lockout st)))"
proof -
  obtain db' ca' where a: "attempts st vp ip un pw ts (db, ca) = (db', ca')"
    "ca_failures ca' (login_key ip un) = Some (int (length ts), Some (if int (length ts) = ls_max_attempts (as_lockout st)
      then last ts + seconds (ls_block_seconds (as_lockout st)) else hd ts + seconds (ls_window_seconds (as_lockout st))))"
    "fst (login_at st vp ip un pw (last ts) (attempts st vp ip un pw (butlast ts) (db, ca))) =
      Inl (HttpFailure 401 ''invalid credentials'')"
    using attempts_state[OF assms(1,2) refl assms(3,5,6,4)] by blast
  have pos: "0 < ls_max_attempts (as_lockout st)" using assms(4,6) by (cases ts) auto
  have "fst (check_login (as_lockout st) now ip un ca') \<longleftrightarrow>
     int (length ts) = ls_max_attempts (as_lockout st) \<and> now < last ts + seconds (ls_block_seconds (as_lockout st))"
    using a(2) assms(6) pos by (auto simp: check_login_def check_script_def live_Some case_prod_beta Let_def split: if_splits)
  moreover have "fst (login st vp pk now sid rj sec aj ip ag un pw' (db', ca')) =
       Inl (HttpFailure 429 ''too many failed login attempts'') \<longleftrightarrow> fst (check_login (as_lockout st) now ip un ca')"
    by (auto simp: login_def rejected_login_def case_prod_beta split: option.splits sum.splits)
  ultimately show ?thesis using a(1,3) by simp
qed

lemma login_lockout_exact_witness:
  "fst (login demo_settings (\<lambda>h p. p = ''pw'') True 7 1 2 ''s'' ''j'' '''' '''' ''u7'' ''pw''
     (attempts demo_settings (\<lambda>h p. p = ''pw'') '''' ''u7'' ''bad'' [0, 5] (start_db [demo_user 7 ''u7'' [ADMIN]], start_cache))) =
   Inl (HttpFailure 429 ''too many failed login attempts'')"
proof -
  have "wrong_password (\<lambda>h p. p = ''pw'') ''u7'' ''bad'' (start_db [demo_user 7 ''u7'' [ADMIN]])"
    by (simp add: wrong_password_def get_by_username_def start_db_def demo_user_def first_row_def)
  then show ?thesis using login_lockout_exact[where ca = start_cache and ts = "[0, 5]" and st = demo_settings]
    by (simp add: start_cache_def demo_settings_def seconds_def)
qed

section \<open>Overlapping requests\<close>

text \<open>Both requests read before either writes; the update of the second waits for the first and
  then goes through, because it does not look at \<^verbatim>\<open>revoked\<close>.\<close>

text \<open>Two refresh requests with the same cookie that overlap both succeed and leave two live
  tokens in one family, so the family forks and replaying either branch is not seen as reuse.\<close>

theorem overlapping_refresh_forks_family:
  assumes "refresh_decide st now (Some stored) db = Rotate t se u"
    "rotate st now j1 s1 t se u db = Inr db1" "rotate st now j2 s2 t se u db1 = Inr db2"
    "t \<in> set (au_tokens db)"
  shows "\<exists>a \<in> set (au_tokens db2). \<exists>b \<in> set (au_tokens db2). rt_jti a = j1 \<and> rt_jti b = j2 \<and> j1 \<noteq> j2 \<and>
    rt_family_id a = rt_family_id t \<and> rt_family_id b = rt_family_id t \<and> \<not> rt_revoked a \<and> \<not> rt_revoked b"
proof -
  let ?a = "\<lparr>rt_jti = j1, rt_family_id = rt_family_id t, rt_session_id = se_id se, rt_token_hash = hash_refresh_secret s1,
      rt_rotated_from = Some (rt_jti t), rt_revoked = False, rt_rotated_at = None, rt_replaced_by = None,
      rt_expires_at = now + seconds (as_refresh_token_ttl st)\<rparr>"
  note r1 = rotate_Inr[OF assms(2)] and r2 = rotate_Inr[OF assms(3)]
  have a1: "?a \<in> set (au_tokens db1)" using r1 by simp
  have ne: "j1 \<noteq> j2" using r2 a1 by fastforce
  have "rt_jti t \<noteq> j1" using r1 assms(4) by blast
  then have a2: "?a \<in> set (au_tokens db2)"
    using r2 image_eqI[of ?a "\<lambda>x. if rt_jti x = rt_jti t then x\<lparr>rt_revoked := True, rt_rotated_at := Some now,
        rt_replaced_by := Some j2\<rparr> else x" ?a "set (au_tokens db1)"] a1 by simp
  obtain b where "b \<in> set (au_tokens db2)" "rt_jti b = j2" "rt_family_id b = rt_family_id t" "\<not> rt_revoked b"
    using r2 by fastforce
  then show ?thesis using a2 ne by (intro bexI[of _ ?a] bexI[of _ b]) simp_all
qed

lemma hash_n_s: "hash_refresh_secret ''n'' \<noteq> hash_refresh_secret ''s''"
proof -
  have "hd (hash_refresh_secret ''n'') = CHR ''1''" "hd (hash_refresh_secret ''s'') = CHR ''0''"
    by (simp_all add: hash_refresh_secret_def sha256_n sha256_s hex_def hex_char_def char_of_def bit_Suc_0_iff)
  then show ?thesis by auto
qed

lemma length_hash [simp]: "length (hash_refresh_secret s) = 64"
  by (simp add: hash_refresh_secret_def)

lemma hash_not_x: "hash_refresh_secret s \<noteq> ''x''"
  using length_hash[of s] by (metis One_nat_def length_Cons list.size(3) numeral_eq_one_iff semiring_norm(83))

definition demo_open :: auth_db where
  "demo_open = (fst demo_login)\<lparr>au_tokens := [(hd (au_tokens (fst demo_login)))\<lparr>rt_token_hash := ''x''\<rparr>]\<rparr>"

definition demo_rotate :: "uuid \<Rightarrow> string \<Rightarrow> auth_db \<Rightarrow> store_error + auth_db" where
  "demo_rotate j s db = rotate demo_settings 5 j s (hd (au_tokens demo_open)) (hd (au_sessions demo_open))
     (demo_user 7 ''u7'' [ADMIN]) db"

lemma demo_rotate_twice: "\<exists>db1 db2. demo_rotate 3 ''n'' demo_open = Inr db1 \<and> demo_rotate 4 ''s'' db1 = Inr db2"
  using hash_n_s hash_not_x hash_not_x[THEN not_sym]
  by (simp add: demo_rotate_def rotate_def create_token_def mark_rotated_def touch_session_def update_where_def
      demo_open_def demo_login_eq)

lemma overlapping_refresh_forks_family_witness:
  "\<exists>db1 db2. demo_rotate 3 ''n'' demo_open = Inr db1 \<and> demo_rotate 4 ''s'' db1 = Inr db2 \<and>
    (\<exists>a \<in> set (au_tokens db2). \<exists>b \<in> set (au_tokens db2). rt_jti a = 3 \<and> rt_jti b = 4 \<and>
      rt_family_id a = rt_family_id b \<and> \<not> rt_revoked a \<and> \<not> rt_revoked b)"
proof -
  obtain db1 db2 where r: "demo_rotate 3 ''n'' demo_open = Inr db1" "demo_rotate 4 ''s'' db1 = Inr db2"
    using demo_rotate_twice by blast
  have d: "refresh_decide demo_settings 5 (Some (hd (au_tokens demo_open))) demo_open =
      Rotate (hd (au_tokens demo_open)) (hd (au_sessions demo_open)) (demo_user 7 ''u7'' [ADMIN])"
    by (simp add: refresh_decide_def demo_open_def demo_login_eq resolve_presented_refresh_def session_by_id_def
        user_by_id_def first_row_def demo_user_def seconds_def)
  have "hd (au_tokens demo_open) \<in> set (au_tokens demo_open)" by (simp add: demo_open_def)
  from overlapping_refresh_forks_family[OF d r[unfolded demo_rotate_def] this] r show ?thesis by metis
qed

section \<open>Deleting administrators\<close>

text \<open>The check that an administrator remains and the deletion are separate transactions,
  with a call to the audit service in between: two administrators who delete each other at the
  same time both pass the check, both deletions go through, and no administrator is left.\<close>

theorem overlapping_deletes_remove_last_admin:
  "\<exists>db a b i j la lb da db2. delete_user_check i a db = Inr la \<and> delete_user_check j b db = Inr lb \<and>
     delete_user_apply i a 0 True True db = Inr da \<and> delete_user_apply j b 0 True True da = Inr db2 \<and>
     count_admins db = 2 \<and> count_admins db2 = 0"
proof -
  define db where "db = start_db [demo_user 7 ''u7'' [ADMIN], demo_user 2 ''u2'' [ADMIN]]"
  define act where "act i = \<lparr>ac_user_id = i, ac_username = '''', ac_roles = [ADMIN], ac_session_id = ''''\<rparr>" for i
  have u: "uuid_value ''00000000000000000000000000000007'' = Some 7" "uuid_value ''00000000000000000000000000000002'' = Some 2"
    by (rule demo_uuid_7, rule demo_cookie_uuid)
  show ?thesis
    by (intro exI[of _ db] exI[of _ "act 2"] exI[of _ "act 7"] exI[of _ "''00000000000000000000000000000007''"]
        exI[of _ "''00000000000000000000000000000002''"])
      (simp add: delete_user_check_def delete_user_apply_def load_user_def u user_by_id_def db_def start_db_def demo_user_def
        first_row_def guard_last_admin_def count_admins_def act_def live_ids_for_user_def delete_user_row_def
        delete_sessions_for_user_def Let_def)
qed

end
