(* ===== verification/ApiRateLimit.thy ===== *)
theory ApiRateLimit
  imports PyText Complex_Main
begin

text \<open>
  The rate limiter of the alert service's HTTP interface
  (\<^verbatim>\<open>services/api/app/core/rate_limit.py\<close>): the GCRA script that Redis runs, its key per user, and the
  two callers of it.  Times are Redis' milliseconds as integers; the period and the theoretical
  arrival time are Lua numbers, rationals here.  An expired key is modelled with the expiry the
  script sets.
\<close>

section \<open>The script\<close>

type_synonym rate_slot = "(rat \<times> int) option"

text \<open>\<^verbatim>\<open>redis.call('get', key)\<close>: the stored arrival time while the key has not expired.\<close>

definition slot_get :: "int \<Rightarrow> rate_slot \<Rightarrow> rat option" where
  "slot_get now slot = (case slot of None \<Rightarrow> None | Some (tat, expires) \<Rightarrow> if now \<le> expires then Some tat else None)"

text \<open>The answer is the verdict and the milliseconds to wait, which Redis truncates to an integer.\<close>

definition gcra :: "rat \<Rightarrow> int \<Rightarrow> int \<Rightarrow> rate_slot \<Rightarrow> (bool \<times> int) \<times> rate_slot" where
  "gcra period burst now slot =
     (let tat0 = (case slot_get now slot of None \<Rightarrow> of_int now | Some t \<Rightarrow> t);
          tat = (if tat0 < of_int now then of_int now else tat0);
          allow_at = tat - of_int (burst - 1) * period
      in if of_int now < allow_at then ((False, \<lfloor>allow_at - of_int now\<rfloor>), slot)
         else let new_tat = tat + period in ((True, 0), Some (new_tat, now + \<lceil>new_tat - of_int now\<rceil>)))"

section \<open>The callers\<close>

record rate_config =
  rc_enabled :: bool
  rc_window_seconds :: nat
  rc_requests :: nat
  rc_burst :: int
  rc_ws_window_seconds :: nat
  rc_ws_upgrades :: nat
  rc_ws_burst :: int

type_synonym limiter_store = "string \<Rightarrow> rate_slot"

definition rate_key :: "string \<Rightarrow> string" where
  "rate_key user = ''rl:'' @ user"

definition ws_rate_key :: "string \<Rightarrow> string" where
  "ws_rate_key user = ''rl:ws:'' @ user"

definition run_script :: "string \<Rightarrow> rat \<Rightarrow> int \<Rightarrow> int \<Rightarrow> limiter_store \<Rightarrow> (bool \<times> int) \<times> limiter_store" where
  "run_script key period burst now st = (case gcra period burst now (st key) of (r, slot) \<Rightarrow> (r, st(key := slot)))"

text \<open>\<open>up\<close> says whether Redis answers; when it does not both callers refuse.\<close>

definition check_ws_upgrade :: "rate_config \<Rightarrow> bool \<Rightarrow> int \<Rightarrow> string \<Rightarrow> limiter_store \<Rightarrow> bool \<times> limiter_store" where
  "check_ws_upgrade cfg up now user st =
     (if \<not> rc_enabled cfg then (True, st) else if \<not> up then (False, st)
      else case run_script (ws_rate_key user) (of_nat (rc_ws_window_seconds cfg * 1000) / of_nat (rc_ws_upgrades cfg))
          (rc_ws_burst cfg) now st of ((allowed, _), st') \<Rightarrow> (allowed, st'))"

definition check_rate :: "rate_config \<Rightarrow> int \<Rightarrow> string \<Rightarrow> limiter_store \<Rightarrow> (bool \<times> int) \<times> limiter_store" where
  "check_rate cfg now user = run_script (rate_key user) (of_nat (rc_window_seconds cfg * 1000) / of_nat (rc_requests cfg))
     (rc_burst cfg) now"

text \<open>The dependency of every route: \<open>Inl\<close> is \<^verbatim>\<open>RateLimitedError\<close> with its seconds to wait.\<close>

definition rate_limit :: "rate_config \<Rightarrow> bool \<Rightarrow> int \<Rightarrow> string \<Rightarrow> limiter_store \<Rightarrow> (int + unit) \<times> limiter_store" where
  "rate_limit cfg up now user st =
     (if \<not> rc_enabled cfg then (Inr (), st) else if \<not> up then (Inl 1, st)
      else case check_rate cfg now user st of ((allowed, retry_ms), st') \<Rightarrow>
        (if allowed then Inr () else Inl (max 1 \<lceil>of_int retry_ms / (1000 :: rat)\<rceil>), st'))"

section \<open>Sequences of requests\<close>

datatype rate_request =
  HttpRequest bool int string
| WsUpgrade bool int string

fun request_time :: "rate_request \<Rightarrow> int" where
  "request_time (HttpRequest _ now _) = now"
| "request_time (WsUpgrade _ now _) = now"

fun serve_request :: "rate_config \<Rightarrow> rate_request \<Rightarrow> limiter_store \<Rightarrow> bool \<times> limiter_store" where
  "serve_request cfg (HttpRequest up now user) st = (case rate_limit cfg up now user st of (r, st') \<Rightarrow> (\<not> isl r, st'))"
| "serve_request cfg (WsUpgrade up now user) st = check_ws_upgrade cfg up now user st"

text \<open>The requests that were let through, in order.\<close>

fun served :: "rate_config \<Rightarrow> rate_request list \<Rightarrow> limiter_store \<Rightarrow> rate_request list" where
  "served cfg [] st = []"
| "served cfg (r # rs) st = (case serve_request cfg r st of (ok, st') \<Rightarrow>
     (if ok then r # served cfg rs st' else served cfg rs st'))"

fun http_of :: "string \<Rightarrow> rate_request \<Rightarrow> bool" where
  "http_of user (HttpRequest _ _ u) = (u = user)"
| "http_of user (WsUpgrade _ _ _) = False"

definition served_between :: "string \<Rightarrow> int \<Rightarrow> int \<Rightarrow> rate_request list \<Rightarrow> nat" where
  "served_between user t0 t1 rs = length (filter (\<lambda>r. http_of user r \<and> t0 \<le> request_time r \<and> request_time r \<le> t1) rs)"

section \<open>Lemmas\<close>

text \<open>The arrival time the script computes with, and the property of the slots it writes that
  makes an expiry invisible.\<close>

definition debt :: "rate_slot \<Rightarrow> int \<Rightarrow> rat" where
  "debt slot now = (case slot of None \<Rightarrow> of_int now | Some (tat, _) \<Rightarrow> max tat (of_int now))"

definition slot_ok :: "rate_slot \<Rightarrow> bool" where
  "slot_ok slot = (case slot of None \<Rightarrow> True | Some (tat, expires) \<Rightarrow> tat \<le> of_int expires)"

lemma debt_mono: "t \<le> t' \<Longrightarrow> debt slot t \<le> debt slot t'"
  by (auto simp: debt_def split: option.splits)

lemma debt_ge: "of_int t \<le> debt slot t"
  by (auto simp: debt_def split: option.splits)

lemma gcra_debt:
  assumes "slot_ok slot"
  shows "gcra period burst now slot =
    (let allow_at = debt slot now - of_int (burst - 1) * period in
     if of_int now < allow_at then ((False, \<lfloor>allow_at - of_int now\<rfloor>), slot)
     else ((True, 0), Some (debt slot now + period, now + \<lceil>debt slot now + period - of_int now\<rceil>)))"
proof -
  have "(case slot_get now slot of None \<Rightarrow> of_int now | Some t \<Rightarrow> if t < of_int now then of_int now else t) = debt slot now"
  proof (cases slot)
    case (Some p)
    obtain tat e where p: "p = (tat, e)" by (cases p)
    show ?thesis
    proof (cases "now \<le> e")
      case True
      then show ?thesis using Some p by (simp add: slot_get_def debt_def)
    next
      case False
      then have "tat \<le> of_int e" "(of_int e :: rat) < of_int now" using assms Some p by (auto simp: slot_ok_def)
      then have "tat \<le> of_int now" by linarith
      then show ?thesis using Some p False by (simp add: slot_get_def debt_def max_def)
    qed
  qed (simp add: slot_get_def debt_def)
  then show ?thesis by (simp add: gcra_def Let_def split: option.splits if_splits)
qed

lemma gcra_slot_ok:
  assumes "slot_ok slot"
  shows "slot_ok (snd (gcra period burst now slot))"
proof -
  have "x \<le> of_int (now + \<lceil>x - of_int now\<rceil>)" for x :: rat by (simp add: le_of_int_ceiling algebra_simps)
  then show ?thesis using assms by (simp add: gcra_debt Let_def slot_ok_def)
qed

lemma run_script_other [simp]: "k \<noteq> key \<Longrightarrow> snd (run_script key period burst now st) k = st k"
  by (simp add: run_script_def split: prod.splits)

lemma run_script_same: "snd (run_script key period burst now st) key = snd (gcra period burst now (st key))"
  by (simp add: run_script_def split: prod.splits)

definition rate_period :: "rate_config \<Rightarrow> rat" where
  "rate_period cfg = of_nat (rc_window_seconds cfg * 1000) / of_nat (rc_requests cfg)"

lemma rate_key_ws: "take 3 user \<noteq> ''ws:'' \<Longrightarrow> ws_rate_key u \<noteq> rate_key user"
  by (auto simp: rate_key_def ws_rate_key_def)

lemma serve_other:
  assumes "take 3 user \<noteq> ''ws:''" "\<not> http_of user r"
  shows "snd (serve_request cfg r st) (rate_key user) = st (rate_key user)"
proof (cases r)
  case (HttpRequest up now u)
  then have "rate_key user \<noteq> rate_key u" using assms by (auto simp: rate_key_def)
  from run_script_other[OF this] show ?thesis
    by (simp add: HttpRequest rate_limit_def check_rate_def split: prod.splits) (metis snd_conv)
next
  case (WsUpgrade up now u)
  from run_script_other[OF not_sym[OF rate_key_ws[OF assms(1)]]] show ?thesis
    by (simp add: WsUpgrade check_ws_upgrade_def split: prod.splits) (metis snd_conv)
qed

lemma serve_http:
  assumes "rc_enabled cfg" "slot_ok (st (rate_key user))"
  shows "serve_request cfg (HttpRequest up now user) st =
    (if up \<and> debt (st (rate_key user)) now - of_int (rc_burst cfg - 1) * rate_period cfg \<le> of_int now
     then (True, st(rate_key user := Some (debt (st (rate_key user)) now + rate_period cfg,
        now + \<lceil>debt (st (rate_key user)) now + rate_period cfg - of_int now\<rceil>)))
     else (False, st))"
  using assms
  by (auto simp: rate_limit_def check_rate_def run_script_def gcra_debt Let_def rate_period_def not_le)

lemma serve_slot_ok:
  assumes "slot_ok (st key)"
  shows "slot_ok (snd (serve_request cfg r st) key)"
proof -
  have script: "slot_ok (snd (run_script k p b now st) key)" for k p b now
    using assms gcra_slot_ok[of "st k"] run_script_same run_script_other by (metis (no_types))
  show ?thesis
  proof (cases r)
    case (HttpRequest up now u)
    with assms script show ?thesis
      by (simp add: rate_limit_def check_rate_def split: prod.splits) (metis snd_conv)
  next
    case (WsUpgrade up now u)
    with assms script show ?thesis
      by (simp add: check_ws_upgrade_def split: prod.splits) (metis snd_conv)
  qed
qed

lemma served_subset: "set (served cfg rs st) \<subseteq> set rs"
  by (induction rs arbitrary: st) (auto split: prod.splits if_splits)

lemma served_between_late: "(\<And>r. r \<in> set rs \<Longrightarrow> t1 < request_time r) \<Longrightarrow> served_between user t0 t1 rs = 0"
  by (fastforce simp: served_between_def filter_empty_conv)

lemma served_between_Cons:
  "served_between user t0 t1 (r # rs) =
    (if http_of user r \<and> t0 \<le> request_time r \<and> request_time r \<le> t1 then 1 else 0) + served_between user t0 t1 rs"
  by (simp add: served_between_def)

lemma served_debt:
  assumes "rc_enabled cfg" "take 3 user \<noteq> ''ws:''" "0 \<le> rate_period cfg"
    and "slot_ok (st (rate_key user))" "sorted (map request_time rs)" "\<forall>r\<in>set rs. t0 \<le> request_time r"
    and "0 < served_between user a t1 (served cfg rs st)"
  shows "of_nat (served_between user a t1 (served cfg rs st)) * rate_period cfg + debt (st (rate_key user)) t0
    \<le> of_int t1 + of_int (rc_burst cfg) * rate_period cfg"
  using assms(4-)
proof (induction rs arbitrary: st t0)
  case Nil
  then show ?case by (simp add: served_between_def)
next
  case (Cons r rs)
  let ?p = "rate_period cfg" and ?k = "rate_key user" and ?n = "\<lambda>st. served_between user a t1 (served cfg rs st)"
  obtain ok st' where step: "serve_request cfg r st = (ok, st')" by (cases "serve_request cfg r st")
  have ok': "slot_ok (st' ?k)" using serve_slot_ok[of st "rate_key user", OF Cons.prems(1), of cfg r] step by simp
  have sorted: "sorted (map request_time rs)" "\<forall>x\<in>set rs. request_time r \<le> request_time x" "t0 \<le> request_time r"
    using Cons.prems by auto
  have IH: "0 < ?n st' \<Longrightarrow> of_nat (?n st') * ?p + debt (st' ?k) (request_time r) \<le> of_int t1 + of_int (rc_burst cfg) * ?p"
    using Cons.IH[of st', OF ok' sorted(1,2)] by simp
  have mono: "debt (st ?k) t0 \<le> debt (st ?k) (request_time r)" using sorted(3) by (rule debt_mono)
  show ?case
  proof (cases "ok \<and> http_of user r")
    case False
    have same: "st' ?k = st ?k"
    proof (cases "http_of user r")
      case True
      then obtain up now where "r = HttpRequest up now user" by (cases r) auto
      then show ?thesis using serve_http[of cfg st user up now, OF assms(1) Cons.prems(1)] step False True by (auto split: if_splits)
    next
      case other: False
      then show ?thesis using serve_other[OF assms(2) other, of cfg st] step by simp
    qed
    have "served_between user a t1 (served cfg (r # rs) st) = ?n st'"
      using False step by (auto simp: served_between_Cons)
    then show ?thesis using IH Cons.prems(4) same mono by simp
  next
    case True
    then obtain up now where r: "r = HttpRequest up now user" by (cases r) auto
    let ?d = "debt (st ?k) now"
    have allow: "?d - of_int (rc_burst cfg - 1) * ?p \<le> of_int now" "st' ?k = Some (?d + ?p, now + \<lceil>?d + ?p - of_int now\<rceil>)"
      using serve_http[of cfg st user up now, OF assms(1) Cons.prems(1)] step True r by (auto split: if_splits)
    have d': "?d + ?p \<le> debt (st' ?k) now" by (simp add: allow(2) debt_def)
    have n: "served_between user a t1 (served cfg (r # rs) st) = (if a \<le> now \<and> now \<le> t1 then 1 else 0) + ?n st'"
      using True step r by (simp add: served_between_Cons)
    show ?thesis
    proof (cases "0 < ?n st'")
      case True
      have "of_nat (served_between user a t1 (served cfg (r # rs) st)) * ?p \<le> of_nat (?n st') * ?p + ?p"
        unfolding n using assms(3) by (simp add: algebra_simps)
      then show ?thesis using IH[OF True] d' mono by (simp add: r)
    next
      case False
      then have "now \<le> t1" "served_between user a t1 (served cfg (r # rs) st) = 1"
        using Cons.prems(4) n by (auto split: if_splits)
      moreover have "?d + ?p \<le> of_int now + of_int (rc_burst cfg) * ?p" using allow(1) by (simp add: algebra_simps)
      moreover have "of_int now \<le> (of_int t1 :: rat)" using \<open>now \<le> t1\<close> by simp
      ultimately show ?thesis using mono by (simp add: r)
    qed
  qed
qed

lemma served_window:
  assumes "rc_enabled cfg" "take 3 user \<noteq> ''ws:''" "0 \<le> rate_period cfg" "slot_ok (st (rate_key user))"
    "sorted (map request_time rs)" "0 < served_between user t0 t1 (served cfg rs st)"
  shows "of_nat (served_between user t0 t1 (served cfg rs st)) * rate_period cfg
    \<le> of_int (t1 - t0) + of_int (rc_burst cfg) * rate_period cfg"
  using assms(4-)
proof (induction rs arbitrary: st)
  case Nil
  then show ?case by (simp add: served_between_def)
next
  case (Cons r rs)
  show ?case
  proof (cases "t0 \<le> request_time r")
    case True
    then have "\<forall>x\<in>set (r # rs). t0 \<le> request_time x" using Cons.prems(2) by force
    from served_debt[of cfg user st, OF assms(1-3) Cons.prems(1,2) this Cons.prems(3)] debt_ge[of t0 "st (rate_key user)"]
    show ?thesis by simp
  next
    case False
    obtain ok st' where step: "serve_request cfg r st = (ok, st')" by (cases "serve_request cfg r st")
    have "slot_ok (st' (rate_key user))" using serve_slot_ok[of st "rate_key user", OF Cons.prems(1), of cfg r] step by simp
    moreover have "served_between user t0 t1 (served cfg (r # rs) st) = served_between user t0 t1 (served cfg rs st')"
      using False step by (auto simp: served_between_Cons)
    ultimately show ?thesis using Cons.IH[of st'] Cons.prems by simp
  qed
qed

text \<open>C31: However its requests interleave with those of others and with websocket upgrades, and
  whenever Redis is down or a key expires, a user is served at most the burst plus the length of
  the window divided by the period many requests in any window of time; and a request that finds
  the limiter unreachable is never served.\<close>

theorem gcra_bound:
  assumes "rc_enabled cfg" "0 < rc_requests cfg" "0 < rc_window_seconds cfg" "take 3 user \<noteq> ''ws:''"
    and "sorted (map request_time rs)" "t0 \<le> t1" "0 \<le> rc_burst cfg"
  shows "of_nat (served_between user t0 t1 (served cfg rs (\<lambda>_. None)))
      \<le> of_int (rc_burst cfg) + of_int (t1 - t0) / rate_period cfg \<and>
    (\<forall>r \<in> set (served cfg rs (\<lambda>_. None)). \<forall>now u. r \<noteq> HttpRequest False now u \<and> r \<noteq> WsUpgrade False now u)"
proof
  let ?n = "served_between user t0 t1 (served cfg rs (\<lambda>_. None))"
  have p: "0 < rate_period cfg" using assms by (simp add: rate_period_def)
  have "of_nat ?n * rate_period cfg \<le> of_int (t1 - t0) + of_int (rc_burst cfg) * rate_period cfg"
  proof (cases "?n = 0")
    case False
    then show ?thesis using served_window[of cfg user "\<lambda>_. None" rs t0 t1] assms p by (simp add: slot_ok_def)
  qed (use assms p in simp)
  then show "of_nat ?n \<le> of_int (rc_burst cfg) + of_int (t1 - t0) / rate_period cfg"
    using p by (simp add: field_simps)
  have down: "fst (serve_request cfg r st) \<Longrightarrow> r \<noteq> HttpRequest False now u \<and> r \<noteq> WsUpgrade False now u" for r st now u
    using assms(1) by (auto simp: rate_limit_def check_ws_upgrade_def)
  have "r \<in> set (served cfg rs st) \<Longrightarrow> r \<noteq> HttpRequest False now u \<and> r \<noteq> WsUpgrade False now u" for r st now u
  proof (induction rs arbitrary: st)
    case (Cons x xs)
    obtain ok st' where x: "serve_request cfg x st = (ok, st')" by (cases "serve_request cfg x st")
    with Cons show ?case using down[of x st now u] by (cases ok) auto
  qed simp
  then show "\<forall>r \<in> set (served cfg rs (\<lambda>_. None)). \<forall>now u. r \<noteq> HttpRequest False now u \<and> r \<noteq> WsUpgrade False now u" by blast
qed

theorem gcra_bound_witness:
  "of_nat (served_between ''u'' 0 1000
      (served \<lparr>rc_enabled = True, rc_window_seconds = 60, rc_requests = 120, rc_burst = 1,
          rc_ws_window_seconds = 60, rc_ws_upgrades = 10, rc_ws_burst = 3\<rparr>
        [HttpRequest True 0 ''u'', HttpRequest True 10 ''u'', HttpRequest True 600 ''u''] (\<lambda>_. None)))
    \<le> (1 + 1000 / 500 :: rat)"
proof -
  let ?cfg = "\<lparr>rc_enabled = True, rc_window_seconds = 60, rc_requests = 120, rc_burst = 1,
          rc_ws_window_seconds = 60, rc_ws_upgrades = 10, rc_ws_burst = 3\<rparr>"
  have "rate_period ?cfg = 500" by (simp add: rate_period_def)
  then show ?thesis
    using gcra_bound[of ?cfg "''u''" "[HttpRequest True 0 ''u'', HttpRequest True 10 ''u'', HttpRequest True 600 ''u'']" 0 1000]
    by simp
qed

end
