(* ===== verification/ApiAlerts.thy ===== *)
theory ApiAlerts
  imports PyText "HOL-Library.Product_Lexorder"
begin

text \<open>
  The alert service: stored alerts and their decisions
  (\<^verbatim>\<open>services/api/app/repositories/alert_repository.py\<close>, \<^verbatim>\<open>usecases/alert_usecase.py\<close>), the dispatch to the
  notification service (\<^verbatim>\<open>services/alert_service.py\<close>), the audit events it queues
  (\<^verbatim>\<open>services/audit_service.py\<close>) and the decisions taken in Telegram
  (\<^verbatim>\<open>grpc_server/decision_servicer.py\<close>, \<^verbatim>\<open>core/permissions.py\<close>).  Object ids are numbers, with the text form
  a parameter; the page cache, the pub/sub of the dashboard beyond its events and the picture
  geometry of an alert are left out.
\<close>

section \<open>Permissions\<close>

datatype permission = CAMERA_READ | CAMERA_WRITE | DETECTION_READ | DETECTION_WRITE | DETECTION_INFER
  | ALERT_READ | ALERT_WRITE | ALERT_ACKNOWLEDGE | ALERT_DELETE | STATS_READ | AUDIT_QUERY
  | SETTINGS_READ | SETTINGS_WRITE | USER_READ | USER_WRITE

definition all_permissions :: "permission list" where
  "all_permissions = [CAMERA_READ, CAMERA_WRITE, DETECTION_READ, DETECTION_WRITE, DETECTION_INFER, ALERT_READ, ALERT_WRITE,
     ALERT_ACKNOWLEDGE, ALERT_DELETE, STATS_READ, AUDIT_QUERY, SETTINGS_READ, SETTINGS_WRITE, USER_READ, USER_WRITE]"

definition ROLE_PERMISSIONS :: "(string \<times> permission list) list" where
  "ROLE_PERMISSIONS =
    [(''admin'', all_permissions),
     (''operator'', [CAMERA_READ, CAMERA_WRITE, DETECTION_READ, DETECTION_INFER, ALERT_READ, ALERT_WRITE, ALERT_ACKNOWLEDGE,
        STATS_READ, SETTINGS_READ]),
     (''viewer'', [CAMERA_READ, DETECTION_READ, ALERT_READ, STATS_READ]),
     (''ml_engineer'', [DETECTION_READ, DETECTION_INFER, STATS_READ]),
     (''compliance'', [ALERT_READ, DETECTION_READ, STATS_READ, AUDIT_QUERY, SETTINGS_READ]),
     (''detector'', [ALERT_WRITE])]"

definition resolve_permissions :: "string list \<Rightarrow> permission set" where
  "resolve_permissions roles = (\<Union>r\<in>set roles. set (case map_of ROLE_PERMISSIONS r of None \<Rightarrow> [] | Some ps \<Rightarrow> ps))"

section \<open>Alerts\<close>

datatype decision = DECISION_UNSPECIFIED | DECISION_CONFIRMED | DECISION_DISMISSED | DECISION_UNSURE

datatype decision_channel = CHANNEL_CONSOLE | CHANNEL_TELEGRAM

record alert_doc =
  al_oid :: nat
  al_alert_id :: string
  al_created_at :: int
  al_severity :: string
  al_camera_id :: "string option"
  al_acknowledged :: bool
  al_acknowledged_at :: "int option"
  al_decision :: "decision option"
  al_decided_at :: "int option"
  al_decided_by :: "string option"
  al_dispatch_failed :: bool

text \<open>The fields of a request to create an alert.\<close>

record alert_create =
  ac_alert_id :: string
  ac_severity :: string
  ac_camera_id :: "string option"

datatype api_event =
    AlertAcknowledged nat string
  | AlertDecided nat string decision decision decision_channel
  | AlertDeleted nat string
  | AuthorizationDenied string "string list"
  | EventsShed nat

datatype dashboard_event = Created | Updated | Acknowledged | DecidedEvent | Deleted

record decision_notice =
  dn_alert_id :: string
  dn_decision :: decision
  dn_decided_by :: string
  dn_decided_at :: "int option"

record alert_state =
  as_docs :: "alert_doc list"
  as_next_oid :: nat
  as_outbox :: "api_event list"
  as_published :: "(dashboard_event \<times> nat) list"
  as_notices :: "decision_notice list"

definition undecided :: "alert_doc \<Rightarrow> bool" where
  "undecided d \<longleftrightarrow> al_decision d = None \<or> al_decision d = Some DECISION_UNSPECIFIED"

definition decision_of :: "alert_doc \<Rightarrow> decision" where
  "decision_of d = (case al_decision d of None \<Rightarrow> DECISION_UNSPECIFIED | Some x \<Rightarrow> x)"

text \<open>A stored alert is shown through a response, whose camera id may not be missing, although the
  request to create one may leave it out: building the response of such an alert raises.\<close>

definition showable :: "alert_doc \<Rightarrow> bool" where
  "showable d \<longleftrightarrow> al_camera_id d \<noteq> None"

lemma all_showable: "list_all showable ds \<longleftrightarrow> None \<notin> set (map al_camera_id ds)"
  by (induction ds) (auto simp: showable_def)

section \<open>The repository\<close>

definition find_doc :: "nat \<Rightarrow> alert_state \<Rightarrow> alert_doc option" where
  "find_doc k st = find (\<lambda>d. al_oid d = k) (as_docs st)"

definition get_by_alert_id :: "string \<Rightarrow> alert_state \<Rightarrow> alert_doc option" where
  "get_by_alert_id a st = find (\<lambda>d. al_alert_id d = a) (as_docs st)"

definition update_doc :: "nat \<Rightarrow> (alert_doc \<Rightarrow> alert_doc) \<Rightarrow> alert_state \<Rightarrow> alert_state" where
  "update_doc k f st = st\<lparr>as_docs := map (\<lambda>d. if al_oid d = k then f d else d) (as_docs st)\<rparr>"

definition insert_once :: "alert_doc \<Rightarrow> alert_state \<Rightarrow> (alert_doc \<times> bool) \<times> alert_state" where
  "insert_once d st = (case get_by_alert_id (al_alert_id d) st of
     Some e \<Rightarrow> ((e, False), st)
   | None \<Rightarrow> let d' = d\<lparr>al_oid := as_next_oid st\<rparr> in
       ((d', True), st\<lparr>as_docs := as_docs st @ [d'], as_next_oid := as_next_oid st + 1\<rparr>))"

definition acknowledge_doc :: "int \<Rightarrow> nat \<Rightarrow> alert_state \<Rightarrow> (alert_doc option \<times> bool) \<times> alert_state" where
  "acknowledge_doc now k st = (case find_doc k st of
     None \<Rightarrow> ((None, False), st)
   | Some d \<Rightarrow> if al_acknowledged d then ((Some d, False), st)
       else let f = (\<lambda>d. d\<lparr>al_acknowledged := True, al_acknowledged_at := Some now\<rparr>) in ((Some (f d), True), update_doc k f st))"

definition decided_doc :: "int \<Rightarrow> decision \<Rightarrow> string \<Rightarrow> alert_doc \<Rightarrow> alert_doc" where
  "decided_doc now dec actor d = d\<lparr>al_decision := Some dec,
     al_decided_at := (if dec = DECISION_UNSPECIFIED then None else Some now),
     al_decided_by := (if dec = DECISION_UNSPECIFIED then None else Some actor)\<rparr>"

definition decide_doc :: "int \<Rightarrow> bool \<Rightarrow> nat \<Rightarrow> decision \<Rightarrow> string \<Rightarrow> alert_state
    \<Rightarrow> (alert_doc option \<times> decision option) \<times> alert_state" where
  "decide_doc now only_if_undecided k dec actor st = (case find_doc k st of
     None \<Rightarrow> ((None, None), st)
   | Some d \<Rightarrow> if (if only_if_undecided then undecided d else al_decision d \<noteq> Some dec)
       then ((Some (decided_doc now dec actor d), Some (decision_of d)), update_doc k (decided_doc now dec actor) st)
       else ((Some d, None), st))"

definition delete_doc :: "nat \<Rightarrow> alert_state \<Rightarrow> bool \<times> alert_state" where
  "delete_doc k st = (find_doc k st \<noteq> None, st\<lparr>as_docs := filter (\<lambda>d. al_oid d \<noteq> k) (as_docs st)\<rparr>)"

datatype alert_sort = SORT_CREATED | SORT_DECIDED

record alert_query =
  aq_severity :: "string option"
  aq_acknowledged :: "bool option"
  aq_decision :: "decision option"
  aq_camera_id :: "string option"
  aq_sort :: alert_sort
  aq_start :: "int option"
  aq_end :: "int option"

definition sort_field :: "alert_sort \<Rightarrow> alert_doc \<Rightarrow> int option" where
  "sort_field s d = (case s of SORT_CREATED \<Rightarrow> Some (al_created_at d) | SORT_DECIDED \<Rightarrow> al_decided_at d)"

definition query_matches :: "alert_query \<Rightarrow> alert_doc \<Rightarrow> bool" where
  "query_matches q d \<longleftrightarrow>
     (case aq_severity q of None \<Rightarrow> True | Some s \<Rightarrow> s = '''' \<or> al_severity d = s) \<and>
     (case aq_acknowledged q of None \<Rightarrow> True | Some b \<Rightarrow> al_acknowledged d = b) \<and>
     (case aq_decision q of None \<Rightarrow> True | Some x \<Rightarrow> al_decision d = Some x) \<and>
     (case aq_camera_id q of None \<Rightarrow> True | Some c \<Rightarrow> c = '''' \<or> al_camera_id d = Some c) \<and>
     (case sort_field (aq_sort q) d of None \<Rightarrow> False
      | Some t \<Rightarrow> (case aq_start q of None \<Rightarrow> True | Some s \<Rightarrow> s \<le> t) \<and> (case aq_end q of None \<Rightarrow> True | Some e \<Rightarrow> t \<le> e))"

definition page_key :: "alert_query \<Rightarrow> alert_doc \<Rightarrow> int \<times> nat" where
  "page_key q d = (case sort_field (aq_sort q) d of None \<Rightarrow> 0 | Some t \<Rightarrow> t, al_oid d)"

definition list_page :: "alert_query \<Rightarrow> (int \<times> nat) option \<Rightarrow> nat \<Rightarrow> alert_state \<Rightarrow> alert_doc list" where
  "list_page q after limit st = take limit (rev (sort_key (page_key q)
     (filter (\<lambda>d. query_matches q d \<and> (case after of None \<Rightarrow> True | Some c \<Rightarrow>
        fst (page_key q d) < fst c \<or> fst (page_key q d) = fst c \<and> al_oid d < snd c)) (as_docs st))))"

definition count_alerts :: "alert_query \<Rightarrow> alert_state \<Rightarrow> nat" where
  "count_alerts q st = length (filter (query_matches q) (as_docs st))"

section \<open>Audit events\<close>

text \<open>The limit on waiting events, and whether the outbox collection takes writes.\<close>

record alert_env =
  ae_outbox_limit :: nat
  ae_outbox_up :: bool

definition emit_event :: "alert_env \<Rightarrow> api_event \<Rightarrow> alert_state \<Rightarrow> alert_state" where
  "emit_event env ev st = (if \<not> ae_outbox_up env then st
     else if length (as_outbox st) \<ge> ae_outbox_limit env then st\<lparr>as_outbox := as_outbox st @ [EventsShed 1]\<rparr>
     else st\<lparr>as_outbox := as_outbox st @ [ev]\<rparr>)"

section \<open>Dispatch\<close>

datatype grpc_code = GRPC_UNAVAILABLE | GRPC_DEADLINE_EXCEEDED | GRPC_OTHER

datatype send_reply = SendFailed grpc_code | SendStatus nat

definition SEND_ACCEPTED :: nat where "SEND_ACCEPTED = 1"
definition SEND_RATE_LIMITED :: nat where "SEND_RATE_LIMITED = 2"

datatype send_error = AlertUnavailable | AlertRejected | RpcRaised

definition send_alert :: "send_reply \<Rightarrow> send_error + unit" where
  "send_alert r = (case r of
     SendFailed code \<Rightarrow> if code = GRPC_UNAVAILABLE \<or> code = GRPC_DEADLINE_EXCEEDED then Inl AlertUnavailable else Inl RpcRaised
   | SendStatus n \<Rightarrow> if n = SEND_RATE_LIMITED then Inl AlertUnavailable
       else if n \<noteq> SEND_ACCEPTED then Inl AlertRejected else Inr ())"

definition DISPATCH_ATTEMPTS :: nat where "DISPATCH_ATTEMPTS = 3"

text \<open>\<^verbatim>\<open>_dispatch\<close> with the replies to its attempts in order: \<open>None\<close> is the error that is raised through
  it, else whether the alert was accepted.  The count is the number of calls made.\<close>

fun dispatch_from :: "nat \<Rightarrow> nat \<Rightarrow> (nat \<Rightarrow> send_reply) \<Rightarrow> nat \<times> bool option" where
  "dispatch_from 0 attempt replies = (0, Some False)"
| "dispatch_from (Suc n) attempt replies = (case send_alert (replies attempt) of
     Inr _ \<Rightarrow> (1, Some True)
   | Inl AlertRejected \<Rightarrow> (1, Some False)
   | Inl RpcRaised \<Rightarrow> (1, None)
   | Inl AlertUnavailable \<Rightarrow> if n = 0 then (1, Some False)
       else (case dispatch_from n (attempt + 1) replies of (k, r) \<Rightarrow> (k + 1, r)))"

definition dispatch_alert :: "(nat \<Rightarrow> send_reply) \<Rightarrow> nat \<times> bool option" where
  "dispatch_alert replies = dispatch_from DISPATCH_ATTEMPTS 1 replies"

section \<open>The use cases\<close>

datatype alert_error = NoSuchAlert | MalformedId | UnhandledRpcError | UnreadableAlert

definition publish_event :: "dashboard_event \<Rightarrow> nat \<Rightarrow> alert_state \<Rightarrow> alert_state" where
  "publish_event e k st = st\<lparr>as_published := as_published st @ [(e, k)]\<rparr>"

definition new_alert_doc :: "int \<Rightarrow> alert_create \<Rightarrow> alert_doc" where
  "new_alert_doc now p = \<lparr>al_oid = 0, al_alert_id = ac_alert_id p, al_created_at = now, al_severity = ac_severity p,
     al_camera_id = ac_camera_id p, al_acknowledged = False, al_acknowledged_at = None, al_decision = Some DECISION_UNSPECIFIED,
     al_decided_at = None, al_decided_by = None, al_dispatch_failed = False\<rparr>"

definition create_alert :: "int \<Rightarrow> alert_create \<Rightarrow> (nat \<Rightarrow> send_reply) \<Rightarrow> alert_state
    \<Rightarrow> (alert_error + alert_doc) \<times> nat \<times> alert_state" where
  "create_alert now p replies st = (case insert_once (new_alert_doc now p) st of ((d, inserted), st1) \<Rightarrow>
     if \<not> showable d then (Inl UnreadableAlert, 0, st1)
     else if \<not> inserted then (Inr d, 0, st1)
     else let st2 = publish_event Created (al_oid d) st1 in
       case dispatch_alert replies of
         (calls, None) \<Rightarrow> (Inl UnhandledRpcError, calls, st2)
       | (calls, Some True) \<Rightarrow> (Inr d, calls, st2)
       | (calls, Some False) \<Rightarrow> let f = (\<lambda>d. d\<lparr>al_dispatch_failed := True\<rparr>)
           in (Inr (f d), calls, publish_event Updated (al_oid d) (update_doc (al_oid d) f st2)))"

text \<open>An object id that does not parse is \<open>None\<close>.\<close>

definition acknowledge_alert :: "alert_env \<Rightarrow> int \<Rightarrow> nat option \<Rightarrow> string \<Rightarrow> alert_state
    \<Rightarrow> (alert_error + alert_doc) \<times> alert_state" where
  "acknowledge_alert env now ref actor st = (case ref of None \<Rightarrow> (Inl MalformedId, st)
   | Some k \<Rightarrow> (case acknowledge_doc now k st of
       ((None, _), st1) \<Rightarrow> (Inl NoSuchAlert, st1)
     | ((Some d, acked_now), st1) \<Rightarrow> if \<not> showable d then (Inl UnreadableAlert, st1)
         else (Inr d, if acked_now then emit_event env (AlertAcknowledged (al_oid d) actor) (publish_event Acknowledged (al_oid d) st1)
            else st1)))"

definition decide_alert :: "alert_env \<Rightarrow> int \<Rightarrow> bool \<Rightarrow> decision_channel \<Rightarrow> nat option \<Rightarrow> decision \<Rightarrow> string \<Rightarrow> string
    \<Rightarrow> alert_state \<Rightarrow> (alert_error + alert_doc \<times> bool) \<times> alert_state" where
  "decide_alert env now only_if_undecided channel ref dec actor actor_name st = (case ref of None \<Rightarrow> (Inl MalformedId, st)
   | Some k \<Rightarrow> (case decide_doc now only_if_undecided k dec actor st of
       ((None, _), st1) \<Rightarrow> (Inl NoSuchAlert, st1)
     | ((Some d, None), st1) \<Rightarrow> (if showable d then Inr (d, False) else Inl UnreadableAlert, st1)
     | ((Some d, Some prev), st1) \<Rightarrow> if \<not> showable d then (Inl UnreadableAlert, st1) else
         (let st2 = emit_event env (AlertDecided (al_oid d) actor dec prev channel) (publish_event DecidedEvent (al_oid d) st1);
              notice = \<lparr>dn_alert_id = al_alert_id d, dn_decision = dec,
                dn_decided_by = (if dec = DECISION_UNSPECIFIED then '''' else actor_name),
                dn_decided_at = (case al_decided_at d of None \<Rightarrow> Some now | Some t \<Rightarrow> Some t)\<rparr>
          in (Inr (d, True), st2\<lparr>as_notices := as_notices st2 @ [notice]\<rparr>))))"

definition delete_alert :: "alert_env \<Rightarrow> nat option \<Rightarrow> string \<Rightarrow> alert_state \<Rightarrow> (alert_error + unit) \<times> alert_state" where
  "delete_alert env ref actor st = (case ref of None \<Rightarrow> (Inl MalformedId, st)
   | Some k \<Rightarrow> (case find_doc k st of None \<Rightarrow> (Inl NoSuchAlert, st)
     | Some d \<Rightarrow> (case delete_doc k st of (deleted, st1) \<Rightarrow>
         if \<not> deleted then (Inl NoSuchAlert, st1)
         else if \<not> showable d then (Inl UnreadableAlert, st1)
         else (Inr (), emit_event env (AlertDeleted (al_oid d) actor) (publish_event Deleted (al_oid d) st1)))))"

definition get_alert :: "nat option \<Rightarrow> alert_state \<Rightarrow> alert_error + alert_doc" where
  "get_alert ref st = (case ref of None \<Rightarrow> Inl MalformedId
   | Some k \<Rightarrow> (case find_doc k st of None \<Rightarrow> Inl NoSuchAlert
     | Some d \<Rightarrow> if showable d then Inr d else Inl UnreadableAlert))"

text \<open>A page and the cursor of the next one; a window that ends before it starts is refused, and a
  page with an alert that cannot be shown raises (both are \<open>None\<close>).\<close>

definition list_alerts :: "alert_query \<Rightarrow> nat \<Rightarrow> (int \<times> nat) option \<Rightarrow> alert_state
    \<Rightarrow> (alert_doc list \<times> (int \<times> nat) option) option" where
  "list_alerts q limit after st =
     (if (case (aq_start q, aq_end q) of (Some s, Some e) \<Rightarrow> s > e | _ \<Rightarrow> False) then None
      else let docs = list_page q after (limit + 1) st; page = take limit docs
        in if \<not> list_all showable page then None
         else Some (page, if length docs > limit \<and> page \<noteq> [] then
             (case sort_field (aq_sort q) (last page) of None \<Rightarrow> None | Some t \<Rightarrow> Some (t, al_oid (last page))) else None))"

fun read_pages :: "nat \<Rightarrow> alert_query \<Rightarrow> nat \<Rightarrow> (int \<times> nat) option \<Rightarrow> alert_state \<Rightarrow> alert_doc list option" where
  "read_pages 0 q limit after st = None"
| "read_pages (Suc n) q limit after st = (case list_alerts q limit after st of None \<Rightarrow> None
   | Some (page, None) \<Rightarrow> Some page
   | Some (page, Some c) \<Rightarrow> map_option (\<lambda>rest. page @ rest) (read_pages n q limit (Some c) st))"

section \<open>Decisions in Telegram\<close>

record operator_reply =
  op_found :: bool
  op_active :: bool
  op_roles :: "string list"
  op_user_id :: string
  op_username :: string

datatype alert_outcome = OPERATOR_UNKNOWN | OPERATOR_FORBIDDEN | ALERT_NOT_FOUND | DECIDED | ALREADY_DECIDED

datatype alert_abort = AbortPermissionDenied | AbortInvalidArgument | AbortUnavailable | AbortUnhandled

record alert_reply =
  dr_outcome :: alert_outcome
  dr_decision :: decision
  dr_decided_by :: string
  dr_decided_at :: "int option"

definition plain_reply :: "alert_outcome \<Rightarrow> alert_reply" where
  "plain_reply oc = \<lparr>dr_outcome = oc, dr_decision = DECISION_UNSPECIFIED, dr_decided_by = '''', dr_decided_at = None\<rparr>"

text \<open>\<open>requested\<close> is \<open>None\<close> for a decision the service does not offer; \<open>operator\<close> is the answer of the
  auth service (\<open>None\<close> when it is unreachable) and \<open>names\<close> what it answers for a user id.\<close>

definition DecideAlert :: "alert_env \<Rightarrow> (string \<Rightarrow> string) \<Rightarrow> int \<Rightarrow> bool \<Rightarrow> operator_reply option \<Rightarrow> string \<Rightarrow> decision option \<Rightarrow> int
    \<Rightarrow> alert_state \<Rightarrow> (alert_abort + alert_reply) \<times> alert_state" where
  "DecideAlert env names now from_notification operator alert_id requested telegram_user st =
     (if \<not> from_notification then (Inl AbortPermissionDenied, st)
      else if requested = None \<or> requested = Some DECISION_UNSPECIFIED \<or> alert_id = '''' \<or> telegram_user \<le> 0
      then (Inl AbortInvalidArgument, st)
      else case operator of
        None \<Rightarrow> (Inl AbortUnavailable, st)
      | Some oper \<Rightarrow>
          if \<not> op_found oper then (Inr (plain_reply OPERATOR_UNKNOWN), st)
          else if \<not> op_active oper \<or> ALERT_ACKNOWLEDGE \<notin> resolve_permissions (op_roles oper)
          then (Inr (plain_reply OPERATOR_FORBIDDEN), emit_event env (AuthorizationDenied (op_user_id oper) (op_roles oper)) st)
          else case get_by_alert_id alert_id st of
            None \<Rightarrow> (Inr (plain_reply ALERT_NOT_FOUND), st)
          | Some doc \<Rightarrow> (case decide_alert env now True CHANNEL_TELEGRAM (Some (al_oid doc)) (the requested) (op_user_id oper)
                (op_username oper) st of
              (Inl UnreadableAlert, st1) \<Rightarrow> (Inl AbortUnhandled, st1)
            | (Inl _, st1) \<Rightarrow> (Inr (plain_reply ALERT_NOT_FOUND), st1)
            | (Inr (d, changed), st1) \<Rightarrow>
                (Inr (if changed then \<lparr>dr_outcome = DECIDED, dr_decision = decision_of d, dr_decided_by = op_username oper,
                        dr_decided_at = al_decided_at d\<rparr>
                      else \<lparr>dr_outcome = ALREADY_DECIDED, dr_decision = decision_of d,
                        dr_decided_by = (case al_decided_by d of None \<Rightarrow> '''' | Some u \<Rightarrow> if u = '''' then '''' else names u),
                        dr_decided_at = al_decided_at d\<rparr>), st1)))"

section \<open>Runs and their invariant\<close>

datatype alert_op =
    CreateOp int alert_create "nat \<Rightarrow> send_reply"
  | AcknowledgeOp int "nat option" string
  | DecideOp int "nat option" decision string string
  | DeleteOp "nat option" string
  | TelegramOp int bool "operator_reply option" string "decision option" int

fun alert_step :: "alert_env \<Rightarrow> (string \<Rightarrow> string) \<Rightarrow> alert_op \<Rightarrow> alert_state \<Rightarrow> alert_state" where
  "alert_step env names (CreateOp now p replies) st = snd (snd (create_alert now p replies st))"
| "alert_step env names (AcknowledgeOp now ref actor) st = snd (acknowledge_alert env now ref actor st)"
| "alert_step env names (DecideOp now ref dec actor name) st = snd (decide_alert env now False CHANNEL_CONSOLE ref dec actor name st)"
| "alert_step env names (DeleteOp ref actor) st = snd (delete_alert env ref actor st)"
| "alert_step env names (TelegramOp now own operator a requested t) st = snd (DecideAlert env names now own operator a requested t st)"

definition alert_run :: "alert_env \<Rightarrow> (string \<Rightarrow> string) \<Rightarrow> alert_op list \<Rightarrow> alert_state \<Rightarrow> alert_state" where
  "alert_run env names ops st = fold (alert_step env names) ops st"

definition empty_alerts :: alert_state where
  "empty_alerts = \<lparr>as_docs = [], as_next_oid = 0, as_outbox = [], as_published = [], as_notices = []\<rparr>"

text \<open>What the events say of one alert: each names the decision it replaced, so they either chain up
  to a current decision or contradict each other.\<close>

fun trail :: "nat \<Rightarrow> decision \<Rightarrow> api_event list \<Rightarrow> decision option" where
  "trail k cur [] = Some cur"
| "trail k cur (AlertDecided j actor dec prev channel # es) =
     (if j = k then if prev = cur then trail k dec es else None else trail k cur es)"
| "trail k cur (e # es) = trail k cur es"

fun decides :: "nat \<Rightarrow> api_event \<Rightarrow> bool" where
  "decides k (AlertDecided j actor dec prev channel) = (j = k)"
| "decides k e = False"

definition alerts_ok :: "alert_state \<Rightarrow> bool" where
  "alerts_ok st \<longleftrightarrow> distinct (map al_oid (as_docs st)) \<and> distinct (map al_alert_id (as_docs st)) \<and>
     (\<forall>d\<in>set (as_docs st). al_oid d < as_next_oid st \<and>
        (showable d \<longrightarrow> trail (al_oid d) DECISION_UNSPECIFIED (as_outbox st) = Some (decision_of d))) \<and>
     (\<forall>k \<ge> as_next_oid st. list_all (\<lambda>e. \<not> decides k e) (as_outbox st))"

lemma trail_append:
  "trail k cur (es @ es') = (case trail k cur es of None \<Rightarrow> None | Some c \<Rightarrow> trail k c es')"
  by (induction k cur es rule: trail.induct) auto

lemma trail_skip: "list_all (\<lambda>e. \<not> decides k e) es \<Longrightarrow> trail k cur es = Some cur"
  by (induction k cur es rule: trail.induct) auto

lemma find_doc_Some:
  assumes "find_doc k st = Some d"
  shows "d \<in> set (as_docs st)" "al_oid d = k"
  using assms by (auto simp: find_doc_def find_Some_iff)

lemma get_by_alert_id_Some:
  assumes "get_by_alert_id a st = Some d"
  shows "d \<in> set (as_docs st)" "al_alert_id d = a"
  using assms by (auto simp: get_by_alert_id_def find_Some_iff)

lemma distinct_eq: "distinct (map f xs) \<Longrightarrow> x \<in> set xs \<Longrightarrow> y \<in> set xs \<Longrightarrow> f x = f y \<Longrightarrow> x = y"
  by (auto simp: distinct_map dest: inj_onD)

lemma find_snoc: "find P xs = None \<Longrightarrow> find P (xs @ [y]) = (if P y then Some y else None)"
  by (induction xs) (auto split: if_splits)

lemma find_doc_distinct:
  assumes "distinct (map al_oid (as_docs st))" "d \<in> set (as_docs st)"
  shows "find_doc (al_oid d) st = Some d"
proof -
  have "find_doc (al_oid d) st \<noteq> None" using assms(2) by (auto simp: find_doc_def find_None_iff)
  then obtain e where e: "find_doc (al_oid d) st = Some e" by auto
  then show ?thesis using find_doc_Some[OF e] assms distinct_eq[of al_oid "as_docs st" e d] by simp
qed

lemma find_doc_member: "alerts_ok st \<Longrightarrow> d \<in> set (as_docs st) \<Longrightarrow> find_doc (al_oid d) st = Some d"
  by (simp add: alerts_ok_def find_doc_distinct)

lemma showable_decided [simp]: "showable (decided_doc now dec actor d) = showable d"
  by (simp add: decided_doc_def showable_def)

text \<open>An update that touches neither ids nor the decision of an alert that can be shown, and an event that is no decision, keep the
  invariant; so does a decision with its event.\<close>

lemma update_doc_fields [simp]:
  "as_next_oid (update_doc k f st) = as_next_oid st" "as_outbox (update_doc k f st) = as_outbox st"
  "as_notices (update_doc k f st) = as_notices st" "as_published (update_doc k f st) = as_published st"
  by (simp_all add: update_doc_def)

lemma publish_event_fields [simp]:
  "as_next_oid (publish_event e k st) = as_next_oid st" "as_outbox (publish_event e k st) = as_outbox st"
  "as_docs (publish_event e k st) = as_docs st" "as_notices (publish_event e k st) = as_notices st"
  by (simp_all add: publish_event_def)

lemma emit_event_fields [simp]:
  "as_next_oid (emit_event env e st) = as_next_oid st" "as_docs (emit_event env e st) = as_docs st"
  "as_notices (emit_event env e st) = as_notices st"
  by (simp_all add: emit_event_def)

lemma alerts_ok_publish [simp]: "alerts_ok (publish_event e k st) = alerts_ok st"
  by (simp add: alerts_ok_def)

lemma alerts_ok_notices [simp]: "alerts_ok (st\<lparr>as_notices := ns\<rparr>) = alerts_ok st"
  by (simp add: alerts_ok_def)

lemma emit_other:
  assumes "alerts_ok st" "\<forall>k. \<not> decides k e"
  shows "alerts_ok (emit_event env e st)"
proof -
  define es where "es = (if \<not> ae_outbox_up env then [] else if length (as_outbox st) \<ge> ae_outbox_limit env then [EventsShed 1] else [e])"
  have es: "as_outbox (emit_event env e st) = as_outbox st @ es" "\<forall>k. list_all (\<lambda>e. \<not> decides k e) es"
    using assms(2) by (auto simp: emit_event_def es_def)
  then show ?thesis using assms(1) trail_skip by (auto simp: alerts_ok_def trail_append)
qed

lemma update_neutral:
  assumes "alerts_ok st" "\<And>d. al_oid (f d) = al_oid d \<and> al_alert_id (f d) = al_alert_id d \<and> al_camera_id (f d) = al_camera_id d"
    and "\<And>d. d \<in> set (as_docs st) \<Longrightarrow> al_oid d = k \<Longrightarrow> showable d \<Longrightarrow> al_decision (f d) = al_decision d"
  shows "alerts_ok (update_doc k f st)"
proof -
  have ids: "map al_oid (as_docs (update_doc k f st)) = map al_oid (as_docs st)"
    "map al_alert_id (as_docs (update_doc k f st)) = map al_alert_id (as_docs st)"
    using assms(2) by (simp_all add: update_doc_def)
  have cam: "showable (f d) = showable d" for d using assms(2) by (simp add: showable_def)
  have dec: "decision_of (f d) = decision_of d" if "d \<in> set (as_docs st)" "al_oid d = k" "showable d" for d
    using assms(3)[OF that] by (simp add: decision_of_def)
  have docs: "al_oid d < as_next_oid st \<and>
      (showable d \<longrightarrow> trail (al_oid d) DECISION_UNSPECIFIED (as_outbox st) = Some (decision_of d))"
    if "d \<in> set (as_docs (update_doc k f st))" for d
    using that assms(1,2) cam dec by (auto simp: alerts_ok_def update_doc_def)
  show ?thesis using assms(1) docs unfolding alerts_ok_def ids by simp
qed

lemma decision_step:
  assumes ok: "alerts_ok st" and d: "find_doc k st = Some d"
    and room: "ae_outbox_up env" "length (as_outbox st) < ae_outbox_limit env"
  shows "alerts_ok (emit_event env (AlertDecided k actor dec (decision_of d) channel)
    (publish_event DecidedEvent k (update_doc k (decided_doc now dec who) st)))" (is "alerts_ok ?st'")
proof -
  note mem = find_doc_Some[OF d]
  have out: "as_outbox ?st' = as_outbox st @ [AlertDecided k actor dec (decision_of d) channel]"
    using room by (simp add: emit_event_def)
  have docs: "as_docs ?st' = map (\<lambda>x. if al_oid x = k then decided_doc now dec who x else x) (as_docs st)"
    by (simp add: update_doc_def)
  have ids: "map al_oid (as_docs ?st') = map al_oid (as_docs st)" "map al_alert_id (as_docs ?st') = map al_alert_id (as_docs st)"
    unfolding docs by (simp_all add: decided_doc_def)
  have each: "al_oid x < as_next_oid st \<and>
      (showable x \<longrightarrow> trail (al_oid x) DECISION_UNSPECIFIED (as_outbox ?st') = Some (decision_of x))"
    if "x \<in> set (as_docs ?st')" for x
  proof -
    from that obtain y where y: "y \<in> set (as_docs st)" "x = (if al_oid y = k then decided_doc now dec who y else y)"
      unfolding docs by auto
    have t: "al_oid y < as_next_oid st" "showable y \<longrightarrow> trail (al_oid y) DECISION_UNSPECIFIED (as_outbox st) = Some (decision_of y)"
      using ok y(1) by (auto simp: alerts_ok_def)
    show ?thesis
    proof (cases "al_oid y = k")
      case True
      then have "y = d" using find_doc_member[OF ok y(1)] d by simp
      then show ?thesis using t True y(2) unfolding out
        by (simp add: trail_append decided_doc_def decision_of_def showable_def)
    qed (use t y(2) in \<open>simp add: out trail_append\<close>)
  qed
  have "al_oid d < as_next_oid st" using ok mem(1) by (auto simp: alerts_ok_def)
  then have "\<forall>j \<ge> as_next_oid st. list_all (\<lambda>e. \<not> decides j e) (as_outbox ?st')"
    using ok mem(2) unfolding out by (auto simp: alerts_ok_def)
  then show ?thesis using ok each unfolding alerts_ok_def ids by simp
qed

lemma decide_alert_ok:
  assumes "alerts_ok st" "ae_outbox_up env" "length (as_outbox st) < ae_outbox_limit env"
  shows "alerts_ok (snd (decide_alert env now only channel ref dec actor name st))"
proof (cases ref)
  case (Some k)
  show ?thesis
  proof (cases "find_doc k st")
    case None
    then show ?thesis using assms(1) Some by (simp add: decide_alert_def decide_doc_def)
  next
    case d: (Some d)
    have k: "al_oid (decided_doc now dec actor d) = k" using find_doc_Some(2)[OF d] by (simp add: decided_doc_def)
    show ?thesis
    proof (cases "showable d")
      case True
      then show ?thesis using k decision_step[OF assms(1) d assms(2,3)] assms(1) Some d
        by (simp add: decide_alert_def decide_doc_def Let_def)
    next
      case False
      have "\<not> showable x" if "x \<in> set (as_docs st)" "al_oid x = k" for x
        using find_doc_member[OF assms(1) that(1)] that(2) d False by simp
      then have "alerts_ok (update_doc k (decided_doc now dec actor) st)"
        by (intro update_neutral[OF assms(1)]) (auto simp: decided_doc_def)
      then show ?thesis using False assms(1) Some d by (simp add: decide_alert_def decide_doc_def Let_def)
    qed
  qed
qed (use assms in \<open>simp add: decide_alert_def\<close>)

lemma create_alert_ok:
  assumes "alerts_ok st"
  shows "alerts_ok (snd (snd (create_alert now p replies st)))"
proof (cases "get_by_alert_id (ac_alert_id p) st")
  case (Some e)
  then show ?thesis using assms by (simp add: create_alert_def insert_once_def new_alert_doc_def)
next
  case None
  let ?d = "(new_alert_doc now p)\<lparr>al_oid := as_next_oid st\<rparr>"
  let ?st1 = "st\<lparr>as_docs := as_docs st @ [?d], as_next_oid := as_next_oid st + 1\<rparr>"
  have fresh: "ac_alert_id p \<notin> al_alert_id ` set (as_docs st)"
    using None by (auto simp: get_by_alert_id_def find_None_iff)
  have none: "trail (as_next_oid st) DECISION_UNSPECIFIED (as_outbox st) = Some DECISION_UNSPECIFIED"
    using assms by (intro trail_skip) (simp add: alerts_ok_def)
  have ok1: "alerts_ok ?st1"
    using assms fresh none by (auto simp: alerts_ok_def new_alert_doc_def decision_of_def less_Suc_eq)
  have ok2: "alerts_ok (update_doc (as_next_oid st) (\<lambda>d. d\<lparr>al_dispatch_failed := True\<rparr>) (publish_event Created (as_next_oid st) ?st1))"
    by (rule update_neutral) (use ok1 in simp_all)
  have ins: "insert_once (new_alert_doc now p) st = ((?d, True), ?st1)"
    using None by (simp add: insert_once_def new_alert_doc_def Let_def)
  obtain calls res where disp: "dispatch_alert replies = (calls, res)" by (cases "dispatch_alert replies")
  show ?thesis
  proof (cases res)
    case None
    then show ?thesis using ok1 by (simp add: create_alert_def ins disp Let_def)
  next
    case (Some b)
    then show ?thesis using ok1 ok2 by (cases b) (simp_all add: create_alert_def ins disp Let_def)
  qed
qed

lemma acknowledge_alert_ok:
  assumes "alerts_ok st"
  shows "alerts_ok (snd (acknowledge_alert env now ref actor st))"
proof (cases ref)
  case (Some k)
  have "alerts_ok (update_doc k (\<lambda>d. d\<lparr>al_acknowledged := True, al_acknowledged_at := Some now\<rparr>) st)"
    using assms by (rule update_neutral) simp_all
  then show ?thesis using assms Some emit_other
    by (auto simp: acknowledge_alert_def acknowledge_doc_def Let_def split: option.split)
qed (use assms in \<open>simp add: acknowledge_alert_def\<close>)

lemma delete_alert_ok:
  assumes "alerts_ok st"
  shows "alerts_ok (snd (delete_alert env ref actor st))"
proof (cases ref)
  case (Some k)
  have "alerts_ok (st\<lparr>as_docs := filter (\<lambda>d. al_oid d \<noteq> k) (as_docs st)\<rparr>)"
    using assms by (auto simp: alerts_ok_def distinct_map_filter)
  then show ?thesis using assms Some emit_other
    by (auto simp: delete_alert_def delete_doc_def split: option.split)
qed (use assms in \<open>simp add: delete_alert_def\<close>)

lemma DecideAlert_ok:
  assumes "alerts_ok st" "ae_outbox_up env" "length (as_outbox st) < ae_outbox_limit env"
  shows "alerts_ok (snd (DecideAlert env names now own operator a requested t st))"
proof -
  have dec: "alerts_ok st'" if "decide_alert env now True channel ref x actor name st = (r, st')" for channel ref x actor name r st'
    using decide_alert_ok[OF assms, of now True channel ref x actor name] that by simp
  show ?thesis using assms(1) emit_other dec
    by (auto simp: DecideAlert_def split: option.split sum.split prod.split alert_error.split)
qed

lemma alert_step_ok:
  assumes "alerts_ok st" "ae_outbox_up env" "length (as_outbox st) < ae_outbox_limit env"
  shows "alerts_ok (alert_step env names op st)"
  using assms create_alert_ok acknowledge_alert_ok delete_alert_ok decide_alert_ok DecideAlert_ok
  by (cases op) simp_all

lemma emit_event_length: "length (as_outbox (emit_event env e st)) \<le> Suc (length (as_outbox st))"
  by (simp add: emit_event_def)

lemma create_alert_outbox: "as_outbox (snd (snd (create_alert now p replies st))) = as_outbox st"
  by (auto simp: create_alert_def insert_once_def Let_def split: option.split prod.split bool.split)

lemma decide_alert_length:
  "length (as_outbox (snd (decide_alert env now only channel ref dec actor name st))) \<le> Suc (length (as_outbox st))"
proof (cases ref)
  case (Some k)
  then show ?thesis
    using emit_event_length[of env "AlertDecided j actor dec prev channel" "publish_event DecidedEvent j (update_doc k f st)" for j prev f]
    by (auto simp: decide_alert_def decide_doc_def Let_def split: option.split)
qed (simp add: decide_alert_def)

lemma alert_step_length: "length (as_outbox (alert_step env names op st)) \<le> Suc (length (as_outbox st))"
proof (cases op)
  case (CreateOp now p replies)
  then show ?thesis by (simp add: create_alert_outbox)
next
  case (AcknowledgeOp now ref actor)
  then show ?thesis
    using emit_event_length[of env "AlertAcknowledged j actor" "publish_event Acknowledged j (update_doc k f st)" for j k f]
    by (auto simp: acknowledge_alert_def acknowledge_doc_def Let_def split: option.split)
next
  case (DecideOp now ref dec actor name)
  then show ?thesis by (simp add: decide_alert_length)
next
  case (DeleteOp ref actor)
  then show ?thesis
    using emit_event_length[of env "AlertDeleted j actor" "publish_event Deleted j st1" for j st1]
    by (auto simp: delete_alert_def delete_doc_def split: option.split)
       (metis publish_event_fields(2) alert_state.select_convs(3) alert_state.ext_inject alert_state.surjective alert_state.update_convs(1))
next
  case (TelegramOp now own operator a requested t)
  have dec: "length (as_outbox st') \<le> Suc (length (as_outbox st))"
    if "decide_alert env now True channel ref x actor name st = (r, st')" for channel ref x actor name r st'
    using decide_alert_length[of env now True channel ref x actor name st] that by simp
  show ?thesis using TelegramOp emit_event_length[of env _ st] dec
    by (auto simp: DecideAlert_def split: option.split sum.split prod.split alert_error.split)
qed

lemma alert_run_ok:
  assumes "ae_outbox_up env" "length ops \<le> ae_outbox_limit env"
  shows "alerts_ok (alert_run env names ops empty_alerts) \<and> length (as_outbox (alert_run env names ops empty_alerts)) \<le> length ops"
  using assms(2)
proof (induction ops rule: rev_induct)
  case Nil
  then show ?case by (simp add: alert_run_def empty_alerts_def alerts_ok_def)
next
  case (snoc op ops)
  then have "alerts_ok (alert_run env names ops empty_alerts)"
    "length (as_outbox (alert_run env names ops empty_alerts)) < ae_outbox_limit env" by auto
  from alert_step_ok[OF this(1) assms(1) this(2), of names op] snoc
    alert_step_length[of env names op "alert_run env names ops empty_alerts"]
  show ?case by (simp add: alert_run_def)
qed

section \<open>Properties\<close>


definition decided_run :: alert_state where
  "decided_run = alert_run \<lparr>ae_outbox_limit = 10, ae_outbox_up = True\<rparr> (\<lambda>_. '''')
     [CreateOp 1 \<lparr>ac_alert_id = ''a'', ac_severity = ''s'', ac_camera_id = Some ''c''\<rparr> (\<lambda>_. SendStatus 1),
      DecideOp 2 (Some 0) DECISION_CONFIRMED ''u'' ''n''] empty_alerts"

lemma decided_run_docs: "map al_camera_id (as_docs decided_run) = [Some ''c'']" by code_simp


lemma acknowledge_roles:
  "ALERT_ACKNOWLEDGE \<in> resolve_permissions roles \<longleftrightarrow> ''admin'' \<in> set roles \<or> ''operator'' \<in> set roles"
proof -
  have "ALERT_ACKNOWLEDGE \<in> set (case map_of ROLE_PERMISSIONS r of None \<Rightarrow> [] | Some ps \<Rightarrow> ps) \<longleftrightarrow> r = ''admin'' \<or> r = ''operator''" for r
    by (simp add: ROLE_PERMISSIONS_def all_permissions_def)
  then show ?thesis by (auto simp: resolve_permissions_def)
qed

lemma get_by_alert_id_member:
  assumes "alerts_ok st" "d \<in> set (as_docs st)"
  shows "get_by_alert_id (al_alert_id d) st = Some d"
proof -
  have "get_by_alert_id (al_alert_id d) st \<noteq> None" using assms(2) by (auto simp: get_by_alert_id_def find_None_iff)
  then obtain e where e: "get_by_alert_id (al_alert_id d) st = Some e" by auto
  then show ?thesis
    using get_by_alert_id_Some[OF e] assms distinct_eq[of al_alert_id "as_docs st" e d] by (simp add: alerts_ok_def)
qed

lemma DecideAlert_refused:
  assumes "\<not> (own \<and> a \<noteq> '''' \<and> 0 < t \<and> requested \<notin> {None, Some DECISION_UNSPECIFIED} \<and>
      (\<exists>oper. operator = Some oper \<and> op_found oper \<and> op_active oper \<and> ALERT_ACKNOWLEDGE \<in> resolve_permissions (op_roles oper)) \<and>
      (\<exists>d. get_by_alert_id a st = Some d \<and> undecided d))"
    and "distinct (map al_oid (as_docs st))"
  shows "as_docs (snd (DecideAlert env names now own operator a requested t st)) = as_docs st \<and>
    (\<forall>rep. fst (DecideAlert env names now own operator a requested t st) = Inr rep \<longrightarrow> dr_outcome rep \<noteq> DECIDED)"
proof (cases "get_by_alert_id a st")
  case None
  then show ?thesis by (auto simp: DecideAlert_def plain_reply_def split: option.split)
next
  case (Some d)
  have found: "find_doc (al_oid d) st = Some d" using find_doc_distinct[OF assms(2)] get_by_alert_id_Some(1)[OF Some] by simp
  show ?thesis using assms(1) Some found
    by (auto simp: DecideAlert_def plain_reply_def decide_alert_def decide_doc_def split: option.split)
qed

text \<open>C28: Decisions taken in Telegram are sound, and the first one wins, while every stored alert has a
  camera.  A decision changes a stored
  alert exactly when the notification service asks for it, the account belongs to an active
  administrator or operator, the decision is one of the three offered, and the alert is known and
  undecided; then precisely that alert is decided in the operator's name, the answer says so, and no
  later request of this kind changes it.  In every other case no alert changes and the answer does
  not claim a decision.\<close>

theorem telegram_decision_sound:
  assumes "alerts_ok st" "list_all showable (as_docs st)"
    and "DecideAlert env names now own operator a requested t st = (r, st')"
  shows "if own \<and> a \<noteq> '''' \<and> 0 < t \<and> requested \<notin> {None, Some DECISION_UNSPECIFIED} \<and>
      (\<exists>oper. operator = Some oper \<and> op_found oper \<and> op_active oper \<and>
         (''admin'' \<in> set (op_roles oper) \<or> ''operator'' \<in> set (op_roles oper))) \<and>
      (\<exists>d\<in>set (as_docs st). al_alert_id d = a \<and> undecided d)
    then as_docs st' = map (\<lambda>d. if al_alert_id d = a then decided_doc now (the requested) (op_user_id (the operator)) d else d) (as_docs st) \<and>
      r = Inr \<lparr>dr_outcome = DECIDED, dr_decision = the requested, dr_decided_by = op_username (the operator), dr_decided_at = Some now\<rparr> \<and>
      (\<forall>now' own' operator' requested' t'.
         as_docs (snd (DecideAlert env names now' own' operator' a requested' t' st')) = as_docs st')
    else as_docs st' = as_docs st \<and> (\<forall>rep. r = Inr rep \<longrightarrow> dr_outcome rep \<noteq> DECIDED)"
proof (cases "own \<and> a \<noteq> '''' \<and> 0 < t \<and> requested \<notin> {None, Some DECISION_UNSPECIFIED} \<and>
      (\<exists>oper. operator = Some oper \<and> op_found oper \<and> op_active oper \<and> ALERT_ACKNOWLEDGE \<in> resolve_permissions (op_roles oper)) \<and>
      (\<exists>d. get_by_alert_id a st = Some d \<and> undecided d)")
  case False
  have "(\<exists>d\<in>set (as_docs st). al_alert_id d = a \<and> undecided d) \<longleftrightarrow> (\<exists>d. get_by_alert_id a st = Some d \<and> undecided d)"
    using get_by_alert_id_member[OF assms(1)] get_by_alert_id_Some by blast
  note cond = False[folded this, unfolded acknowledge_roles]
  have "distinct (map al_oid (as_docs st))" using assms(1) by (simp add: alerts_ok_def)
  from DecideAlert_refused[OF False this, of env names now] assms(3) show ?thesis
    unfolding if_not_P[OF cond] by simp
next
  case True
  then obtain dec oper d where c: "own" "a \<noteq> ''''" "0 < t" "requested = Some dec" "dec \<noteq> DECISION_UNSPECIFIED" "operator = Some oper"
    "op_found oper" "op_active oper" "ALERT_ACKNOWLEDGE \<in> resolve_permissions (op_roles oper)"
    "get_by_alert_id a st = Some d" "undecided d" by auto
  note mem = get_by_alert_id_Some[OF c(10)]
  have found: "find_doc (al_oid d) st = Some d" by (rule find_doc_member[OF assms(1) mem(1)])
  have see: "showable d" using assms(2) mem(1) by (simp add: list_all_iff)
  let ?d = "decided_doc now dec (op_user_id oper) d"
  have res: "as_docs st' = as_docs (update_doc (al_oid d) (decided_doc now dec (op_user_id oper)) st) \<and>
    r = Inr \<lparr>dr_outcome = DECIDED, dr_decision = dec, dr_decided_by = op_username oper, dr_decided_at = Some now\<rparr>"
    using assms(3) c found see
    by (auto simp: DecideAlert_def decide_alert_def decide_doc_def Let_def) (auto simp: decided_doc_def decision_of_def)
  have same: "al_oid x = al_oid d \<longleftrightarrow> al_alert_id x = a" if "x \<in> set (as_docs st)" for x
    using assms(1) that mem distinct_eq[of al_oid "as_docs st" x d] distinct_eq[of al_alert_id "as_docs st" x d]
    by (auto simp: alerts_ok_def)
  have docs: "as_docs st' = map (\<lambda>x. if al_alert_id x = a then decided_doc now dec (op_user_id oper) x else x) (as_docs st)"
    using res same by (simp add: update_doc_def)
  have ids: "distinct (map al_oid (as_docs st'))"
  proof -
    have "map al_oid (as_docs st') = map al_oid (as_docs st)" by (simp add: docs decided_doc_def)
    then show ?thesis using assms(1) by (simp add: alerts_ok_def)
  qed
  have settled: "\<not> undecided e" if e: "get_by_alert_id a st' = Some e" for e
  proof -
    obtain x where "x \<in> set (as_docs st)" "e = (if al_alert_id x = a then decided_doc now dec (op_user_id oper) x else x)"
      using get_by_alert_id_Some(1)[OF e] by (auto simp: docs)
    then have "al_decision e = Some dec" using get_by_alert_id_Some(2)[OF e] by (cases "al_alert_id x = a") (simp_all add: decided_doc_def)
    then show ?thesis using c(5) by (simp add: undecided_def)
  qed
  have later: "as_docs (snd (DecideAlert env names now' own' operator' a requested' t' st')) = as_docs st'" for now' own' operator' requested' t'
    by (rule DecideAlert_refused[THEN conjunct1]) (use settled ids in auto)
  have "\<exists>d\<in>set (as_docs st). al_alert_id d = a \<and> undecided d" using mem c(11) by blast
  then show ?thesis using c conjunct2[OF res] docs later acknowledge_roles[of "op_roles oper"] by simp
qed

theorem telegram_decision_sound_witness:
  "as_docs (snd (DecideAlert \<lparr>ae_outbox_limit = 10, ae_outbox_up = True\<rparr> (\<lambda>_. '''') 5 True
      (Some \<lparr>op_found = True, op_active = True, op_roles = [''operator''], op_user_id = ''u'', op_username = ''n''\<rparr>)
      ''a'' (Some DECISION_CONFIRMED) 7
      (snd (snd (create_alert 1 \<lparr>ac_alert_id = ''a'', ac_severity = ''s'', ac_camera_id = Some ''c''\<rparr> (\<lambda>_. SendStatus 1) empty_alerts)))))
    = [decided_doc 5 DECISION_CONFIRMED ''u'' ((new_alert_doc 1 \<lparr>ac_alert_id = ''a'', ac_severity = ''s'', ac_camera_id = Some ''c''\<rparr>))]"
proof -
  let ?env = "\<lparr>ae_outbox_limit = 10, ae_outbox_up = True\<rparr>" and ?p = "\<lparr>ac_alert_id = ''a'', ac_severity = ''s'', ac_camera_id = Some ''c''\<rparr>"
  let ?oper = "\<lparr>op_found = True, op_active = True, op_roles = [''operator''], op_user_id = ''u'', op_username = ''n''\<rparr>"
  let ?st = "snd (snd (create_alert 1 ?p (\<lambda>_. SendStatus 1) empty_alerts))"
  have ok: "alerts_ok ?st" by (rule create_alert_ok) (simp add: empty_alerts_def alerts_ok_def)
  have docs: "as_docs ?st = [new_alert_doc 1 ?p]"
    by (simp add: create_alert_def insert_once_def new_alert_doc_def empty_alerts_def get_by_alert_id_def dispatch_alert_def
        DISPATCH_ATTEMPTS_def numeral_3_eq_3 send_alert_def SEND_RATE_LIMITED_def SEND_ACCEPTED_def publish_event_def Let_def
        showable_def)
  obtain r st' where call: "DecideAlert ?env (\<lambda>_. '''') 5 True (Some ?oper) ''a'' (Some DECISION_CONFIRMED) 7 ?st = (r, st')"
    by (cases "DecideAlert ?env (\<lambda>_. '''') 5 True (Some ?oper) ''a'' (Some DECISION_CONFIRMED) 7 ?st")
  have see: "list_all showable (as_docs ?st)" unfolding docs by (simp add: new_alert_doc_def showable_def)
  from telegram_decision_sound[OF ok see call] call docs show ?thesis
    by (simp add: new_alert_doc_def undecided_def)
qed

text \<open>An alert can be lost for the operators without a trace.  When the first call to the
  notification service fails with a status other than unavailable or deadline exceeded, creating the
  alert fails after it has been stored and before it is marked; every later attempt to create it
  answers with the stored copy, makes no call and changes nothing, so the alert stays undispatched
  and is never marked as such.\<close>

theorem undispatched_alert_lost:
  assumes "alerts_ok st" "ac_alert_id p \<notin> al_alert_id ` set (as_docs st)" "replies 1 = SendFailed GRPC_OTHER"
    and "ac_camera_id p \<noteq> None"
  shows "(case create_alert now p replies st of (res, calls, st') \<Rightarrow>
     res = Inl UnhandledRpcError \<and> calls = 1 \<and>
     (\<exists>d\<in>set (as_docs st'). al_alert_id d = ac_alert_id p \<and> \<not> al_dispatch_failed d \<and>
        (\<forall>now' replies'. create_alert now' p replies' st' = (Inr d, 0, st'))))"
proof -
  let ?d = "(new_alert_doc now p)\<lparr>al_oid := as_next_oid st\<rparr>"
  let ?st = "publish_event Created (as_next_oid st) (st\<lparr>as_docs := as_docs st @ [?d], as_next_oid := as_next_oid st + 1\<rparr>)"
  have none: "get_by_alert_id (ac_alert_id p) st = None"
    using assms(2) by (auto simp: get_by_alert_id_def find_None_iff image_iff)
  have disp: "dispatch_alert replies = (1, None)"
    using assms(3) by (simp add: dispatch_alert_def DISPATCH_ATTEMPTS_def numeral_3_eq_3 send_alert_def)
  have first: "create_alert now p replies st = (Inl UnhandledRpcError, 1, ?st)"
    using none assms(4) by (simp add: create_alert_def insert_once_def disp Let_def new_alert_doc_def showable_def)
  have "find (\<lambda>d. al_alert_id d = ac_alert_id p) (as_docs st @ [?d]) = Some ?d"
    using none by (simp add: get_by_alert_id_def find_snoc new_alert_doc_def)
  then have found: "get_by_alert_id (ac_alert_id p) ?st = Some ?d" by (simp add: get_by_alert_id_def)
  have again: "create_alert now' p replies' ?st = (Inr ?d, 0, ?st)" for now' replies'
    using found assms(4) by (simp add: create_alert_def insert_once_def new_alert_doc_def showable_def)
  show ?thesis unfolding first using again by (auto simp: new_alert_doc_def intro!: bexI[of _ ?d])
qed

theorem undispatched_alert_lost_witness:
  "fst (create_alert 5 \<lparr>ac_alert_id = ''a'', ac_severity = ''s'', ac_camera_id = Some ''c''\<rparr> (\<lambda>_. SendFailed GRPC_OTHER) empty_alerts)
    = Inl UnhandledRpcError"
proof -
  have ok: "alerts_ok empty_alerts" by (simp add: empty_alerts_def alerts_ok_def)
  from undispatched_alert_lost[OF ok, of "\<lparr>ac_alert_id = ''a'', ac_severity = ''s'', ac_camera_id = Some ''c''\<rparr>" "\<lambda>_. SendFailed GRPC_OTHER" 5]
  show ?thesis by (simp add: empty_alerts_def split: prod.splits)
qed



section \<open>Pages\<close>

definition matches :: "alert_query \<Rightarrow> alert_state \<Rightarrow> alert_doc list" where
  "matches q st = rev (sort_key (page_key q) (filter (query_matches q) (as_docs st)))"

lemma set_matches: "set (matches q st) = {d \<in> set (as_docs st). query_matches q d}"
  by (simp add: matches_def)

lemma matches_descending:
  assumes "distinct (map al_oid (as_docs st))"
  shows "sorted_wrt (\<lambda>x y. page_key q y < page_key q x) (matches q st)"
proof -
  let ?xs = "sort_key (page_key q) (filter (query_matches q) (as_docs st))"
  have "distinct ?xs" "inj_on al_oid (set ?xs)" using assms by (auto simp: distinct_map intro: inj_on_subset)
  then have "distinct (map (page_key q) ?xs)"
    by (auto simp: distinct_map page_key_def intro!: inj_onI dest: inj_onD)
  moreover have "sorted (map (page_key q) ?xs)" by simp
  ultimately have "sorted_wrt (<) (map (page_key q) ?xs)" using strict_sorted_iff by blast
  then show ?thesis by (simp add: matches_def sorted_wrt_map sorted_wrt_rev)
qed

lemma filter_descending:
  fixes f :: "'a \<Rightarrow> 'b :: linorder"
  assumes "sorted_wrt (\<lambda>x y. f y < f x) xs" "k < length xs"
  shows "filter (\<lambda>x. f x < f (xs ! k)) xs = drop (Suc k) xs"
  using assms
proof (induction xs arbitrary: k)
  case (Cons x xs)
  show ?case
  proof (cases k)
    case 0
    have "filter (\<lambda>y. f y < f x) xs = xs" using Cons.prems(1) by (simp add: filter_id_conv)
    then show ?thesis using 0 by simp
  next
    case (Suc j)
    then have "f (xs ! j) < f x" using Cons.prems by simp
    then have "\<not> f x < f (xs ! j)" by simp
    then show ?thesis using Cons.IH[of j] Cons.prems Suc by simp
  qed
qed simp

lemma list_page_drop:
  assumes "distinct (map al_oid (as_docs st))"
    and "after = None \<and> k = 0 \<or> after = Some (page_key q (matches q st ! (k - 1))) \<and> 0 < k \<and> k \<le> length (matches q st)"
  shows "list_page q after n st = take n (drop k (matches q st))"
  using assms(2)
proof
  assume "after = None \<and> k = 0"
  then show ?thesis by (simp add: list_page_def matches_def)
next
  assume a: "after = Some (page_key q (matches q st ! (k - 1))) \<and> 0 < k \<and> k \<le> length (matches q st)"
  let ?c = "page_key q (matches q st ! (k - 1))"
  have "filter (\<lambda>d. query_matches q d \<and> (fst (page_key q d) < fst ?c \<or> fst (page_key q d) = fst ?c \<and> al_oid d < snd ?c)) (as_docs st)
      = filter (\<lambda>d. page_key q d < ?c) (filter (query_matches q) (as_docs st))"
    by (auto simp: page_key_def less_prod_def intro!: filter_cong)
  moreover have "list_page q after n st = take n (rev (sort_key (page_key q) (filter (\<lambda>d. query_matches q d \<and>
      (fst (page_key q d) < fst ?c \<or> fst (page_key q d) = fst ?c \<and> al_oid d < snd ?c)) (as_docs st))))"
    using a by (simp add: list_page_def)
  ultimately have "list_page q after n st =
      take n (rev (sort_key (page_key q) (filter (\<lambda>d. page_key q d < ?c) (filter (query_matches q) (as_docs st)))))"
    by (simp only:)
  also have "\<dots> = take n (filter (\<lambda>d. page_key q d < ?c) (matches q st))"
    unfolding matches_def filter_sort[symmetric] rev_filter ..
  also have "\<dots> = take n (drop k (matches q st))"
  proof -
    have "k - 1 < length (matches q st)" using a by auto
    from filter_descending[OF matches_descending[OF assms(1)] this] a show ?thesis by simp
  qed
  finally show ?thesis .
qed

lemma read_pages_fuel: "read_pages m q limit c st = Some y \<Longrightarrow> read_pages (m + i) q limit c st = Some y"
proof (induction m arbitrary: c y)
  case (Suc m)
  obtain page nx where l: "list_alerts q limit c st = Some (page, nx)"
    using Suc.prems by (auto split: option.splits)
  show ?case
  proof (cases nx)
    case None
    then show ?thesis using Suc.prems l by simp
  next
    case (Some c')
    then obtain z where "read_pages m q limit (Some c') st = Some z" "y = page @ z" using Suc.prems l by auto
    then show ?thesis using Suc.IH Some l by simp
  qed
qed simp

lemma read_pages_drop:
  assumes "distinct (map al_oid (as_docs st))" "1 \<le> limit" "list_all showable (as_docs st)"
    and "\<not> (case (aq_start q, aq_end q) of (Some s, Some e) \<Rightarrow> s > e | _ \<Rightarrow> False)"
    and "after = None \<and> k = 0 \<or> after = Some (page_key q (matches q st ! (k - 1))) \<and> 0 < k \<and> k \<le> length (matches q st)"
  shows "read_pages (Suc (length (matches q st) - k)) q limit after st = Some (drop k (matches q st))"
  using assms(5)
proof (induction "length (matches q st) - k" arbitrary: k after rule: less_induct)
  case less
  let ?M = "matches q st"
  note page = list_page_drop[OF assms(1) less.prems, of "Suc limit"]
  have see: "list_all showable (take limit (take (Suc limit) (drop k ?M)))"
    using assms(3) by (auto simp: list_all_iff set_matches dest!: in_set_takeD in_set_dropD)
  show ?case
  proof (cases "k + limit < length ?M")
    case False
    then have "\<not> limit < length ?M - k" by simp
    then have "list_alerts q limit after st = Some (drop k ?M, None)"
      using assms(4) see by (simp add: list_alerts_def page Let_def)
    then show ?thesis by simp
  next
    case True
    let ?j = "k + limit" and ?l = "?M ! (k + limit - 1)"
    have l: "last (take limit (drop k ?M)) = ?l" "take limit (drop k ?M) \<noteq> []"
      using True assms(2) by (auto simp: last_conv_nth min_def)
    have "?l \<in> set ?M" using True by (intro nth_mem) simp
    then obtain t where "sort_field (aq_sort q) ?l = Some t"
      by (auto simp: set_matches query_matches_def split: option.splits)
    then have "list_alerts q limit after st = Some (take limit (drop k ?M), Some (page_key q ?l))"
      using assms(4) True l see by (simp add: list_alerts_def page Let_def page_key_def)
    moreover have "read_pages (Suc (length ?M - ?j)) q limit (Some (page_key q ?l)) st = Some (drop ?j ?M)"
      using True assms(2) by (intro less.hyps) auto
    moreover have "read_pages (length ?M - k) q limit c st = Some y" if "read_pages (Suc (length ?M - ?j)) q limit c st = Some y" for c y
    proof -
      have "length ?M - k = Suc (length ?M - ?j) + (limit - 1)" using True assms(2) by simp
      then show ?thesis using read_pages_fuel[OF that, of "limit - 1"] by (simp only:)
    qed
    ultimately have "read_pages (Suc (length ?M - k)) q limit after st = Some (take limit (drop k ?M) @ drop ?j ?M)" by simp
    then show ?thesis by (metis append_take_drop_id drop_drop add.commute)
  qed
qed

text \<open>While every stored alert has a camera, following the cursors of the alert list ends, after at most one page more than there are
  matching alerts, and yields every matching alert exactly once, the newest first.\<close>

theorem alert_pages_enumerate:
  assumes "alerts_ok st" "1 \<le> limit" "aq_start q = None \<or> aq_end q = None \<or> the (aq_start q) \<le> the (aq_end q)"
    and "list_all showable (as_docs st)"
  shows "read_pages (Suc (length (matches q st))) q limit None st = Some (matches q st) \<and>
    distinct (matches q st) \<and> set (matches q st) = {d \<in> set (as_docs st). query_matches q d}"
proof -
  have d: "distinct (map al_oid (as_docs st))" using assms(1) by (simp add: alerts_ok_def)
  have w: "\<not> (case (aq_start q, aq_end q) of (Some s, Some e) \<Rightarrow> s > e | _ \<Rightarrow> False)"
    using assms(3) by (auto split: option.splits)
  have "distinct (as_docs st)" using d by (simp add: distinct_map)
  then show ?thesis using read_pages_drop[OF d assms(2,4) w, of None 0] by (simp add: set_matches matches_def)
qed

definition all_alerts :: alert_query where
  "all_alerts = \<lparr>aq_severity = None, aq_acknowledged = None, aq_decision = None, aq_camera_id = None,
     aq_sort = SORT_CREATED, aq_start = None, aq_end = None\<rparr>"

definition two_alerts :: alert_state where
  "two_alerts = alert_run \<lparr>ae_outbox_limit = 10, ae_outbox_up = True\<rparr> (\<lambda>_. '''')
     [CreateOp 1 \<lparr>ac_alert_id = ''a'', ac_severity = ''s'', ac_camera_id = Some ''c''\<rparr> (\<lambda>_. SendStatus 1),
      CreateOp 2 \<lparr>ac_alert_id = ''b'', ac_severity = ''s'', ac_camera_id = Some ''c''\<rparr> (\<lambda>_. SendStatus 1)] empty_alerts"

lemma two_alerts_facts:
  "alerts_ok two_alerts" "list_all showable (as_docs two_alerts)" "map al_alert_id (matches all_alerts two_alerts) = [''b'', ''a'']"
  "length (matches all_alerts two_alerts) = 2"
proof -
  show "alerts_ok two_alerts" unfolding two_alerts_def by (rule alert_run_ok[THEN conjunct1]) simp_all
  have "map al_camera_id (as_docs two_alerts) = [Some ''c'', Some ''c'']" by code_simp
  then show "list_all showable (as_docs two_alerts)" unfolding all_showable by simp
  show ids: "map al_alert_id (matches all_alerts two_alerts) = [''b'', ''a'']" by code_simp
  then show "length (matches all_alerts two_alerts) = 2" by (metis length_map length_Cons list.size(3) numeral_2_eq_2)
qed

end
