(* ===== verification/ApiAccess.thy ===== *)
theory ApiAccess
  imports AuthProperties ApiRateLimit ApiAlerts
begin

text \<open>
  Who may call the alert service: the token of a request and its verification by the auth
  service (\<^verbatim>\<open>services/api/app/core/authz.py\<close>, \<^verbatim>\<open>services/auth_service.py\<close>), the protection of
  cookie requests against forgery (\<^verbatim>\<open>core/csrf.py\<close>), and the upgrade and supervision of web
  sockets (\<^verbatim>\<open>core/ws_authz.py\<close>).  Header names are in lower case, as Starlette compares them;
  \<open>netloc_ok\<close> stands for the checks of \<^verbatim>\<open>urlsplit\<close> on bracketed and non-ASCII hosts.
\<close>

section \<open>Requests\<close>

record connection =
  cn_cookies :: "(string \<times> string) list"
  cn_headers :: "(string \<times> string) list"
  cn_method :: string
  cn_path :: string

record access_settings =
  as_access_cookie :: string
  as_csrf_cookie :: string
  as_csrf_header :: string
  as_ws_allowed_origins :: string
  as_ws_reauth_seconds :: nat
  as_ws_reauth_grace :: nat

definition lower :: "string \<Rightarrow> string" where
  "lower s = map lower_char s"

text \<open>\<^verbatim>\<open>text.partition(sep)\<close> for one character; the answer says whether it was found.\<close>

definition partition_at :: "char \<Rightarrow> string \<Rightarrow> string \<times> bool \<times> string" where
  "partition_at c s = (takeWhile (\<lambda>x. x \<noteq> c) s, c \<in> set s, drop 1 (dropWhile (\<lambda>x. x \<noteq> c) s))"

definition cookie :: "string \<Rightarrow> connection \<Rightarrow> string option" where
  "cookie name cn = map_of (cn_cookies cn) name"

definition header_value :: "string \<Rightarrow> connection \<Rightarrow> string option" where
  "header_value name cn = map_of (cn_headers cn) name"

text \<open>A cookie or header is used only when it is there and not empty.\<close>

definition filled :: "string option \<Rightarrow> bool" where
  "filled v \<longleftrightarrow> v \<noteq> None \<and> v \<noteq> Some ''''"

section \<open>Tokens\<close>

definition bearer_token :: "connection \<Rightarrow> string option" where
  "bearer_token cn = (case header_value ''authorization'' cn of None \<Rightarrow> None
     | Some h \<Rightarrow> (case partition_at (CHR '' '') h of (scheme, _, token) \<Rightarrow>
         if lower scheme \<noteq> ''bearer'' \<or> token = '''' then None else Some token))"

text \<open>\<open>None\<close> is \<^verbatim>\<open>TokenMissingError\<close>.\<close>

definition extract_token :: "access_settings \<Rightarrow> connection \<Rightarrow> string option" where
  "extract_token cfg cn = (if filled (cookie (as_access_cookie cfg) cn) then cookie (as_access_cookie cfg) cn
     else bearer_token cn)"

text \<open>The statuses of the protocol, of which the auth service sends all but the first and the last.\<close>

datatype token_status = VERIFICATION_UNSPECIFIED | VERIFICATION_IS verification_status | VERIFICATION_USER_DISABLED

record current_user =
  cu_user_id :: string
  cu_username :: string
  cu_roles :: "string list"
  cu_session_id :: string

text \<open>A call to the auth service: it answers, or it fails with a status code.\<close>

datatype 'a auth_call = Answered 'a | CallFailed grpc_code

datatype client_error = AuthUnavailable | RpcUnhandled

definition auth_result :: "'a auth_call \<Rightarrow> client_error + 'a" where
  "auth_result r = (case r of Answered x \<Rightarrow> Inr x
     | CallFailed c \<Rightarrow> Inl (if c = GRPC_UNAVAILABLE \<or> c = GRPC_DEADLINE_EXCEEDED then AuthUnavailable else RpcUnhandled))"

datatype token_code = token_expired | session_invalid | account_disabled

definition rejection_code :: "token_status \<Rightarrow> token_code" where
  "rejection_code s = (if s = VERIFICATION_IS STATUS_EXPIRED then token_expired
     else if s = VERIFICATION_USER_DISABLED then account_disabled else session_invalid)"

datatype access_error = Unauthenticated token_code | InsufficientPermission | ClientError client_error

type_synonym token_verifier = "string \<Rightarrow> (token_status \<times> current_user) auth_call"

definition verify_connection :: "token_verifier \<Rightarrow> string \<Rightarrow> access_error + current_user" where
  "verify_connection verify token = (case auth_result (verify token) of
     Inl e \<Rightarrow> Inl (ClientError e)
   | Inr (status, user) \<Rightarrow> if status \<noteq> VERIFICATION_IS STATUS_VALID then Inl (Unauthenticated (rejection_code status))
       else Inr user)"

definition get_current_user :: "access_settings \<Rightarrow> token_verifier \<Rightarrow> connection \<Rightarrow> access_error + current_user" where
  "get_current_user cfg verify cn = (case extract_token cfg cn of
     None \<Rightarrow> Inl (Unauthenticated session_invalid)
   | Some token \<Rightarrow> verify_connection verify token)"

definition require_permission ::
  "access_settings \<Rightarrow> alert_env \<Rightarrow> token_verifier \<Rightarrow> permission \<Rightarrow> connection \<Rightarrow> alert_state
     \<Rightarrow> (access_error + current_user) \<times> alert_state" where
  "require_permission cfg env verify p cn st = (case get_current_user cfg verify cn of
     Inl e \<Rightarrow> (Inl e, st)
   | Inr user \<Rightarrow> if p \<notin> resolve_permissions (cu_roles user)
       then (Inl InsufficientPermission, emit_event env (AuthorizationDenied (cu_user_id user) (cu_roles user)) st)
       else (Inr user, st))"

section \<open>Forged requests\<close>

datatype csrf_error = csrf_token_missing | csrf_token_mismatch | csrf_type_error

definition SAFE_METHODS :: "string list" where
  "SAFE_METHODS = [''GET'', ''HEAD'', ''OPTIONS'', ''TRACE'']"

definition has_bearer_only :: "access_settings \<Rightarrow> connection \<Rightarrow> bool" where
  "has_bearer_only cfg cn \<longleftrightarrow> \<not> filled (cookie (as_access_cookie cfg) cn) \<and> bearer_token cn \<noteq> None"

text \<open>\<open>http\<close> says that the connection is a plain request rather than a web socket;
  \<^verbatim>\<open>compare_digest\<close> raises for text that is not ASCII.\<close>

definition csrf_guard :: "access_settings \<Rightarrow> bool \<Rightarrow> connection \<Rightarrow> csrf_error + unit" where
  "csrf_guard cfg http cn =
     (if \<not> http then Inr () else if cn_method cn \<in> set SAFE_METHODS then Inr ()
      else if has_bearer_only cfg cn then Inr ()
      else let c = cookie (as_csrf_cookie cfg) cn; h = header_value (as_csrf_header cfg) cn
        in if \<not> filled c \<or> \<not> filled h then Inl csrf_token_missing
           else if \<not> list_all (\<lambda>x. char_code x < 128) (the c @ the h) then Inl csrf_type_error
           else if c \<noteq> h then Inl csrf_token_mismatch else Inr ())"

section \<open>Origins\<close>

text \<open>\<^verbatim>\<open>urlsplit\<close>: the scheme and what follows it, the network location, host and port.\<close>

definition is_alpha :: "char \<Rightarrow> bool" where
  "is_alpha c \<longleftrightarrow> (let n = char_code c in 65 \<le> n \<and> n \<le> 90 \<or> 97 \<le> n \<and> n \<le> 122)"

definition is_digit :: "char \<Rightarrow> bool" where
  "is_digit c \<longleftrightarrow> (let n = char_code c in 48 \<le> n \<and> n \<le> 57)"

definition scheme_char :: "char \<Rightarrow> bool" where
  "scheme_char c \<longleftrightarrow> is_alpha c \<or> is_digit c \<or> c \<in> {CHR ''+'', CHR ''-'', CHR ''.''}"

definition clean_url :: "string \<Rightarrow> string" where
  "clean_url s = filter (\<lambda>c. char_code c \<notin> {9, 10, 13}) (dropWhile (\<lambda>c. char_code c \<le> 32) s)"

definition split_scheme :: "string \<Rightarrow> string \<times> string" where
  "split_scheme url = (case partition_at (CHR '':'') url of (s, found, rest) \<Rightarrow>
     if found \<and> s \<noteq> '''' \<and> is_alpha (hd s) \<and> list_all scheme_char s then (lower s, rest) else ('''', url))"

text \<open>The network location, \<open>None\<close> where \<^verbatim>\<open>urlsplit\<close> raises.\<close>

definition split_netloc :: "(string \<Rightarrow> bool) \<Rightarrow> string \<Rightarrow> string option" where
  "split_netloc netloc_ok rest = (if \<not> starts_with ''//'' rest then Some ''''
     else let n = takeWhile (\<lambda>c. c \<notin> {CHR ''/'', CHR ''?'', CHR ''#''}) (drop 2 rest)
       in if (CHR ''['' \<in> set n) \<noteq> (CHR '']'' \<in> set n) \<or> \<not> netloc_ok n then None else Some n)"

definition host_port :: "string \<Rightarrow> string \<times> string" where
  "host_port netloc = (let info = last (split_on (CHR ''@'') netloc)
     in case partition_at (CHR ''['') info of (_, open_br, bracketed) \<Rightarrow>
       if open_br then (case partition_at (CHR '']'') bracketed of (h, _, rest) \<Rightarrow>
           (h, snd (snd (partition_at (CHR '':'') rest))))
       else (case partition_at (CHR '':'') info of (h, _, p) \<Rightarrow> (h, p)))"

definition url_host :: "string \<Rightarrow> string" where
  "url_host h = (case partition_at (CHR ''%'') h of (a, found, zone) \<Rightarrow> lower a @ (if found then CHR ''%'' # zone else ''''))"

text \<open>The port: none, a number, or \<^verbatim>\<open>ValueError\<close>.\<close>

definition url_port :: "string \<Rightarrow> unit + int option" where
  "url_port p = (if p = '''' then Inr None
     else if \<not> list_all is_digit p then Inl ()
     else case py_int 10 p of None \<Rightarrow> Inl () | Some n \<Rightarrow> if n \<le> 65535 then Inr (Some n) else Inl ())"

definition default_port :: "string \<Rightarrow> int option" where
  "default_port scheme = map_of [(''http'', 80), (''https'', 443)] scheme"

text \<open>\<^verbatim>\<open>_normalize_origin\<close>; \<open>Inl\<close> is the \<^verbatim>\<open>ValueError\<close> of \<^verbatim>\<open>urlsplit\<close>, which it does not catch.\<close>

definition normalize_origin :: "(string \<Rightarrow> bool) \<Rightarrow> string \<Rightarrow> unit + string option" where
  "normalize_origin netloc_ok value =
     (case split_scheme (clean_url (strip_chars is_white value)) of (scheme, rest) \<Rightarrow>
       case split_netloc netloc_ok rest of None \<Rightarrow> Inl ()
     | Some netloc \<Rightarrow> (case host_port netloc of (h, p) \<Rightarrow>
         if default_port scheme = None \<or> h = '''' then Inr None
         else case url_port p of Inl _ \<Rightarrow> Inr None
         | Inr port \<Rightarrow> let base = scheme @ ''://'' @ lower (url_host h)
             in Inr (Some (if port = None \<or> port = default_port scheme then base
                           else base @ '':'' @ str_int (the port)))))"

text \<open>\<^verbatim>\<open>_allowed_origins\<close> of the setting.\<close>

fun origins_of :: "(string \<Rightarrow> bool) \<Rightarrow> string list \<Rightarrow> unit + string list" where
  "origins_of netloc_ok [] = Inr []"
| "origins_of netloc_ok (item # items) =
     (if strip_chars is_white item = '''' then origins_of netloc_ok items
      else rbind (normalize_origin netloc_ok item) (\<lambda>n. rbind (origins_of netloc_ok items) (\<lambda>ns.
        Inr (case n of None \<Rightarrow> ns | Some x \<Rightarrow> x # ns))))"

definition allowed_origins :: "(string \<Rightarrow> bool) \<Rightarrow> access_settings \<Rightarrow> unit + string list" where
  "allowed_origins netloc_ok cfg = origins_of netloc_ok (split_on (CHR '','') (as_ws_allowed_origins cfg))"

section \<open>Upgrades\<close>

text \<open>A refusal with its close code; \<open>WsCrash\<close> is an exception the handler does not catch.\<close>

datatype ws_refusal = WsPolicy string | WsInternal string | WsCrash

definition check_origin :: "(string \<Rightarrow> bool) \<Rightarrow> access_settings \<Rightarrow> connection \<Rightarrow> ws_refusal + unit" where
  "check_origin netloc_ok cfg cn = (case header_value ''origin'' cn of
     None \<Rightarrow> Inl (WsPolicy ''origin not allowed'')
   | Some o' \<Rightarrow> (case normalize_origin netloc_ok o' of Inl _ \<Rightarrow> Inl WsCrash
       | Inr None \<Rightarrow> Inl (WsPolicy ''origin not allowed'')
       | Inr (Some c) \<Rightarrow> (case allowed_origins netloc_ok cfg of Inl _ \<Rightarrow> Inl WsCrash
           | Inr allowed \<Rightarrow> if c \<in> set allowed then Inr () else Inl (WsPolicy ''origin not allowed''))))"

text \<open>\<open>up\<close> says whether Redis answers the rate limiter.\<close>

definition authenticate_ws ::
  "(string \<Rightarrow> bool) \<Rightarrow> access_settings \<Rightarrow> rate_config \<Rightarrow> token_verifier \<Rightarrow> bool \<Rightarrow> int \<Rightarrow> connection \<Rightarrow> limiter_store
     \<Rightarrow> (ws_refusal + current_user) \<times> limiter_store" where
  "authenticate_ws netloc_ok cfg rc verify up now cn ls = (case check_origin netloc_ok cfg cn of
     Inl e \<Rightarrow> (Inl e, ls)
   | Inr _ \<Rightarrow> (case extract_token cfg cn of None \<Rightarrow> (Inl (WsPolicy ''not authenticated''), ls)
     | Some token \<Rightarrow> (case verify_connection verify token of
         Inl (ClientError AuthUnavailable) \<Rightarrow> (Inl (WsInternal ''auth unavailable''), ls)
       | Inl (ClientError RpcUnhandled) \<Rightarrow> (Inl WsCrash, ls)
       | Inl _ \<Rightarrow> (Inl (WsPolicy ''not authenticated''), ls)
       | Inr user \<Rightarrow> (case check_ws_upgrade rc up now (cu_user_id user) ls of (allowed, ls') \<Rightarrow>
           (if allowed then Inr user else Inl (WsPolicy ''too many connections''), ls')))))"

definition require_ws_permission ::
  "(string \<Rightarrow> bool) \<Rightarrow> access_settings \<Rightarrow> rate_config \<Rightarrow> alert_env \<Rightarrow> token_verifier \<Rightarrow> bool \<Rightarrow> int \<Rightarrow> permission
     \<Rightarrow> connection \<Rightarrow> limiter_store \<Rightarrow> alert_state \<Rightarrow> (ws_refusal + current_user) \<times> limiter_store \<times> alert_state" where
  "require_ws_permission netloc_ok cfg rc env verify up now p cn ls st =
     (case authenticate_ws netloc_ok cfg rc verify up now cn ls of
       (Inl e, ls') \<Rightarrow> (Inl e, ls', st)
     | (Inr user, ls') \<Rightarrow> if p \<notin> resolve_permissions (cu_roles user)
         then (Inl (WsPolicy ''insufficient permission''), ls',
               emit_event env (AuthorizationDenied (cu_user_id user) (cu_roles user)) st)
         else (Inr user, ls', st))"

section \<open>Supervision of an open socket\<close>

text \<open>The delay before a check, of which \<^verbatim>\<open>randbelow(11)\<close> is \<open>r\<close>.  A round is that number, the
  seconds the sleep overran and the call took, and the answer.\<close>

definition next_delay :: "nat \<Rightarrow> nat \<Rightarrow> rat" where
  "next_delay interval r = of_nat interval * of_nat (90 + r) / 100"

datatype recheck = SessionIs bool "string list" | RecheckFailed

datatype ws_close = SessionRevoked | PermissionWithdrawn | SessionUnverified

type_synonym reauth_round = "nat \<times> rat \<times> recheck"

definition recheck_step :: "rat \<Rightarrow> permission \<Rightarrow> rat \<Rightarrow> rat \<Rightarrow> recheck \<Rightarrow> ws_close + rat" where
  "recheck_step grace p last_verified now answer = (case answer of
     SessionIs active roles \<Rightarrow> if \<not> active then Inl SessionRevoked
       else if p \<notin> resolve_permissions roles then Inl PermissionWithdrawn else Inr now
   | RecheckFailed \<Rightarrow> if now - last_verified \<ge> grace then Inl SessionUnverified else Inr last_verified)"

text \<open>The loop over the given rounds: the time and reason of the close, or \<open>None\<close> while it runs.\<close>

fun reverify_loop :: "access_settings \<Rightarrow> permission \<Rightarrow> rat \<Rightarrow> rat \<Rightarrow> reauth_round list \<Rightarrow> (rat \<times> ws_close) option" where
  "reverify_loop cfg p now last_verified [] = None"
| "reverify_loop cfg p now last_verified ((r, lag, answer) # rounds) =
     (let t = now + next_delay (as_ws_reauth_seconds cfg) r + lag
      in case recheck_step (of_nat (as_ws_reauth_grace cfg)) p last_verified t answer of
           Inl why \<Rightarrow> Some (t, why)
         | Inr v \<Rightarrow> reverify_loop cfg p t v rounds)"

section \<open>When a socket is closed\<close>

text \<open>The time at which the answer of round \<open>k\<close> arrives.\<close>

fun check_time :: "access_settings \<Rightarrow> rat \<Rightarrow> (nat \<Rightarrow> reauth_round) \<Rightarrow> nat \<Rightarrow> rat" where
  "check_time cfg start rounds 0 = start + next_delay (as_ws_reauth_seconds cfg) (fst (rounds 0)) + fst (snd (rounds 0))"
| "check_time cfg start rounds (Suc k) = check_time cfg start rounds k
     + next_delay (as_ws_reauth_seconds cfg) (fst (rounds (Suc k))) + fst (snd (rounds (Suc k)))"

definition admits :: "permission \<Rightarrow> recheck \<Rightarrow> bool" where
  "admits p answer = (case answer of SessionIs active roles \<Rightarrow> active \<and> p \<in> resolve_permissions roles | RecheckFailed \<Rightarrow> False)"

definition round_answer :: "reauth_round \<Rightarrow> recheck" where
  "round_answer r = snd (snd r)"

definition timely :: "rat \<Rightarrow> reauth_round \<Rightarrow> bool" where
  "timely lag r \<longleftrightarrow> fst r \<le> 10 \<and> 0 \<le> fst (snd r) \<and> fst (snd r) \<le> lag"

lemma next_delay_bounds:
  "r \<le> 10 \<Longrightarrow> of_nat i * 9 / 10 \<le> next_delay i r" "r \<le> 10 \<Longrightarrow> next_delay i r \<le> of_nat i"
proof -
  assume r: "r \<le> 10"
  have "(of_nat i :: rat) * 90 \<le> of_nat i * (90 + of_nat r)" by (intro mult_left_mono) auto
  then show "of_nat i * 9 / 10 \<le> next_delay i r" by (simp add: next_delay_def)
  have "(of_nat r :: rat) \<le> of_nat 10" using r by (simp only: of_nat_le_iff)
  then have "(of_nat i :: rat) * (90 + of_nat r) \<le> of_nat i * 100" by (intro mult_left_mono) auto
  then show "next_delay i r \<le> of_nat i" by (simp add: next_delay_def)
qed

lemma round_gap:
  assumes "timely lag r"
  shows "of_nat i * 9 / 10 \<le> next_delay i (fst r) + fst (snd r)" "next_delay i (fst r) + fst (snd r) \<le> of_nat i + lag"
  using assms next_delay_bounds[of "fst r" i] by (auto simp: timely_def)

lemma check_time_late:
  assumes "\<forall>k. timely lag (rounds k)"
  shows "start + of_nat (Suc k) * (of_nat (as_ws_reauth_seconds cfg) * 9 / 10) \<le> check_time cfg start rounds k"
proof (induction k)
  case 0
  show ?case using round_gap(1)[OF assms[rule_format, of 0], of "as_ws_reauth_seconds cfg"] by simp
next
  case (Suc k)
  let ?step = "(of_nat (as_ws_reauth_seconds cfg) :: rat) * 9 / 10"
  have "?step \<le> next_delay (as_ws_reauth_seconds cfg) (fst (rounds (Suc k))) + fst (snd (rounds (Suc k)))"
    using assms round_gap(1) by blast
  moreover have "of_nat (Suc (Suc k)) * ?step = of_nat (Suc k) * ?step + ?step"
    by (simp add: field_simps)
  ultimately show ?case using Suc unfolding check_time.simps by linarith
qed

lemma check_time_mono:
  assumes "\<forall>k. timely lag (rounds k)" "j \<le> k"
  shows "check_time cfg start rounds j \<le> check_time cfg start rounds k"
  using assms(2)
proof (induction k)
  case (Suc k)
  have "0 \<le> next_delay (as_ws_reauth_seconds cfg) (fst (rounds (Suc k))) + fst (snd (rounds (Suc k)))"
    by (rule order_trans[OF _ round_gap(1)[OF assms(1)[rule_format]]]) simp
  then show ?case using Suc by (cases "j = Suc k") auto
qed simp

lemma check_time_exceeds:
  assumes "\<forall>k. timely lag (rounds k)" "0 < as_ws_reauth_seconds cfg"
  shows "\<exists>n. d \<le> check_time cfg start rounds n"
proof -
  let ?step = "(of_nat (as_ws_reauth_seconds cfg) :: rat) * 9 / 10"
  have "0 < ?step" using assms(2) by simp
  then obtain n where n: "d - start < of_nat n * ?step" using reals_Archimedean3 ex_less_of_nat_mult by blast
  have "of_nat n * ?step \<le> of_nat (Suc n) * ?step" using \<open>0 < ?step\<close> by (intro mult_right_mono) auto
  then have "d \<le> start + of_nat (Suc n) * ?step" using n by linarith
  then show ?thesis using check_time_late[OF assms(1), of start n cfg] by (meson order_trans)
qed

text \<open>The first answer at a time \<open>d\<close> or later comes within one interval of it.\<close>

lemma first_check_after:
  assumes "\<forall>k. timely lag (rounds k)" "0 < as_ws_reauth_seconds cfg" "start \<le> d"
  obtains n where "d \<le> check_time cfg start rounds n"
    "check_time cfg start rounds n \<le> d + of_nat (as_ws_reauth_seconds cfg) + lag"
proof -
  define n where "n = (LEAST n. d \<le> check_time cfg start rounds n)"
  have reach: "d \<le> check_time cfg start rounds n"
    unfolding n_def using check_time_exceeds[OF assms(1,2)] by (rule LeastI_ex)
  have gap: "next_delay (as_ws_reauth_seconds cfg) (fst (rounds n)) + fst (snd (rounds n)) \<le> of_nat (as_ws_reauth_seconds cfg) + lag"
    using assms(1) round_gap(2) by blast
  have "check_time cfg start rounds n \<le> d + of_nat (as_ws_reauth_seconds cfg) + lag"
  proof (cases n)
    case 0
    then show ?thesis using gap assms(3) by simp
  next
    case (Suc m)
    then have "\<not> d \<le> check_time cfg start rounds m"
      using not_less_Least[of m "\<lambda>n. d \<le> check_time cfg start rounds n"] n_def by simp
    then show ?thesis using gap Suc by simp
  qed
  with reach show ?thesis by (rule that)
qed

definition wake_time :: "access_settings \<Rightarrow> rat \<Rightarrow> (nat \<Rightarrow> reauth_round) \<Rightarrow> nat \<Rightarrow> rat" where
  "wake_time cfg start rounds m = (case m of 0 \<Rightarrow> start | Suc k \<Rightarrow> check_time cfg start rounds k)"

lemma check_time_wake:
  "check_time cfg start rounds m = wake_time cfg start rounds m + next_delay (as_ws_reauth_seconds cfg) (fst (rounds m)) + fst (snd (rounds m))"
  by (cases m) (simp_all add: wake_time_def)

lemma reverify_round:
  assumes "m < n"
  shows "reverify_loop cfg p (wake_time cfg start rounds m) v (map rounds [m..<n]) =
    (case recheck_step (of_nat (as_ws_reauth_grace cfg)) p v (check_time cfg start rounds m) (round_answer (rounds m)) of
       Inl why \<Rightarrow> Some (check_time cfg start rounds m, why)
     | Inr v' \<Rightarrow> reverify_loop cfg p (wake_time cfg start rounds (Suc m)) v' (map rounds [Suc m..<n]))"
proof -
  obtain r lag a where e: "rounds m = (r, lag, a)" by (cases "rounds m") auto
  have l: "map rounds [m..<n] = (r, lag, a) # map rounds [Suc m..<n]" using assms by (simp add: upt_conv_Cons e)
  have t: "check_time cfg start rounds m = wake_time cfg start rounds m + next_delay (as_ws_reauth_seconds cfg) r + lag"
    by (simp only: check_time_wake e fst_conv snd_conv)
  have w: "wake_time cfg start rounds (Suc m) = check_time cfg start rounds m" by (simp add: wake_time_def)
  show ?thesis unfolding l reverify_loop.simps Let_def w t by (simp add: round_answer_def e)
qed

lemma reverify_closes_at:
  "reverify_loop cfg p (wake_time cfg start rounds m) v (map rounds [m..<n]) = Some (t, why)
     \<Longrightarrow> \<exists>k<n. t = check_time cfg start rounds k \<and> \<not> admits p (round_answer (rounds k))"
proof (induction "n - m" arbitrary: m v)
  case (Suc d)
  then have "m < n" by simp
  note r = reverify_round[OF this, of cfg p start rounds v]
  show ?case
  proof (cases "recheck_step (of_nat (as_ws_reauth_grace cfg)) p v (check_time cfg start rounds m) (round_answer (rounds m))")
    case (Inl w)
    then have "\<not> admits p (round_answer (rounds m))"
      by (auto simp: recheck_step_def admits_def split: recheck.splits if_splits)
    then show ?thesis using Inl Suc.prems r \<open>m < n\<close> by auto
  next
    case (Inr v')
    then show ?thesis using Suc.prems r Suc.hyps(1)[of "Suc m" v'] Suc.hyps(2) by simp
  qed
qed simp

lemma reverify_must_close:
  assumes "m \<le> n" "v \<le> ended" "0 \<le> outage" "ended + outage \<le> check_time cfg start rounds n"
    "\<forall>k. ended \<le> check_time cfg start rounds k \<longrightarrow> \<not> admits p (round_answer (rounds k))"
    "outage = of_nat (as_ws_reauth_grace cfg) \<or>
      (\<forall>k. ended \<le> check_time cfg start rounds k \<longrightarrow> round_answer (rounds k) \<noteq> RecheckFailed)"
  shows "reverify_loop cfg p (wake_time cfg start rounds m) v (map rounds [m..<Suc n]) \<noteq> None"
  using assms(1,2)
proof (induction "n - m" arbitrary: m v)
  case 0
  then have "m = n" by simp
  have late: "ended \<le> check_time cfg start rounds n" using assms(3,4) by linarith
  have bad: "\<not> admits p (round_answer (rounds n))" using assms(5) late by blast
  have "\<exists>why. recheck_step (of_nat (as_ws_reauth_grace cfg)) p v (check_time cfg start rounds n) (round_answer (rounds n)) = Inl why"
  proof (cases "round_answer (rounds n)")
    case (SessionIs a roles)
    then show ?thesis using bad by (auto simp: recheck_step_def admits_def)
  next
    case RecheckFailed
    then have "outage = of_nat (as_ws_reauth_grace cfg)" using assms(6) late by blast
    then have "of_nat (as_ws_reauth_grace cfg) \<le> check_time cfg start rounds n - v" using assms(4) 0(3) by linarith
    then show ?thesis by (simp add: recheck_step_def RecheckFailed)
  qed
  then show ?case using reverify_round[of n "Suc n" cfg p start rounds v] \<open>m = n\<close> by auto
next
  case (Suc d)
  then have m: "m < Suc n" "Suc m \<le> n" by simp_all
  note r = reverify_round[OF m(1), of cfg p start rounds v]
  show ?case
  proof (cases "recheck_step (of_nat (as_ws_reauth_grace cfg)) p v (check_time cfg start rounds m) (round_answer (rounds m))")
    case (Inl w)
    then show ?thesis using r by simp
  next
    case (Inr v')
    have "v' \<le> ended"
    proof (cases "round_answer (rounds m)")
      case (SessionIs a roles)
      then have "admits p (round_answer (rounds m))" "v' = check_time cfg start rounds m"
        using Inr by (auto simp: recheck_step_def admits_def split: if_splits)
      then show ?thesis using assms(5) by (meson linear)
    next
      case RecheckFailed
      then show ?thesis using Inr Suc.prems(2) by (auto simp: recheck_step_def split: if_splits)
    qed
    then show ?thesis using r Inr Suc.hyps(1)[of "Suc m" v'] Suc.hyps(2) m(2) by simp
  qed
qed

text \<open>C19: A web socket does not outlive the session it was opened for by much.  From the moment the
  auth service's answers stop saying that the session is active and has the permission, the
  socket is closed within one interval of checks and the lag of one check; if the auth service
  cannot be reached, within the grace period more.  A socket is only closed by a check that did
  not find the session active with the permission.\<close>

theorem ended_session_loses_socket:
  assumes "\<forall>k. timely lag (rounds k)" "0 < as_ws_reauth_seconds cfg" "start \<le> ended" "0 \<le> outage"
    "\<forall>k. ended \<le> check_time cfg start rounds k \<longrightarrow> \<not> admits p (round_answer (rounds k))"
    "outage = of_nat (as_ws_reauth_grace cfg) \<or>
      (\<forall>k. ended \<le> check_time cfg start rounds k \<longrightarrow> round_answer (rounds k) \<noteq> RecheckFailed)"
  shows "\<exists>n k t why. reverify_loop cfg p start start (map rounds [0..<n]) = Some (t, why) \<and>
    t = check_time cfg start rounds k \<and> \<not> admits p (round_answer (rounds k)) \<and>
    t \<le> ended + outage + of_nat (as_ws_reauth_seconds cfg) + lag"
proof -
  have "start \<le> ended + outage" using assms(3,4) by linarith
  from first_check_after[OF assms(1,2) this] obtain n where
    n: "ended + outage \<le> check_time cfg start rounds n"
      "check_time cfg start rounds n \<le> ended + outage + of_nat (as_ws_reauth_seconds cfg) + lag" by blast
  have start: "wake_time cfg start rounds 0 = start" by (simp add: wake_time_def)
  from reverify_must_close[OF _ assms(3,4) n(1) assms(5,6), of 0]
  obtain t why where c: "reverify_loop cfg p start start (map rounds [0..<Suc n]) = Some (t, why)"
    by (auto simp: start)
  from reverify_closes_at[of cfg p start rounds 0] obtain k where
    k: "k < Suc n" "t = check_time cfg start rounds k" "\<not> admits p (round_answer (rounds k))"
    using c unfolding start by blast
  have "t \<le> check_time cfg start rounds n" using check_time_mono[OF assms(1), of k n] k by simp
  with c k n(2) show ?thesis by (meson order_trans)
qed

definition outage_rounds :: "nat \<Rightarrow> reauth_round" where
  "outage_rounds k = (if k = 0 then (10, 0, SessionIs True [''viewer'']) else (0, 1, RecheckFailed))"

definition demo_access :: access_settings where
  "demo_access = \<lparr>as_access_cookie = ''__Host-access_token'', as_csrf_cookie = ''__Host-csrf'',
     as_csrf_header = ''x-csrf-token'', as_ws_allowed_origins = ''https://localhost'', as_ws_reauth_seconds = 60,
     as_ws_reauth_grace = 180\<rparr>"

lemma ended_session_loses_socket_witness:
  "\<exists>n k t why. reverify_loop demo_access CAMERA_READ 0 0 (map outage_rounds [0..<n]) = Some (t, why) \<and>
    t = check_time demo_access 0 outage_rounds k \<and> \<not> admits CAMERA_READ (round_answer (outage_rounds k)) \<and>
    t \<le> 61 + 180 + of_nat (as_ws_reauth_seconds demo_access) + 1"
proof (rule ended_session_loses_socket)
  show "\<forall>k. timely 1 (outage_rounds k)" by (simp add: timely_def outage_rounds_def)
  show "\<forall>k. 61 \<le> check_time demo_access 0 outage_rounds k \<longrightarrow> \<not> admits CAMERA_READ (round_answer (outage_rounds k))"
  proof (intro allI impI)
    fix k
    assume a: "61 \<le> check_time demo_access 0 outage_rounds k"
    have "k \<noteq> 0"
    proof
      assume "k = 0"
      then show False using a by (simp add: outage_rounds_def next_delay_def demo_access_def)
    qed
    then show "\<not> admits CAMERA_READ (round_answer (outage_rounds k))"
      by (simp add: outage_rounds_def round_answer_def admits_def)
  qed
qed (simp_all add: demo_access_def)

section \<open>The auth service behind the verifier\<close>

text \<open>What the alert service's client receives when the auth service of the model answers.\<close>

definition abort_code :: "rpc_abort \<Rightarrow> grpc_code" where
  "abort_code a = (case a of Unavailable _ \<Rightarrow> GRPC_UNAVAILABLE | _ \<Rightarrow> GRPC_OTHER)"

definition user_of_claims :: "token_claims option \<Rightarrow> current_user" where
  "user_of_claims c = (case c of
     None \<Rightarrow> \<lparr>cu_user_id = '''', cu_username = '''', cu_roles = [], cu_session_id = ''''\<rparr>
   | Some c \<Rightarrow> \<lparr>cu_user_id = tc_sub c, cu_username = tc_username c, cu_roles = tc_roles c, cu_session_id = tc_sid c\<rparr>)"

definition auth_verifier ::
  "(string \<Rightarrow> token_failure + token_claims) \<Rightarrow> datetime \<Rightarrow> bool \<Rightarrow> auth_cache \<Rightarrow> token_verifier" where
  "auth_verifier decode now redis_up ca token = (case VerifyToken decode now redis_up token ca of
     Inl a \<Rightarrow> CallFailed (abort_code a)
   | Inr (s, c) \<Rightarrow> Answered (VERIFICATION_IS s, user_of_claims c))"

text \<open>\<^verbatim>\<open>AuthClient.session_active\<close> and what the loop makes of its failures.\<close>

definition session_active :: "bool \<Rightarrow> string \<Rightarrow> auth_db \<Rightarrow> client_error + bool \<times> string list" where
  "session_active db_up session_id db = auth_result (case IntrospectSession db_up session_id db of
     Inl a \<Rightarrow> CallFailed (abort_code a)
   | Inr None \<Rightarrow> Answered (False, [])
   | Inr (Some i) \<Rightarrow> Answered (in_active i, in_roles i))"

definition recheck_of :: "client_error + bool \<times> string list \<Rightarrow> recheck" where
  "recheck_of r = (case r of Inl _ \<Rightarrow> RecheckFailed | Inr (active, roles) \<Rightarrow> SessionIs active roles)"

lemma first_row_update_where:
  assumes "\<And>x. Q (if P x then g x else x) = Q x"
  shows "first_row (filter Q (update_where P g xs)) = map_option (\<lambda>x. if P x then g x else x) (first_row (filter Q xs))"
  using assms by (induction xs) (auto simp: update_where_def)

lemma session_after_drop:
  assumes "session_by_id i db = Some se"
  shows "\<exists>se'. session_by_id i (snd (drop_sessions (se_user_id se) a db)) = Some se' \<and> se_revoked se'"
proof (cases "live_ids_for_user (se_user_id se) db = []")
  case True
  have "se \<in> set (au_sessions db)" using assms first_row_in[of _ se] by (force simp: session_by_id_def)
  then have "se_revoked se" using True by (auto simp: live_ids_for_user_def filter_empty_conv)
  then show ?thesis using assms True by (simp add: drop_sessions_def)
next
  case False
  then have "au_sessions (snd (drop_sessions (se_user_id se) a db)) =
      update_where (\<lambda>s. se_user_id s = se_user_id se \<and> \<not> se_revoked s) (\<lambda>s. s\<lparr>se_revoked := True\<rparr>) (au_sessions db)"
    by (simp add: drop_sessions_def Let_def revoke_all_for_user_def)
  then show ?thesis using assms by (auto simp: session_by_id_def first_row_update_where)
qed

lemma enqueue_sessions [simp]: "session_by_id i (enqueue ev db) = session_by_id i db"
  by (simp add: session_by_id_def enqueue_def)

text \<open>C15: An administrator who disables a user ends the user's access in every service at once.
  The auth service holds no live session of the user and refuses the tokens of the sessions that
  were live; the alert service refuses requests and web sockets that carry such a token, and the
  next check of a socket that is open closes it.\<close>

theorem disabled_user_loses_access:
  assumes "load_user i db = Inr u" "us_is_active u" "set_active st now i False a (db, ca) = (Inr sm, db', ca')"
    "session_by_id (se_id se) db = Some se" "se_user_id se = us_id u" "\<not> se_revoked se"
    "tc_sid c = str_uuid (se_id se)" "uuid_value (tc_sid c) = Some (se_id se)" "tc_jti c \<noteq> ''''"
    "decode token = Inr c" "now' < now + seconds (as_access_token_ttl st)" "extract_token cfg cn = Some token"
  shows "(\<forall>x \<in> set (au_sessions db'). se_user_id x = us_id u \<longrightarrow> se_revoked x) \<and>
    current_actor now' True (Some c) (db', ca') = Inl unauthenticated \<and>
    require_permission cfg env (auth_verifier decode now' True ca') p cn st' = (Inl (Unauthenticated session_invalid), st') \<and>
    isl (fst (authenticate_ws netloc_ok cfg rc (auth_verifier decode now' True ca') up ms cn ls)) \<and>
    recheck_step grace p verified t (recheck_of (session_active True (tc_sid c) db')) = Inl SessionRevoked"
proof -
  have "se \<in> set (au_sessions db)" using assms(4) first_row_in[of _ se] by (force simp: session_by_id_def)
  moreover have "tc_sid c \<noteq> ''''" by (simp add: assms(7) str_uuid_nonempty)
  ultimately have gone: "(\<forall>x \<in> set (au_sessions db'). se_user_id x = us_id u \<longrightarrow> se_revoked x)"
      "current_actor now' True (Some c) (db', ca') = Inl unauthenticated"
      "VerifyToken decode now' True token ca' = Inr (STATUS_REVOKED, None)"
    using disabling_ends_access[where decode = decode and token = token and se = se, OF assms(1-3) _ assms(5-7,9) _ assms(11,10)]
    by simp_all
  have refused: "verify_connection (auth_verifier decode now' True ca') token = Inl (Unauthenticated session_invalid)"
    by (simp add: verify_connection_def auth_verifier_def gone(3) auth_result_def rejection_code_def)
  define db1 where "db1 = update_user (us_id u) (\<lambda>u. u\<lparr>us_is_active := False\<rparr>) db"
  note e = set_active_effect[OF assms(1-3), folded db1_def]
  have "session_by_id (se_id se) db1 = Some se" using assms(4) e(3) by (simp add: session_by_id_def)
  from session_after_drop[OF this, of a] obtain se' where
    "session_by_id (se_id se) db' = Some se'" "se_revoked se'" by (auto simp: e(1) assms(5))
  then have closed: "\<exists>roles. recheck_of (session_active True (tc_sid c) db') = SessionIs False roles"
    by (simp add: session_active_def IntrospectSession_def assms(8) auth_result_def recheck_of_def)
  from refused have "require_permission cfg env (auth_verifier decode now' True ca') p cn st' = (Inl (Unauthenticated session_invalid), st')"
    by (simp add: require_permission_def get_current_user_def assms(12))
  moreover have "isl (fst (authenticate_ws netloc_ok cfg rc (auth_verifier decode now' True ca') up ms cn ls))"
    by (auto simp: authenticate_ws_def assms(12) refused split: sum.split)
  moreover have "recheck_step grace p verified t (recheck_of (session_active True (tc_sid c) db')) = Inl SessionRevoked"
    using closed by (auto simp: recheck_step_def)
  ultimately show ?thesis using gone(1,2) by blast
qed

definition demo_request :: connection where
  "demo_request = \<lparr>cn_cookies = [(''__Host-access_token'', ''t'')], cn_headers = [(''origin'', ''https://localhost'')],
     cn_method = ''GET'', cn_path = ''/''\<rparr>"

lemma demo_sid: "uuid_value (str_uuid 1) = Some 1"
  by code_simp

lemma disabled_user_loses_access_witness:
  "\<exists>sm db' ca'. set_active demo_settings 0 ''00000000000000000000000000000007'' False demo_actor (demo_plain, start_cache) =
      (Inr sm, db', ca') \<and>
    require_permission demo_access \<lparr>ae_outbox_limit = 10, ae_outbox_up = True\<rparr> (auth_verifier (\<lambda>_. Inr demo_claims) 5 True ca')
      ALERT_READ demo_request empty_alerts = (Inl (Unauthenticated session_invalid), empty_alerts)"
proof -
  have "\<exists>sm db' ca'. set_active demo_settings 0 ''00000000000000000000000000000007'' False demo_actor (demo_plain, start_cache) =
      (Inr sm, db', ca')"
    by (simp add: set_active_def demo_load demo_actor_def guard_last_admin_def Let_def case_prod_beta) (simp add: demo_user_def)
  then obtain sm db' ca' where e: "set_active demo_settings 0 ''00000000000000000000000000000007'' False demo_actor
      (demo_plain, start_cache) = (Inr sm, db', ca')" by blast
  have tok: "extract_token demo_access demo_request = Some ''t''"
    by (simp add: extract_token_def filled_def cookie_def demo_access_def demo_request_def)
  have se: "session_by_id 1 demo_plain = Some (hd (au_sessions demo_plain))" "se_id (hd (au_sessions demo_plain)) = 1"
    "se_user_id (hd (au_sessions demo_plain)) = 7" "\<not> se_revoked (hd (au_sessions demo_plain))"
    by (simp_all add: session_by_id_def demo_plain_def demo_login_eq first_row_def)
  from disabled_user_loses_access[where decode = "\<lambda>_. Inr demo_claims" and token = "''t''" and c = demo_claims and now' = 5
      and se = "hd (au_sessions demo_plain)", OF demo_load _ e se(1)[folded se(2)] _ se(4) _ _ _ _ _ tok]
  have "require_permission demo_access \<lparr>ae_outbox_limit = 10, ae_outbox_up = True\<rparr> (auth_verifier (\<lambda>_. Inr demo_claims) 5 True ca')
      ALERT_READ demo_request empty_alerts = (Inl (Unauthenticated session_invalid), empty_alerts)"
    by (simp add: se demo_user_def demo_claims_def demo_settings_def seconds_def demo_sid[simplified])
  then show ?thesis using e by blast
qed

end
