(* ===== verification/ApiStreams.thy ===== *)
theory ApiStreams
  imports ApiAccess
begin

text \<open>
  The open web sockets of the alert service: the broadcaster and its topics
  (\<^verbatim>\<open>services/api/app/services/broadcast_service.py\<close>), the registry of sessions whose end is
  announced on a channel (\<^verbatim>\<open>revocation_service.py\<close>), the limit on viewers
  (\<^verbatim>\<open>frame_stream.py\<close>) and the handlers that tie them together (\<^verbatim>\<open>api/v1/streams.py\<close>).  A step is
  what runs between two suspensions of the event loop, so the steps of all sockets interleave.
  A socket and the event on which its handler waits have one number.
\<close>

section \<open>Registries\<close>

text \<open>Both services keep a set of values for a key.  The contract: what adding and removing one
  value does to the members of every key.  A client that adds and removes along with its own
  list of entries has the registry agree with the list.\<close>

definition registered_only :: "('m \<Rightarrow> 'k \<Rightarrow> 'v list) \<Rightarrow> 'm \<Rightarrow> ('k \<times> 'v) set \<Rightarrow> bool" where
  "registered_only members m L \<longleftrightarrow> (\<forall>k v. v \<in> set (members m k) \<longrightarrow> (k, v) \<in> L)"

definition registered_all :: "('m \<Rightarrow> 'k \<Rightarrow> 'v list) \<Rightarrow> 'm \<Rightarrow> ('k \<times> 'v) set \<Rightarrow> bool" where
  "registered_all members m L \<longleftrightarrow> (\<forall>(k, v) \<in> L. v \<in> set (members m k))"

locale registry =
  fixes members :: "'m \<Rightarrow> 'k \<Rightarrow> 'v list" and enter :: "'k \<Rightarrow> 'v \<Rightarrow> 'm \<Rightarrow> 'm" and leave :: "'k \<Rightarrow> 'v \<Rightarrow> 'm \<Rightarrow> 'm"
    and key :: "'m \<Rightarrow> 'k \<Rightarrow> bool"
  assumes members_enter: "key m k \<Longrightarrow> set (members (enter k v m) k') = (if k' = k then insert v (set (members m k)) else set (members m k'))"
    and members_leave: "set (members (leave k v m) k') = (if k' = k then set (members m k) - {v} else set (members m k'))"
begin

lemma enter_only: "key m k \<Longrightarrow> registered_only members m L \<Longrightarrow> registered_only members (enter k v m) (insert (k, v) L)"
  by (auto simp: registered_only_def members_enter split: if_splits)

lemma leave_only: "registered_only members m L \<Longrightarrow> registered_only members (leave k v m) (L - {(k, v)})"
  by (auto simp: registered_only_def members_leave split: if_splits)

lemma leave_fewer: "registered_only members m L \<Longrightarrow> registered_only members (leave k v m) L"
  by (auto simp: registered_only_def members_leave split: if_splits)

lemma enter_all: "key m k \<Longrightarrow> registered_all members m L \<Longrightarrow> registered_all members (enter k v m) (insert (k, v) L)"
  by (auto simp: registered_all_def members_enter)

lemma leave_all: "registered_all members m L \<Longrightarrow> registered_all members (leave k v m) (L - {(k, v)})"
  by (force simp: registered_all_def members_leave split_beta)

end

section \<open>The broadcaster\<close>

type_synonym socket = nat
type_synonym connections = "string \<Rightarrow> socket list option"

definition TOPICS :: "string list" where
  "TOPICS = [''alerts'', ''cameras'']"

definition no_connections :: connections where
  "no_connections topic = (if topic \<in> set TOPICS then Some [] else None)"

definition topic_members :: "connections \<Rightarrow> string \<Rightarrow> socket list" where
  "topic_members m topic = (case m topic of None \<Rightarrow> [] | Some ws \<Rightarrow> ws)"

definition total_connections :: "connections \<Rightarrow> nat" where
  "total_connections m = sum_list (map (\<lambda>t. length (topic_members m t)) TOPICS)"

definition add_socket :: "string \<Rightarrow> socket \<Rightarrow> connections \<Rightarrow> connections" where
  "add_socket topic ws m = m(topic := Some (List.insert ws (topic_members m topic)))"

definition unregister_socket :: "string \<Rightarrow> socket \<Rightarrow> connections \<Rightarrow> connections" where
  "unregister_socket topic ws m = (case m topic of None \<Rightarrow> m
     | Some xs \<Rightarrow> m(topic := Some (filter (\<lambda>x. x \<noteq> ws) xs)))"

text \<open>\<open>Inl\<close> is the close code and reason of a refusal.\<close>

definition register_socket :: "nat \<Rightarrow> string \<Rightarrow> socket \<Rightarrow> connections \<Rightarrow> (nat \<times> string) + connections" where
  "register_socket max_connections topic ws m =
     (if m topic = None then Inl (1003, ''unknown topic'')
      else if total_connections m \<ge> max_connections then Inl (1008, ''connection limit reached'')
      else Inr (add_socket topic ws m))"

interpretation topics: registry topic_members add_socket unregister_socket "\<lambda>m k. m k \<noteq> None"
proof
  fix m :: connections and k k' v
  assume "m k \<noteq> None"
  then obtain ws where "m k = Some ws" by blast
  then show "set (topic_members (add_socket k v m) k') =
      (if k' = k then insert v (set (topic_members m k)) else set (topic_members m k'))"
    by (auto simp: topic_members_def add_socket_def)
next
  fix m :: connections and k k' v
  show "set (topic_members (unregister_socket k v m) k') =
      (if k' = k then set (topic_members m k) - {v} else set (topic_members m k'))"
    by (cases "m k") (auto simp: topic_members_def unregister_socket_def)
qed

section \<open>Announced ends of sessions\<close>

type_synonym holders = "string \<Rightarrow> socket list option"

definition flags_of :: "holders \<Rightarrow> string \<Rightarrow> socket list" where
  "flags_of m session = (case m session of None \<Rightarrow> [] | Some fs \<Rightarrow> fs)"

definition register_flag :: "string \<Rightarrow> socket \<Rightarrow> holders \<Rightarrow> holders" where
  "register_flag session flag m = m(session := Some (List.insert flag (flags_of m session)))"

definition unregister_flag :: "string \<Rightarrow> socket \<Rightarrow> holders \<Rightarrow> holders" where
  "unregister_flag session flag m = (case m session of None \<Rightarrow> m
     | Some fs \<Rightarrow> (case filter (\<lambda>x. x \<noteq> flag) fs of [] \<Rightarrow> m(session := None) | fs' \<Rightarrow> m(session := Some fs')))"

interpretation sessions: registry flags_of register_flag unregister_flag "\<lambda>m k. True"
proof
  fix m :: holders and k k' v
  show "set (flags_of (register_flag k v m) k') = (if k' = k then insert v (set (flags_of m k)) else set (flags_of m k'))"
    by (cases "m k") (auto simp: flags_of_def register_flag_def)
  show "set (flags_of (unregister_flag k v m) k') = (if k' = k then set (flags_of m k) - {v} else set (flags_of m k'))"
  proof (cases "m k")
    case (Some fs)
    have s: "set (filter (\<lambda>x. x \<noteq> v) fs) = set fs - {v}" by auto
    then show ?thesis using Some
      by (cases "filter (\<lambda>x. x \<noteq> v) fs") (auto simp: flags_of_def unregister_flag_def)
  qed (simp add: flags_of_def unregister_flag_def)
qed

section \<open>Viewers\<close>

definition acquire_viewer :: "nat \<Rightarrow> nat \<Rightarrow> bool \<times> nat" where
  "acquire_viewer maximum active = (if active \<ge> maximum then (False, active) else (True, active + 1))"

definition release_viewer :: "nat \<Rightarrow> nat" where
  "release_viewer active = (if active > 0 then active - 1 else active)"

section \<open>The handlers\<close>

text \<open>What is sent: an event with its JSON text, or the heartbeat.\<close>

datatype ws_message = Envelope string string | Ping

text \<open>What a handler serves: a topic, or the frames of a camera.\<close>

datatype stream_kind = TopicStream string | FrameStream

record stream_socket =
  sv_socket :: socket
  sv_session :: string
  sv_kind :: stream_kind
  sv_finishing :: bool

record hub_config =
  hc_max_connections :: nat
  hc_max_viewers :: nat

text \<open>A loop is a listener's or the heartbeat's walk over a snapshot of the sockets of a topic.
  \<open>hb_closes\<close> is what was sent to close a socket, \<open>hb_gone\<close> the sockets whose peer has left, and
  \<open>hb_ended\<close> the announced sessions.\<close>

record hub =
  hb_next :: socket
  hb_connections :: connections
  hb_holders :: holders
  hb_flags :: "socket list"
  hb_viewers :: nat
  hb_served :: "stream_socket list"
  hb_loops :: "(string \<times> socket list \<times> ws_message) list"
  hb_sent :: "(socket \<times> ws_message) list"
  hb_closes :: "(socket \<times> nat \<times> string) list"
  hb_gone :: "socket list"
  hb_ended :: "string list"

definition new_hub :: hub where
  "new_hub = \<lparr>hb_next = 0, hb_connections = no_connections, hb_holders = (\<lambda>_. None), hb_flags = [], hb_viewers = 0,
     hb_served = [], hb_loops = [], hb_sent = [], hb_closes = [], hb_gone = [], hb_ended = []\<rparr>"

text \<open>The start of \<^verbatim>\<open>_serve\<close> for the next accepted socket.\<close>

definition serve_open :: "hub_config \<Rightarrow> string \<Rightarrow> string \<Rightarrow> hub \<Rightarrow> hub" where
  "serve_open cfg topic session h = (let ws = hb_next h; h1 = h\<lparr>hb_next := Suc ws\<rparr>
     in case register_socket (hc_max_connections cfg) topic ws (hb_connections h) of
          Inl (code, reason) \<Rightarrow> h1\<lparr>hb_closes := hb_closes h @ [(ws, code, reason)]\<rparr>
        | Inr cs \<Rightarrow> h1\<lparr>hb_connections := cs, hb_holders := register_flag session ws (hb_holders h),
            hb_served := hb_served h @ [\<lparr>sv_socket = ws, sv_session = session, sv_kind = TopicStream topic, sv_finishing = False\<rparr>]\<rparr>)"

text \<open>\<^verbatim>\<open>camera_frames_stream\<close> up to the tasks it starts.\<close>

definition frames_open :: "hub_config \<Rightarrow> bool \<Rightarrow> string \<Rightarrow> hub \<Rightarrow> hub" where
  "frames_open cfg camera_exists session h = (let ws = hb_next h; h1 = h\<lparr>hb_next := Suc ws\<rparr>
     in if \<not> camera_exists then h1\<lparr>hb_closes := hb_closes h @ [(ws, 1008, ''unknown camera'')]\<rparr>
        else case acquire_viewer (hc_max_viewers cfg) (hb_viewers h) of
          (False, _) \<Rightarrow> h1\<lparr>hb_closes := hb_closes h @ [(ws, 1008, ''viewer limit reached'')]\<rparr>
        | (True, n) \<Rightarrow> h1\<lparr>hb_viewers := n, hb_holders := register_flag session ws (hb_holders h),
            hb_served := hb_served h @ [\<lparr>sv_socket = ws, sv_session = session, sv_kind = FrameStream, sv_finishing = False\<rparr>]\<rparr>)"

text \<open>\<^verbatim>\<open>RevocationService._trip\<close>.\<close>

definition trip :: "string \<Rightarrow> hub \<Rightarrow> hub" where
  "trip session h = h\<lparr>hb_flags := hb_flags h @ flags_of (hb_holders h) session, hb_ended := hb_ended h @ [session]\<rparr>"

text \<open>A check of \<^verbatim>\<open>reverify_loop\<close> closes the socket, and the reader learns that the peer has left.\<close>

definition check_close :: "ws_close \<Rightarrow> nat \<times> string" where
  "check_close why = (case why of SessionRevoked \<Rightarrow> (1008, ''session revoked'')
     | PermissionWithdrawn \<Rightarrow> (1008, ''insufficient permission'') | SessionUnverified \<Rightarrow> (1011, ''session unverified''))"

definition check_ends :: "stream_socket \<Rightarrow> ws_close \<Rightarrow> hub \<Rightarrow> hub" where
  "check_ends x why h = h\<lparr>hb_closes := hb_closes h @ [(sv_socket x, check_close why)]\<rparr>"

definition peer_leaves :: "socket \<Rightarrow> hub \<Rightarrow> hub" where
  "peer_leaves ws h = h\<lparr>hb_gone := ws # hb_gone h\<rparr>"

text \<open>The tasks of a handler that have ended when it wakes: the reader, the checks, the frame pump,
  or one of them by raising.\<close>

datatype task_end = PeerLeft | CheckEnded | PumpReturned | TaskRaised

definition wake_closes :: "bool \<Rightarrow> task_end list \<Rightarrow> (nat \<times> string) list" where
  "wake_closes flagged ends = (if flagged then [(1008, ''session revoked'')]
     else concat (map (\<lambda>e. if e = TaskRaised then [(1011, ''stream error'')] else []) ends))"

definition set_finishing :: "socket \<Rightarrow> stream_socket list \<Rightarrow> stream_socket list" where
  "set_finishing ws = map (\<lambda>x. if sv_socket x = ws then x\<lparr>sv_finishing := True\<rparr> else x)"

definition serve_wake :: "stream_socket \<Rightarrow> task_end list \<Rightarrow> hub \<Rightarrow> hub" where
  "serve_wake x ends h = h\<lparr>hb_served := set_finishing (sv_socket x) (hb_served h),
     hb_closes := hb_closes h @ map (Pair (sv_socket x)) (wake_closes (sv_socket x \<in> set (hb_flags h)) ends)\<rparr>"

text \<open>The \<^verbatim>\<open>finally\<close> blocks.\<close>

definition serve_finish :: "stream_socket \<Rightarrow> hub \<Rightarrow> hub" where
  "serve_finish x h = (let h1 = h\<lparr>hb_served := filter (\<lambda>y. sv_socket y \<noteq> sv_socket x) (hb_served h),
       hb_holders := unregister_flag (sv_session x) (sv_socket x) (hb_holders h)\<rparr>
     in case sv_kind x of
          TopicStream topic \<Rightarrow> h1\<lparr>hb_connections := unregister_socket topic (sv_socket x) (hb_connections h)\<rparr>
        | FrameStream \<Rightarrow> h1\<lparr>hb_viewers := release_viewer (hb_viewers h)\<rparr>)"

text \<open>\<^verbatim>\<open>BroadcastService._dispatch\<close>: the topic of a channel, and the snapshot it walks over.  The
  payload is \<open>None\<close> when it is not JSON.\<close>


definition start_dispatch :: "string \<Rightarrow> string option \<Rightarrow> hub \<Rightarrow> hub" where
  "start_dispatch channel payload h = (case partition_at (CHR '':'') channel of (topic, _, event) \<Rightarrow>
     case (hb_connections h topic, payload) of
       (Some ws, Some p) \<Rightarrow> h\<lparr>hb_loops := hb_loops h @ [(topic, ws, Envelope event p)]\<rparr>
     | _ \<Rightarrow> h)"

definition start_heartbeat :: "string \<Rightarrow> hub \<Rightarrow> hub" where
  "start_heartbeat topic h = (case hb_connections h topic of None \<Rightarrow> h
     | Some ws \<Rightarrow> h\<lparr>hb_loops := hb_loops h @ [(topic, ws, Ping)]\<rparr>)"

text \<open>One turn of a loop: a socket whose peer has left is dropped, and so is one on which the send
  raises, as it does after a close (\<open>fails\<close> is every other cause).\<close>

definition send_one :: "nat \<Rightarrow> bool \<Rightarrow> hub \<Rightarrow> hub" where
  "send_one i fails h = (case hb_loops h ! i of (topic, [], msg) \<Rightarrow> h
     | (topic, ws # rest, msg) \<Rightarrow> let h1 = h\<lparr>hb_loops := (hb_loops h)[i := (topic, rest, msg)]\<rparr>
         in if ws \<in> set (hb_gone h) \<or> ws \<in> set (map fst (hb_closes h)) \<or> fails
            then h1\<lparr>hb_connections := unregister_socket topic ws (hb_connections h)\<rparr>
            else h1\<lparr>hb_sent := hb_sent h @ [(ws, msg)]\<rparr>)"

section \<open>Interleavings\<close>

inductive hub_step :: "hub_config \<Rightarrow> hub \<Rightarrow> hub \<Rightarrow> bool" for cfg where
  open_topic: "hub_step cfg h (serve_open cfg topic session h)"
| open_frames: "hub_step cfg h (frames_open cfg exists session h)"
| announced: "hub_step cfg h (trip session h)"
| checked: "x \<in> set (hb_served h) \<Longrightarrow> hub_step cfg h (check_ends x why h)"
| left: "hub_step cfg h (peer_leaves ws h)"
| wakes: "x \<in> set (hb_served h) \<Longrightarrow> \<not> sv_finishing x \<Longrightarrow> ends \<noteq> [] \<or> sv_socket x \<in> set (hb_flags h)
    \<Longrightarrow> hub_step cfg h (serve_wake x ends h)"
| finishes: "x \<in> set (hb_served h) \<Longrightarrow> sv_finishing x \<Longrightarrow> hub_step cfg h (serve_finish x h)"
| dispatches: "hub_step cfg h (start_dispatch channel payload h)"
| beats: "hub_step cfg h (start_heartbeat topic h)"
| sends: "i < length (hb_loops h) \<Longrightarrow> hub_step cfg h (send_one i fails h)"

inductive hub_steps :: "hub_config \<Rightarrow> hub \<Rightarrow> hub \<Rightarrow> bool" for cfg where
  stay: "hub_steps cfg h h"
| more: "hub_steps cfg h h1 \<Longrightarrow> hub_step cfg h1 h2 \<Longrightarrow> hub_steps cfg h h2"

section \<open>The invariant\<close>

definition topic_entry :: "stream_socket \<Rightarrow> (string \<times> socket) set" where
  "topic_entry x = (case sv_kind x of TopicStream t \<Rightarrow> {(t, sv_socket x)} | FrameStream \<Rightarrow> {})"

definition topic_entries :: "stream_socket list \<Rightarrow> (string \<times> socket) set" where
  "topic_entries xs = (\<Union>x\<in>set xs. topic_entry x)"

definition session_entries :: "stream_socket list \<Rightarrow> (string \<times> socket) set" where
  "session_entries xs = (\<lambda>x. (sv_session x, sv_socket x)) ` set xs"

definition viewers_of :: "stream_socket list \<Rightarrow> nat" where
  "viewers_of xs = length (filter (\<lambda>x. sv_kind x = FrameStream) xs)"

definition hub_ok :: "hub_config \<Rightarrow> hub \<Rightarrow> bool" where
  "hub_ok cfg h \<longleftrightarrow> distinct (map sv_socket (hb_served h)) \<and> (\<forall>x\<in>set (hb_served h). sv_socket x < hb_next h) \<and>
     (\<forall>f\<in>set (hb_flags h). f < hb_next h) \<and>
     registered_only topic_members (hb_connections h) (topic_entries (hb_served h)) \<and>
     registered_only flags_of (hb_holders h) (session_entries (hb_served h)) \<and> registered_all flags_of (hb_holders h) (session_entries (hb_served h)) \<and>
     total_connections (hb_connections h) \<le> hc_max_connections cfg \<and>
     hb_viewers h = viewers_of (hb_served h) \<and> hb_viewers h \<le> hc_max_viewers cfg \<and>
     (\<forall>x\<in>set (hb_served h). sv_socket x \<in> set (hb_flags h) \<longrightarrow> sv_session x \<in> set (hb_ended h))"

lemma new_hub_ok: "hub_ok cfg new_hub"
  by (simp add: hub_ok_def new_hub_def registered_only_def registered_all_def topic_members_def no_connections_def
      flags_of_def session_entries_def total_connections_def TOPICS_def viewers_of_def)

lemma total_add: "total_connections (add_socket t ws m) \<le> Suc (total_connections m)"
  by (auto simp: total_connections_def TOPICS_def add_socket_def topic_members_def List.insert_def)

lemma length_filter_topic: "length (topic_members (unregister_socket t ws m) k) \<le> length (topic_members m k)"
  by (cases "m t") (auto simp: topic_members_def unregister_socket_def)

lemma total_unregister: "total_connections (unregister_socket t ws m) \<le> total_connections m"
  using length_filter_topic[of t ws m "''alerts''"] length_filter_topic[of t ws m "''cameras''"]
  by (simp add: total_connections_def TOPICS_def)

lemma register_socket_Inr:
  "register_socket mx t ws m = Inr m' \<longleftrightarrow> m t \<noteq> None \<and> total_connections m < mx \<and> m' = add_socket t ws m"
  by (auto simp: register_socket_def)

text \<open>A step that leaves the registries, the sockets served and the flags alone keeps the invariant.\<close>

lemma hub_ok_other:
  assumes "hub_ok cfg h" "hb_next h \<le> hb_next h'" "hb_connections h' = hb_connections h" "hb_holders h' = hb_holders h"
    "hb_served h' = hb_served h" "hb_flags h' = hb_flags h" "hb_viewers h' = hb_viewers h" "set (hb_ended h) \<subseteq> set (hb_ended h')"
  shows "hub_ok cfg h'"
  using assms by (auto simp: hub_ok_def topic_entries_def session_entries_def)

lemma serve_open_ok:
  assumes "hub_ok cfg h"
  shows "hub_ok cfg (serve_open cfg topic session h)"
proof (cases "register_socket (hc_max_connections cfg) topic (hb_next h) (hb_connections h)")
  case (Inl e)
  then show ?thesis by (intro hub_ok_other[OF assms]) (auto simp: serve_open_def Let_def split: prod.split)
next
  case (Inr cs)
  let ?x = "\<lparr>sv_socket = hb_next h, sv_session = session, sv_kind = TopicStream topic, sv_finishing = False\<rparr>"
  let ?h = "h\<lparr>hb_next := Suc (hb_next h), hb_connections := cs, hb_holders := register_flag session (hb_next h) (hb_holders h),
      hb_served := hb_served h @ [?x]\<rparr>"
  have h: "serve_open cfg topic session h = ?h" by (simp add: serve_open_def Let_def Inr)
  from Inr have cs: "hb_connections h topic \<noteq> None" "total_connections (hb_connections h) < hc_max_connections cfg"
      "cs = add_socket topic (hb_next h) (hb_connections h)" by (simp_all add: register_socket_Inr)
  have t: "topic_entries (hb_served h @ [?x]) = insert (topic, hb_next h) (topic_entries (hb_served h))" by (simp add: topic_entries_def topic_entry_def)
  have s: "session_entries (hb_served h @ [?x]) = insert (session, hb_next h) (session_entries (hb_served h))" by (auto simp: session_entries_def)
  have "registered_only topic_members cs (topic_entries (hb_served h @ [?x]))"
    unfolding t cs(3) by (rule topics.enter_only[where m = "hb_connections h", OF cs(1)]) (use assms in \<open>simp add: hub_ok_def\<close>)
  moreover have "registered_only flags_of (register_flag session (hb_next h) (hb_holders h)) (session_entries (hb_served h @ [?x]))"
    unfolding s by (rule sessions.enter_only[OF TrueI]) (use assms in \<open>simp add: hub_ok_def\<close>)
  moreover have "registered_all flags_of (register_flag session (hb_next h) (hb_holders h)) (session_entries (hb_served h @ [?x]))"
    unfolding s by (rule sessions.enter_all[OF TrueI]) (use assms in \<open>simp add: hub_ok_def\<close>)
  moreover have "total_connections cs \<le> hc_max_connections cfg"
    using total_add[of topic "hb_next h" "hb_connections h"] cs(2,3) by simp
  moreover have "hb_next h \<notin> set (hb_flags h)" "hb_next h \<notin> sv_socket ` set (hb_served h)"
    using assms by (auto simp: hub_ok_def)
  ultimately show ?thesis unfolding h using assms by (auto simp: hub_ok_def viewers_of_def less_Suc_eq)
qed

lemma frames_open_ok:
  assumes "hub_ok cfg h"
  shows "hub_ok cfg (frames_open cfg camera_exists session h)"
proof (cases "camera_exists \<and> hb_viewers h < hc_max_viewers cfg")
  case False
  then show ?thesis
    by (intro hub_ok_other[OF assms]) (auto simp: frames_open_def Let_def acquire_viewer_def)
next
  case True
  let ?x = "\<lparr>sv_socket = hb_next h, sv_session = session, sv_kind = FrameStream, sv_finishing = False\<rparr>"
  let ?h = "h\<lparr>hb_next := Suc (hb_next h), hb_viewers := hb_viewers h + 1,
      hb_holders := register_flag session (hb_next h) (hb_holders h), hb_served := hb_served h @ [?x]\<rparr>"
  have h: "frames_open cfg camera_exists session h = ?h" using True by (simp add: frames_open_def Let_def acquire_viewer_def)
  have t: "topic_entries (hb_served h @ [?x]) = topic_entries (hb_served h)" by (simp add: topic_entries_def topic_entry_def)
  have s: "session_entries (hb_served h @ [?x]) = insert (session, hb_next h) (session_entries (hb_served h))" by (auto simp: session_entries_def)
  have "registered_only flags_of (register_flag session (hb_next h) (hb_holders h)) (session_entries (hb_served h @ [?x]))"
    unfolding s by (rule sessions.enter_only[OF TrueI]) (use assms in \<open>simp add: hub_ok_def\<close>)
  moreover have "registered_all flags_of (register_flag session (hb_next h) (hb_holders h)) (session_entries (hb_served h @ [?x]))"
    unfolding s by (rule sessions.enter_all[OF TrueI]) (use assms in \<open>simp add: hub_ok_def\<close>)
  moreover have "hb_next h \<notin> set (hb_flags h)" "hb_next h \<notin> sv_socket ` set (hb_served h)"
    using assms by (auto simp: hub_ok_def)
  ultimately show ?thesis unfolding h using assms True by (auto simp: hub_ok_def t viewers_of_def less_Suc_eq)
qed

lemma entries_simps [simp]:
  "topic_entries [] = {}" "topic_entries (x # xs) = topic_entry x \<union> topic_entries xs"
  "session_entries [] = {}" "session_entries (x # xs) = insert (sv_session x, sv_socket x) (session_entries xs)"
  "topic_entry (x\<lparr>sv_finishing := b\<rparr>) = topic_entry x"
  by (simp_all add: topic_entries_def topic_entry_def session_entries_def split: stream_kind.split)

lemma topic_entry_iff: "(t, ws) \<in> topic_entry x \<longleftrightarrow> sv_kind x = TopicStream t \<and> sv_socket x = ws"
  by (cases "sv_kind x") (auto simp: topic_entry_def)

lemma topic_entries_iff: "(t, ws) \<in> topic_entries xs \<longleftrightarrow> (\<exists>x\<in>set xs. sv_kind x = TopicStream t \<and> sv_socket x = ws)"
  by (simp add: topic_entries_def topic_entry_iff)

lemma set_finishing_facts:
  "map sv_socket (set_finishing ws xs) = map sv_socket xs"
  "topic_entries (set_finishing ws xs) = topic_entries xs"
  "session_entries (set_finishing ws xs) = session_entries xs"
  "viewers_of (set_finishing ws xs) = viewers_of xs"
  by (induction xs) (simp_all add: set_finishing_def viewers_of_def)

lemma session_entries_iff: "(s, ws) \<in> session_entries xs \<longleftrightarrow> (\<exists>x\<in>set xs. sv_session x = s \<and> sv_socket x = ws)"
  by (auto simp: session_entries_def)

lemma serve_wake_ok:
  assumes "hub_ok cfg h"
  shows "hub_ok cfg (serve_wake x ends h)"
proof -
  let ?s = "set_finishing (sv_socket x) (hb_served h)"
  have m: "sv_socket ` set ?s = sv_socket ` set (hb_served h)"
    by (simp only: set_map[symmetric] set_finishing_facts)
  have ended: "\<forall>y\<in>set ?s. sv_socket y \<in> set (hb_flags h) \<longrightarrow> sv_session y \<in> set (hb_ended h)"
  proof
    fix y
    assume "y \<in> set ?s"
    then have "(sv_session y, sv_socket y) \<in> session_entries ?s" by (auto simp: session_entries_def)
    then show "sv_socket y \<in> set (hb_flags h) \<longrightarrow> sv_session y \<in> set (hb_ended h)"
      using assms by (auto simp: hub_ok_def set_finishing_facts session_entries_iff)
  qed
  have "\<forall>y\<in>set ?s. sv_socket y < hb_next h" using assms m by (metis (no_types, lifting) hub_ok_def imageE image_eqI)
  then show ?thesis using assms ended by (simp add: hub_ok_def serve_wake_def set_finishing_facts)
qed

lemma trip_ok:
  assumes "hub_ok cfg h"
  shows "hub_ok cfg (trip session h)"
proof -
  have only: "registered_only flags_of (hb_holders h) (session_entries (hb_served h))" and
    dist: "distinct (map sv_socket (hb_served h))" using assms by (simp_all add: hub_ok_def)
  have "f < hb_next h" if "f \<in> set (flags_of (hb_holders h) session)" for f
    using that only assms by (auto simp: registered_only_def hub_ok_def session_entries_def)
  moreover have "sv_session x = session"
    if a: "x \<in> set (hb_served h)" and b: "sv_socket x \<in> set (flags_of (hb_holders h) session)" for x
  proof -
    obtain y where "y \<in> set (hb_served h)" "sv_session y = session" "sv_socket y = sv_socket x"
      using only b by (auto simp: registered_only_def session_entries_iff)
    then show ?thesis using dist a by (metis distinct_map inj_on_def)
  qed
  ultimately show ?thesis using assms by (auto simp: hub_ok_def trip_def)
qed

lemma serve_finish_ok:
  assumes "hub_ok cfg h" "x \<in> set (hb_served h)"
  shows "hub_ok cfg (serve_finish x h)"
proof -
  let ?s = "filter (\<lambda>y. sv_socket y \<noteq> sv_socket x) (hb_served h)"
  have dist: "distinct (map sv_socket (hb_served h))" using assms by (simp add: hub_ok_def)
  have same: "y = x" if "y \<in> set (hb_served h)" "sv_socket y = sv_socket x" for y
    using dist assms(2) that by (metis distinct_map inj_on_def)
  have s: "session_entries ?s = session_entries (hb_served h) - {(sv_session x, sv_socket x)}"
    using same by (auto simp: session_entries_def)
  have "distinct (map sv_socket ?s)" using dist by (simp add: distinct_map_filter)
  moreover have "registered_only flags_of (unregister_flag (sv_session x) (sv_socket x) (hb_holders h)) (session_entries ?s)"
    unfolding s by (rule sessions.leave_only) (use assms in \<open>simp add: hub_ok_def\<close>)
  moreover have "registered_all flags_of (unregister_flag (sv_session x) (sv_socket x) (hb_holders h)) (session_entries ?s)"
    unfolding s by (rule sessions.leave_all) (use assms in \<open>simp add: hub_ok_def\<close>)
  moreover have ended: "\<forall>y\<in>set ?s. sv_socket y < hb_next h \<and> (sv_socket y \<in> set (hb_flags h) \<longrightarrow> sv_session y \<in> set (hb_ended h))"
    using assms by (auto simp: hub_ok_def)
  ultimately have base: "distinct (map sv_socket ?s)"
    "registered_only flags_of (unregister_flag (sv_session x) (sv_socket x) (hb_holders h)) (session_entries ?s)"
    "registered_all flags_of (unregister_flag (sv_session x) (sv_socket x) (hb_holders h)) (session_entries ?s)" by blast+
  show ?thesis
  proof (cases "sv_kind x")
    case (TopicStream t)
    have own: "a = t" if "y \<in> set (hb_served h)" "sv_socket y = sv_socket x" "sv_kind y = TopicStream a" for a y
      using same[OF that(1,2)] that(3) TopicStream by simp
    have "topic_entries ?s = topic_entries (hb_served h) - {(t, sv_socket x)}"
      by (auto simp: topic_entries_iff) (metis own)
    then have "registered_only topic_members (unregister_socket t (sv_socket x) (hb_connections h)) (topic_entries ?s)"
      using topics.leave_only assms by (simp add: hub_ok_def)
    moreover have "viewers_of ?s = viewers_of (hb_served h)"
      unfolding viewers_of_def filter_filter by (rule arg_cong[where f = length], rule filter_cong) (use TopicStream in \<open>auto dest!: same\<close>)
    ultimately show ?thesis using base ended assms TopicStream total_unregister[of t "sv_socket x" "hb_connections h"]
      by (simp add: hub_ok_def serve_finish_def Let_def)
  next
    case FrameStream
    obtain ps qs where ps: "hb_served h = ps @ x # qs" using assms(2) by (metis split_list)
    have "filter (\<lambda>y. sv_socket y \<noteq> sv_socket x) ps = ps" "filter (\<lambda>y. sv_socket y \<noteq> sv_socket x) qs = qs"
      using dist by (simp_all add: ps filter_id_conv) (metis image_eqI)+
    then have "?s = ps @ qs" by (simp add: ps)
    then have "topic_entries ?s = topic_entries (hb_served h)" "Suc (viewers_of ?s) = viewers_of (hb_served h)"
      using FrameStream by (auto simp: viewers_of_def ps topic_entries_iff)
    then show ?thesis using base ended assms FrameStream
      by (auto simp: hub_ok_def serve_finish_def Let_def release_viewer_def)
  qed
qed

lemma send_one_ok:
  assumes "hub_ok cfg h"
  shows "hub_ok cfg (send_one i fails h)"
proof -
  obtain topic ws msg where e: "hb_loops h ! i = (topic, ws, msg)" by (cases "hb_loops h ! i") auto
  show ?thesis
  proof (cases ws)
    case Nil
    then show ?thesis using assms e by (simp add: send_one_def)
  next
    case (Cons w rest)
    have "registered_only topic_members (unregister_socket topic w (hb_connections h)) (topic_entries (hb_served h))"
      using topics.leave_fewer assms by (simp add: hub_ok_def)
    then show ?thesis using assms total_unregister[of topic w "hb_connections h"]
      by (simp add: send_one_def e Cons Let_def hub_ok_def)
  qed
qed

lemma hub_step_ok:
  assumes "hub_step cfg h h'" "hub_ok cfg h"
  shows "hub_ok cfg h'"
  using assms
proof (cases rule: hub_step.cases)
  case (checked x why)
  then show ?thesis by (intro hub_ok_other[OF assms(2)]) (simp_all add: check_ends_def)
next
  case (left ws)
  then show ?thesis by (intro hub_ok_other[OF assms(2)]) (simp_all add: peer_leaves_def)
next
  case (dispatches channel payload)
  then show ?thesis by (intro hub_ok_other[OF assms(2)]) (simp_all add: start_dispatch_def split: prod.split option.split)
next
  case (beats topic)
  then show ?thesis by (intro hub_ok_other[OF assms(2)]) (simp_all add: start_heartbeat_def split: option.split)
next
  case (wakes x ends)
  then show ?thesis using serve_wake_ok[OF assms(2)] by simp
next
  case (finishes x)
  then show ?thesis using serve_finish_ok[OF assms(2)] by simp
qed (simp_all add: assms(2) serve_open_ok frames_open_ok trip_ok send_one_ok)

lemma hub_steps_ok: "hub_steps cfg h h' \<Longrightarrow> hub_ok cfg h \<Longrightarrow> hub_ok cfg h'"
  by (induction rule: hub_steps.induct) (auto intro: hub_step_ok)

text \<open>Flags stay set, socket numbers are not used again, and a socket served keeps its session.\<close>

lemma hub_step_flags: "hub_step cfg h h' \<Longrightarrow> set (hb_flags h) \<subseteq> set (hb_flags h') \<and> hb_next h \<le> hb_next h'"
  by (induction rule: hub_step.induct)
    (auto simp: serve_open_def frames_open_def trip_def check_ends_def peer_leaves_def serve_wake_def serve_finish_def
      start_dispatch_def start_heartbeat_def send_one_def Let_def split: sum.split prod.split list.split option.split
      stream_kind.split bool.split)

lemma hub_steps_flags: "hub_steps cfg h h' \<Longrightarrow> set (hb_flags h) \<subseteq> set (hb_flags h')"
  by (induction rule: hub_steps.induct) (use hub_step_flags in blast)+

text \<open>C27: The announced end of a session reaches every web socket of the session and no other.  At
  any point of any interleaving of sockets that open, close and are sent to, announcing the end
  sets the event of each socket served for the session, whatever happens until its handler
  wakes the event stays set, and then the handler can run and closes the socket as revoked.  A
  socket whose event is set is one whose own session was announced; and neither limit on sockets
  is exceeded.\<close>

theorem revocation_reaches_every_socket:
  assumes "hub_steps cfg new_hub h" "x \<in> set (hb_served h)" "hub_steps cfg (trip (sv_session x) h) h'"
    "y \<in> set (hb_served h')" "sv_socket y = sv_socket x" "\<not> sv_finishing y"
  shows "hub_step cfg h' (serve_wake y [] h') \<and>
    hb_closes (serve_wake y [] h') = hb_closes h' @ [(sv_socket x, 1008, ''session revoked'')] \<and>
    (\<forall>z\<in>set (hb_served h'). sv_socket z \<in> set (hb_flags h') \<longrightarrow> sv_session z \<in> set (hb_ended h')) \<and>
    total_connections (hb_connections h') \<le> hc_max_connections cfg \<and> viewers_of (hb_served h') \<le> hc_max_viewers cfg"
proof -
  have ok: "hub_ok cfg h" by (rule hub_steps_ok[OF assms(1) new_hub_ok])
  have ok': "hub_ok cfg h'" by (rule hub_steps_ok[OF assms(3) trip_ok[OF ok]])
  have "sv_socket x \<in> set (flags_of (hb_holders h) (sv_session x))"
    using ok assms(2) by (auto simp: hub_ok_def registered_all_def session_entries_def)
  then have "sv_socket x \<in> set (hb_flags (trip (sv_session x) h))" by (simp add: trip_def)
  then have flagged: "sv_socket y \<in> set (hb_flags h')" using hub_steps_flags[OF assms(3)] assms(5) by auto
  have "hub_step cfg h' (serve_wake y [] h')" by (rule hub_step.wakes) (use assms flagged in auto)
  moreover have "hb_closes (serve_wake y [] h') = hb_closes h' @ [(sv_socket x, 1008, ''session revoked'')]"
    using flagged assms(5) by (simp add: serve_wake_def wake_closes_def)
  ultimately show ?thesis using ok' by (simp add: hub_ok_def)
qed

definition demo_hub :: hub where
  "demo_hub = serve_open \<lparr>hc_max_connections = 5, hc_max_viewers = 2\<rparr> ''alerts'' ''s'' new_hub"

lemma revocation_reaches_every_socket_witness:
  "hb_closes (serve_wake (hd (hb_served demo_hub)) [] (trip ''s'' demo_hub)) =
    hb_closes (trip ''s'' demo_hub) @ [(0, 1008, ''session revoked'')]"
proof -
  have s: "hb_served demo_hub = [\<lparr>sv_socket = 0, sv_session = ''s'', sv_kind = TopicStream ''alerts'', sv_finishing = False\<rparr>]"
    by (simp add: demo_hub_def serve_open_def new_hub_def register_socket_def no_connections_def TOPICS_def
        total_connections_def topic_members_def Let_def)
  have "hub_steps \<lparr>hc_max_connections = 5, hc_max_viewers = 2\<rparr> new_hub demo_hub"
    unfolding demo_hub_def by (rule hub_steps.more[OF hub_steps.stay hub_step.open_topic])
  from revocation_reaches_every_socket[OF this, of "hd (hb_served demo_hub)" "trip ''s'' demo_hub" "hd (hb_served demo_hub)"]
  show ?thesis by (simp add: s hub_steps.stay) (simp add: trip_def s)
qed

end
