(* ===== verification/AuthTelegram.thy ===== *)
theory AuthTelegram
  imports AuthProperties
begin

text \<open>
  Linking a Telegram account: a user has at most one live link, a link works once, only the
  notification service can redeem it, and no Telegram account belongs to two users.
\<close>

section \<open>Links\<close>

text \<open>Every live link is the one its user's owner key names, and does not outlive that key.\<close>

definition link_inv :: "datetime \<Rightarrow> auth_cache \<Rightarrow> bool" where
  "link_inv now ca \<longleftrightarrow> (\<forall>h u. live now (ca_links ca h) = Some u \<longrightarrow> h \<noteq> '''' \<and>
     (\<exists>el eo. ca_links ca h = Some (u, Some el) \<and> ca_owners ca u = Some (h, Some eo) \<and> el \<le> eo))"

inductive link_reach :: "datetime \<Rightarrow> auth_cache \<Rightarrow> bool" where
  link_start: "link_reach now start_cache"
| link_later: "link_reach now ca \<Longrightarrow> now \<le> now' \<Longrightarrow> link_reach now' ca"
| link_issue: "link_reach now ca \<Longrightarrow> 0 \<le> ttl \<Longrightarrow> h \<noteq> '''' \<Longrightarrow> link_reach now (store_telegram_link now u h ttl ca)"
| link_consume: "link_reach now ca \<Longrightarrow> link_reach now (snd (consume_telegram_link now h ca))"

lemma live_mono: "live now' e = Some v \<Longrightarrow> now \<le> now' \<Longrightarrow> live now e = Some v"
  by (auto simp: live_def split: option.splits if_splits)

lemma live_timed: "live now (Some (v, Some t)) = (if now < t then Some v else None)"
  by (simp add: live_def)

lemma store_links:
  "ca_links (store_telegram_link now u h ttl ca) k =
     (if (\<exists>p. live now (ca_owners ca u) = Some p \<and> p \<noteq> '''' \<and> p \<noteq> h \<and> k = p) then None
      else if k = h then Some (u, Some (now + seconds ttl)) else ca_links ca k)"
  "ca_owners (store_telegram_link now u h ttl ca) = (ca_owners ca)(u := Some (h, Some (now + seconds ttl)))"
  by (auto simp: store_telegram_link_def Let_def split: option.splits)

lemma store_link_inv:
  assumes "link_inv now ca" "h \<noteq> ''''"
  shows "link_inv now (store_telegram_link now u h ttl ca)"
  unfolding link_inv_def
proof (intro allI impI)
  fix k w assume l: "live now (ca_links (store_telegram_link now u h ttl ca) k) = Some w"
  show "k \<noteq> '''' \<and> (\<exists>el eo. ca_links (store_telegram_link now u h ttl ca) k = Some (w, Some el) \<and>
      ca_owners (store_telegram_link now u h ttl ca) w = Some (k, Some eo) \<and> el \<le> eo)"
  proof (cases "k = h")
    case True
    then show ?thesis using l assms(2) by (auto simp: store_links live_def split: if_splits)
  next
    case False
    then have l': "live now (ca_links ca k) = Some w" "\<not> (\<exists>p. live now (ca_owners ca u) = Some p \<and> p \<noteq> '''' \<and> p \<noteq> h \<and> k = p)"
      using l by (auto simp: store_links live_def split: if_splits)
    then obtain el eo where e: "ca_links ca k = Some (w, Some el)" "ca_owners ca w = Some (k, Some eo)" "el \<le> eo" "k \<noteq> ''''"
      using assms(1) unfolding link_inv_def by blast
    have "now < el" using l'(1) e(1) by (simp add: live_timed split: if_splits)
    then have "live now (ca_owners ca w) = Some k" using e(2,3) by (simp add: live_timed)
    then have "w \<noteq> u" using l'(2) False e(4) by auto
    then show ?thesis using e l'(2) False by (auto simp: store_links)
  qed
qed

lemma link_reach_inv: "link_reach now ca \<Longrightarrow> link_inv now ca"
proof (induction rule: link_reach.induct)
  case (link_start now)
  then show ?case by (simp add: link_inv_def start_cache_def live_def)
next
  case (link_later now ca now')
  show ?case unfolding link_inv_def
  proof (intro allI impI)
    fix h u assume "live now' (ca_links ca h) = Some u"
    then have "live now (ca_links ca h) = Some u" by (rule live_mono[OF _ link_later.hyps(2)])
    then show "h \<noteq> '''' \<and> (\<exists>el eo. ca_links ca h = Some (u, Some el) \<and> ca_owners ca u = Some (h, Some eo) \<and> el \<le> eo)"
      using link_later.IH unfolding link_inv_def by blast
  qed
next
  case (link_issue now ca ttl h u)
  then show ?case using store_link_inv by blast
next
  case (link_consume now ca h)
  then show ?case unfolding link_inv_def by (auto simp: consume_telegram_link_def live_def)
qed

text \<open>Whatever links are issued and redeemed, a user has at most one live link at a time:
  issuing a new one withdraws the one before.\<close>

theorem one_live_telegram_link:
  assumes "link_reach now ca" "live now (ca_links ca h) = Some u" "live now (ca_links ca k) = Some u"
  shows "h = k"
  using link_reach_inv[OF assms(1)] assms(2,3) unfolding link_inv_def by (metis option.inject prod.inject)

lemma one_live_telegram_link_witness:
  "{h. live 0 (ca_links (store_telegram_link 0 7 ''b'' 60 (store_telegram_link 0 7 ''a'' 60 start_cache)) h) = Some 7} = {''b''}"
proof -
  let ?ca = "store_telegram_link 0 7 ''b'' 60 (store_telegram_link 0 7 ''a'' 60 start_cache)"
  have r: "link_reach 0 ?ca" by (rule link_issue[OF link_issue[OF link_start]]) simp_all
  have b: "live 0 (ca_links ?ca ''b'') = Some 7" by (simp add: store_links live_timed seconds_def)
  show ?thesis using one_live_telegram_link[OF r _ b] b by blast
qed

section \<open>Bindings\<close>

definition bindings_inv :: "auth_db \<Rightarrow> bool" where
  "bindings_inv db \<longleftrightarrow> distinct (map tb_user_id (au_bindings db)) \<and> distinct (map tb_telegram_user_id (au_bindings db))"

lemma bind_row_inv:
  assumes "bindings_inv db" "bind_telegram_row now u n db = Inr db'"
  shows "bindings_inv db' \<and> (\<exists>b \<in> set (au_bindings db'). tb_user_id b = u \<and> tb_telegram_user_id b = n)"
proof (cases "list_ex (\<lambda>b. tb_user_id b = u) (au_bindings db)")
  case False
  then show ?thesis using assms
    by (auto simp: bind_telegram_row_def bindings_inv_def list_ex_iff split: if_splits) blast
next
  case True
  define g :: "telegram_binding \<Rightarrow> telegram_binding" where
    "g b = (if tb_user_id b = u then b\<lparr>tb_telegram_user_id := n, tb_created_at := now\<rparr> else b)" for b
  have g: "tb_user_id (g b) = tb_user_id b" "tb_user_id b = u \<Longrightarrow> tb_telegram_user_id (g b) = n"
    "tb_user_id b \<noteq> u \<Longrightarrow> g b = b" for b by (simp_all add: g_def)
  have db': "au_bindings db' = map g (au_bindings db)"
    and free: "\<forall>b \<in> set (au_bindings db). tb_telegram_user_id b = n \<longrightarrow> tb_user_id b = u"
    using assms(2) True by (auto simp: bind_telegram_row_def update_where_def g_def list_ex_iff split: if_splits)
  have users: "inj_on tb_user_id (set (au_bindings db))" and tel: "inj_on tb_telegram_user_id (set (au_bindings db))"
    and d: "distinct (au_bindings db)"
    using assms(1) by (auto simp: bindings_inv_def distinct_map)
  have "inj_on (tb_telegram_user_id \<circ> g) (set (au_bindings db))"
  proof (rule inj_onI)
    fix a b assume ab: "a \<in> set (au_bindings db)" "b \<in> set (au_bindings db)"
      "(tb_telegram_user_id \<circ> g) a = (tb_telegram_user_id \<circ> g) b"
    then have "tb_user_id a = tb_user_id b \<or> tb_telegram_user_id a = tb_telegram_user_id b"
      using g[of a] g[of b] free by (cases "tb_user_id a = u"; cases "tb_user_id b = u") auto
    then show "a = b" using ab(1,2) users tel by (auto dest: inj_onD)
  qed
  then have "distinct (map tb_telegram_user_id (au_bindings db'))" using d by (simp add: db' distinct_map)
  moreover have "distinct (map tb_user_id (au_bindings db'))"
    using assms(1) g(1) by (simp add: db' bindings_inv_def comp_def)
  moreover obtain b where "b \<in> set (au_bindings db)" "tb_user_id b = u" using True by (auto simp: list_ex_iff)
  ultimately show ?thesis using g by (auto simp: bindings_inv_def db')
qed

text \<open>C18: A Telegram account is bound only through a live link presented by the notification
  service, to the active user who asked for that link; afterwards the account belongs to that
  user and to nobody else, and the same link is not accepted a second time.\<close>

theorem telegram_binding_sound:
  assumes "bindings_inv db" "BindTelegram now ru du caller n token (db, ca) = (Inr (BOUND name), db', ca')"
  shows "caller = SOURCE_NOTIFICATION \<and> 0 < n \<and> bindings_inv db' \<and>
    (\<exists>i u b. live now (ca_links ca (hash_link_token token)) = Some i \<and> user_by_id i db = Some u \<and> us_is_active u \<and>
      us_username u = name \<and> binding_by_telegram_id n db' = Some b \<and> tb_user_id b = us_id u) \<and>
    fst (BindTelegram now' True du' SOURCE_NOTIFICATION n' token (db'', ca')) = Inr TOKEN_INVALID"
proof -
  obtain i where i: "live now (ca_links ca (hash_link_token token)) = Some i"
      "ca' = snd (consume_telegram_link now (hash_link_token token) ca)" "bind_user now i n db = (BOUND name, db')"
    and guard: "caller = SOURCE_NOTIFICATION" "0 < n"
    using assms(2) by (auto simp: BindTelegram_def consume_telegram_link_def not_le split: if_splits option.splits prod.splits)
  obtain u where u: "user_by_id i db = Some u" "us_is_active u" "us_username u = name"
    using i(3) by (auto simp: bind_user_def Let_def split: option.splits if_splits sum.splits)
  have bound: "bindings_inv db' \<and> (\<exists>b \<in> set (au_bindings db'). tb_user_id b = us_id u \<and> tb_telegram_user_id b = n)"
  proof (cases "map_option tb_telegram_user_id (binding_for_user (us_id u) db) = Some n")
    case True
    then have "db' = db" using i(3) u by (simp add: bind_user_def)
    then show ?thesis using True assms(1) by (auto simp: binding_for_user_def dest: first_row_filter_Some)
  next
    case False
    then obtain db1 where db1: "bind_telegram_row now (us_id u) n db = Inr db1" "au_bindings db' = au_bindings db1"
      using i(3) u False by (auto simp: bind_user_def Let_def simp del: map_option_eq_Some split: sum.splits)
    show ?thesis using bind_row_inv[OF assms(1) db1(1)] db1(2) by (simp add: bindings_inv_def)
  qed
  then obtain b where b: "b \<in> set (au_bindings db')" "tb_user_id b = us_id u" "tb_telegram_user_id b = n" by blast
  have "filter (\<lambda>b. tb_telegram_user_id b = n) (au_bindings db') \<noteq> []" using b by (auto simp: filter_empty_conv)
  then obtain c where c: "binding_by_telegram_id n db' = Some c" by (auto simp: binding_by_telegram_id_def first_row_def neq_Nil_conv)
  then have "c \<in> set (au_bindings db')" "tb_telegram_user_id c = n"
    by (auto simp: binding_by_telegram_id_def dest: first_row_filter_Some)
  then have "c = b" using bound b by (auto simp: bindings_inv_def distinct_map dest: inj_onD)
  moreover have "fst (BindTelegram now' True du' SOURCE_NOTIFICATION n' token (db'', ca')) = Inr TOKEN_INVALID"
    by (simp add: BindTelegram_def i(2) consume_telegram_link_def live_def)
  ultimately show ?thesis using guard i(1) u bound b c by blast
qed

definition demo_link :: string where "demo_link = replicate 43 (CHR ''a'')"

definition demo_linked :: auth_cache where
  "demo_linked = store_telegram_link 0 7 (hash_link_token demo_link) 60 start_cache"

lemma demo_link_ok: "is_well_formed_link_token demo_link"
  by (simp add: is_well_formed_link_token_def demo_link_def link_char_def char_code_def list_all_iff)

lemma telegram_binding_sound_witness:
  "\<exists>db' ca'. BindTelegram 5 True True SOURCE_NOTIFICATION 99 demo_link (start_db [demo_user 7 ''u7'' []], demo_linked) =
      (Inr (BOUND ''u7''), db', ca') \<and>
    fst (BindTelegram 6 True True SOURCE_NOTIFICATION 98 demo_link (db', ca')) = Inr TOKEN_INVALID"
proof -
  have "\<exists>db' ca'. BindTelegram 5 True True SOURCE_NOTIFICATION 99 demo_link (start_db [demo_user 7 ''u7'' []], demo_linked) =
      (Inr (BOUND ''u7''), db', ca')"
    by (simp add: BindTelegram_def demo_link_ok demo_linked_def store_telegram_link_def start_cache_def live_def
        consume_telegram_link_def bind_user_def user_by_id_def start_db_def demo_user_def first_row_def
        binding_for_user_def bind_telegram_row_def seconds_def)
  then obtain db' ca' where e: "BindTelegram 5 True True SOURCE_NOTIFICATION 99 demo_link
      (start_db [demo_user 7 ''u7'' []], demo_linked) = (Inr (BOUND ''u7''), db', ca')" by blast
  then show ?thesis using telegram_binding_sound[OF _ e, of 6 True 98 db'] by (auto simp: bindings_inv_def start_db_def)
qed

end
