(* ===== verification/AuthDrain.thy ===== *)
theory AuthDrain
  imports Prelude "HOL-Library.Multiset"
begin

text \<open>
  Delivery of queued audit events: the outbox tables
  (\<^verbatim>\<open>services/auth/app/repositories/audit_outbox_repository.py\<close>) and the drain
  (\<^verbatim>\<open>app/services/audit_drain.py\<close>).  What the audit service answers, the clock and the
  jitter (in thousandths) are arguments; an event is an opaque value.
\<close>

section \<open>The outbox\<close>

record 'e pending_event =
  pe_id :: nat
  pe_event :: 'e
  pe_attempts :: nat
  pe_next_attempt_at :: datetime

record 'e dead_event =
  de_event :: 'e
  de_attempts :: nat
  de_last_status :: int

record 'e outbox =
  ob_pending :: "'e pending_event list"
  ob_dead :: "'e dead_event list"

definition claim :: "datetime \<Rightarrow> nat \<Rightarrow> 'e outbox \<Rightarrow> 'e pending_event list" where
  "claim now limit ob = take limit (order_by pe_id (filter (\<lambda>p. pe_next_attempt_at p \<le> now) (ob_pending ob)))"

definition release :: "nat \<Rightarrow> 'e outbox \<Rightarrow> 'e outbox" where
  "release i ob = ob\<lparr>ob_pending := filter (\<lambda>p. pe_id p \<noteq> i) (ob_pending ob)\<rparr>"

definition defer_event :: "nat \<Rightarrow> datetime \<Rightarrow> 'e outbox \<Rightarrow> 'e outbox" where
  "defer_event i t ob = ob\<lparr>ob_pending := update_where (\<lambda>p. pe_id p = i)
     (\<lambda>p. p\<lparr>pe_attempts := pe_attempts p + 1, pe_next_attempt_at := t\<rparr>) (ob_pending ob)\<rparr>"

definition bury :: "'e pending_event \<Rightarrow> int \<Rightarrow> 'e outbox \<Rightarrow> 'e outbox" where
  "bury p last_status ob = ob\<lparr>ob_pending := filter (\<lambda>q. pe_id q \<noteq> pe_id p) (ob_pending ob),
     ob_dead := ob_dead ob @ [\<lparr>de_event = pe_event p, de_attempts = pe_attempts p + 1, de_last_status = last_status\<rparr>]\<rparr>"

section \<open>One cycle\<close>

definition BATCH_SIZE :: nat where "BATCH_SIZE = 32"
definition MAX_BACKOFF_EXPONENT :: nat where "MAX_BACKOFF_EXPONENT = 8"
definition MAX_UNKNOWN_STATUS_ATTEMPTS :: nat where "MAX_UNKNOWN_STATUS_ATTEMPTS = 12"
definition APPEND_ACCEPTED :: int where "APPEND_ACCEPTED = 1"
definition APPEND_RATE_LIMITED :: int where "APPEND_RATE_LIMITED = 3"
definition TERMINAL_STATUSES :: "int set" where "TERMINAL_STATUSES = {2, 4}"

record send_outcome =
  so_reachable :: bool
  so_status :: "int option"

definition next_attempt_at :: "datetime \<Rightarrow> int \<Rightarrow> nat \<Rightarrow> datetime" where
  "next_attempt_at now jitter attempts =
     now + min (2 * 2 ^ min attempts MAX_BACKOFF_EXPONENT) 300 * jitter * 1000"

definition send_event :: "(int option) option \<Rightarrow> send_outcome" where
  "send_event reply = (case reply of None \<Rightarrow> \<lparr>so_reachable = False, so_status = None\<rparr>
     | Some st \<Rightarrow> \<lparr>so_reachable = True, so_status = st\<rparr>)"

datatype resolution = Deferred | Accepted | Buried

definition resolve_event ::
  "datetime \<Rightarrow> int \<Rightarrow> 'e pending_event \<Rightarrow> send_outcome \<Rightarrow> 'e outbox \<Rightarrow> resolution \<times> 'e outbox" where
  "resolve_event now jitter p out ob =
     (if \<not> so_reachable out then (Deferred, defer_event (pe_id p) (next_attempt_at now jitter (pe_attempts p)) ob)
      else if so_status out = Some APPEND_ACCEPTED then (Accepted, release (pe_id p) ob)
      else let status = (case so_status out of None \<Rightarrow> 0 | Some n \<Rightarrow> n) in
        if (case so_status out of None \<Rightarrow> False | Some n \<Rightarrow> n \<in> TERMINAL_STATUSES) then (Buried, bury p status ob)
        else if pe_attempts p + 1 \<ge> MAX_UNKNOWN_STATUS_ATTEMPTS then (Buried, bury p status ob)
        else (Deferred, defer_event (pe_id p) (next_attempt_at now jitter (pe_attempts p)) ob))"

text \<open>At most \<open>n\<close> more events; every one is claimed, sent and resolved in its own transaction.\<close>

fun drain :: "(nat \<Rightarrow> datetime) \<Rightarrow> int \<Rightarrow> ('e \<Rightarrow> int option option) \<Rightarrow> nat \<Rightarrow> 'e outbox \<Rightarrow> nat \<times> 'e outbox" where
  "drain clock jitter audit 0 ob = (0, ob)"
| "drain clock jitter audit (Suc n) ob = (case claim (clock n) 1 ob of
     [] \<Rightarrow> (0, ob)
   | p # _ \<Rightarrow> (case resolve_event (clock n) jitter p (send_event (audit (pe_event p))) ob of
       (Deferred, ob1) \<Rightarrow> (1, ob1)
     | (_, ob1) \<Rightarrow> (case drain clock jitter audit n ob1 of (k, ob2) \<Rightarrow> (k + 1, ob2))))"

definition drain_once :: "(nat \<Rightarrow> datetime) \<Rightarrow> int \<Rightarrow> ('e \<Rightarrow> int option option) \<Rightarrow> 'e outbox \<Rightarrow> nat \<times> 'e outbox" where
  "drain_once clock jitter audit ob = drain clock jitter audit BATCH_SIZE ob"

section \<open>No event is lost\<close>

definition outbox_events :: "'e outbox \<Rightarrow> 'e multiset" where
  "outbox_events ob = mset (map pe_event (ob_pending ob)) + mset (map de_event (ob_dead ob))"

lemma claim_in: "p \<in> set (claim now n ob) \<Longrightarrow> p \<in> set (ob_pending ob) \<and> pe_next_attempt_at p \<le> now"
  by (auto simp: claim_def dest!: in_set_takeD)

lemma filter_id_remove:
  assumes "distinct (map pe_id ps)" "p \<in> set ps"
  shows "mset ps = mset (filter (\<lambda>q. pe_id q \<noteq> pe_id p) ps) + {#p#}"
  using assms
proof (induction ps)
  case (Cons q ps)
  show ?case
  proof (cases "pe_id q = pe_id p")
    case True
    then have "filter (\<lambda>r. pe_id r \<noteq> pe_id p) ps = ps"
      using Cons.prems by (auto simp: filter_id_conv image_iff)
    moreover have "q = p" using True Cons.prems by (auto simp: image_iff)
    ultimately show ?thesis by simp
  qed (use Cons in auto)
qed simp

lemma defer_events [simp]: "outbox_events (defer_event i t ob) = outbox_events ob"
  by (simp add: outbox_events_def defer_event_def map_update_where)

lemma defer_ids [simp]: "map pe_id (ob_pending (defer_event i t ob)) = map pe_id (ob_pending ob)"
  by (simp add: defer_event_def map_update_where)

lemma bury_events:
  assumes "distinct (map pe_id (ob_pending ob))" "p \<in> set (ob_pending ob)"
  shows "outbox_events (bury p st ob) = outbox_events ob"
  using arg_cong[OF filter_id_remove[OF assms], of "image_mset pe_event"] by (simp add: outbox_events_def bury_def)

lemma release_events:
  assumes "distinct (map pe_id (ob_pending ob))" "p \<in> set (ob_pending ob)"
  shows "outbox_events ob = outbox_events (release (pe_id p) ob) + {#pe_event p#}"
  using arg_cong[OF filter_id_remove[OF assms], of "image_mset pe_event"] by (simp add: outbox_events_def release_def)

lemma resolve_event_ids: "distinct (map pe_id (ob_pending ob)) \<Longrightarrow>
   distinct (map pe_id (ob_pending (snd (resolve_event now j p out ob))))"
  by (auto simp: resolve_event_def Let_def release_def bury_def distinct_map_filter split: option.splits)

lemma resolve_event_cases:
  assumes "distinct (map pe_id (ob_pending ob))" "p \<in> set (ob_pending ob)"
    "resolve_event now j p (send_event (audit (pe_event p))) ob = (r, ob')"
  shows "(r = Accepted \<and> audit (pe_event p) = Some (Some APPEND_ACCEPTED) \<and>
      outbox_events ob = outbox_events ob' + {#pe_event p#}) \<or>
    (r \<noteq> Accepted \<and> outbox_events ob = outbox_events ob')"
  using assms(3) bury_events[OF assms(1,2)] release_events[OF assms(1,2)]
  by (auto simp: resolve_event_def Let_def send_event_def split: option.splits if_splits)

text \<open>C17: A drain cycle loses no audit event: the events it removes from the outbox and the
  dead-letter table together were all accepted by the audit service, and every other event is
  still in one of the two tables, with its multiplicity.\<close>

theorem drain_conserves_events:
  assumes "distinct (map pe_id (ob_pending ob))" "drain_once clock jitter audit ob = (k, ob')"
  shows "\<exists>delivered. outbox_events ob = outbox_events ob' + delivered \<and>
    (\<forall>e \<in># delivered. audit e = Some (Some APPEND_ACCEPTED))"
proof -
  have "\<exists>delivered. outbox_events ob = outbox_events ob' + delivered \<and>
    (\<forall>e \<in># delivered. audit e = Some (Some APPEND_ACCEPTED))"
    if "drain clock jitter audit n ob = (k, ob')" for n
    using that assms(1)
  proof (induction n arbitrary: ob k)
    case (Suc n)
    show ?case
    proof (cases "claim (clock n) 1 ob")
      case (Cons p ps)
      then have p: "p \<in> set (ob_pending ob)" using claim_in[of p "clock n" 1 ob] by simp
      obtain r ob1 where r: "resolve_event (clock n) jitter p (send_event (audit (pe_event p))) ob = (r, ob1)" by fastforce
      have d1: "distinct (map pe_id (ob_pending ob1))" using resolve_event_ids[OF Suc.prems(2)] r by (metis snd_conv)
      note c = resolve_event_cases[where audit = audit, OF Suc.prems(2) p r]
      show ?thesis
      proof (cases "r = Deferred")
        case True
        then show ?thesis using Suc.prems(1) Cons r c by auto
      next
        case False
        then obtain m where m: "drain clock jitter audit n ob1 = (m, ob')"
          using Suc.prems(1) Cons r by (auto split: resolution.splits prod.splits)
        obtain del where "outbox_events ob1 = outbox_events ob' + del"
          "\<forall>e \<in># del. audit e = Some (Some APPEND_ACCEPTED)" using Suc.IH[OF m d1] by blast
        then show ?thesis using c
          by (cases "r = Accepted") (auto intro: exI[of _ "add_mset (pe_event p) del"] exI[of _ del])
      qed
    qed (use Suc.prems in simp)
  qed simp
  then show ?thesis using assms(2) by (simp add: drain_once_def)
qed

lemma drain_conserves_events_witness:
  "\<exists>delivered. outbox_events \<lparr>ob_pending = [\<lparr>pe_id = 1, pe_event = ''a'', pe_attempts = 0, pe_next_attempt_at = 0\<rparr>],
      ob_dead = []\<rparr> = outbox_events (snd (drain_once (\<lambda>_. 0) 1000 (\<lambda>e. Some (Some 1)) \<lparr>ob_pending =
        [\<lparr>pe_id = 1, pe_event = ''a'', pe_attempts = 0, pe_next_attempt_at = 0\<rparr>], ob_dead = []\<rparr>)) + delivered \<and>
    (\<forall>e \<in># delivered. (\<lambda>e. Some (Some 1)) e = Some (Some APPEND_ACCEPTED))"
  by (rule drain_conserves_events[OF _ prod.collapse[symmetric]]) simp

text \<open>An event that the audit service only asked to send later is given up: once eleven
  attempts are counted, and attempts that never reached the service count too, a rate-limited
  reply moves the event to the dead-letter table, which nothing sends again.\<close>

theorem rate_limited_event_buried:
  assumes "MAX_UNKNOWN_STATUS_ATTEMPTS \<le> pe_attempts p + 1"
  shows "resolve_event now jitter p (send_event (Some (Some APPEND_RATE_LIMITED))) ob = (Buried, bury p 3 ob)"
  using assms by (simp add: resolve_event_def send_event_def APPEND_RATE_LIMITED_def APPEND_ACCEPTED_def TERMINAL_STATUSES_def)

lemma rate_limited_event_buried_witness:
  "resolve_event 0 1000 \<lparr>pe_id = 1, pe_event = ''a'', pe_attempts = 11, pe_next_attempt_at = 0\<rparr>
     (send_event (Some (Some APPEND_RATE_LIMITED))) \<lparr>ob_pending = [], ob_dead = []\<rparr> =
   (Buried, bury \<lparr>pe_id = 1, pe_event = ''a'', pe_attempts = 11, pe_next_attempt_at = 0\<rparr> 3 \<lparr>ob_pending = [], ob_dead = []\<rparr>)"
  by (rule rate_limited_event_buried) (simp add: MAX_UNKNOWN_STATUS_ATTEMPTS_def)

end
