(* ===== verification/AuthEvents.thy ===== *)
theory AuthEvents
  imports AuthStore
begin

text \<open>
  The audit events the auth service prepares (\<^verbatim>\<open>services/auth/app/services/audit_service.py\<close>,
  \<^verbatim>\<open>app/core/pseudonym.py\<close>): what every event says, with the enumeration values of the
  protocol.  The identifier, the time, the client's address and user agent, and the wire
  format are left out; \<open>None\<close> is an event that is not prepared because the pseudonym key is
  unavailable.
\<close>

definition MIN_KEY_BYTES :: nat where "MIN_KEY_BYTES = 32"

text \<open>\<open>key\<close> is \<^verbatim>\<open>_load_key()\<close>, \<open>None\<close> where it raises.\<close>

definition load_pseudonym_key :: "(string \<Rightarrow> bytes option) \<Rightarrow> string option \<Rightarrow> bytes option" where
  "load_pseudonym_key b64decode file = (case map_option (strip_chars is_white) file of
     None \<Rightarrow> None
   | Some raw \<Rightarrow> if raw = '''' then None else (case b64decode raw of
       None \<Rightarrow> None
     | Some key \<Rightarrow> if length key < MIN_KEY_BYTES then None else Some key))"

definition pseudonym_message :: "string \<Rightarrow> string \<Rightarrow> bytes" where
  "pseudonym_message domain v = be_bytes 8 (length domain) @ utf8 domain @ be_bytes 8 (length (utf8 v)) @ utf8 v"

definition auth_pseudonymize :: "bytes option \<Rightarrow> string \<Rightarrow> string \<Rightarrow> bytes option" where
  "auth_pseudonymize key domain v = (if v = '''' then Some []
     else map_option (\<lambda>k. hmac_sha256 k (pseudonym_message domain v)) key)"

definition SUBJECT_DOMAIN :: string where "SUBJECT_DOMAIN = ''auth-login-subject''"
definition TELEGRAM_DOMAIN :: string where "TELEGRAM_DOMAIN = ''auth-telegram-account''"

definition ROLE_BY_NAME :: "(string \<times> int) list" where
  "ROLE_BY_NAME = [(''admin'', 1), (''operator'', 2), (''viewer'', 3), (''ml_engineer'', 4), (''compliance'', 5)]"

definition roles_to_enum :: "string list \<Rightarrow> int list" where
  "roles_to_enum roles = List.map_filter (map_of ROLE_BY_NAME) roles"

datatype severity = INFO | NOTICE | WARNING | CRITICAL

record admin_action =
  aa_action :: int
  aa_target_kind :: int
  aa_target_id :: string
  aa_reason_code :: int

datatype event_payload =
    LoginSuccessPayload string string "int list"
  | LoginFailurePayload bytes int int
  | ThrottlePayload int int int int bytes
  | TokenRefreshedPayload string string string
  | ReusePayload string string string
  | SessionEndedPayload string string int
  | AdminPayload admin_action
  | ConfigChangedPayload int string string bytes bytes
  | ErasurePayload bytes string "int list" int bool

record prepared_event =
  pv_actor :: string
  pv_severity :: severity
  pv_payload :: event_payload

definition telegram_digest :: "bytes option \<Rightarrow> int option \<Rightarrow> bytes" where
  "telegram_digest key n = (case n of None \<Rightarrow> []
     | Some i \<Rightarrow> (case auth_pseudonymize key TELEGRAM_DOMAIN (str_int i) of None \<Rightarrow> [] | Some d \<Rightarrow> d))"

definition admin_event :: "string \<Rightarrow> severity \<Rightarrow> int \<Rightarrow> int \<Rightarrow> string \<Rightarrow> int \<Rightarrow> prepared_event" where
  "admin_event actor severity action kind target reason = \<lparr>pv_actor = actor, pv_severity = severity,
     pv_payload = AdminPayload \<lparr>aa_action = action, aa_target_kind = kind, aa_target_id = target, aa_reason_code = reason\<rparr>\<rparr>"

fun prepare_event :: "bytes option \<Rightarrow> lockout_settings \<Rightarrow> auth_event \<Rightarrow> prepared_event option" where
  "prepare_event key ls (LoginSuccess u s roles) = Some \<lparr>pv_actor = str_uuid u, pv_severity = INFO,
     pv_payload = LoginSuccessPayload (str_uuid u) (str_uuid s) (roles_to_enum roles)\<rparr>"
| "prepare_event key ls (LoginFailure name reason n) = map_option (\<lambda>h. \<lparr>pv_actor = '''', pv_severity = WARNING,
     pv_payload = LoginFailurePayload h reason n\<rparr>) (auth_pseudonymize key SUBJECT_DOMAIN name)"
| "prepare_event key ls (ThrottleTriggered name n) = map_option (\<lambda>h. \<lparr>pv_actor = '''', pv_severity = CRITICAL,
     pv_payload = ThrottlePayload 1 n (ls_max_attempts ls) (ls_window_seconds ls) h\<rparr>)
     (auth_pseudonymize key SUBJECT_DOMAIN name)"
| "prepare_event key ls (TokenRefreshed u s f) = Some \<lparr>pv_actor = str_uuid u, pv_severity = INFO,
     pv_payload = TokenRefreshedPayload (str_uuid u) (str_uuid s) (str_uuid f)\<rparr>"
| "prepare_event key ls (RefreshReuseDetected u s f) = (let subject = (case u of None \<Rightarrow> '''' | Some i \<Rightarrow> str_uuid i)
     in Some \<lparr>pv_actor = subject, pv_severity = CRITICAL, pv_payload = ReusePayload subject (str_uuid s) (str_uuid f)\<rparr>)"
| "prepare_event key ls (SessionEnded u s kind) = Some \<lparr>pv_actor = u, pv_severity = INFO,
     pv_payload = SessionEndedPayload u s kind\<rparr>"
| "prepare_event key ls (AdminUserCreated a u) = Some (admin_event (str_uuid a) NOTICE 1 1 (str_uuid u) 3)"
| "prepare_event key ls (AdminRolesGranted a u) = Some (admin_event (str_uuid a) NOTICE 6 2 (str_uuid u) 1)"
| "prepare_event key ls (AdminRolesRevoked a u) = Some (admin_event (str_uuid a) NOTICE 7 2 (str_uuid u) 1)"
| "prepare_event key ls (AdminUserEnabled a u) = Some (admin_event (str_uuid a) NOTICE 4 1 (str_uuid u) 3)"
| "prepare_event key ls (AdminUserDisabled a u) = Some (admin_event (str_uuid a) WARNING 3 1 (str_uuid u) 4)"
| "prepare_event key ls (AdminPasswordReset a u) = Some (admin_event (str_uuid a) WARNING 8 1 (str_uuid u) 2)"
| "prepare_event key ls (AdminSessionRevoked a s) = Some (admin_event (str_uuid a) NOTICE 9 3 (str_uuid s) 1)"
| "prepare_event key ls (AdminSessionRevokedBy a s) = Some (admin_event a NOTICE 9 3 s 1)"
| "prepare_event key ls (TelegramLinkChanged a before after) = Some \<lparr>pv_actor = str_uuid a, pv_severity = NOTICE,
     pv_payload = ConfigChangedPayload 4 (str_uuid a) ''telegram_user_id'' (telegram_digest key before)
       (telegram_digest key after)\<rparr>"
| "prepare_event key ls (SubjectErasure a subject n completed) = map_option (\<lambda>h. \<lparr>pv_actor = str_uuid a,
     pv_severity = WARNING, pv_payload = ErasurePayload h (str_uuid a) [1, 2, 5] n completed\<rparr>)
     (auth_pseudonymize key SUBJECT_DOMAIN subject)"

section \<open>Pseudonyms\<close>

text \<open>The bytes that are hashed into a pseudonym determine the domain and the name, so two
  different names (or domains) share a pseudonym only where HMAC-SHA256 itself collides.\<close>

theorem pseudonym_message_injective:
  assumes "length domain < 2 ^ 64" "length domain' < 2 ^ 64"
    and "pseudonym_message domain v = pseudonym_message domain' v'"
  shows "domain = domain' \<and> v = v'"
proof -
  have e: "be_bytes 8 (length domain) = be_bytes 8 (length domain')"
    "utf8 domain @ be_bytes 8 (length v) @ utf8 v = utf8 domain' @ be_bytes 8 (length v') @ utf8 v'"
    using assms(3) by (simp_all add: pseudonym_message_def)
  have "length domain = length domain'"
    by (rule be_bytes_inject[OF e(1)]) (use assms(1,2) in simp_all)
  then show ?thesis using e(2) by simp
qed

lemma pseudonym_message_injective_witness:
  "{v. pseudonym_message ''d'' v = pseudonym_message ''d'' ''bob''} = {''bob''}"
  using pseudonym_message_injective[of "''d''" "''d''" _ "''bob''"] by auto

end
