(* ===== verification/NotifyStore.thy ===== *)
theory NotifyStore
  imports PyText
begin

text \<open>
  The state of the notification service: delivery intents and dead letters
  (\<^verbatim>\<open>services/notification/app/repositories\<close>, \<^verbatim>\<open>app/shared/schemas/delivery.py\<close>), the
  delivery gate (\<^verbatim>\<open>app/shared/gate.py\<close>) and the poller's lease (\<^verbatim>\<open>app/telegram/lease.py\<close>).
  A MongoDB collection is the list of its documents in insertion order; an object id is its
  96-bit number; the clock is an argument.
\<close>

section \<open>Documents\<close>

datatype delivery_status = PENDING | SENDING | SENT | FAILED | DEAD | BUFFERED

datatype delivery_source = ALERT | ALERTMANAGER

datatype channel = TELEGRAM

datatype message_kind = VIDEO | PHOTO | TEXT

type_synonym oid = nat

record message_ref =
  mr_chat_id :: int
  mr_message_id :: int
  mr_kind :: message_kind

record 'p intent_create =
  ic_source :: delivery_source
  ic_source_ref :: string
  ic_recipient :: string
  ic_payload :: 'p

record 'p delivery_intent =
  di_id :: oid
  di_source :: delivery_source
  di_source_ref :: string
  di_channel :: channel
  di_recipient :: string
  di_payload :: 'p
  di_status :: delivery_status
  di_attempts :: nat
  di_requeue_count :: nat
  di_attempt_started_at :: "datetime option"
  di_last_error :: "string option"
  di_telegram :: "message_ref option"
  di_snapshot :: "message_ref option"
  di_shown_at :: "datetime option"
  di_created_at :: datetime
  di_updated_at :: datetime

record 'p dead_letter =
  dl_source :: delivery_source
  dl_source_ref :: string
  dl_recipient :: string
  dl_payload :: 'p
  dl_attempts :: nat
  dl_last_error :: string
  dl_intent_id :: oid
  dl_created_at :: datetime

section \<open>Delivery intents\<close>

text \<open>The unique index of migration 001.\<close>

definition natural_key :: "'p delivery_intent \<Rightarrow> delivery_source \<times> string \<times> channel \<times> string" where
  "natural_key d = (di_source d, di_source_ref d, di_channel d, di_recipient d)"

definition fresh_intent :: "datetime \<Rightarrow> oid \<Rightarrow> 'p intent_create \<Rightarrow> 'p delivery_intent" where
  "fresh_intent now i c = \<lparr>di_id = i, di_source = ic_source c, di_source_ref = ic_source_ref c,
     di_channel = TELEGRAM, di_recipient = ic_recipient c, di_payload = ic_payload c, di_status = PENDING,
     di_attempts = 0, di_requeue_count = 0, di_attempt_started_at = None, di_last_error = None,
     di_telegram = None, di_snapshot = None, di_shown_at = None, di_created_at = now, di_updated_at = now\<rparr>"

definition acquire :: "datetime \<Rightarrow> oid \<Rightarrow> 'p intent_create \<Rightarrow> 'p delivery_intent list \<Rightarrow>
    'p delivery_intent \<times> 'p delivery_intent list" where
  "acquire now i c ds = (case first_row (filter (\<lambda>d. natural_key d = natural_key (fresh_intent now i c)) ds) of
     Some d \<Rightarrow> (d, ds)
   | None \<Rightarrow> (fresh_intent now i c, ds @ [fresh_intent now i c]))"

definition get_intent :: "oid \<Rightarrow> 'p delivery_intent list \<Rightarrow> 'p delivery_intent option" where
  "get_intent i ds = first_row (filter (\<lambda>d. di_id d = i) ds)"

definition list_by_source_ref :: "delivery_source \<Rightarrow> string \<Rightarrow> 'p delivery_intent list \<Rightarrow> 'p delivery_intent list" where
  "list_by_source_ref src ref ds = order_by di_created_at (filter (\<lambda>d. di_source d = src \<and> di_source_ref d = ref) ds)"

definition list_by_source_refs :: "delivery_source \<Rightarrow> string list \<Rightarrow> 'p delivery_intent list \<Rightarrow> 'p delivery_intent list" where
  "list_by_source_refs src refs ds = (if refs = [] then []
     else order_by di_created_at (filter (\<lambda>d. di_source d = src \<and> di_source_ref d \<in> set refs) ds))"

text \<open>\<^verbatim>\<open>find_one_and_update\<close> on the document with the given id, if it also satisfies \<open>P\<close>.\<close>

definition find_and_update :: "oid \<Rightarrow> ('p delivery_intent \<Rightarrow> bool) \<Rightarrow> ('p delivery_intent \<Rightarrow> 'p delivery_intent) \<Rightarrow>
    'p delivery_intent list \<Rightarrow> 'p delivery_intent option \<times> 'p delivery_intent list" where
  "find_and_update i P g ds = (map_option g (first_row (filter (\<lambda>d. di_id d = i \<and> P d) ds)),
     update_where (\<lambda>d. di_id d = i \<and> P d) g ds)"

definition settled :: "delivery_status \<Rightarrow> bool" where
  "settled s \<longleftrightarrow> s \<in> {SENT, DEAD}"

definition mark_snapshot_sent :: "datetime \<Rightarrow> oid \<Rightarrow> message_ref \<Rightarrow> 'p delivery_intent list \<Rightarrow> 'p delivery_intent list" where
  "mark_snapshot_sent now i m ds = snd (find_and_update i (\<lambda>_. True)
     (\<lambda>d. d\<lparr>di_snapshot := Some m, di_updated_at := now\<rparr>) ds)"

definition claim_display :: "oid \<Rightarrow> datetime \<Rightarrow> 'p delivery_intent list \<Rightarrow> bool \<times> 'p delivery_intent list" where
  "claim_display i shown_at ds = (case find_and_update i
       (\<lambda>d. case di_shown_at d of None \<Rightarrow> True | Some t \<Rightarrow> t \<le> shown_at) (\<lambda>d. d\<lparr>di_shown_at := Some shown_at\<rparr>) ds of
     (found, ds') \<Rightarrow> (found \<noteq> None, ds'))"

definition mark_sending :: "datetime \<Rightarrow> oid \<Rightarrow> 'p delivery_intent list \<Rightarrow>
    'p delivery_intent option \<times> 'p delivery_intent list" where
  "mark_sending now i = find_and_update i (\<lambda>d. \<not> settled (di_status d))
     (\<lambda>d. d\<lparr>di_status := SENDING, di_attempt_started_at := Some now, di_updated_at := now\<rparr>)"

definition mark_sent :: "datetime \<Rightarrow> oid \<Rightarrow> message_ref option \<Rightarrow> 'p delivery_intent list \<Rightarrow> 'p delivery_intent list" where
  "mark_sent now i m ds = snd (find_and_update i (\<lambda>_. True)
     (\<lambda>d. d\<lparr>di_status := SENT, di_attempt_started_at := None, di_updated_at := now,
            di_telegram := (if m = None then di_telegram d else m), di_attempts := di_attempts d + 1\<rparr>) ds)"

definition mark_failed :: "datetime \<Rightarrow> oid \<Rightarrow> string \<Rightarrow> 'p delivery_intent list \<Rightarrow> 'p delivery_intent list" where
  "mark_failed now i err ds = snd (find_and_update i (\<lambda>_. True)
     (\<lambda>d. d\<lparr>di_status := FAILED, di_attempt_started_at := None, di_last_error := Some err, di_updated_at := now,
            di_attempts := di_attempts d + 1\<rparr>) ds)"

definition mark_dead :: "datetime \<Rightarrow> oid \<Rightarrow> string \<Rightarrow> 'p delivery_intent list \<Rightarrow> 'p delivery_intent list" where
  "mark_dead now i err ds = snd (find_and_update i (\<lambda>_. True)
     (\<lambda>d. d\<lparr>di_status := DEAD, di_attempt_started_at := None, di_last_error := Some err, di_updated_at := now\<rparr>) ds)"

definition mark_buffered :: "datetime \<Rightarrow> oid \<Rightarrow> string \<Rightarrow> 'p delivery_intent list \<Rightarrow> 'p delivery_intent list" where
  "mark_buffered now i err ds = snd (find_and_update i (\<lambda>d. \<not> settled (di_status d))
     (\<lambda>d. d\<lparr>di_status := BUFFERED, di_attempt_started_at := None, di_last_error := Some err, di_updated_at := now\<rparr>) ds)"

definition mark_requeued :: "datetime \<Rightarrow> oid \<Rightarrow> datetime \<Rightarrow> 'p delivery_intent list \<Rightarrow>
    'p delivery_intent option \<times> 'p delivery_intent list" where
  "mark_requeued now i cutoff = find_and_update i
     (\<lambda>d. di_status d \<in> {PENDING, SENDING} \<and> di_updated_at d < cutoff)
     (\<lambda>d. d\<lparr>di_status := PENDING, di_attempt_started_at := None, di_updated_at := now,
            di_requeue_count := di_requeue_count d + 1\<rparr>)"

text \<open>\<^verbatim>\<open>release_buffered\<close>: up to \<open>n\<close> times the oldest buffered document becomes pending.\<close>

fun release_buffered :: "datetime \<Rightarrow> nat \<Rightarrow> 'p delivery_intent list \<Rightarrow> 'p delivery_intent list \<times> 'p delivery_intent list" where
  "release_buffered now 0 ds = ([], ds)"
| "release_buffered now (Suc n) ds =
     (case first_row (order_by di_created_at (filter (\<lambda>d. di_status d = BUFFERED) ds)) of
       None \<Rightarrow> ([], ds)
     | Some d \<Rightarrow> (case release_buffered now n
           (update_where (\<lambda>e. di_id e = di_id d) (\<lambda>e. e\<lparr>di_status := PENDING, di_updated_at := now\<rparr>) ds) of
         (released, ds') \<Rightarrow> (d\<lparr>di_status := PENDING, di_updated_at := now\<rparr> # released, ds')))"

definition find_stale :: "delivery_status \<Rightarrow> datetime \<Rightarrow> nat \<Rightarrow> 'p delivery_intent list \<Rightarrow> 'p delivery_intent list" where
  "find_stale st cutoff limit ds = take limit (filter (\<lambda>d. di_status d = st \<and> di_updated_at d < cutoff) ds)"

definition dead_letter_of :: "datetime \<Rightarrow> 'p delivery_intent \<Rightarrow> nat \<Rightarrow> string \<Rightarrow> 'p dead_letter" where
  "dead_letter_of now d attempts err = \<lparr>dl_source = di_source d, dl_source_ref = di_source_ref d,
     dl_recipient = di_recipient d, dl_payload = di_payload d, dl_attempts = attempts, dl_last_error = err,
     dl_intent_id = di_id d, dl_created_at = now\<rparr>"

definition find_by_intent_id :: "oid \<Rightarrow> 'p dead_letter list \<Rightarrow> 'p dead_letter option" where
  "find_by_intent_id i ls = first_row (filter (\<lambda>l. dl_intent_id l = i) ls)"

section \<open>The gate and the lease\<close>

text \<open>A Redis key with an expiry: the value and the time it expires.\<close>

type_synonym 'v timed = "('v \<times> datetime) option"

definition timed_get :: "datetime \<Rightarrow> 'v timed \<Rightarrow> 'v option" where
  "timed_get now k = (case k of None \<Rightarrow> None | Some (v, t) \<Rightarrow> if now < t then Some v else None)"

text \<open>The gate's value is the time it was raised and the reason.\<close>

type_synonym gate = "(datetime \<times> string) timed"

definition gate_set :: "int \<Rightarrow> datetime \<Rightarrow> string \<Rightarrow> gate \<Rightarrow> gate" where
  "gate_set ttl now reason k = Some ((now, reason), now + seconds ttl)"

definition gate_refresh :: "int \<Rightarrow> datetime \<Rightarrow> gate \<Rightarrow> gate" where
  "gate_refresh ttl now k = map_option (\<lambda>v. (v, now + seconds ttl)) (timed_get now k)"

definition gate_clear :: "gate \<Rightarrow> gate" where
  "gate_clear k = None"

definition gate_is_raised :: "datetime \<Rightarrow> gate \<Rightarrow> bool" where
  "gate_is_raised now k \<longleftrightarrow> timed_get now k \<noteq> None"

definition lease_acquire :: "datetime \<Rightarrow> int \<Rightarrow> string \<Rightarrow> string timed \<Rightarrow> bool \<times> string timed" where
  "lease_acquire now ttl_ms owner k = (if timed_get now k = None then (True, Some (owner, now + ttl_ms * 1000)) else (False, k))"

definition lease_renew :: "datetime \<Rightarrow> int \<Rightarrow> string \<Rightarrow> string timed \<Rightarrow> bool \<times> string timed" where
  "lease_renew now ttl_ms owner k =
     (if timed_get now k = Some owner then (True, Some (owner, now + ttl_ms * 1000)) else (False, k))"

definition lease_release :: "datetime \<Rightarrow> string \<Rightarrow> string timed \<Rightarrow> string timed" where
  "lease_release now owner k = (if timed_get now k = Some owner then None else k)"

end
