(* ===== verification/DecisionToken.thy ===== *)
theory DecisionToken
  imports Sha256 PyText
begin

text \<open>
  The signed tokens on the decision buttons
  (\<^verbatim>\<open>services/notification/app/shared/decision_token.py\<close>): URL-safe base64 without padding,
  the packed claim, its truncated HMAC, signing and verification.  The key is an argument;
  \<open>None\<close> where the key file is not readable as 32 hexadecimal bytes.
\<close>

section \<open>Base64\<close>

definition B64 :: string where
  "B64 = ''ABCDEFGHIJKLMNOPQRSTUVWXYZabcdefghijklmnopqrstuvwxyz0123456789-_''"

fun index_of :: "'a \<Rightarrow> 'a list \<Rightarrow> nat option" where
  "index_of c [] = None"
| "index_of c (x # xs) = (if c = x then Some 0 else map_option Suc (index_of c xs))"

fun b64_encode :: "bytes \<Rightarrow> string" where
  "b64_encode [] = ''''"
| "b64_encode [a] = [B64 ! (unat a div 4), B64 ! (unat a mod 4 * 16)]"
| "b64_encode [a, b] = [B64 ! (unat a div 4), B64 ! (unat a mod 4 * 16 + unat b div 16), B64 ! (unat b mod 16 * 4)]"
| "b64_encode (a # b # c # rest) = B64 ! (unat a div 4) # B64 ! (unat a mod 4 * 16 + unat b div 16) #
     B64 ! (unat b mod 16 * 4 + unat c div 64) # B64 ! (unat c mod 64) # b64_encode rest"

fun b64_digits :: "nat list \<Rightarrow> bytes option" where
  "b64_digits [] = Some []"
| "b64_digits [_] = None"
| "b64_digits [i, j] = Some [word_of_nat (i * 4 + j div 16)]"
| "b64_digits [i, j, k] = Some [word_of_nat (i * 4 + j div 16), word_of_nat (j mod 16 * 16 + k div 4)]"
| "b64_digits (i # j # k # l # rest) = map_option (\<lambda>bs. word_of_nat (i * 4 + j div 16) #
     word_of_nat (j mod 16 * 16 + k div 4) # word_of_nat (k mod 4 * 64 + l) # bs) (b64_digits rest)"

fun all_some :: "'a option list \<Rightarrow> 'a list option" where
  "all_some [] = Some []"
| "all_some (None # xs) = None"
| "all_some (Some x # xs) = map_option ((#) x) (all_some xs)"

definition b64_decode :: "string \<Rightarrow> bytes option" where
  "b64_decode s = (case all_some (map (\<lambda>c. index_of c B64) s) of None \<Rightarrow> None | Some is \<Rightarrow> b64_digits is)"

lemma index_B64: "i < 64 \<Longrightarrow> index_of (B64 ! i) B64 = Some i"
proof -
  have "\<forall>i \<in> set [0 ..< 64]. index_of (B64 ! i) B64 = Some i" by code_simp
  then show "i < 64 \<Longrightarrow> index_of (B64 ! i) B64 = Some i" by simp
qed

fun b64_split :: "bytes \<Rightarrow> nat list" where
  "b64_split [] = []"
| "b64_split [a] = [unat a div 4, unat a mod 4 * 16]"
| "b64_split [a, b] = [unat a div 4, unat a mod 4 * 16 + unat b div 16, unat b mod 16 * 4]"
| "b64_split (a # b # c # rest) = unat a div 4 # (unat a mod 4 * 16 + unat b div 16) #
     (unat b mod 16 * 4 + unat c div 64) # unat c mod 64 # b64_split rest"

lemma unat_byte: "unat (b :: byte) < 256"
  using unsigned_less[of b] by simp

lemma b64_split_bound: "i \<in> set (b64_split bs) \<Longrightarrow> i < 64"
proof (induction bs rule: b64_split.induct)
  case (4 a b c rest)
  then show ?case using unat_byte[of a] unat_byte[of b] unat_byte[of c] by auto
next
  case (2 a)
  then show ?case using unat_byte[of a] by auto
next
  case (3 a b)
  then show ?case using unat_byte[of a] unat_byte[of b] by auto
qed simp

lemma b64_encode_split: "b64_encode bs = map ((!) B64) (b64_split bs)"
  by (induction bs rule: b64_encode.induct) simp_all

lemma all_some_map: "(\<And>x. x \<in> set xs \<Longrightarrow> f x = Some (g x)) \<Longrightarrow> all_some (map f xs) = Some (map g xs)"
  by (induction xs) simp_all

lemma byte_of_parts:
  "(unat (a :: byte) div 4 * 4 + (unat a mod 4 * 16 + m) div 16) = unat a" if "m < 16"
proof -
  have "(unat a mod 4 * 16 + m) div 16 = unat a mod 4" using that by simp
  then show ?thesis by (metis mult.commute div_mult_mod_eq)
qed

lemma b64_digits_split: "b64_digits (b64_split bs) = Some bs"
proof (induction bs rule: b64_split.induct)
  case (4 a b c rest)
  have "unat b div 16 < 16" "unat c div 64 < 4" using unat_byte[of b] unat_byte[of c] by auto
  then have "(unat a mod 4 * 16 + unat b div 16) mod 16 = unat b div 16"
    "(unat b mod 16 * 4 + unat c div 64) div 4 = unat b mod 16" "(unat b mod 16 * 4 + unat c div 64) mod 4 = unat c div 64"
    by simp_all
  moreover have "unat a div 4 * 4 + (unat a mod 4 * 16 + unat b div 16) div 16 = unat a"
    by (rule byte_of_parts) fact
  moreover have "unat b div 16 * 16 + unat b mod 16 = unat b" "unat c div 64 * 64 + unat c mod 64 = unat c" by simp_all
  ultimately show ?case using 4 by simp
next
  case (2 a)
  have "unat a div 4 * 4 + unat a mod 4 * 16 div 16 = unat a" using byte_of_parts[of 0 a] by simp
  then show ?case by simp
next
  case (3 a b)
  have "unat b div 16 < 16" using unat_byte[of b] by auto
  then have "(unat a mod 4 * 16 + unat b div 16) mod 16 = unat b div 16" by simp
  moreover have "unat a div 4 * 4 + (unat a mod 4 * 16 + unat b div 16) div 16 = unat a"
    by (rule byte_of_parts) fact
  moreover have "unat b div 16 * 16 + unat b mod 16 * 4 div 4 = unat b" by simp
  ultimately show ?case by simp
qed simp

lemma b64_decode_encode: "b64_decode (b64_encode bs) = Some bs"
proof -
  have "all_some (map (\<lambda>c. index_of c B64) (b64_encode bs)) = Some (b64_split bs)"
    unfolding b64_encode_split map_map comp_def
    using all_some_map[of "b64_split bs" "\<lambda>i. index_of (B64 ! i) B64" id] index_B64 b64_split_bound by simp
  then show ?thesis by (simp add: b64_decode_def b64_digits_split)
qed

lemma length_b64_encode: "length (b64_encode bs) = (4 * length bs + 2) div 3"
  by (induction bs rule: b64_encode.induct) auto

section \<open>Tokens\<close>

datatype button_decision = CONFIRMED | DISMISSED | UNSURE

fun decision_code :: "button_decision \<Rightarrow> nat" where
  "decision_code CONFIRMED = 1" | "decision_code DISMISSED = 2" | "decision_code UNSURE = 3"

definition decision_of_code :: "nat \<Rightarrow> button_decision option" where
  "decision_of_code n = (if n = 1 then Some CONFIRMED else if n = 2 then Some DISMISSED else if n = 3 then Some UNSURE else None)"

fun decision_wire :: "button_decision \<Rightarrow> string" where
  "decision_wire CONFIRMED = ''DECISION_CONFIRMED''" | "decision_wire DISMISSED = ''DECISION_DISMISSED''"
| "decision_wire UNSURE = ''DECISION_UNSURE''"

fun decision_label :: "button_decision \<Rightarrow> string" where
  "decision_label CONFIRMED = ''confirmed''" | "decision_label DISMISSED = ''dismissed''" | "decision_label UNSURE = ''unsure''"

record button_claim =
  bc_intent_id :: string
  bc_decision :: button_decision
  bc_expires_at :: nat

definition TOKEN_VERSION :: nat where "TOKEN_VERSION = 1"
definition TOKEN_CONTEXT :: bytes where "TOKEN_CONTEXT = utf8 ''theft-detection-platform/telegram-decision''"
definition TAG_BYTES :: nat where "TAG_BYTES = 16"
definition BODY_BYTES :: nat where "BODY_BYTES = 18"
definition TOKEN_CHARS :: nat where "TOKEN_CHARS = 46"

definition callback_key :: "(string \<Rightarrow> bytes option) \<Rightarrow> string option \<Rightarrow> bytes option" where
  "callback_key fromhex file = (case file of None \<Rightarrow> None
     | Some text \<Rightarrow> (case fromhex (strip_chars is_white text) of None \<Rightarrow> None
       | Some key \<Rightarrow> if length key = 32 then Some key else None))"

definition token_tag :: "bytes \<Rightarrow> bytes \<Rightarrow> bytes" where
  "token_tag key body = take TAG_BYTES (hmac_sha256 key (TOKEN_CONTEXT @ body))"

definition pack_body :: "nat \<Rightarrow> nat \<Rightarrow> nat \<Rightarrow> bytes \<Rightarrow> bytes" where
  "pack_body version code expires_at oid = [word_of_nat version, word_of_nat code] @ be_bytes 4 expires_at @ oid"

definition unpack_body :: "bytes \<Rightarrow> nat \<times> nat \<times> nat \<times> bytes" where
  "unpack_body body = (unat (body ! 0), unat (body ! 1), be_value (take 4 (drop 2 body)), take 12 (drop 6 body))"

datatype token_error = InvalidId | StructError | Malformed | UnknownVersion | BadSignature | Expired

text \<open>\<^verbatim>\<open>ObjectId(text).binary\<close> and \<^verbatim>\<open>str(ObjectId(bytes))\<close> of the bson package are arguments.\<close>

definition sign_token :: "(string \<Rightarrow> bytes option) \<Rightarrow> bytes \<Rightarrow> int \<Rightarrow> string \<Rightarrow> button_decision \<Rightarrow> int \<Rightarrow> token_error + string" where
  "sign_token object_id key ttl intent_id d now = (case object_id intent_id of None \<Rightarrow> Inl InvalidId
   | Some oid \<Rightarrow> let expires_at = now + ttl in
       if expires_at < 0 \<or> 2 ^ 32 \<le> expires_at then Inl StructError
       else let body = pack_body TOKEN_VERSION (decision_code d) (nat expires_at) oid
         in Inr (b64_encode (body @ token_tag key body)))"

definition verify_token :: "(bytes \<Rightarrow> string) \<Rightarrow> bytes \<Rightarrow> int \<Rightarrow> string \<Rightarrow> token_error + button_claim" where
  "verify_token oid_text key now token =
     (if length token \<noteq> TOKEN_CHARS then Inl Malformed
      else case b64_decode token of None \<Rightarrow> Inl Malformed
      | Some raw \<Rightarrow>
        if length raw \<noteq> BODY_BYTES + TAG_BYTES \<or> b64_encode raw \<noteq> token then Inl Malformed
        else let body = take BODY_BYTES raw; tag = drop BODY_BYTES raw
          in case unpack_body body of (version, code, expires_at, oid) \<Rightarrow>
            if version \<noteq> TOKEN_VERSION then Inl UnknownVersion
            else if tag \<noteq> token_tag key body then Inl BadSignature
            else case decision_of_code code of None \<Rightarrow> Inl Malformed
            | Some d \<Rightarrow> if now > int expires_at then Inl Expired
                else Inr \<lparr>bc_intent_id = oid_text oid, bc_decision = d, bc_expires_at = expires_at\<rparr>)"

text \<open>The keyboard is built button by button; the first error ends it.\<close>

definition decision_button :: "(string \<Rightarrow> bytes option) \<Rightarrow> bytes \<Rightarrow> int \<Rightarrow> string \<Rightarrow> int \<Rightarrow> button_decision \<Rightarrow>
    token_error + string \<times> string" where
  "decision_button object_id key ttl intent_id issued d =
     rbind (sign_token object_id key ttl intent_id d issued) (\<lambda>t. Inr (decision_label d, t))"

definition decision_keyboard :: "(string \<Rightarrow> bytes option) \<Rightarrow> bytes \<Rightarrow> int \<Rightarrow> string \<Rightarrow> int \<Rightarrow>
    token_error + (string \<times> string) list list" where
  "decision_keyboard object_id key ttl intent_id issued = (let button = decision_button object_id key ttl intent_id issued in
     rbind (button CONFIRMED) (\<lambda>a. rbind (button DISMISSED) (\<lambda>b. rbind (button UNSURE) (\<lambda>c. Inr [[a], [b, c]]))))"

section \<open>Properties\<close>

lemma length_token_tag [simp]: "length (token_tag key body) = 16"
  by (simp add: token_tag_def TAG_BYTES_def)

lemma length_pack_body [simp]: "length oid = 12 \<Longrightarrow> length (pack_body v c e oid) = 18"
  by (simp add: pack_body_def)

lemma unpack_pack:
  "v < 256 \<Longrightarrow> c < 256 \<Longrightarrow> e < 2 ^ 32 \<Longrightarrow> length oid = 12 \<Longrightarrow> unpack_body (pack_body v c e oid) = (v, c, e, oid)"
  using be_value_be_bytes[of e 4] by (simp add: unpack_body_def pack_body_def unat_of_nat)

lemma be_value_bound: "be_value bs < 256 ^ length bs"
proof (induction bs rule: rev_induct)
  case (snoc b bs)
  then have "be_value bs + 1 \<le> 256 ^ length bs" by simp
  then have "(be_value bs + 1) * 256 \<le> 256 ^ length bs * 256" by (rule mult_le_mono1)
  then show ?case using unat_byte[of b] by (simp add: be_value_append)
qed (simp add: be_value_def)

lemma be_bytes_be_value: "be_bytes (length bs) (be_value bs) = bs"
proof (induction bs rule: rev_induct)
  case (snoc b bs)
  have "(be_value bs * 256 + unat b) div 256 = be_value bs" using unat_byte[of b] by simp
  moreover have "word_of_nat (be_value bs * 256 + unat b) = b"
  proof -
    have "unat (word_of_nat n :: byte) = n mod 256" for n by (simp add: unat_of_nat)
    then have "unat (word_of_nat (be_value bs * 256 + unat b) :: byte) = unat b"
      using unat_byte[of b] by (simp only: mod_mult_self3 mod_less)
    then show ?thesis by (simp only: word_unat_eq_iff)
  qed
  ultimately show ?case using snoc by (simp add: be_value_append)
qed (simp add: be_value_def)

lemma pack_unpack:
  assumes "length body = 18" "unpack_body body = (v, c, e, oid)"
  shows "body = pack_body v c e oid \<and> length oid = 12 \<and> e < 2 ^ 32"
proof -
  obtain b0 b1 rest where b: "body = b0 # b1 # rest" "length rest = 16"
  proof (cases body)
    case (Cons b0 r)
    then show ?thesis using assms(1) that by (cases r) auto
  qed (use assms(1) in simp)
  have "length (take 4 rest) = 4" using b by simp
  then have "be_bytes 4 (be_value (take 4 rest)) = take 4 rest" "be_value (take 4 rest) < 256 ^ 4"
    using be_bytes_be_value[of "take 4 rest"] be_value_bound[of "take 4 rest"] by simp_all
  moreover have "v = unat b0" "c = unat b1" "e = be_value (take 4 rest)" "oid = drop 4 rest"
    using assms(2) b by (auto simp: unpack_body_def numeral_eq_Suc)
  ultimately show ?thesis using b by (simp add: pack_body_def)
qed

lemma decision_code_inverse:
  "decision_of_code n = Some d \<longleftrightarrow> n = decision_code d"
  by (cases d) (auto simp: decision_of_code_def)

text \<open>The token of a claim, and what signing and verifying say of it.\<close>

definition token_for :: "bytes \<Rightarrow> bytes \<Rightarrow> button_decision \<Rightarrow> nat \<Rightarrow> string" where
  "token_for key oid d e = (let body = pack_body TOKEN_VERSION (decision_code d) e oid
     in b64_encode (body @ token_tag key body))"

lemma sign_token_Inr:
  "object_id s = Some oid \<Longrightarrow> 0 \<le> now + ttl \<Longrightarrow> now + ttl < 2 ^ 32 \<Longrightarrow>
     sign_token object_id key ttl s d now = Inr (token_for key oid d (nat (now + ttl)))"
  by (simp add: sign_token_def token_for_def Let_def)

lemma verify_token_for:
  assumes "length oid = 12" "e < 2 ^ 32"
  shows "verify_token oid_text key now (token_for key oid d e) =
    (if now > int e then Inl Expired else Inr \<lparr>bc_intent_id = oid_text oid, bc_decision = d, bc_expires_at = e\<rparr>)"
proof -
  have "decision_code d < 256" by (cases d) simp_all
  then have "unpack_body (pack_body TOKEN_VERSION (decision_code d) e oid) = (TOKEN_VERSION, decision_code d, e, oid)"
    using assms by (simp add: unpack_pack TOKEN_VERSION_def)
  then show ?thesis using assms
    by (simp add: verify_token_def token_for_def Let_def length_b64_encode b64_decode_encode
        TOKEN_CHARS_def BODY_BYTES_def TAG_BYTES_def decision_code_inverse[THEN iffD2])
qed

lemma verify_token_Inr:
  assumes "verify_token oid_text key now t = Inr claim"
  obtains oid where "length oid = 12" "bc_expires_at claim < 2 ^ 32" "bc_intent_id claim = oid_text oid"
    "now \<le> int (bc_expires_at claim)" "t = token_for key oid (bc_decision claim) (bc_expires_at claim)"
proof -
  obtain raw where raw: "length raw = 34" "b64_encode raw = t"
    and v: "verify_token oid_text key now t = (case unpack_body (take 18 raw) of (version, code, expires_at, oid) \<Rightarrow>
            if version \<noteq> TOKEN_VERSION then Inl UnknownVersion
            else if drop 18 raw \<noteq> token_tag key (take 18 raw) then Inl BadSignature
            else case decision_of_code code of None \<Rightarrow> Inl Malformed
            | Some d \<Rightarrow> if now > int expires_at then Inl Expired
                else Inr \<lparr>bc_intent_id = oid_text oid, bc_decision = d, bc_expires_at = expires_at\<rparr>)"
    using assms unfolding verify_token_def BODY_BYTES_def TAG_BYTES_def
    by (auto simp: Let_def split: if_splits option.splits)
  obtain version code e oid where u: "unpack_body (take 18 raw) = (version, code, e, oid)"
    by (cases "unpack_body (take 18 raw)") auto
  have tag: "version = TOKEN_VERSION" "drop 18 raw = token_tag key (take 18 raw)"
    and c: "code = decision_code (bc_decision claim)" "e = bc_expires_at claim"
      "bc_intent_id claim = oid_text oid" "now \<le> int e"
    using assms v u by (auto split: if_splits option.splits simp: decision_code_inverse)
  have p: "take 18 raw = pack_body version code e oid \<and> length oid = 12 \<and> e < 2 ^ 32"
    by (rule pack_unpack[OF _ u]) (simp add: raw)
  have "raw = take 18 raw @ drop 18 raw" by simp
  then have "t = token_for key oid (bc_decision claim) e"
    using raw p tag c by (simp add: token_for_def Let_def)
  then show thesis using that p c by auto
qed

text \<open>C24: A button's token is one that Telegram accepts as callback data (46 characters, at most 64
  bytes) and, presented to the service before its deadline, yields exactly the intent, the
  decision and the deadline it was signed for; presented later it is refused as expired.\<close>

theorem decision_token_roundtrip:
  assumes "object_id intent_id = Some oid" "length oid = 12" "0 \<le> now + ttl" "now + ttl < 2 ^ 32"
  shows "\<exists>t. sign_token object_id key ttl intent_id d now = Inr t \<and> length t = 46 \<and>
    verify_token oid_text key later t = (if later > now + ttl then Inl Expired
      else Inr \<lparr>bc_intent_id = oid_text oid, bc_decision = d, bc_expires_at = nat (now + ttl)\<rparr>)"
proof -
  have "nat (now + ttl) < 2 ^ 32" using assms(3,4) by (simp add: nat_less_iff)
  moreover have "length (token_for key oid d e) = 46" for e
    using assms(2) by (simp add: token_for_def Let_def length_b64_encode)
  ultimately show ?thesis
    using sign_token_Inr[of object_id intent_id oid now ttl key d] verify_token_for[of oid "nat (now + ttl)" oid_text key later d] assms
    by simp
qed

definition sample_oid :: "string \<Rightarrow> bytes option" where
  "sample_oid s = (if length s = 12 then Some (utf8 s) else None)"

theorem decision_token_roundtrip_witness:
  "\<exists>t. sign_token sample_oid (replicate 32 7) 3600 ''abcdefghijkl'' UNSURE 1700000000 = Inr t \<and> length t = 46 \<and>
    verify_token hex (replicate 32 7) 1700000100 t =
      Inr \<lparr>bc_intent_id = hex (utf8 ''abcdefghijkl''), bc_decision = UNSURE, bc_expires_at = 1700003600\<rparr>"
proof -
  have "sample_oid ''abcdefghijkl'' = Some (utf8 ''abcdefghijkl'')" by (simp add: sample_oid_def)
  from decision_token_roundtrip[where object_id = sample_oid and intent_id = "''abcdefghijkl''", OF this, where now = 1700000000 and ttl = 3600 and d = UNSURE
      and key = "replicate 32 7" and later = 1700000100 and oid_text = hex]
  show ?thesis by simp
qed

text \<open>A presented token is accepted only if it is, character by character, the token the service
  itself signs under its key for the claim it yields, and its deadline has not passed: no
  second spelling of a token is accepted, and no claim without the tag the key gives it.\<close>

lemma decision_token_unforgeable:
  assumes "verify_token oid_text key now t = Inr claim"
    and "\<And>oid. length oid = 12 \<Longrightarrow> object_id (oid_text oid) = Some oid"
  shows "now \<le> int (bc_expires_at claim) \<and>
    sign_token object_id key ttl (bc_intent_id claim) (bc_decision claim) (int (bc_expires_at claim) - ttl) = Inr t"
proof -
  obtain oid where "length oid = 12" "bc_expires_at claim < 2 ^ 32" "bc_intent_id claim = oid_text oid"
    "now \<le> int (bc_expires_at claim)" "t = token_for key oid (bc_decision claim) (bc_expires_at claim)"
    using verify_token_Inr[OF assms(1)] .
  then show ?thesis using assms(2) by (simp add: sign_token_Inr)
qed

definition sample_oid_text :: "bytes \<Rightarrow> string" where
  "sample_oid_text bs = map (\<lambda>b. char_of (unat b)) bs"

end
