(* ===== verification/NotifyTelegram.thy ===== *)
theory NotifyTelegram
  imports NotifyStore DecisionToken
begin

text \<open>
  The Telegram client (\<^verbatim>\<open>services/notification/app/shared/telegram_service.py\<close>) and the texts it
  sends (\<^verbatim>\<open>app/worker/renderers.py\<close>, \<^verbatim>\<open>app/shared/schemas/alertmanager.py\<close>).  The HTTP exchange
  is an oracle: the reply to a request depends on how many were made before.  Every request
  is appended to a log.  The file system under the snapshot directory is an argument that may
  change at every pause of the worker.
\<close>

section \<open>Errors, replies and requests\<close>

datatype tg_error = Unreachable string | Transient string "nat option" | Permanent string string

fun error_text :: "tg_error \<Rightarrow> string" where
  "error_text (Unreachable m) = m" | "error_text (Transient m _) = m" | "error_text (Permanent m _) = m"

record sent_message =
  sm_chat_id :: int
  sm_message_id :: int
  sm_kind :: message_kind

text \<open>The body of a reply, as far as the client reads it; the result is \<open>None\<close> where it has not
  the shape of a message.\<close>

record tg_body =
  tb_ok :: bool
  tb_description :: string
  tb_retry_after :: "nat option"
  tb_result :: "(int \<times> int) option"

datatype http_reply = TransportError string | HttpReply nat "tg_body option"

definition empty_body :: tg_body where
  "empty_body = \<lparr>tb_ok = False, tb_description = '''', tb_retry_after = None, tb_result = None\<rparr>"

type_synonym keyboard = "(string \<times> string) list list"
type_synonym path = "string list"

datatype tg_request =
    SendMessage string string keyboard
  | SendPhoto string string keyboard path
  | SendVideo string string keyboard "(nat \<times> nat) option" path "path option"
  | EditText int int string keyboard
  | EditCaption int int string keyboard
  | EditMarkup int int
  | AnswerCallback string string bool
  | GetMe

fun method_of :: "tg_request \<Rightarrow> string" where
  "method_of (SendMessage _ _ _) = ''sendMessage''"
| "method_of (SendPhoto _ _ _ _) = ''sendPhoto''"
| "method_of (SendVideo _ _ _ _ _ _) = ''sendVideo''"
| "method_of (EditText _ _ _ _) = ''editMessageText''"
| "method_of (EditCaption _ _ _ _) = ''editMessageCaption''"
| "method_of (EditMarkup _ _) = ''editMessageReplyMarkup''"
| "method_of (AnswerCallback _ _ _) = ''answerCallbackQuery''"
| "method_of GetMe = ''getMe''"

text \<open>\<^verbatim>\<open>_TELEGRAM_TOKEN_URL.sub(...)\<close>: every \<^verbatim>\<open>/bot\<close>, one or more characters other than a slash, slash.\<close>

definition not_slash :: "char \<Rightarrow> bool" where
  "not_slash c \<longleftrightarrow> c \<noteq> CHR ''/''"

definition token_url_at :: "string \<Rightarrow> string option" where
  "token_url_at s = (let r = drop 4 s; name = takeWhile not_slash r; rest = dropWhile not_slash r
     in if starts_with ''/bot'' s \<and> name \<noteq> [] \<and> rest \<noteq> [] then Some (drop 1 rest) else None)"

lemma token_url_at_shorter: "token_url_at s = Some r \<Longrightarrow> length r < length s"
proof -
  assume a: "token_url_at s = Some r"
  have "length (dropWhile not_slash (drop 4 s)) \<le> length s - 4" using length_dropWhile_le[of not_slash "drop 4 s"] by simp
  moreover have "takeWhile not_slash (drop 4 s) \<noteq> []" "r = drop 1 (dropWhile not_slash (drop 4 s))"
    using a by (simp_all add: token_url_at_def Let_def split: if_splits)
  moreover from this have "s \<noteq> []" by auto
  ultimately show ?thesis by (cases s) auto
qed

function scrub :: "string \<Rightarrow> string" where
  "scrub s = (case token_url_at s of Some r \<Rightarrow> ''/bot<redacted>/'' @ scrub r
     | None \<Rightarrow> (case s of [] \<Rightarrow> [] | c # cs \<Rightarrow> c # scrub cs))"
  by auto
termination by (relation "measure length") (auto simp: token_url_at_shorter)

declare scrub.simps [simp del]

text \<open>\<^verbatim>\<open>_call\<close>: what a reply to a method means.\<close>

definition call_result :: "string \<Rightarrow> http_reply \<Rightarrow> tg_error + (int \<times> int) option" where
  "call_result method r = (case r of
     TransportError name \<Rightarrow> Inl (Unreachable (scrub (method @ '': '' @ name)))
   | HttpReply status json \<Rightarrow>
       let body = (case json of None \<Rightarrow> empty_body | Some b \<Rightarrow> b) in
       if status = 429 \<or> 500 \<le> status
       then Inl (Transient (method @ '': http '' @ str_nat status) (tb_retry_after body))
       else if \<not> tb_ok body
       then Inl (Permanent (scrub (strip_chars is_white (method @ '': http '' @ str_nat status @ '' '' @ tb_description body)))
              (tb_description body))
       else Inr (tb_result body))"

definition sent_of :: "message_kind \<Rightarrow> (int \<times> int) option \<Rightarrow> tg_error + sent_message" where
  "sent_of k r = (case r of
     None \<Rightarrow> Inl (Permanent ''unexpected reply shape from telegram'' '''')
   | Some (c, m) \<Rightarrow> Inr \<lparr>sm_chat_id = c, sm_message_id = m, sm_kind = k\<rparr>)"

section \<open>Media\<close>

record media_file =
  mf_size :: nat
  mf_readable :: bool

text \<open>\<^verbatim>\<open>Path.resolve\<close> (symbolic links followed, whatever they are) and the regular files.\<close>

record file_system =
  fs_resolve :: "path \<Rightarrow> path"
  fs_file :: "path \<Rightarrow> media_file option"

definition path_name :: "string \<Rightarrow> string" where
  "path_name s = (case filter (\<lambda>p. p \<noteq> '''' \<and> p \<noteq> ''.'') (split_on CHR ''/'' s) of [] \<Rightarrow> '''' | ps \<Rightarrow> last ps)"

definition path_stem_suffix :: "string \<Rightarrow> string \<times> string" where
  "path_stem_suffix s = (let name = path_name s in case rfind_char CHR ''.'' name of
     None \<Rightarrow> (name, '''')
   | Some i \<Rightarrow> if 0 < i \<and> i < length name - 1 then (take i name, drop i name) else (name, ''''))"

definition resolve_media :: "path \<Rightarrow> file_system \<Rightarrow> string \<Rightarrow> path option" where
  "resolve_media snapshots fs stored =
     (if stored = '''' then None
      else let root = fs_resolve fs snapshots;
               name = path_name stored;
               candidate = fs_resolve fs (if name = '''' then root else root @ [name])
           in if butlast candidate \<noteq> root \<or> fs_file fs candidate = None then None else Some candidate)"

definition clip_missing :: "path \<Rightarrow> file_system \<Rightarrow> string \<Rightarrow> bool" where
  "clip_missing snapshots fs stored \<longleftrightarrow> resolve_media snapshots fs stored = None"

definition prefer_annotated :: "path \<Rightarrow> string \<Rightarrow> file_system \<Rightarrow> string \<Rightarrow> string" where
  "prefer_annotated snapshots annotated fs stored =
     (if stored = '''' then stored
      else case path_stem_suffix stored of (stem, suffix) \<Rightarrow>
        let candidate = stem @ annotated @ suffix
        in if resolve_media snapshots fs candidate = None then stored else candidate)"

lemma resolve_media_confined:
  "resolve_media snapshots fs stored = Some p \<Longrightarrow> butlast p = fs_resolve fs snapshots \<and> fs_file fs p \<noteq> None"
  by (auto simp: resolve_media_def Let_def split: if_splits)

end
