(* ===== verification/NotifyWorker.thy ===== *)
theory NotifyWorker
  imports NotifyTelegram
begin

text \<open>
  The notification worker (\<^verbatim>\<open>services/notification/app/worker/tasks.py\<close>): rendering, delivery of an
  intent over Telegram, the reconciler, the delivery gate's probe and the display of decisions.
  An action takes the world to a result or a Telegram error and a new world.
  One task reads the clock once; file reads see the file system of the current pause.
\<close>

section \<open>The world\<close>

datatype alert_severity = SevUnspecified | SevInfo | SevNotice | SevWarning | SevCritical

datatype alert_type = ALERT_TYPE_UNSPECIFIED | ALERT_TYPE_OBJECT_PROXIMITY | ALERT_TYPE_CONCEALMENT | ALERT_TYPE_LOITERING

record alert_message =
  am_alert_id :: string
  am_occurred_at :: datetime
  am_camera_id :: "string option"
  am_object_class :: "string option"
  am_severity :: alert_severity
  am_alert_type :: alert_type
  am_snapshot_path :: "string option"
  am_clip_path :: "string option"

record alertmanager_webhook =
  aw_group_key :: string
  aw_firing :: bool
  aw_group_labels :: "(string \<times> string) list"
  aw_common_labels :: "(string \<times> string) list"
  aw_common_annotations :: "(string \<times> string) list"
  aw_alerts :: "bool list"

text \<open>A stored payload, as the two schemas read it; any other document fails validation with a text.\<close>

datatype payload = AlertDoc alert_message | WebhookDoc alertmanager_webhook | InvalidDoc string

datatype notify_task = SendAlertTask oid | ApplyDecisionTask string string string datetime

record notify_settings =
  ns_token :: string
  ns_chat_id :: string
  ns_caption_max :: nat
  ns_video_max :: nat
  ns_snapshots :: path
  ns_annotated :: string
  ns_button_ttl :: int
  ns_gate_ttl :: int
  ns_gate_drain :: nat
  ns_max_requeues :: nat
  ns_sending_timeout :: int
  ns_pending_timeout :: int
  ns_clip_wait :: int
  ns_clip_poll :: int
  ns_max_retries :: nat
  ns_reconciler_enabled :: bool

record notify_env =
  ne_now :: datetime
  ne_net :: "nat \<Rightarrow> http_reply"
  ne_fs :: "nat \<Rightarrow> file_system"
  ne_callback_key :: "bytes option"
  ne_object_id :: "string \<Rightarrow> bytes option"
  ne_oid_text :: "oid \<Rightarrow> string"
  ne_bytes_text :: "bytes \<Rightarrow> string"
  ne_isoformat :: "datetime \<Rightarrow> string"
  ne_minute :: "datetime \<Rightarrow> string"

record notify_world =
  nw_intents :: "payload delivery_intent list"
  nw_letters :: "payload dead_letter list"
  nw_gate :: gate
  nw_log :: "tg_request list"
  nw_queue :: "notify_task list"
  nw_polls :: nat

type_synonym 'a tg = "notify_world \<Rightarrow> (tg_error + 'a) \<times> notify_world"

definition tg_return :: "'a \<Rightarrow> 'a tg" where
  "tg_return x = (\<lambda>w. (Inr x, w))"

definition tg_bind :: "'a tg \<Rightarrow> ('a \<Rightarrow> 'b tg) \<Rightarrow> 'b tg" where
  "tg_bind m f = (\<lambda>w. case m w of (Inl e, w') \<Rightarrow> (Inl e, w') | (Inr x, w') \<Rightarrow> f x w')"

definition tg_lift :: "tg_error + 'a \<Rightarrow> 'a tg" where
  "tg_lift r = (\<lambda>w. (r, w))"

section \<open>Texts\<close>

fun severity_name :: "alert_severity \<Rightarrow> string" where
  "severity_name SevUnspecified = ''SEVERITY_UNSPECIFIED''" | "severity_name SevInfo = ''SEVERITY_INFO''"
| "severity_name SevNotice = ''SEVERITY_NOTICE''" | "severity_name SevWarning = ''SEVERITY_WARNING''"
| "severity_name SevCritical = ''SEVERITY_CRITICAL''"

fun alert_type_name :: "alert_type \<Rightarrow> string" where
  "alert_type_name ALERT_TYPE_UNSPECIFIED = ''ALERT_TYPE_UNSPECIFIED''"
| "alert_type_name ALERT_TYPE_OBJECT_PROXIMITY = ''ALERT_TYPE_OBJECT_PROXIMITY''"
| "alert_type_name ALERT_TYPE_CONCEALMENT = ''ALERT_TYPE_CONCEALMENT''"
| "alert_type_name ALERT_TYPE_LOITERING = ''ALERT_TYPE_LOITERING''"

definition readable :: "string \<Rightarrow> string \<Rightarrow> string" where
  "readable prefix name = map (\<lambda>c. if c = CHR ''_'' then CHR '' '' else lower_char c) (replace_empty prefix name)"

definition newline :: string where
  "newline = [CHR 0x0A]"

definition nonempty :: "string option \<Rightarrow> string option" where
  "nonempty x = (if x = Some '''' then None else x)"

definition render_alert :: "notify_env \<Rightarrow> alert_message \<Rightarrow> string \<times> string option \<times> string option" where
  "render_alert E a = (let
       what = (if am_alert_type a = ALERT_TYPE_CONCEALMENT then ''possible concealment''
               else case am_object_class a of Some c \<Rightarrow> ''person near '' @ c
               | None \<Rightarrow> readable ''ALERT_TYPE_'' (alert_type_name (am_alert_type a)));
       camera_id = (case nonempty (am_camera_id a) of None \<Rightarrow> ''default'' | Some c \<Rightarrow> c);
       text = ''<b>theft-detection alert, '' @ readable ''SEVERITY_'' (severity_name (am_severity a)) @ ''</b>'' @ newline
            @ what @ newline @ ''camera: <code>'' @ camera_id @ ''</code>'' @ newline
            @ ''time: '' @ ne_isoformat E (am_occurred_at a)
     in (text, nonempty (am_snapshot_path a), nonempty (am_clip_path a)))"

definition label_or :: "string \<Rightarrow> string \<Rightarrow> (string \<times> string) list \<Rightarrow> string" where
  "label_or dflt key labels = (case map_of labels key of None \<Rightarrow> dflt | Some v \<Rightarrow> v)"

definition to_telegram_html :: "alertmanager_webhook \<Rightarrow> string" where
  "to_telegram_html h = (let
       status_tag = (if aw_firing h then ''FIRING'' else ''RESOLVED'');
       alertname = (case nonempty (map_of (aw_common_labels h) ''alertname'') of
          Some n \<Rightarrow> n | None \<Rightarrow> label_or ''unknown'' ''alertname'' (aw_group_labels h));
       summary = label_or '''' ''summary'' (aw_common_annotations h);
       lines = [''<b>['' @ html_escape status_tag @ ''] '' @ html_escape alertname @ ''</b>'',
                ''severity: '' @ html_escape (label_or ''unknown'' ''severity'' (aw_common_labels h)),
                ''service: '' @ html_escape (label_or ''unknown'' ''service'' (aw_common_labels h))]
            @ (if summary = '''' then [] else [html_escape summary])
            @ (if length (aw_alerts h) > 1 then [''alerts in group: '' @ str_nat (length (aw_alerts h))] else [])
     in join_with newline lines)"

definition render :: "notify_env \<Rightarrow> delivery_source \<Rightarrow> payload \<Rightarrow> string + string \<times> string option \<times> string option" where
  "render E src p = (case (src, p) of
       (_, InvalidDoc err) \<Rightarrow> Inl err
     | (ALERT, AlertDoc a) \<Rightarrow> Inr (render_alert E a)
     | (ALERTMANAGER, WebhookDoc h) \<Rightarrow> Inr (to_telegram_html h, None, None)
     | _ \<Rightarrow> Inl ''validation error'')"

definition DECISION_PROMPT :: string where
  "DECISION_PROMPT = ''<b>operator decision</b>'' @ newline @ ''is this a theft?'' @ newline
     @ ''<i>this judgement becomes a labelled training case</i>''"

definition middle_dot :: string where
  "middle_dot = [CHR 0x20, CHR 0xC2, CHR 0xB7, CHR 0x20]"

definition decision_text :: "string \<Rightarrow> string" where
  "decision_text d = (if d = ''DECISION_CONFIRMED'' then ''confirmed'' else if d = ''DECISION_DISMISSED'' then ''dismissed''
     else if d = ''DECISION_UNSURE'' then ''unsure'' else ''decided'')"

definition render_decision_outcome :: "notify_env \<Rightarrow> string \<Rightarrow> string \<Rightarrow> datetime \<Rightarrow> string" where
  "render_decision_outcome E decision decided_by decided_at =
     ''<b>operator decision</b>'' @ newline @ ''<b>'' @ decision_text decision @ ''</b>'' @ middle_dot
     @ (if decided_by = '''' then ''unknown'' else html_escape decided_by) @ middle_dot @ ne_minute E decided_at"

definition compose_text :: "string \<Rightarrow> string \<Rightarrow> string" where
  "compose_text base block = (if base = '''' then block else base @ newline @ newline @ block)"

section \<open>Sending\<close>

definition post :: "notify_env \<Rightarrow> tg_request \<Rightarrow> (int \<times> int) option tg" where
  "post E req w = (call_result (method_of req) (ne_net E (length (nw_log w))), w\<lparr>nw_log := nw_log w @ [req]\<rparr>)"

definition is_configured :: "notify_settings \<Rightarrow> bool" where
  "is_configured S \<longleftrightarrow> ns_token S \<noteq> '''' \<and> ns_chat_id S \<noteq> ''''"

definition caption :: "notify_settings \<Rightarrow> string \<Rightarrow> string" where
  "caption S text = (if py_len text > ns_caption_max S then py_take (ns_caption_max S - 3) text @ ''...'' else text)"

definition media_at :: "notify_settings \<Rightarrow> notify_env \<Rightarrow> notify_world \<Rightarrow> string \<Rightarrow> path option" where
  "media_at S E w stored = resolve_media (ns_snapshots S) (ne_fs E (nw_polls w)) stored"

definition readable_at :: "notify_env \<Rightarrow> notify_world \<Rightarrow> path \<Rightarrow> bool" where
  "readable_at E w p = (case fs_file (ne_fs E (nw_polls w)) p of None \<Rightarrow> False | Some f \<Rightarrow> mf_readable f)"

definition size_at :: "notify_env \<Rightarrow> notify_world \<Rightarrow> path \<Rightarrow> nat" where
  "size_at E w p = (case fs_file (ne_fs E (nw_polls w)) p of None \<Rightarrow> 0 | Some f \<Rightarrow> mf_size f)"

definition deliver_as :: "notify_env \<Rightarrow> message_kind \<Rightarrow> tg_request \<Rightarrow> sent_message option tg" where
  "deliver_as E k req = tg_bind (post E req) (\<lambda>r. tg_bind (tg_lift (sent_of k r)) (\<lambda>m. tg_return (Some m)))"

definition send_message :: "notify_settings \<Rightarrow> notify_env \<Rightarrow> string \<Rightarrow> keyboard \<Rightarrow> string option \<Rightarrow> sent_message option tg" where
  "send_message S E text kb chat_id = (if \<not> is_configured S then tg_return None
     else deliver_as E TEXT (SendMessage (case chat_id of None \<Rightarrow> ns_chat_id S | Some c \<Rightarrow> c) text kb))"

definition send_photo :: "notify_settings \<Rightarrow> notify_env \<Rightarrow> string \<Rightarrow> string \<Rightarrow> keyboard \<Rightarrow> sent_message option tg" where
  "send_photo S E image_path text kb w = (if \<not> is_configured S then (Inr None, w)
     else case media_at S E w image_path of None \<Rightarrow> (Inr None, w)
     | Some p \<Rightarrow> if \<not> readable_at E w p then (Inr None, w)
         else deliver_as E PHOTO (SendPhoto (ns_chat_id S) (caption S text) kb p) w)"

definition send_video :: "notify_settings \<Rightarrow> notify_env \<Rightarrow> string \<Rightarrow> string option \<Rightarrow> string \<Rightarrow> nat \<Rightarrow> nat \<Rightarrow>
    keyboard \<Rightarrow> sent_message option tg" where
  "send_video S E clip_path cover_path text width height kb w = (if \<not> is_configured S then (Inr None, w)
     else case media_at S E w clip_path of None \<Rightarrow> (Inr None, w)
     | Some clip \<Rightarrow>
         let cover = (case nonempty cover_path of None \<Rightarrow> None | Some c \<Rightarrow> media_at S E w c)
         in if size_at E w clip > ns_video_max S \<or> \<not> readable_at E w clip \<or>
               (case cover of None \<Rightarrow> False | Some c \<Rightarrow> \<not> readable_at E w c) then (Inr None, w)
            else deliver_as E VIDEO (SendVideo (ns_chat_id S) (caption S text) kb
                   (if width \<noteq> 0 \<and> height \<noteq> 0 then Some (width, height) else None) clip cover) w)"

definition NOT_MODIFIED :: string where
  "NOT_MODIFIED = ''message is not modified''"

fun contains :: "string \<Rightarrow> string \<Rightarrow> bool" where
  "contains p [] = (p = [])"
| "contains p (c # cs) = (starts_with p (c # cs) \<or> contains p cs)"

definition edit_message :: "notify_settings \<Rightarrow> notify_env \<Rightarrow> int \<Rightarrow> int \<Rightarrow> message_kind \<Rightarrow> string \<Rightarrow> keyboard \<Rightarrow> unit tg" where
  "edit_message S E chat_id message_id kind text kb w =
     (case post E (if kind = TEXT then EditText chat_id message_id text kb
                   else EditCaption chat_id message_id (caption S text) kb) w of
       (Inr _, w') \<Rightarrow> (Inr (), w')
     | (Inl (Permanent m d), w') \<Rightarrow> if contains NOT_MODIFIED d then (Inr (), w') else (Inl (Permanent m d), w')
     | (Inl e, w') \<Rightarrow> (Inl e, w'))"

definition remove_keyboard :: "notify_env \<Rightarrow> int \<Rightarrow> int \<Rightarrow> notify_world \<Rightarrow> notify_world" where
  "remove_keyboard E chat_id message_id w = snd (post E (EditMarkup chat_id message_id) w)"

definition answer_callback :: "notify_env \<Rightarrow> string \<Rightarrow> string \<Rightarrow> bool \<Rightarrow> notify_world \<Rightarrow> bool \<times> notify_world" where
  "answer_callback E callback_query_id text show_alert w =
     (case post E (AnswerCallback callback_query_id text show_alert) w of
       (Inl _, w') \<Rightarrow> (False, w') | (Inr _, w') \<Rightarrow> (True, w'))"

definition probe :: "notify_settings \<Rightarrow> notify_env \<Rightarrow> notify_world \<Rightarrow> bool \<times> notify_world" where
  "probe S E w = (if \<not> is_configured S then (False, w)
     else case post E GetMe w of (Inl _, w') \<Rightarrow> (False, w') | (Inr _, w') \<Rightarrow> (True, w'))"

section \<open>Delivery\<close>

text \<open>\<^verbatim>\<open>_keyboard_for\<close>; before the year 2106 every error of \<^verbatim>\<open>decision_keyboard\<close> is one it catches.\<close>

definition keyboard_for :: "notify_settings \<Rightarrow> notify_env \<Rightarrow> payload delivery_intent \<Rightarrow> keyboard option" where
  "keyboard_for S E d = (if di_source d \<noteq> ALERT then None
     else case ne_callback_key E of None \<Rightarrow> None
     | Some key \<Rightarrow> (case decision_keyboard (ne_object_id E) key (ns_button_ttl S) (ne_oid_text E (di_id d)) (ne_now E div 1000000) of
         Inl _ \<Rightarrow> None | Inr kb \<Rightarrow> Some kb))"

definition ref_of :: "sent_message \<Rightarrow> message_ref" where
  "ref_of m = \<lparr>mr_chat_id = sm_chat_id m, mr_message_id = sm_message_id m, mr_kind = sm_kind m\<rparr>"

definition send_snapshot :: "notify_settings \<Rightarrow> notify_env \<Rightarrow> payload delivery_intent \<Rightarrow> string \<Rightarrow> string \<Rightarrow> bool tg" where
  "send_snapshot S E d cover text = (if di_snapshot d \<noteq> None then tg_return True
     else tg_bind (send_photo S E cover text []) (\<lambda>snapshot. case snapshot of None \<Rightarrow> tg_return False
       | Some m \<Rightarrow> (\<lambda>w. (Inr True, w\<lparr>nw_intents := mark_snapshot_sent (ne_now E) (di_id d) (ref_of m) (nw_intents w)\<rparr>))))"

text \<open>Try an attachment, if there is one; what it does not send is sent otherwise.\<close>

definition or_else :: "sent_message option tg \<Rightarrow> sent_message option tg \<Rightarrow> sent_message option tg" where
  "or_else a b = tg_bind a (\<lambda>sent. case sent of None \<Rightarrow> b | Some m \<Rightarrow> tg_return (Some m))"

definition send_plain :: "notify_settings \<Rightarrow> notify_env \<Rightarrow> string \<Rightarrow> string option \<Rightarrow> string option \<Rightarrow> sent_message option tg" where
  "send_plain S E text cover clip_path =
     or_else (case nonempty clip_path of None \<Rightarrow> tg_return None | Some c \<Rightarrow> send_video S E c cover text 0 0 [])
       (or_else (case nonempty cover of None \<Rightarrow> tg_return None | Some c \<Rightarrow> send_photo S E c text [])
         (send_message S E text [] None))"

definition dispatch :: "notify_settings \<Rightarrow> notify_env \<Rightarrow> payload delivery_intent \<Rightarrow> string \<Rightarrow> string option \<Rightarrow>
    string option \<Rightarrow> sent_message option tg" where
  "dispatch S E d text photo_path clip_path w = (let
       cover = map_option (prefer_annotated (ns_snapshots S) (ns_annotated S) (ne_fs E (nw_polls w))) (nonempty photo_path)
     in case keyboard_for S E d of
       None \<Rightarrow> send_plain S E text cover clip_path w
     | Some kb \<Rightarrow> tg_bind (case cover of None \<Rightarrow> tg_return False | Some c \<Rightarrow> send_snapshot S E d c text)
         (\<lambda>has_snapshot. let prompt = (if has_snapshot then DECISION_PROMPT else compose_text text DECISION_PROMPT)
            in or_else (case nonempty clip_path of None \<Rightarrow> tg_return None | Some c \<Rightarrow> send_video S E c cover prompt 0 0 kb)
                 (send_message S E prompt kb None)) w)"

text \<open>\<^verbatim>\<open>_await_clip\<close>: \<open>k\<close> counts the pauses, \<open>t\<close> is the loop's clock; a pause takes the poll
  interval, and at least a microsecond.\<close>

function poll_clip :: "(nat \<Rightarrow> bool) \<Rightarrow> int \<Rightarrow> int \<Rightarrow> int \<Rightarrow> nat \<Rightarrow> bool \<times> nat" where
  "poll_clip missing interval deadline t k =
     (if \<not> missing k then (True, k) else if t \<ge> deadline then (False, k)
      else poll_clip missing interval deadline (t + max 1 interval) (Suc k))"
  by auto
termination by (relation "measure (\<lambda>(_, _, deadline, t, _). nat (deadline - t))") auto

declare poll_clip.simps [simp del]

definition await_clip :: "notify_settings \<Rightarrow> notify_env \<Rightarrow> string \<Rightarrow> notify_world \<Rightarrow> bool \<times> notify_world" where
  "await_clip S E clip w =
     (case poll_clip (\<lambda>k. clip_missing (ns_snapshots S) (ne_fs E k) clip) (ns_clip_poll S) (ns_clip_wait S) 0 (nw_polls w) of
       (ready, k) \<Rightarrow> (ready, w\<lparr>nw_polls := k\<rparr>))"

definition CLIP_PENDING :: string where
  "CLIP_PENDING = ''clip not written yet''"

definition require_clip :: "notify_settings \<Rightarrow> notify_env \<Rightarrow> oid \<Rightarrow> string option \<Rightarrow> bool \<Rightarrow> unit tg" where
  "require_clip S E i clip_path final w = (case nonempty clip_path of None \<Rightarrow> (Inr (), w)
     | Some clip \<Rightarrow> if \<not> clip_missing (ns_snapshots S) (ne_fs E (nw_polls w)) clip then (Inr (), w)
         else (case await_clip S E clip w of (ready, w') \<Rightarrow>
           if ready \<or> final then (Inr (), w')
           else (Inl (Transient CLIP_PENDING None),
                 w'\<lparr>nw_intents := mark_failed (ne_now E) i CLIP_PENDING (nw_intents w')\<rparr>)))"

datatype delivery_outcome = Missing | AlreadySent | UnconfiguredRecipient | GateBuffered | NotClaimed | RenderFailed
  | Buffered | PermanentFailure | DeadAfterRetries | Declined | Delivered

definition UNCONFIGURED :: string where
  "UNCONFIGURED = ''unconfigured''"

text \<open>The intent is marked dead and its dead letter written.\<close>

definition bury_intent :: "notify_env \<Rightarrow> payload delivery_intent \<Rightarrow> nat \<Rightarrow> string \<Rightarrow> notify_world \<Rightarrow> notify_world" where
  "bury_intent E d attempts err w = w\<lparr>nw_intents := mark_dead (ne_now E) (di_id d) err (nw_intents w),
     nw_letters := nw_letters w @ [dead_letter_of (ne_now E) d attempts err]\<rparr>"

definition conclude :: "notify_settings \<Rightarrow> notify_env \<Rightarrow> payload delivery_intent \<Rightarrow> nat \<Rightarrow> bool \<Rightarrow>
    (tg_error + sent_message option) \<times> notify_world \<Rightarrow> (tg_error + delivery_outcome) \<times> notify_world" where
  "conclude S E d attempts final r = (case r of
     (Inl (Unreachable m), w) \<Rightarrow> (Inr Buffered, w\<lparr>nw_gate := gate_set (ns_gate_ttl S) (ne_now E) m (nw_gate w),
        nw_intents := mark_buffered (ne_now E) (di_id d) m (nw_intents w)\<rparr>)
   | (Inl (Permanent m desc), w) \<Rightarrow> (Inr PermanentFailure, bury_intent E d attempts m w)
   | (Inl e, w) \<Rightarrow> if final then (Inr DeadAfterRetries, bury_intent E d attempts (error_text e) w)
        else (Inl e, w\<lparr>nw_intents := mark_failed (ne_now E) (di_id d) (error_text e) (nw_intents w)\<rparr>)
   | (Inr None, w) \<Rightarrow> (Inr Declined, bury_intent E d attempts ''telegram declined'' w)
   | (Inr (Some m), w) \<Rightarrow> (Inr Delivered,
        w\<lparr>nw_intents := mark_sent (ne_now E) (di_id d) (Some (ref_of m)) (nw_intents w)\<rparr>))"

definition deliver :: "notify_settings \<Rightarrow> notify_env \<Rightarrow> oid \<Rightarrow> bool \<Rightarrow> delivery_outcome tg" where
  "deliver S E i final w = (case get_intent i (nw_intents w) of None \<Rightarrow> (Inr Missing, w)
   | Some d \<Rightarrow>
     if di_status d = SENT then (Inr AlreadySent, w)
     else if di_recipient d = UNCONFIGURED
     then (Inr UnconfiguredRecipient, bury_intent E d (di_attempts d) ''telegram not configured'' w)
     else if gate_is_raised (ne_now E) (nw_gate w)
     then (Inr GateBuffered, w\<lparr>nw_intents := mark_buffered (ne_now E) (di_id d) ''telegram gate raised'' (nw_intents w)\<rparr>)
     else (case mark_sending (ne_now E) (di_id d) (nw_intents w) of
       (None, _) \<Rightarrow> (Inr NotClaimed, w)
     | (Some claimed, ds) \<Rightarrow> let w1 = w\<lparr>nw_intents := ds\<rparr> in
         (case render E (di_source d) (di_payload d) of
           Inl err \<Rightarrow> (Inr RenderFailed, bury_intent E d (di_attempts claimed) (''render failed: '' @ err) w1)
         | Inr (text, photo_path, clip_path) \<Rightarrow>
             conclude S E d (di_attempts claimed) final
               (tg_bind (require_clip S E i clip_path final) (\<lambda>_. dispatch S E d text photo_path clip_path) w1))))"

text \<open>The retries of \<^verbatim>\<open>send_alert_task\<close>: an attempt that ends in an error is repeated until
  \<^verbatim>\<open>max_retries\<close>; the last one is final.  \<open>E left\<close> is what the attempt meets before which
  \<open>left\<close> retries are left.\<close>

fun send_alert_attempts :: "notify_settings \<Rightarrow> (nat \<Rightarrow> notify_env) \<Rightarrow> oid \<Rightarrow> nat \<Rightarrow> delivery_outcome tg" where
  "send_alert_attempts S E i 0 w = deliver S (E 0) i True w"
| "send_alert_attempts S E i (Suc left) w = (case deliver S (E (Suc left)) i False w of
     (Inl e, w') \<Rightarrow> send_alert_attempts S E i left w'
   | (Inr r, w') \<Rightarrow> (Inr r, w'))"

definition send_alert_task :: "notify_settings \<Rightarrow> (nat \<Rightarrow> notify_env) \<Rightarrow> oid \<Rightarrow> delivery_outcome tg" where
  "send_alert_task S E i = send_alert_attempts S E i (ns_max_retries S)"

end
