(* ===== verification/NotifySweep.thy ===== *)
theory NotifySweep
  imports NotifyWorker
begin

text \<open>
  The other tasks of the notification worker: the reconciler that sends stale intents again or
  retires them, the probe that lowers the delivery gate and releases what it held back, and the
  display of an operator's decision on the messages of an alert.
\<close>

section \<open>The reconciler\<close>

definition poison_reason :: "notify_settings \<Rightarrow> string" where
  "poison_reason S = ''exceeded '' @ str_nat (ns_max_requeues S) @ '' requeues''"

definition retire_poison :: "notify_settings \<Rightarrow> notify_env \<Rightarrow> payload delivery_intent \<Rightarrow> notify_world \<Rightarrow> notify_world" where
  "retire_poison S E d w = bury_intent E d (di_attempts d) (poison_reason S) w"

datatype sweep_outcome = Requeued | Poison | Raced

definition requeue_one :: "notify_settings \<Rightarrow> notify_env \<Rightarrow> datetime \<Rightarrow> payload delivery_intent \<Rightarrow> notify_world \<Rightarrow>
    sweep_outcome \<times> notify_world" where
  "requeue_one S E cutoff d w = (if di_requeue_count d \<ge> ns_max_requeues S then (Poison, retire_poison S E d w)
     else case mark_requeued (ne_now E) (di_id d) cutoff (nw_intents w) of
       (None, _) \<Rightarrow> (Raced, w)
     | (Some _, ds) \<Rightarrow> (Requeued, w\<lparr>nw_intents := ds, nw_queue := nw_queue w @ [SendAlertTask (di_id d)]\<rparr>))"

definition SWEEP_LIMIT :: nat where "SWEEP_LIMIT = 100"

definition sending_cutoff :: "notify_settings \<Rightarrow> notify_env \<Rightarrow> datetime" where
  "sending_cutoff S E = ne_now E - seconds (ns_sending_timeout S)"

definition pending_cutoff :: "notify_settings \<Rightarrow> notify_env \<Rightarrow> datetime" where
  "pending_cutoff S E = ne_now E - seconds (ns_pending_timeout S)"

definition stale_intents :: "notify_settings \<Rightarrow> notify_env \<Rightarrow> notify_world \<Rightarrow> payload delivery_intent list" where
  "stale_intents S E w = find_stale SENDING (sending_cutoff S E) SWEEP_LIMIT (nw_intents w)
     @ find_stale PENDING (pending_cutoff S E) SWEEP_LIMIT (nw_intents w)"

fun requeue_all :: "notify_settings \<Rightarrow> notify_env \<Rightarrow> payload delivery_intent list \<Rightarrow> notify_world \<Rightarrow>
    sweep_outcome list \<times> notify_world" where
  "requeue_all S E [] w = ([], w)"
| "requeue_all S E (d # ds) w =
     (case requeue_one S E (if di_status d = SENDING then sending_cutoff S E else pending_cutoff S E) d w of
       (r, w') \<Rightarrow> (case requeue_all S E ds w' of (rs, w'') \<Rightarrow> (r # rs, w'')))"

definition reconcile :: "notify_settings \<Rightarrow> notify_env \<Rightarrow> notify_world \<Rightarrow> sweep_outcome list \<times> notify_world" where
  "reconcile S E w = requeue_all S E (stale_intents S E w) w"

definition reconcile_intents_task :: "notify_settings \<Rightarrow> notify_env \<Rightarrow> notify_world \<Rightarrow> sweep_outcome list \<times> notify_world" where
  "reconcile_intents_task S E w = (if \<not> ns_reconciler_enabled S then ([], w) else reconcile S E w)"

section \<open>The gate's probe\<close>

definition drain_buffer :: "notify_settings \<Rightarrow> notify_env \<Rightarrow> notify_world \<Rightarrow> nat \<times> notify_world" where
  "drain_buffer S E w = (case release_buffered (ne_now E) (ns_gate_drain S) (nw_intents w) of
     (released, ds) \<Rightarrow> (length released,
        w\<lparr>nw_intents := ds, nw_queue := nw_queue w @ map (\<lambda>d. SendAlertTask (di_id d)) released\<rparr>))"

text \<open>The released and the probed count.\<close>

definition probe_gate_task :: "notify_settings \<Rightarrow> notify_env \<Rightarrow> notify_world \<Rightarrow> (nat \<times> nat) \<times> notify_world" where
  "probe_gate_task S E w = (if \<not> gate_is_raised (ne_now E) (nw_gate w) then ((0, 0), w)
     else case probe S E w of
       (False, w') \<Rightarrow> ((0, 1), w'\<lparr>nw_gate := gate_refresh (ns_gate_ttl S) (ne_now E) (nw_gate w')\<rparr>)
     | (True, w') \<Rightarrow> (case drain_buffer S E (w'\<lparr>nw_gate := gate_clear (nw_gate w')\<rparr>) of (n, w'') \<Rightarrow> ((n, 1), w'')))"

section \<open>Showing decisions\<close>

definition UNDECIDED :: string where "UNDECIDED = ''DECISION_UNSPECIFIED''"

datatype show_outcome = Edited | Stale | ShowFailed | Skipped | RenderRaised

text \<open>\<^verbatim>\<open>_show_decision\<close> claims the display, then edits; a payload that does not render ends the task with
  the exception.\<close>

definition show_markup :: "notify_settings \<Rightarrow> notify_env \<Rightarrow> payload delivery_intent \<Rightarrow> string \<Rightarrow> string \<Rightarrow> string \<Rightarrow> datetime \<Rightarrow>
    string \<times> keyboard" where
  "show_markup S E d text decision decided_by decided_at = (let base = (if di_snapshot d \<noteq> None then '''' else text)
     in if decision = UNDECIDED
        then (case keyboard_for S E d of
            Some kb \<Rightarrow> (compose_text base DECISION_PROMPT, kb)
          | None \<Rightarrow> (if base = '''' then text else base, []))
        else (compose_text base (render_decision_outcome E decision decided_by decided_at), []))"

definition show_decision :: "notify_settings \<Rightarrow> notify_env \<Rightarrow> payload delivery_intent \<Rightarrow> string \<Rightarrow> string \<Rightarrow> datetime \<Rightarrow>
    show_outcome tg" where
  "show_decision S E d decision decided_by decided_at w = (case di_telegram d of
     None \<Rightarrow> (Inr Skipped, w)
   | Some ref \<Rightarrow> (case claim_display (di_id d) decided_at (nw_intents w) of
       (False, _) \<Rightarrow> (Inr Stale, w)
     | (True, ds) \<Rightarrow> let w1 = w\<lparr>nw_intents := ds\<rparr> in (case render E (di_source d) (di_payload d) of
         Inl _ \<Rightarrow> (Inr RenderRaised, w1)
       | Inr (text, _, _) \<Rightarrow> (case show_markup S E d text decision decided_by decided_at of (body, markup) \<Rightarrow>
           (case edit_message S E (mr_chat_id ref) (mr_message_id ref) (mr_kind ref) body markup w1 of
             (Inr _, w2) \<Rightarrow> (Inr Edited, w2)
           | (Inl (Permanent m desc), w2) \<Rightarrow> (Inr ShowFailed, w2)
           | (Inl e, w2) \<Rightarrow> (Inl e, w2))))))"

fun show_all :: "notify_settings \<Rightarrow> notify_env \<Rightarrow> payload delivery_intent list \<Rightarrow> string \<Rightarrow> string \<Rightarrow> datetime \<Rightarrow>
    show_outcome list tg" where
  "show_all S E [] decision decided_by decided_at w = (Inr [], w)"
| "show_all S E (d # ds) decision decided_by decided_at w =
     (case show_decision S E d decision decided_by decided_at w of
       (Inl e, w') \<Rightarrow> (Inl e, w')
     | (Inr RenderRaised, w') \<Rightarrow> (Inr [RenderRaised], w')
     | (Inr r, w') \<Rightarrow> tg_bind (show_all S E ds decision decided_by decided_at) (\<lambda>rs. tg_return (r # rs)) w')"

definition apply_decision :: "notify_settings \<Rightarrow> notify_env \<Rightarrow> string \<Rightarrow> string \<Rightarrow> string \<Rightarrow> datetime \<Rightarrow>
    show_outcome list tg" where
  "apply_decision S E alert_id decision decided_by decided_at w =
     show_all S E (list_by_source_ref ALERT alert_id (nw_intents w)) decision decided_by decided_at w"

end
