(* ===== verification/NotifyServicer.thy ===== *)
theory NotifyServicer
  imports NotifySweep
begin

text \<open>
  What the other services ask of the notification service: the alert service's four calls
  (\<^verbatim>\<open>services/notification/app/server/servicer.py\<close>) and Alertmanager's webhook
  (\<^verbatim>\<open>app/server/api/webhooks.py\<close>).  Whether the database and the broker answer is an argument;
  so is the object id the driver draws for a new document.
\<close>

definition SOURCE_SERVICE_API :: int where "SOURCE_SERVICE_API = 1"

definition TRUSTED_CALLERS :: "int list" where "TRUSTED_CALLERS = [SOURCE_SERVICE_API]"

definition require_trusted_caller :: "int \<Rightarrow> 'a rpc option" where
  "require_trusted_caller caller = (if caller \<notin> set TRUSTED_CALLERS then Some (Abort PERMISSION_DENIED) else None)"

definition resolve_recipient :: "notify_settings \<Rightarrow> string" where
  "resolve_recipient S = (if ns_chat_id S = '''' then UNCONFIGURED else ns_chat_id S)"

record infra =
  if_mongo_up :: bool
  if_broker_up :: bool
  if_fresh_oid :: oid
  if_now :: datetime

text \<open>An intent is acquired and its delivery put in the queue, if the broker takes it.\<close>

definition accept_intent :: "infra \<Rightarrow> payload intent_create \<Rightarrow> notify_world \<Rightarrow> notify_world" where
  "accept_intent I c w = (case acquire (if_now I) (if_fresh_oid I) c (nw_intents w) of (d, ds) \<Rightarrow>
     w\<lparr>nw_intents := ds, nw_queue := nw_queue w @ (if if_broker_up I then [SendAlertTask (di_id d)] else [])\<rparr>)"

datatype send_status = STATUS_ACCEPTED | STATUS_FAILED

text \<open>\<open>decoded\<close> is the request as the schema reads it, \<open>None\<close> where it does not validate.\<close>

definition SendAlert :: "notify_settings \<Rightarrow> infra \<Rightarrow> int \<Rightarrow> alert_message option \<Rightarrow> notify_world \<Rightarrow>
    send_status rpc \<times> notify_world" where
  "SendAlert S I caller decoded w = (case require_trusted_caller caller of
     Some a \<Rightarrow> (a, w)
   | None \<Rightarrow> (case decoded of
       None \<Rightarrow> (Reply STATUS_FAILED, w)
     | Some a \<Rightarrow> if \<not> if_mongo_up I then (Reply STATUS_FAILED, w)
         else (Reply STATUS_ACCEPTED, accept_intent I \<lparr>ic_source = ALERT, ic_source_ref = am_alert_id a,
             ic_recipient = resolve_recipient S, ic_payload = AlertDoc a\<rparr> w)))"

fun decision_name :: "nat \<Rightarrow> string option" where
  "decision_name n = (if n = 0 then Some ''DECISION_UNSPECIFIED'' else if n = 1 then Some ''DECISION_CONFIRMED''
     else if n = 2 then Some ''DECISION_DISMISSED'' else if n = 3 then Some ''DECISION_UNSURE'' else None)"

definition NotifyDecision :: "infra \<Rightarrow> int \<Rightarrow> string \<Rightarrow> nat \<Rightarrow> string \<Rightarrow> datetime option \<Rightarrow> notify_world \<Rightarrow>
    nat rpc \<times> notify_world" where
  "NotifyDecision I caller raw_alert_id decision decided_by decided_at w = (case require_trusted_caller caller of
     Some a \<Rightarrow> (a, w)
   | None \<Rightarrow> let alert_id = strip_chars is_white raw_alert_id in
       if alert_id = '''' then (Abort INVALID_ARGUMENT, w)
       else case decision_name decision of None \<Rightarrow> (Abort INVALID_ARGUMENT, w)
       | Some name \<Rightarrow> if \<not> if_broker_up I then (Reply 0, w)
           else (Reply 1, w\<lparr>nw_queue := nw_queue w @
             [ApplyDecisionTask alert_id name (py_take 64 decided_by) (case decided_at of None \<Rightarrow> if_now I | Some t \<Rightarrow> t)]\<rparr>))"

record delivery_record =
  dr_channel :: channel
  dr_recipient :: string
  dr_state :: delivery_status
  dr_attempts :: nat
  dr_requeue_count :: nat
  dr_created_at :: datetime
  dr_updated_at :: datetime
  dr_error_class :: string

definition error_class :: "string option \<Rightarrow> string option" where
  "error_class e = (case e of None \<Rightarrow> None | Some t \<Rightarrow> nonempty (Some (strip_chars is_white (hd (split_on CHR '':'' t)))))"

definition to_record :: "payload delivery_intent \<Rightarrow> delivery_record" where
  "to_record d = \<lparr>dr_channel = di_channel d, dr_recipient = di_recipient d, dr_state = di_status d,
     dr_attempts = di_attempts d, dr_requeue_count = di_requeue_count d, dr_created_at = di_created_at d,
     dr_updated_at = di_updated_at d, dr_error_class = (case error_class (di_last_error d) of None \<Rightarrow> '''' | Some t \<Rightarrow> t)\<rparr>"

definition GetDeliveryStatus :: "infra \<Rightarrow> int \<Rightarrow> string \<Rightarrow> notify_world \<Rightarrow> (bool \<times> delivery_record list) rpc" where
  "GetDeliveryStatus I caller raw_alert_id w = (case require_trusted_caller caller of
     Some a \<Rightarrow> a
   | None \<Rightarrow> let alert_id = strip_chars is_white raw_alert_id in
       if alert_id = '''' then Abort INVALID_ARGUMENT
       else if \<not> if_mongo_up I then Abort UNAVAILABLE
       else let intents = list_by_source_ref ALERT alert_id (nw_intents w)
         in Reply (intents \<noteq> [], map to_record intents))"

definition BATCH_LIMIT :: nat where "BATCH_LIMIT = 200"

text \<open>\<^verbatim>\<open>list(dict.fromkeys(values))\<close>: the first occurrence of each value.\<close>

fun first_occurrences :: "'a list \<Rightarrow> 'a list" where
  "first_occurrences [] = []"
| "first_occurrences (x # xs) = x # filter (\<lambda>y. y \<noteq> x) (first_occurrences xs)"

definition GetDeliveryStatusBatch :: "infra \<Rightarrow> int \<Rightarrow> string list \<Rightarrow> notify_world \<Rightarrow>
    (string \<times> bool \<times> delivery_record list) list rpc" where
  "GetDeliveryStatusBatch I caller alert_ids w = (case require_trusted_caller caller of
     Some a \<Rightarrow> a
   | None \<Rightarrow> let wanted = filter (\<lambda>v. v \<noteq> '''') (map (strip_chars is_white) alert_ids) in
       if length wanted > BATCH_LIMIT then Abort INVALID_ARGUMENT
       else let unique = first_occurrences wanted in
         if unique = [] then Reply []
         else if \<not> if_mongo_up I then Abort UNAVAILABLE
         else let intents = list_by_source_refs ALERT unique (nw_intents w)
           in Reply (map (\<lambda>a. let rows = filter (\<lambda>d. di_source_ref d = a) intents
                 in (a, rows \<noteq> [], map to_record rows)) unique))"

text \<open>The webhook's bearer token, \<open>None\<close> where the request passes, and the webhook.\<close>

definition require_bearer_token :: "string \<Rightarrow> string option \<Rightarrow> nat option" where
  "require_bearer_token expected authorization = (if expected = '''' then Some 503
     else let header = (case authorization of None \<Rightarrow> '''' | Some h \<Rightarrow> h);
              scheme = takeWhile (\<lambda>c. c \<noteq> CHR '' '') header;
              presented = drop 1 (dropWhile (\<lambda>c. c \<noteq> CHR '' '') header)
          in if map lower_char scheme \<noteq> ''bearer'' \<or> presented = '''' then Some 401
             else if presented \<noteq> expected then Some 401 else None)"

definition receive_alertmanager :: "notify_settings \<Rightarrow> infra \<Rightarrow> string \<Rightarrow> string option \<Rightarrow> alertmanager_webhook \<Rightarrow>
    notify_world \<Rightarrow> nat \<times> notify_world" where
  "receive_alertmanager S I expected authorization h w = (case require_bearer_token expected authorization of
     Some status \<Rightarrow> (status, w)
   | None \<Rightarrow> if \<not> if_mongo_up I then (503, w)
       else (202, accept_intent I \<lparr>ic_source = ALERTMANAGER, ic_source_ref = aw_group_key h,
           ic_recipient = resolve_recipient S, ic_payload = WebhookDoc h\<rparr> w))"

end
