(* ===== verification/NotifyDelivery.thy ===== *)
theory NotifyDelivery
  imports NotifyServicer
begin

text \<open>
  What the sending functions do to the world, proved once for every relation between the world
  before and after that is reflexive, transitive and holds of single requests: the locale
  \<open>sending\<close>.  Its two interpretations say that sending changes no status and no dead letter,
  and that every file sent lies directly in the snapshot directory.
\<close>

section \<open>The interface\<close>

fun media_of :: "tg_request \<Rightarrow> path list" where
  "media_of (SendPhoto _ _ _ p) = [p]"
| "media_of (SendVideo _ _ _ _ clip cover) = clip # (case cover of None \<Rightarrow> [] | Some c \<Rightarrow> [c])"
| "media_of _ = []"

fun caption_of :: "tg_request \<Rightarrow> string" where
  "caption_of (SendPhoto _ c _ _) = c" | "caption_of (SendVideo _ c _ _ _ _) = c" | "caption_of (EditCaption _ _ c _) = c"
| "caption_of _ = ''''"

definition sendable :: "notify_settings \<Rightarrow> notify_env \<Rightarrow> notify_world \<Rightarrow> tg_request \<Rightarrow> bool" where
  "sendable S E w req \<longleftrightarrow> py_len (caption_of req) \<le> max 3 (ns_caption_max S) \<and>
     (\<forall>p \<in> set (media_of req). \<exists>stored. media_at S E w stored = Some p)"

lemma py_len_Nil [simp]: "py_len '''' = 0"
  by (simp add: py_len_def)

lemma caption_bound: "py_len (caption S t) \<le> max 3 (ns_caption_max S)"
proof -
  have "py_len ''...'' = 3" by (simp add: py_len_def is_lead_def char_code_def)
  then show ?thesis using py_len_take[of "ns_caption_max S - 3" t] by (auto simp: caption_def)
qed

locale sending =
  fixes S :: notify_settings and E :: notify_env and R :: "notify_world \<Rightarrow> notify_world \<Rightarrow> bool"
  assumes same: "R w w"
    and trans: "R a b \<Longrightarrow> R b c \<Longrightarrow> R a c"
    and request: "sendable S E w req \<Longrightarrow> R w (w\<lparr>nw_log := nw_log w @ [req]\<rparr>)"
    and snapshot: "R w (w\<lparr>nw_intents := mark_snapshot_sent t i m (nw_intents w)\<rparr>)"
    and pause: "R w (w\<lparr>nw_polls := k\<rparr>)"
begin

lemma bind_R: "R w (snd (m w)) \<Longrightarrow> (\<And>x v. R v (snd (f x v))) \<Longrightarrow> R w (snd (tg_bind m f w))"
  by (cases "m w") (auto simp: tg_bind_def split: sum.split intro: trans)

lemma return_R: "R w (snd (tg_return x w))" "R w (snd (tg_lift r w))"
  by (simp_all add: tg_return_def tg_lift_def same)

lemma post_R: "sendable S E w req \<Longrightarrow> R w (snd (post E req w))"
  by (simp add: post_def request)

lemma deliver_as_R: "sendable S E w req \<Longrightarrow> R w (snd (deliver_as E k req w))"
  unfolding deliver_as_def by (intro bind_R post_R return_R)

lemma or_else_R: "R w (snd (a w)) \<Longrightarrow> (\<And>v. R v (snd (b v))) \<Longrightarrow> R w (snd (or_else a b w))"
  unfolding or_else_def by (rule bind_R) (auto simp: return_R split: option.split)

lemma send_message_R: "R w (snd (send_message S E text kb c w))"
  by (simp add: send_message_def return_R deliver_as_R sendable_def)

lemma send_photo_R: "R w (snd (send_photo S E p text kb w))"
  by (auto simp: send_photo_def same sendable_def caption_bound intro!: deliver_as_R split: option.split)

lemma send_video_R: "R w (snd (send_video S E clip cover text x y kb w))"
  by (auto simp: send_video_def Let_def same sendable_def caption_bound intro!: deliver_as_R split: option.splits)

lemma send_snapshot_R: "R w (snd (send_snapshot S E d cover text w))"
  unfolding send_snapshot_def
  by (auto simp: return_R same snapshot send_photo_R split: option.split intro!: bind_R)

lemma send_plain_R: "R w (snd (send_plain S E text cover clip w))"
  unfolding send_plain_def
  by (intro or_else_R) (auto simp: return_R send_photo_R send_video_R send_message_R split: option.split)

lemma dispatch_R: "R w (snd (dispatch S E d text photo clip w))"
proof -
  have "R v (snd (or_else (case nonempty clip of None \<Rightarrow> tg_return None | Some c \<Rightarrow> send_video S E c cover prompt 0 0 kb)
      (send_message S E prompt kb None) v))" for cover prompt kb v
    by (rule or_else_R) (auto simp: return_R send_video_R send_message_R split: option.split)
  moreover have "R w (snd ((case cover of None \<Rightarrow> tg_return False | Some c \<Rightarrow> send_snapshot S E d c text) w))" for cover
    by (auto simp: return_R send_snapshot_R split: option.split)
  ultimately show ?thesis
    unfolding dispatch_def Let_def
    by (auto simp: send_plain_R return_R send_snapshot_R split: option.split intro!: bind_R)
qed

lemma await_R: "R w (snd (await_clip S E clip w))"
  by (simp add: await_clip_def pause split: prod.split)

lemma edit_R: "R w (snd (edit_message S E c m k text kb w))"
proof -
  have "R w (snd (post E (if k = TEXT then EditText c m text kb else EditCaption c m (caption S text) kb) w))"
    by (rule post_R) (auto simp: sendable_def caption_bound)
  then show ?thesis by (auto simp: edit_message_def split: prod.splits sum.splits tg_error.splits)
qed

lemma probe_R: "R w (snd (probe S E w))"
  using post_R[of w GetMe] by (auto simp: probe_def same sendable_def split: prod.splits sum.splits)

end

section \<open>Sending changes no status\<close>

text \<open>One document may become another: identity and natural key stay; a settled status and its message
  stay; a dead intent has a dead letter; a sent one has its message.\<close>

definition doc_ok :: "payload dead_letter list \<Rightarrow> payload delivery_intent \<Rightarrow> payload delivery_intent \<Rightarrow> bool" where
  "doc_ok L d d' \<longleftrightarrow> di_id d' = di_id d \<and> natural_key d' = natural_key d \<and> di_created_at d' = di_created_at d \<and>
     (settled (di_status d) \<longrightarrow> di_status d' = di_status d \<and> di_telegram d' = di_telegram d) \<and>
     (di_status d' = DEAD \<longrightarrow> di_status d = DEAD \<or> di_id d \<in> dl_intent_id ` set L) \<and>
     (di_status d' = SENT \<longrightarrow> di_status d = SENT \<or> di_telegram d' \<noteq> None)"

definition evolves :: "notify_world \<Rightarrow> notify_world \<Rightarrow> bool" where
  "evolves w w' \<longleftrightarrow> set (nw_letters w) \<subseteq> set (nw_letters w') \<and>
     list_all2 (doc_ok (nw_letters w')) (nw_intents w) (nw_intents w')"

lemma doc_ok_refl [simp]: "doc_ok L d d"
  by (simp add: doc_ok_def)

lemma doc_ok_trans: "doc_ok L a b \<Longrightarrow> doc_ok L' b c \<Longrightarrow> set L \<subseteq> set L' \<Longrightarrow> doc_ok L' a c"
  unfolding doc_ok_def settled_def by auto

lemma evolves_refl [simp]: "evolves w w"
  by (simp add: evolves_def list_all2_refl)

lemma evolves_trans: "evolves a b \<Longrightarrow> evolves b c \<Longrightarrow> evolves a c"
  unfolding evolves_def
  by (auto intro: list_all2_trans[rotated -2] doc_ok_trans)

lemma list_all2_update:
  "(\<And>x. x \<in> set xs \<Longrightarrow> P x \<Longrightarrow> Q x (g x)) \<Longrightarrow> (\<And>x. Q x x) \<Longrightarrow> list_all2 Q xs (update_where P g xs)"
  by (induction xs) auto

lemma evolves_update:
  assumes "nw_intents w' = update_where P g (nw_intents w)" "set (nw_letters w) \<subseteq> set (nw_letters w')"
    and "\<And>d. d \<in> set (nw_intents w) \<Longrightarrow> P d \<Longrightarrow> doc_ok (nw_letters w') d (g d)"
  shows "evolves w w'"
  unfolding evolves_def assms(1) using assms(2,3) by (simp add: list_all2_update)

definition calm :: "notify_world \<Rightarrow> notify_world \<Rightarrow> bool" where
  "calm w w' \<longleftrightarrow> evolves w w' \<and> map di_status (nw_intents w') = map di_status (nw_intents w) \<and> nw_letters w' = nw_letters w"

interpretation calm: sending S E calm for S E
proof
  show "calm a b \<Longrightarrow> calm b c \<Longrightarrow> calm a c" for a b c
    by (auto simp: calm_def intro: evolves_trans)
  show "calm w (w\<lparr>nw_intents := mark_snapshot_sent t i m (nw_intents w)\<rparr>)" for w t i m
    unfolding calm_def
    by (auto simp: mark_snapshot_sent_def find_and_update_def map_update_where doc_ok_def natural_key_def intro!: evolves_update)
qed (simp_all add: calm_def evolves_def list_all2_refl)

section \<open>Files sent\<close>

text \<open>The file lies, all symbolic links followed, directly in the snapshot directory.\<close>

definition in_snapshots :: "notify_settings \<Rightarrow> notify_env \<Rightarrow> path \<Rightarrow> bool" where
  "in_snapshots S E p \<longleftrightarrow> (\<exists>k. butlast p = fs_resolve (ne_fs E k) (ns_snapshots S) \<and> fs_file (ne_fs E k) p \<noteq> None)"

definition sends_only :: "notify_settings \<Rightarrow> notify_env \<Rightarrow> notify_world \<Rightarrow> notify_world \<Rightarrow> bool" where
  "sends_only S E w w' \<longleftrightarrow> (\<exists>reqs. nw_log w' = nw_log w @ reqs \<and> (\<forall>r \<in> set reqs.
     list_all (in_snapshots S E) (media_of r) \<and> py_len (caption_of r) \<le> max 3 (ns_caption_max S)))"

interpretation files: sending S E "sends_only S E" for S E
proof
  show "sends_only S E a b \<Longrightarrow> sends_only S E b c \<Longrightarrow> sends_only S E a c" for a b c
    unfolding sends_only_def by (auto simp: list_all_iff)
  show "sendable S E w req \<Longrightarrow> sends_only S E w (w\<lparr>nw_log := nw_log w @ [req]\<rparr>)" for w req
    unfolding sends_only_def sendable_def in_snapshots_def media_at_def
    by (rule exI[of _ "[req]"]) (fastforce simp: list_all_iff dest: resolve_media_confined)
qed (simp_all add: sends_only_def)

end
