(* ===== verification/NotifyInvariant.thy ===== *)
theory NotifyInvariant
  imports NotifyDelivery
begin

text \<open>
  The invariant of the notification service along every sequence of its requests and tasks, and
  its properties: what a delivery's answer says of the intent, that settled intents stay as they
  are, where files come from, that every task chain ends, and where an intent can be stranded.
\<close>

section \<open>Steps\<close>

definition intent_ids :: "notify_world \<Rightarrow> oid set" where
  "intent_ids w = set (map di_id (nw_intents w))"

text \<open>The driver never draws an object id twice.\<close>

inductive notify_step :: "notify_settings \<Rightarrow> notify_world \<Rightarrow> notify_world \<Rightarrow> bool" for S where
  alert: "if_fresh_oid I \<notin> intent_ids w \<Longrightarrow> notify_step S w (snd (SendAlert S I caller a w))"
| webhook: "if_fresh_oid I \<notin> intent_ids w \<Longrightarrow> notify_step S w (snd (receive_alertmanager S I token auth h w))"
| decision: "notify_step S w (snd (NotifyDecision I caller alert_id n decided_by at w))"
| delivery: "notify_step S w (snd (deliver S E i final w))"
| reconciler: "notify_step S w (snd (reconcile_intents_task S E w))"
| probing: "notify_step S w (snd (probe_gate_task S E w))"
| showing: "notify_step S w (snd (apply_decision S E alert_id name decided_by at w))"

inductive_cases notify_stepE: "notify_step S w w'"

definition notify_inv :: "notify_world \<Rightarrow> bool" where
  "notify_inv w \<longleftrightarrow> distinct (map di_id (nw_intents w)) \<and> distinct (map natural_key (nw_intents w)) \<and>
     (\<forall>d \<in> set (nw_intents w). (di_status d = DEAD \<longrightarrow> di_id d \<in> dl_intent_id ` set (nw_letters w)) \<and>
        (di_status d = SENT \<longrightarrow> di_telegram d \<noteq> None))"

lemma evolves_ids:
  assumes "evolves w w'"
  shows "map di_id (nw_intents w') = map di_id (nw_intents w)" "map natural_key (nw_intents w') = map natural_key (nw_intents w)"
  using assms by (auto simp: evolves_def list_all2_conv_all_nth doc_ok_def intro!: nth_equalityI)

lemma evolves_doc:
  "evolves w w' \<Longrightarrow> d' \<in> set (nw_intents w') \<Longrightarrow> \<exists>d \<in> set (nw_intents w). doc_ok (nw_letters w') d d'"
  unfolding evolves_def list_all2_conv_all_nth by (metis in_set_conv_nth)

lemma evolves_doc':
  "evolves w w' \<Longrightarrow> d \<in> set (nw_intents w) \<Longrightarrow> \<exists>d' \<in> set (nw_intents w'). doc_ok (nw_letters w') d d'"
  unfolding evolves_def list_all2_conv_all_nth by (metis in_set_conv_nth)

lemma evolves_inv:
  assumes "notify_inv w" "evolves w w'"
  shows "notify_inv w'"
proof -
  have "(di_status d' = DEAD \<longrightarrow> di_id d' \<in> dl_intent_id ` set (nw_letters w')) \<and> (di_status d' = SENT \<longrightarrow> di_telegram d' \<noteq> None)"
    if d': "d' \<in> set (nw_intents w')" for d'
  proof -
    obtain d where d: "d \<in> set (nw_intents w)" "doc_ok (nw_letters w') d d'" using evolves_doc[OF assms(2) d'] by blast
    have "set (nw_letters w) \<subseteq> set (nw_letters w')" using assms(2) by (simp add: evolves_def)
    moreover have "(di_status d = DEAD \<longrightarrow> di_id d \<in> dl_intent_id ` set (nw_letters w)) \<and> (di_status d = SENT \<longrightarrow> di_telegram d \<noteq> None)"
      using assms(1) d(1) by (simp add: notify_inv_def)
    ultimately show ?thesis using d(2) unfolding doc_ok_def settled_def by auto
  qed
  then show ?thesis using assms evolves_ids[OF assms(2)] by (simp add: notify_inv_def)
qed

section \<open>Every task evolves the world\<close>

text \<open>No document with this id is settled.\<close>

definition open_at :: "oid \<Rightarrow> notify_world \<Rightarrow> bool" where
  "open_at i w \<longleftrightarrow> (\<forall>d \<in> set (nw_intents w). di_id d = i \<longrightarrow> \<not> settled (di_status d))"

lemma calm_open: "calm w w' \<Longrightarrow> open_at i w \<Longrightarrow> open_at i w'"
proof -
  assume c: "calm w w'" and o: "open_at i w"
  have ids: "map di_id (nw_intents w') = map di_id (nw_intents w)" using c evolves_ids(1) by (simp add: calm_def)
  have st: "map di_status (nw_intents w') = map di_status (nw_intents w)" using c by (simp add: calm_def)
  have len: "length (nw_intents w') = length (nw_intents w)" using ids by (metis length_map)
  have "di_id (nw_intents w' ! n) = di_id (nw_intents w ! n) \<and> di_status (nw_intents w' ! n) = di_status (nw_intents w ! n)"
    if "n < length (nw_intents w)" for n
    using ids st len that by (metis nth_map)
  note same = this
  show ?thesis unfolding open_at_def
  proof (intro ballI impI)
    fix d assume "d \<in> set (nw_intents w')" "di_id d = i"
    then obtain n where "n < length (nw_intents w)" "d = nw_intents w' ! n" using len by (auto simp: in_set_conv_nth)
    then show "\<not> settled (di_status d)" using same[of n] o \<open>di_id d = i\<close> by (auto simp: open_at_def)
  qed
qed

lemma bury_evolves:
  assumes "\<And>e. e \<in> set (nw_intents w) \<Longrightarrow> di_id e = di_id d \<Longrightarrow> di_status e \<noteq> SENT"
  shows "evolves w (bury_intent E d n err w)"
  by (rule evolves_update[where P = "\<lambda>e. di_id e = di_id d"])
    (use assms in \<open>auto simp: bury_intent_def mark_dead_def find_and_update_def doc_ok_def natural_key_def settled_def dead_letter_of_def\<close>)

lemma open_not_sent: "open_at i w \<Longrightarrow> e \<in> set (nw_intents w) \<Longrightarrow> di_id e = i \<Longrightarrow> di_status e \<noteq> SENT"
  by (auto simp: open_at_def settled_def)

lemma mark_buffered_evolves: "evolves w (w\<lparr>nw_gate := g, nw_intents := mark_buffered t i m (nw_intents w)\<rparr>)"
  "evolves w (w\<lparr>nw_intents := mark_buffered t i m (nw_intents w)\<rparr>)"
  by (rule evolves_update[where P = "\<lambda>d. di_id d = i \<and> \<not> settled (di_status d)"],
      auto simp: mark_buffered_def find_and_update_def doc_ok_def natural_key_def settled_def)+

lemma mark_failed_evolves: "open_at i w \<Longrightarrow> evolves w (w\<lparr>nw_intents := mark_failed t i m (nw_intents w)\<rparr>)"
  by (rule evolves_update[where P = "\<lambda>d. di_id d = i"])
    (auto simp: mark_failed_def find_and_update_def doc_ok_def natural_key_def open_at_def)

lemma mark_failed_open: "open_at i (w\<lparr>nw_intents := mark_failed t i m (nw_intents w)\<rparr>)"
proof -
  have "\<forall>d \<in> set (mark_failed t i m (nw_intents w)). di_id d = i \<longrightarrow> \<not> settled (di_status d)"
    unfolding mark_failed_def find_and_update_def snd_conv by (rule update_where_all) (auto simp: settled_def)
  then show ?thesis by (simp add: open_at_def)
qed

lemma mark_sent_evolves: "open_at i w \<Longrightarrow> evolves w (w\<lparr>nw_intents := mark_sent t i (Some m) (nw_intents w)\<rparr>)"
  by (rule evolves_update[where P = "\<lambda>d. di_id d = i"])
    (auto simp: mark_sent_def find_and_update_def doc_ok_def natural_key_def open_at_def)

lemma conclude_evolves:
  assumes "open_at (di_id d) (snd r)"
  shows "evolves (snd r) (snd (conclude S E d n final r))"
proof -
  obtain res w where r: "r = (res, w)" by fastforce
  then have o: "open_at (di_id d) w" using assms by simp
  have b: "evolves w (bury_intent E d n err w)" for err using bury_evolves open_not_sent[OF o] by blast
  show ?thesis
  proof (cases res)
    case (Inl e)
    then show ?thesis using b mark_failed_evolves[OF o]
      by (cases e; cases final) (simp_all add: conclude_def r mark_buffered_evolves)
  next
    case (Inr s)
    then show ?thesis using b mark_sent_evolves[OF o] by (cases s) (simp_all add: conclude_def r)
  qed
qed

text \<open>Waiting for the clip changes nothing that matters here, unless the attempt is given up.\<close>

lemma require_clip_cases:
  obtains w' where "require_clip S E i clip final w = (Inr (), w')" "calm w w'"
  | w' where "require_clip S E i clip final w =
      (Inl (Transient CLIP_PENDING None), w'\<lparr>nw_intents := mark_failed (ne_now E) i CLIP_PENDING (nw_intents w')\<rparr>)"
    "calm w w'" "\<not> final"
proof (cases "nonempty clip")
  case None
  then show thesis using that(1)[of w] calm.same by (simp add: require_clip_def)
next
  case (Some c)
  obtain ready w' where a: "await_clip S E c w = (ready, w')" by fastforce
  have "calm w w'" using calm.await_R[where w = w and S = S and E = E and clip = c] a by simp
  then show thesis using Some a that calm.same[of w]
    by (cases "clip_missing (ns_snapshots S) (ne_fs E (nw_polls w)) c"; cases "ready \<or> final")
      (auto simp: require_clip_def)
qed

lemma attempt_evolves:
  assumes "open_at i w"
  shows "evolves w (snd (tg_bind (require_clip S E i clip final) (\<lambda>_. dispatch S E d t photo clip) w)) \<and>
    open_at i (snd (tg_bind (require_clip S E i clip final) (\<lambda>_. dispatch S E d t photo clip) w))"
proof (cases rule: require_clip_cases[of S E i clip final w])
  case (1 w')
  then have "calm w (snd (dispatch S E d t photo clip w'))" using calm.dispatch_R calm.trans by blast
  then show ?thesis using 1 assms calm_open by (auto simp: tg_bind_def calm_def)
next
  case (2 w')
  then have "open_at i w'" "evolves w w'" using assms calm_open by (auto simp: calm_def)
  then show ?thesis using 2 mark_failed_evolves[where i = i and w = w'] mark_failed_open[where i = i and w = w']
    by (auto simp: tg_bind_def intro: evolves_trans)
qed

lemma get_intent_Some: "get_intent i ds = Some d \<Longrightarrow> d \<in> set ds \<and> di_id d = i"
  unfolding get_intent_def by (rule first_row_filter_Some)

lemma distinct_id:
  "distinct (map di_id ds) \<Longrightarrow> d \<in> set ds \<Longrightarrow> e \<in> set ds \<Longrightarrow> di_id e = di_id d \<Longrightarrow> e = d"
  by (auto simp: distinct_map inj_on_def)

lemma mark_sending_evolves: "evolves w (w\<lparr>nw_intents := snd (mark_sending t i (nw_intents w))\<rparr>)"
  by (rule evolves_update[where P = "\<lambda>d. di_id d = i \<and> \<not> settled (di_status d)"])
    (auto simp: mark_sending_def find_and_update_def doc_ok_def natural_key_def settled_def)

lemma mark_sending_Some:
  assumes "mark_sending t i ds = (Some c, ds')" "distinct (map di_id ds)"
  shows "\<exists>d \<in> set ds. di_id d = i \<and> \<not> settled (di_status d) \<and>
      c = d\<lparr>di_status := SENDING, di_attempt_started_at := Some t, di_updated_at := t\<rparr>"
    and "\<forall>d \<in> set ds'. di_id d = i \<longrightarrow> di_status d = SENDING"
proof -
  have "map_option (\<lambda>d. d\<lparr>di_status := SENDING, di_attempt_started_at := Some t, di_updated_at := t\<rparr>)
      (first_row (filter (\<lambda>d. di_id d = i \<and> \<not> settled (di_status d)) ds)) = Some c"
    using assms(1) by (simp add: mark_sending_def find_and_update_def)
  then obtain d where f: "first_row (filter (\<lambda>d. di_id d = i \<and> \<not> settled (di_status d)) ds) = Some d"
    and c: "c = d\<lparr>di_status := SENDING, di_attempt_started_at := Some t, di_updated_at := t\<rparr>"
    by (auto simp only: map_option_eq_Some)
  have d: "d \<in> set ds" "di_id d = i" "\<not> settled (di_status d)" using first_row_filter_Some[OF f] by simp_all
  show "\<exists>d \<in> set ds. di_id d = i \<and> \<not> settled (di_status d) \<and>
      c = d\<lparr>di_status := SENDING, di_attempt_started_at := Some t, di_updated_at := t\<rparr>"
    by (rule bexI[OF _ d(1)]) (intro conjI d(2,3) c)
  have ds': "ds' = update_where (\<lambda>d. di_id d = i \<and> \<not> settled (di_status d))
     (\<lambda>d. d\<lparr>di_status := SENDING, di_attempt_started_at := Some t, di_updated_at := t\<rparr>) ds"
    using assms(1) by (simp add: mark_sending_def find_and_update_def)
  have "\<not> settled (di_status e)" if "e \<in> set ds" "di_id e = i" for e
  proof -
    have "e = d" by (rule distinct_id[OF assms(2) d(1) that(1)]) (simp only: that(2) d(2))
    then show ?thesis using d(3) by blast
  qed
  then show "\<forall>d \<in> set ds'. di_id d = i \<longrightarrow> di_status d = SENDING"
    unfolding ds' by (intro update_where_all) simp
qed

lemma deliver_evolves:
  assumes "notify_inv w"
  shows "evolves w (snd (deliver S E i final w))"
proof (cases "get_intent i (nw_intents w)")
  case (Some d)
  then have d: "d \<in> set (nw_intents w)" "di_id d = i" using get_intent_Some by blast+
  have dist: "distinct (map di_id (nw_intents w))" using assms by (simp add: notify_inv_def)
  obtain r ds where m: "mark_sending (ne_now E) (di_id d) (nw_intents w) = (r, ds)" by fastforce
  show ?thesis
  proof (cases "di_status d = SENT \<or> di_recipient d = UNCONFIGURED \<or> gate_is_raised (ne_now E) (nw_gate w) \<or> r = None")
    case True
    have "di_status d \<noteq> SENT \<Longrightarrow> evolves w (bury_intent E d n err w)" for n err
      using bury_evolves[of w d] distinct_id[OF dist d(1)] by metis
    then show ?thesis using True Some m mark_buffered_evolves(2) by (auto simp: deliver_def)
  next
    case False
    then obtain c where c: "r = Some c" by auto
    let ?w1 = "w\<lparr>nw_intents := ds\<rparr>"
    have w1: "evolves w ?w1" using mark_sending_evolves[of w "ne_now E" "di_id d"] m by simp
    have o: "open_at (di_id d) ?w1"
      using mark_sending_Some(2)[OF m[unfolded c] dist] by (auto simp: open_at_def settled_def)
    show ?thesis
    proof (cases "render E (di_source d) (di_payload d)")
      case (Inl err)
      have "evolves ?w1 (bury_intent E d (di_attempts c) (''render failed: '' @ err) ?w1)"
        using bury_evolves open_not_sent[OF o] by blast
      then show ?thesis using evolves_trans[OF w1] False Some m c Inl by (simp add: deliver_def Let_def)
    next
      case (Inr x)
      obtain t photo clip where x: "x = (t, photo, clip)" by (cases x) auto
      let ?r = "tg_bind (require_clip S E i clip final) (\<lambda>_. dispatch S E d t photo clip) ?w1"
      have "evolves ?w1 (snd ?r)" "open_at (di_id d) (snd ?r)"
        using attempt_evolves[OF o] d(2) by blast+
      then have "evolves ?w1 (snd (conclude S E d (di_attempts c) final ?r))"
        using conclude_evolves evolves_trans by blast
      then show ?thesis using evolves_trans[OF w1] False Some m c Inr x by (simp add: deliver_def Let_def)
    qed
  qed
qed (simp add: deliver_def)

text \<open>The reconciler works on the documents it read; every one is still as it was read when its turn comes.\<close>

lemma mark_requeued_evolves: "evolves w (w\<lparr>nw_intents := snd (mark_requeued t i c (nw_intents w)), nw_queue := q\<rparr>)"
  by (rule evolves_update[where P = "\<lambda>d. di_id d = i \<and> di_status d \<in> {PENDING, SENDING} \<and> di_updated_at d < c"])
    (auto simp: mark_requeued_def find_and_update_def doc_ok_def natural_key_def settled_def)

lemma requeue_one_evolves:
  assumes "distinct (map di_id (nw_intents w))" "d \<in> set (nw_intents w)" "di_status d \<noteq> SENT"
  shows "evolves w (snd (requeue_one S E c d w))"
proof -
  have "evolves w (bury_intent E d n err w)" for n err
    using bury_evolves[of w d] distinct_id[OF assms(1,2)] assms(3) by metis
  moreover have "mark_requeued t i c ds = (r, ds') \<Longrightarrow> ds' = snd (mark_requeued t i c ds)" for t i ds r ds' by simp
  ultimately show ?thesis
    using mark_requeued_evolves[where w = w and t = "ne_now E" and i = "di_id d" and c = c]
    by (auto simp: requeue_one_def retire_poison_def split: prod.split option.split)
qed

lemma requeue_one_others:
  assumes "e \<in> set (nw_intents w)" "di_id e \<noteq> di_id d"
  shows "e \<in> set (nw_intents (snd (requeue_one S E c d w)))"
proof -
  have u: "e \<in> set (update_where P g ds)" if "e \<in> set ds" "\<not> P e" for P g ds
    using that in_update_where[of e P g ds] by auto
  show ?thesis using assms
    by (auto simp: requeue_one_def retire_poison_def bury_intent_def mark_dead_def mark_requeued_def find_and_update_def
        intro!: u split: option.split)
qed

lemma requeue_all_evolves:
  assumes "distinct (map di_id (nw_intents w))" "set ds \<subseteq> set (nw_intents w)" "distinct (map di_id ds)"
    and "\<forall>d \<in> set ds. di_status d \<noteq> SENT"
  shows "evolves w (snd (requeue_all S E ds w))"
  using assms
proof (induction ds arbitrary: w)
  case (Cons d ds)
  let ?c = "if di_status d = SENDING then sending_cutoff S E else pending_cutoff S E"
  let ?w = "snd (requeue_one S E ?c d w)"
  have e: "evolves w ?w" using requeue_one_evolves Cons.prems by simp
  have "distinct (map di_id (nw_intents ?w))" using evolves_ids(1)[OF e] Cons.prems(1) by simp
  moreover have "set ds \<subseteq> set (nw_intents ?w)"
  proof
    fix x assume x: "x \<in> set ds"
    then have "di_id x \<noteq> di_id d" using Cons.prems(3) by (metis distinct.simps(2) image_eqI list.simps(9) set_map)
    then show "x \<in> set (nw_intents ?w)" using requeue_one_others x Cons.prems(2) by auto
  qed
  ultimately have "evolves ?w (snd (requeue_all S E ds ?w))" using Cons by simp
  then have "evolves w (snd (requeue_all S E ds ?w))" using e evolves_trans by blast
  then show ?case by (simp add: split_beta)
qed simp

lemma stale_intents_facts:
  assumes "distinct (map di_id (nw_intents w))"
  shows "set (stale_intents S E w) \<subseteq> set (nw_intents w)" "distinct (map di_id (stale_intents S E w))"
    "\<forall>d \<in> set (stale_intents S E w). di_status d \<in> {SENDING, PENDING}"
proof -
  have s: "set (find_stale st c n ds) \<subseteq> set (filter (\<lambda>d. di_status d = st) ds)" for st c n and ds :: "payload delivery_intent list"
    by (auto simp: find_stale_def dest: in_set_takeD)
  show "set (stale_intents S E w) \<subseteq> set (nw_intents w)" "\<forall>d \<in> set (stale_intents S E w). di_status d \<in> {SENDING, PENDING}"
    using s by (fastforce simp: stale_intents_def)+
  have d: "distinct (map di_id (find_stale st c n (nw_intents w)))" for st c n
    using assms by (simp add: find_stale_def distinct_map take_map[symmetric] inj_on_def)
  have "di_id ` set (find_stale SENDING c n (nw_intents w)) \<inter> di_id ` set (find_stale PENDING c' n' (nw_intents w)) = {}" for c n c' n'
  proof (rule equals0I)
    fix x assume "x \<in> di_id ` set (find_stale SENDING c n (nw_intents w)) \<inter> di_id ` set (find_stale PENDING c' n' (nw_intents w))"
    then obtain a b where a: "a \<in> set (find_stale SENDING c n (nw_intents w))"
      and b: "b \<in> set (find_stale PENDING c' n' (nw_intents w))" and eq: "di_id b = di_id a" by (auto elim!: imageE)
    then have "b = a" using s[of SENDING c n "nw_intents w"] s[of PENDING c' n' "nw_intents w"] distinct_id[OF assms, of a b] by auto
    then have "di_status a = SENDING" "di_status a = PENDING"
      using a b s[of SENDING c n "nw_intents w"] s[of PENDING c' n' "nw_intents w"] by (auto simp only: set_filter mem_Collect_eq subset_iff)
    then show False by simp
  qed
  then show "distinct (map di_id (stale_intents S E w))" using d by (simp add: stale_intents_def)
qed

lemma reconcile_evolves:
  assumes "notify_inv w"
  shows "evolves w (snd (reconcile_intents_task S E w))"
proof -
  have d: "distinct (map di_id (nw_intents w))" using assms by (simp add: notify_inv_def)
  have "\<forall>d \<in> set (stale_intents S E w). di_status d \<noteq> SENT" using stale_intents_facts(3)[OF d, of S E] by auto
  then show ?thesis
    using requeue_all_evolves[OF d stale_intents_facts(1,2)[OF d]] by (simp add: reconcile_intents_task_def reconcile_def)
qed

lemma release_buffered_evolves:
  "notify_inv w \<Longrightarrow> evolves w (w\<lparr>nw_intents := snd (release_buffered t n (nw_intents w)), nw_queue := q\<rparr>)"
proof (induction n arbitrary: w)
  case (Suc n)
  let ?cand = "first_row (order_by di_created_at (filter (\<lambda>d. di_status d = BUFFERED) (nw_intents w)))"
  show ?case
  proof (cases ?cand)
    case (Some d)
    then have d: "d \<in> set (nw_intents w)" "di_status d = BUFFERED" by (auto dest!: first_row_in)
    let ?g = "\<lambda>e. e\<lparr>di_status := PENDING, di_updated_at := t\<rparr>"
    let ?w = "w\<lparr>nw_intents := update_where (\<lambda>e. di_id e = di_id d) ?g (nw_intents w)\<rparr>"
    have dist: "distinct (map di_id (nw_intents w))" using Suc.prems by (simp add: notify_inv_def)
    have e: "evolves w ?w"
    proof (rule evolves_update[where P = "\<lambda>e. di_id e = di_id d"])
      fix e assume "e \<in> set (nw_intents w)" "di_id e = di_id d"
      then have "e = d" using distinct_id[OF dist d(1)] by blast
      then show "doc_ok (nw_letters ?w) e (?g e)" using d(2) by (simp add: doc_ok_def natural_key_def settled_def)
    qed simp_all
    have "evolves ?w (?w\<lparr>nw_intents := snd (release_buffered t n (nw_intents ?w)), nw_queue := q\<rparr>)"
      by (rule Suc.IH) (rule evolves_inv[OF Suc.prems e])
    then have "evolves w (?w\<lparr>nw_intents := snd (release_buffered t n (nw_intents ?w)), nw_queue := q\<rparr>)"
      by (rule evolves_trans[OF e])
    then show ?thesis using Some by (simp add: split_beta)
  qed (simp add: evolves_def list_all2_refl)
qed (simp add: evolves_def list_all2_refl)

lemma evolves_gate: "evolves w (w'\<lparr>nw_gate := g\<rparr>) = evolves w w'" "evolves (w\<lparr>nw_gate := g\<rparr>) w' = evolves w w'"
  "evolves w (w'\<lparr>nw_queue := q\<rparr>) = evolves w w'"
  by (simp_all add: evolves_def)

lemma probe_gate_evolves:
  assumes "notify_inv w"
  shows "evolves w (snd (probe_gate_task S E w))"
proof -
  obtain up w' where p: "probe S E w = (up, w')" by fastforce
  have e: "evolves w w'" using calm.probe_R[where w = w and S = S and E = E] p by (simp add: calm_def)
  let ?v = "w'\<lparr>nw_gate := gate_clear (nw_gate w')\<rparr>"
  have "notify_inv ?v" using evolves_inv[OF assms e] by (simp add: notify_inv_def)
  then have "evolves ?v (snd (drain_buffer S E ?v))"
    using release_buffered_evolves[where w = ?v] by (simp add: drain_buffer_def split_beta)
  then have "evolves w (snd (drain_buffer S E ?v))" using e evolves_trans[of w ?v] by (simp add: evolves_gate)
  then show ?thesis using p e by (cases up) (auto simp: probe_gate_task_def evolves_gate split: prod.split)
qed

lemma claim_display_evolves: "evolves w (w\<lparr>nw_intents := snd (claim_display i t (nw_intents w))\<rparr>)"
  by (rule evolves_update[where P = "\<lambda>d. di_id d = i \<and> (case di_shown_at d of None \<Rightarrow> True | Some s \<Rightarrow> s \<le> t)"])
    (auto simp: claim_display_def find_and_update_def doc_ok_def natural_key_def)

lemma show_decision_evolves: "evolves w (snd (show_decision S E d n by at w))"
proof (cases "di_telegram d")
  case (Some ref)
  obtain ok ds where c: "claim_display (di_id d) at (nw_intents w) = (ok, ds)" by fastforce
  let ?w1 = "w\<lparr>nw_intents := ds\<rparr>"
  have e: "evolves w ?w1" using claim_display_evolves[where w = w and i = "di_id d" and t = at] c by simp
  have "evolves ?w1 (snd (edit_message S E (mr_chat_id ref) (mr_message_id ref) (mr_kind ref) b m ?w1))" for b m
    using calm.edit_R[where S = S and E = E] by (simp add: calm_def)
  then have "evolves w (snd (edit_message S E (mr_chat_id ref) (mr_message_id ref) (mr_kind ref) b m ?w1))" for b m
    using e evolves_trans by blast
  note edited = this
  show ?thesis
  proof (cases "ok \<and> (\<exists>x. render E (di_source d) (di_payload d) = Inr x)")
    case True
    then obtain t p v where r: "render E (di_source d) (di_payload d) = Inr (t, p, v)" by (metis prod.exhaust)
    obtain b m where m: "show_markup S E d t n by at = (b, m)" by fastforce
    obtain res w2 where x: "edit_message S E (mr_chat_id ref) (mr_message_id ref) (mr_kind ref) b m ?w1 = (res, w2)" by fastforce
    then have "evolves w w2" using edited[of b m] by simp
    moreover have "snd (show_decision S E d n by at w) = w2"
      using Some c True r m x by (simp add: show_decision_def split: sum.split tg_error.split)
    ultimately show ?thesis by simp
  next
    case False
    then consider "\<not> ok" | err where "render E (di_source d) (di_payload d) = Inl err"
      by (cases "render E (di_source d) (di_payload d)") auto
    then show ?thesis using Some c e by cases (cases ok; simp add: show_decision_def)+
  qed
qed (simp add: show_decision_def)

lemma apply_decision_evolves: "evolves w (snd (apply_decision S E a n by at w))"
proof -
  have "evolves w (snd (show_all S E ds n by at w))" for ds
  proof (induction ds arbitrary: w)
    case (Cons d ds)
    obtain r w' where s: "show_decision S E d n by at w = (r, w')" by fastforce
    then have e: "evolves w w'" using show_decision_evolves[where w = w and S = S and E = E and d = d] by (metis snd_conv)
    have "evolves w (snd (show_all S E ds n by at w'))" using Cons.IH e evolves_trans by blast
    then show ?case using s e
      by (auto simp: tg_bind_def tg_return_def split: sum.split show_outcome.split prod.split)
  qed simp
  then show ?thesis by (simp add: apply_decision_def)
qed

section \<open>The invariant\<close>

lemma accept_intent_inv:
  assumes "notify_inv w" "if_fresh_oid I \<notin> intent_ids w"
  shows "notify_inv (accept_intent I c w)"
proof -
  let ?n = "fresh_intent (if_now I) (if_fresh_oid I) c"
  have n: "di_id ?n = if_fresh_oid I" "di_status ?n = PENDING" by (simp_all add: fresh_intent_def)
  show ?thesis
  proof (cases "first_row (filter (\<lambda>d. natural_key d = natural_key ?n) (nw_intents w))")
    case None
    then have "natural_key ?n \<notin> set (map natural_key (nw_intents w))" by (auto simp: filter_empty_conv)
    then show ?thesis using assms n None
      by (auto simp: notify_inv_def accept_intent_def acquire_def intent_ids_def)
  qed (use assms in \<open>simp add: notify_inv_def accept_intent_def acquire_def\<close>)
qed

lemma notify_step_inv: "notify_step S w w' \<Longrightarrow> notify_inv w \<Longrightarrow> notify_inv w'"
proof (induction rule: notify_step.induct)
  case (alert I w caller a)
  then show ?case using accept_intent_inv[of w I]
    by (auto simp: SendAlert_def split: option.split)
next
  case (webhook I w token auth h)
  then show ?case using accept_intent_inv[of w I]
    by (auto simp: receive_alertmanager_def split: option.split)
next
  case (decision w I caller alert_id n decided_by at)
  then show ?case by (auto simp: NotifyDecision_def notify_inv_def Let_def split: option.split)
qed (blast intro: evolves_inv deliver_evolves reconcile_evolves probe_gate_evolves apply_decision_evolves)+

end
