(* ===== verification/NotifyProperties.thy ===== *)
theory NotifyProperties
  imports NotifyInvariant
begin

text \<open>
  The properties of the notification service over the step relation of the previous theory.
\<close>

definition empty_world :: notify_world where
  "empty_world = \<lparr>nw_intents = [], nw_letters = [], nw_gate = None, nw_log = [], nw_queue = [], nw_polls = 0\<rparr>"

lemma empty_world_inv [simp]: "notify_inv empty_world"
  by (simp add: empty_world_def notify_inv_def)

lemma notify_reachable_inv: "(notify_step S)\<^sup>*\<^sup>* w w' \<Longrightarrow> notify_inv w \<Longrightarrow> notify_inv w'"
  by (induction rule: rtranclp_induct) (auto intro: notify_step_inv)

text \<open>A step moves each document one step and may append one.\<close>

lemma accept_intent_keeps: "d \<in> set (nw_intents w) \<Longrightarrow> d \<in> set (nw_intents (accept_intent I c w))"
  by (auto simp: accept_intent_def acquire_def split: option.split)

lemma notify_step_doc:
  assumes "notify_step S w w'" "notify_inv w" "d \<in> set (nw_intents w)"
  shows "\<exists>L. \<exists>d' \<in> set (nw_intents w'). doc_ok L d d'"
  using assms
proof (induction rule: notify_step.induct)
  case (alert I w caller a)
  then have "d \<in> set (nw_intents (snd (SendAlert S I caller a w)))"
    using accept_intent_keeps by (auto simp: SendAlert_def split: option.split)
  then show ?case by (meson doc_ok_refl)
next
  case (webhook I w token auth h)
  then have "d \<in> set (nw_intents (snd (receive_alertmanager S I token auth h w)))"
    using accept_intent_keeps by (auto simp: receive_alertmanager_def split: option.split)
  then show ?case by (meson doc_ok_refl)
next
  case (decision w I caller alert_id n decided_by at)
  then have "d \<in> set (nw_intents (snd (NotifyDecision I caller alert_id n decided_by at w)))"
    by (auto simp: NotifyDecision_def Let_def split: option.split)
  then show ?case by (meson doc_ok_refl)
next
  case (delivery w E i final)
  then show ?case using evolves_doc'[OF deliver_evolves] by blast
next
  case (reconciler w E)
  then show ?case using evolves_doc'[OF reconcile_evolves] by blast
next
  case (probing w E)
  then show ?case using evolves_doc'[OF probe_gate_evolves] by blast
next
  case (showing w E alert_id name decided_by at)
  then show ?case using evolves_doc'[OF apply_decision_evolves] by blast
qed

lemma settled_stays:
  assumes "(notify_step S)\<^sup>*\<^sup>* w w'" "notify_inv w" "d \<in> set (nw_intents w)" "settled (di_status d)"
  shows "\<exists>d' \<in> set (nw_intents w'). di_id d' = di_id d \<and> natural_key d' = natural_key d \<and>
    di_status d' = di_status d \<and> di_telegram d' = di_telegram d"
  using assms(1)
proof (induction rule: rtranclp_induct)
  case (step v v')
  then obtain d' where d': "d' \<in> set (nw_intents v)" "di_id d' = di_id d \<and> natural_key d' = natural_key d \<and>
    di_status d' = di_status d \<and> di_telegram d' = di_telegram d" by blast
  have "notify_inv v" using notify_reachable_inv step.hyps(1) assms(2) by blast
  then obtain L d'' where "d'' \<in> set (nw_intents v')" "doc_ok L d' d''" using notify_step_doc[OF step.hyps(2) _ d'(1)] by blast
  then show ?case using d'(2) assms(4) by (intro bexI[of _ d'']) (auto simp: doc_ok_def)
qed (use assms in blast)



section \<open>What a delivery's answer says\<close>

definition status_at :: "oid \<Rightarrow> notify_world \<Rightarrow> delivery_status option" where
  "status_at i w = map_option di_status (get_intent i (nw_intents w))"

lemma get_intent_update:
  assumes "\<And>d. di_id (g d) = di_id d"
  shows "get_intent i (update_where (\<lambda>d. di_id d = i \<and> P d) g ds) =
    map_option (\<lambda>d. if P d then g d else d) (get_intent i ds)"
  unfolding get_intent_def by (induction ds) (auto simp: assms)

lemma status_at_zip: "status_at i w = map_of (zip (map di_id (nw_intents w)) (map di_status (nw_intents w))) i"
proof -
  have "map_option di_status (get_intent i ds) = map_of (zip (map di_id ds) (map di_status ds)) i" for ds :: "payload delivery_intent list"
    by (induction ds) (simp_all add: get_intent_def)
  then show ?thesis by (simp add: status_at_def)
qed

lemma calm_status: "calm w w' \<Longrightarrow> status_at i w' = status_at i w"
  using evolves_ids(1)[of w w'] by (simp add: calm_def status_at_zip)

lemma mark_status:
  "status_at i (w\<lparr>nw_intents := mark_dead t i m (nw_intents w)\<rparr>) = map_option (\<lambda>_. DEAD) (status_at i w)"
  "status_at i (w\<lparr>nw_intents := mark_failed t i m (nw_intents w)\<rparr>) = map_option (\<lambda>_. FAILED) (status_at i w)"
  "status_at i (w\<lparr>nw_intents := mark_sent t i r (nw_intents w)\<rparr>) = map_option (\<lambda>_. SENT) (status_at i w)"
  "status_at i (w\<lparr>nw_intents := mark_buffered t i m (nw_intents w)\<rparr>) =
     map_option (\<lambda>s. if settled s then s else BUFFERED) (status_at i w)"
  "status_at i (w\<lparr>nw_intents := snd (mark_sending t i (nw_intents w))\<rparr>) =
     map_option (\<lambda>s. if settled s then s else SENDING) (status_at i w)"
proof -
  have u: "map_option di_status (get_intent i (update_where (\<lambda>d. di_id d = i \<and> P d) g ds)) =
      map_option (\<lambda>d. di_status (if P d then g d else d)) (get_intent i ds)"
    if "\<And>d. di_id (g d) = di_id d" for P g and ds :: "payload delivery_intent list"
    using that by (simp add: get_intent_update option.map_comp comp_def)
  show "status_at i (w\<lparr>nw_intents := mark_dead t i m (nw_intents w)\<rparr>) = map_option (\<lambda>_. DEAD) (status_at i w)"
    "status_at i (w\<lparr>nw_intents := mark_failed t i m (nw_intents w)\<rparr>) = map_option (\<lambda>_. FAILED) (status_at i w)"
    "status_at i (w\<lparr>nw_intents := mark_sent t i r (nw_intents w)\<rparr>) = map_option (\<lambda>_. SENT) (status_at i w)"
    "status_at i (w\<lparr>nw_intents := mark_buffered t i m (nw_intents w)\<rparr>) =
       map_option (\<lambda>s. if settled s then s else BUFFERED) (status_at i w)"
    "status_at i (w\<lparr>nw_intents := snd (mark_sending t i (nw_intents w))\<rparr>) =
       map_option (\<lambda>s. if settled s then s else SENDING) (status_at i w)"
    by (auto simp: status_at_def mark_dead_def mark_failed_def mark_sent_def mark_buffered_def mark_sending_def
        find_and_update_def u u[where P = "\<lambda>_. True", simplified] option.map_comp comp_def intro!: option.map_cong0)
qed

lemma status_at_simps [simp]:
  "status_at i (w\<lparr>nw_gate := g\<rparr>) = status_at i w" "status_at i (w\<lparr>nw_letters := l\<rparr>) = status_at i w"
  "status_at i (w\<lparr>nw_queue := q\<rparr>) = status_at i w" "status_at i (w\<lparr>nw_polls := k\<rparr>) = status_at i w"
  by (simp_all add: status_at_def)

lemma bury_status: "status_at (di_id d) (bury_intent E d n err w) = map_option (\<lambda>_. DEAD) (status_at (di_id d) w)"
  using mark_status(1)[where i = "di_id d" and w = w] by (simp add: bury_intent_def status_at_def)

fun answer_status :: "delivery_outcome \<Rightarrow> delivery_status set" where
  "answer_status Missing = {}"
| "answer_status AlreadySent = {SENT}" | "answer_status Delivered = {SENT}"
| "answer_status Buffered = {BUFFERED}" | "answer_status GateBuffered = {BUFFERED, DEAD}"
| "answer_status NotClaimed = {DEAD}"
| "answer_status _ = {DEAD}"

text \<open>What an error or an answer of \<open>conclude\<close> leaves, when the intent was not settled before.\<close>

lemma conclude_status:
  assumes "status_at (di_id d) w = Some s" "\<not> settled s" "conclude S E d n final (res, w) = (r, w')"
  shows "case r of Inr a \<Rightarrow> status_at (di_id d) w' \<in> Some ` answer_status a
    | Inl e \<Rightarrow> status_at (di_id d) w' = Some FAILED \<and> \<not> final"
proof (cases res)
  case (Inl e)
  show ?thesis
  proof (cases e)
    case (Unreachable m)
    have "status_at (di_id d) (w\<lparr>nw_intents := mark_buffered (ne_now E) (di_id d) m (nw_intents w)\<rparr>) = Some BUFFERED"
      using assms(1,2) mark_status(4)[where i = "di_id d" and w = w] by simp
    then show ?thesis using assms(3) Inl Unreachable by (auto simp: conclude_def status_at_def)
  qed (use assms Inl mark_status(2)[where i = "di_id d" and w = w] in \<open>auto simp: conclude_def bury_status split: if_splits\<close>)
next
  case (Inr m)
  then show ?thesis using assms mark_status(3)[where i = "di_id d" and w = w]
    by (cases m) (auto simp: conclude_def bury_status)
qed

lemma attempt_status:
  assumes "status_at i w = Some s" "\<not> settled s"
  shows "\<exists>s'. status_at i (snd (tg_bind (require_clip S E i clip final) (\<lambda>_. dispatch S E d t photo clip) w)) = Some s' \<and> \<not> settled s'"
proof (cases rule: require_clip_cases[of S E i clip final w])
  case (1 w')
  then have "calm w (snd (dispatch S E d t photo clip w'))" using calm.dispatch_R calm.trans by blast
  then show ?thesis using 1 assms calm_status by (simp add: tg_bind_def)
next
  case (2 w')
  then have "status_at i w' = Some s" using assms calm_status by simp
  then have "status_at i (w'\<lparr>nw_intents := mark_failed (ne_now E) i CLIP_PENDING (nw_intents w')\<rparr>) = Some FAILED"
    by (simp add: mark_status(2))
  then show ?thesis using 2 by (simp add: tg_bind_def settled_def)
qed

lemma mark_sending_None:
  assumes "mark_sending t i ds = (None, ds')" "get_intent i ds = Some d"
  shows "settled (di_status d)"
proof (rule ccontr)
  assume "\<not> settled (di_status d)"
  then have "d \<in> set (filter (\<lambda>d. di_id d = i \<and> \<not> settled (di_status d)) ds)"
    using get_intent_Some[OF assms(2)] by simp
  then show False using assms(1) by (auto simp: mark_sending_def find_and_update_def filter_empty_conv)
qed

lemma deliver_answer:
  assumes "deliver S E i final w = (r, w')" "r \<noteq> Inr Missing" "notify_inv w"
  shows "case r of Inr a \<Rightarrow> status_at i w' \<in> Some ` answer_status a | Inl e \<Rightarrow> status_at i w' = Some FAILED \<and> \<not> final"
proof (cases "get_intent i (nw_intents w)")
  case (Some d)
  then have d: "di_id d = i" "status_at i w = Some (di_status d)" using get_intent_Some by (auto simp: status_at_def)
  obtain c ds where m: "mark_sending (ne_now E) i (nw_intents w) = (c, ds)" by fastforce
  let ?w1 = "w\<lparr>nw_intents := ds\<rparr>"
  show ?thesis
  proof (cases "di_status d = SENT \<or> di_recipient d = UNCONFIGURED \<or> gate_is_raised (ne_now E) (nw_gate w) \<or> c = None")
    case True
    have "settled (di_status d) \<and> di_status d \<noteq> SENT \<Longrightarrow> di_status d = DEAD" by (auto simp: settled_def)
    moreover have "c = None \<Longrightarrow> settled (di_status d)" using mark_sending_None m Some by blast
    ultimately show ?thesis
      using assms(1) True Some m d bury_status[where d = d and w = w and E = E] mark_status(4)[where i = i and w = w]
      by (auto simp: deliver_def settled_def split: if_splits)
  next
    case False
    then obtain c' where c: "c = Some c'" by auto
    have o: "status_at i ?w1 = Some SENDING"
    proof -
      have "get_intent i ds \<noteq> None"
        using mark_status(5)[where i = i and w = w and t = "ne_now E"] m d(2) by (auto simp: status_at_def)
      then obtain e where e: "get_intent i ds = Some e" by auto
      then have "di_status e = SENDING"
        using mark_sending_Some(2)[OF m[unfolded c]] assms(3) get_intent_Some[OF e] by (auto simp: notify_inv_def)
      then show ?thesis using e by (simp add: status_at_def)
    qed
    show ?thesis
    proof (cases "render E (di_source d) (di_payload d)")
      case (Inl err)
      then have "r = Inr RenderFailed" "w' = bury_intent E d (di_attempts c') (''render failed: '' @ err) ?w1"
        using assms(1) False Some m c d(1) by (simp_all add: deliver_def Let_def)
      then show ?thesis using bury_status[where d = d and w = ?w1 and E = E] o d(1) by simp
    next
      case (Inr x)
      obtain t photo clip where x: "x = (t, photo, clip)" by (cases x) auto
      obtain res v where v: "tg_bind (require_clip S E i clip final) (\<lambda>_. dispatch S E d t photo clip) ?w1 = (res, v)" by fastforce
      have "\<not> settled SENDING" by (simp add: settled_def)
      from attempt_status[OF o this, of S E clip final d t photo] v
      obtain s' where s: "status_at (di_id d) v = Some s'" "\<not> settled s'" using d(1) by auto
      have "conclude S E d (di_attempts c') final (res, v) = (r, w')"
        using assms(1) False Some m c d(1) Inr x v by (simp add: deliver_def Let_def)
      from conclude_status[OF s this] show ?thesis unfolding d(1) .
    qed
  qed
qed (use assms in \<open>simp add: deliver_def\<close>)

lemma deliver_inv: "deliver S E i final w = (r, w') \<Longrightarrow> notify_inv w \<Longrightarrow> notify_inv w'"
  using evolves_inv[OF _ deliver_evolves, of w S E i final] by simp

lemma deliver_present:
  "deliver S E i final w = (r, w') \<Longrightarrow> notify_inv w \<Longrightarrow> i \<in> intent_ids w \<Longrightarrow> r \<noteq> Inr Missing \<and> i \<in> intent_ids w'"
proof -
  assume a: "deliver S E i final w = (r, w')" "notify_inv w" "i \<in> intent_ids w"
  have "get_intent i (nw_intents w) \<noteq> None" using a(3) unfolding get_intent_def first_row_filter_None intent_ids_def by auto
  moreover have "fst (deliver S E i final w) \<noteq> Inr Missing" if "get_intent i (nw_intents w) = Some d" for d
    using that by (auto simp: deliver_def conclude_def Let_def split: prod.split sum.split option.split tg_error.split)
  moreover have "intent_ids w' = intent_ids w"
    using evolves_ids(1)[OF deliver_evolves[OF a(2), of S E i final]] a(1) by (simp add: intent_ids_def)
  ultimately show ?thesis using a by force
qed

lemma attempts_settle:
  assumes "notify_inv w" "i \<in> intent_ids w"
  shows "\<exists>a w'. send_alert_attempts S E i k w = (Inr a, w') \<and> status_at i w' \<in> Some ` answer_status a"
  using assms
proof (induction k arbitrary: w)
  case 0
  obtain r w' where d: "deliver S (E 0) i True w = (r, w')" by fastforce
  then show ?case using deliver_answer[OF d] deliver_present[OF d] 0 by (cases r) auto
next
  case (Suc k)
  obtain r w' where d: "deliver S (E (Suc k)) i False w = (r, w')" by fastforce
  show ?case
  proof (cases r)
    case (Inl e)
    have "\<exists>a v. send_alert_attempts S E i k w' = (Inr a, v) \<and> status_at i v \<in> Some ` answer_status a"
      using Suc.IH[of w'] deliver_inv[OF d] deliver_present[OF d] Suc.prems by blast
    then show ?thesis using d Inl by simp
  next
    case (Inr a)
    then show ?thesis using deliver_answer[OF d] deliver_present[OF d] Suc.prems d by auto
  qed
qed

text \<open>C20: Whatever Telegram answers, a delivery task ends: its chain of attempts reaches an answer, after
  at most the allowed number of retries, and then the intent is sent, given up, or held back
  by the gate; it is never left pending, in progress or failed.\<close>

theorem delivery_task_settles:
  assumes "(notify_step S)\<^sup>*\<^sup>* empty_world w" "i \<in> intent_ids w"
  shows "\<exists>a w'. send_alert_task S E i w = (Inr a, w') \<and> status_at i w' \<in> Some ` answer_status a \<and>
    status_at i w' \<in> {Some SENT, Some DEAD, Some BUFFERED}"
proof -
  have "notify_inv w" using notify_reachable_inv[OF assms(1)] by simp
  from attempts_settle[OF this assms(2), of S E "ns_max_retries S"]
  obtain a w' where "send_alert_task S E i w = (Inr a, w')" "status_at i w' \<in> Some ` answer_status a"
    by (auto simp: send_alert_task_def)
  moreover from this(2) have "status_at i w' \<in> {Some SENT, Some DEAD, Some BUFFERED}" by (cases a) auto
  ultimately show ?thesis by blast
qed

section \<open>A sample run\<close>

definition sample_ns :: notify_settings where
  "sample_ns = \<lparr>ns_token = ''t'', ns_chat_id = ''7'', ns_caption_max = 1024, ns_video_max = 50331648, ns_snapshots = [''app'', ''snapshots''],
     ns_annotated = ''-annotated'', ns_button_ttl = 43200, ns_gate_ttl = 180, ns_gate_drain = 100, ns_max_requeues = 3,
     ns_sending_timeout = 120, ns_pending_timeout = 300, ns_clip_wait = 5000000, ns_clip_poll = 250000, ns_max_retries = 3,
     ns_reconciler_enabled = True\<rparr>"

definition sample_ne :: "datetime \<Rightarrow> http_reply \<Rightarrow> notify_env" where
  "sample_ne now reply = \<lparr>ne_now = now, ne_net = (\<lambda>_. reply), ne_fs = (\<lambda>_. \<lparr>fs_resolve = id, fs_file = (\<lambda>_. None)\<rparr>),
     ne_callback_key = None, ne_object_id = sample_oid, ne_oid_text = str_nat, ne_bytes_text = sample_oid_text, ne_isoformat = str_int, ne_minute = str_int\<rparr>"

definition sample_ok :: http_reply where
  "sample_ok = HttpReply 200 (Some \<lparr>tb_ok = True, tb_description = '''', tb_retry_after = None, tb_result = Some (7, 42)\<rparr>)"

definition sample_alert_message :: alert_message where
  "sample_alert_message = \<lparr>am_alert_id = ''a1'', am_occurred_at = 5, am_camera_id = None, am_object_class = None,
     am_severity = SevWarning, am_alert_type = ALERT_TYPE_CONCEALMENT, am_snapshot_path = None, am_clip_path = None\<rparr>"

definition sample_infra :: infra where
  "sample_infra = \<lparr>if_mongo_up = True, if_broker_up = True, if_fresh_oid = 1, if_now = 10\<rparr>"

definition sample_accepted :: notify_world where
  "sample_accepted = snd (SendAlert sample_ns sample_infra 1 (Some sample_alert_message) empty_world)"

definition sample_delivered :: notify_world where
  "sample_delivered = snd (deliver sample_ns (sample_ne 20 sample_ok) 1 False sample_accepted)"

definition sample_unreachable :: notify_world where
  "sample_unreachable = snd (deliver sample_ns (sample_ne 20 (TransportError ''ConnectError'')) 1 False sample_accepted)"

lemma sample_accepted_eq:
  "sample_accepted = empty_world\<lparr>nw_intents := [fresh_intent 10 1 \<lparr>ic_source = ALERT, ic_source_ref = ''a1'', ic_recipient = ''7'',
     ic_payload = AlertDoc sample_alert_message\<rparr>], nw_queue := [SendAlertTask 1]\<rparr>"
  by (simp add: sample_accepted_def SendAlert_def require_trusted_caller_def TRUSTED_CALLERS_def SOURCE_SERVICE_API_def
      sample_infra_def accept_intent_def acquire_def empty_world_def sample_alert_message_def resolve_recipient_def sample_ns_def
      fresh_intent_def)

lemma sample_reached: "(notify_step sample_ns)\<^sup>*\<^sup>* empty_world sample_accepted"
  "(notify_step sample_ns)\<^sup>*\<^sup>* empty_world sample_delivered" "(notify_step sample_ns)\<^sup>*\<^sup>* empty_world sample_unreachable"
proof -
  have "notify_step sample_ns empty_world sample_accepted"
    unfolding sample_accepted_def by (rule notify_step.alert) (simp add: sample_infra_def intent_ids_def empty_world_def)
  moreover have "notify_step sample_ns sample_accepted sample_delivered" "notify_step sample_ns sample_accepted sample_unreachable"
    unfolding sample_delivered_def sample_unreachable_def by (rule notify_step.delivery)+
  ultimately show "(notify_step sample_ns)\<^sup>*\<^sup>* empty_world sample_accepted"
    "(notify_step sample_ns)\<^sup>*\<^sup>* empty_world sample_delivered" "(notify_step sample_ns)\<^sup>*\<^sup>* empty_world sample_unreachable"
    by (blast intro: rtranclp.rtrancl_into_rtrancl)+
qed

text \<open>The sample delivery: without a callback key it is one plain message.\<close>

lemmas sample_delivery_run = deliver_def sample_accepted_eq get_intent_def fresh_intent_def empty_world_def UNCONFIGURED_def
  gate_is_raised_def timed_get_def mark_sending_def find_and_update_def settled_def render_def render_alert_def
  sample_alert_message_def require_clip_def nonempty_def dispatch_def keyboard_for_def sample_ne_def send_plain_def or_else_def
  tg_bind_def tg_return_def tg_lift_def send_message_def is_configured_def sample_ns_def deliver_as_def post_def call_result_def
  conclude_def Let_def

lemma sample_delivered_intents:
  "map (\<lambda>d. (di_id d, di_status d, di_telegram d)) (nw_intents sample_delivered) =
     [(1, SENT, Some \<lparr>mr_chat_id = 7, mr_message_id = 42, mr_kind = TEXT\<rparr>)] \<and> length (nw_log sample_delivered) = 1"
  by (simp add: sample_delivered_def sample_delivery_run sample_ok_def sent_of_def mark_sent_def ref_of_def)

lemma sample_unreachable_intents:
  "map (\<lambda>d. (di_id d, di_status d)) (nw_intents sample_unreachable) = [(1, BUFFERED)] \<and>
     map_option snd (nw_gate sample_unreachable) = Some 180000020"
  by (simp add: sample_unreachable_def sample_delivery_run mark_buffered_def gate_set_def seconds_def)



theorem delivery_task_settles_witness:
  "\<exists>a w'. send_alert_task sample_ns (\<lambda>_. sample_ne 20 (HttpReply 502 None)) 1 sample_accepted = (Inr a, w') \<and>
    status_at 1 w' \<in> {Some SENT, Some DEAD, Some BUFFERED}"
proof -
  have "1 \<in> intent_ids sample_accepted" by (simp add: sample_accepted_eq intent_ids_def fresh_intent_def)
  from delivery_task_settles[OF sample_reached(1) this, of "\<lambda>_. sample_ne 20 (HttpReply 502 None)"]
  show ?thesis by blast
qed

section \<open>Files\<close>

text \<open>Whatever the paths stored with an alert say and whatever symbolic links there are, a delivery
  sends only files that lie directly in the snapshot directory, and no caption is longer than
  Telegram allows.\<close>

theorem files_confined:
  "\<exists>reqs. nw_log (snd (deliver S E i final w)) = nw_log w @ reqs \<and>
    set (concat (map media_of reqs)) \<subseteq>
      {p. \<exists>k. butlast p = fs_resolve (ne_fs E k) (ns_snapshots S) \<and> fs_file (ne_fs E k) p \<noteq> None} \<and>
    {r \<in> set reqs. py_len (caption_of r) > max 3 (ns_caption_max S)} = {}"
proof -
  have "sends_only S E w (snd (deliver S E i final w))"
  proof -
    have log: "nw_log (snd (conclude S E d n final r)) = nw_log (snd r)" for d n r
      by (auto simp: conclude_def bury_intent_def split: prod.split sum.split option.split tg_error.split)
    have att: "sends_only S E v (snd (tg_bind (require_clip S E i clip final) (\<lambda>_. dispatch S E d t photo clip) v))" for v clip d t photo
    proof (rule files.bind_R)
      show "sends_only S E v (snd (require_clip S E i clip final v))"
        using files.await_R[where w = v and S = S and E = E]
        by (auto simp: require_clip_def files.same sends_only_def split: option.split prod.split) (metis snd_conv)+
    qed (rule files.dispatch_R)
    have "sends_only S E w (snd (tg_bind (require_clip S E i clip final) (\<lambda>_. dispatch S E d t photo clip) (w\<lparr>nw_intents := ds\<rparr>)))"
      for ds clip d t photo
      using att[where v = "w\<lparr>nw_intents := ds\<rparr>"] by (simp add: sends_only_def)
    then show ?thesis
      by (auto simp: deliver_def Let_def log sends_only_def bury_intent_def split: option.split prod.split sum.split)
  qed
  then obtain reqs where "nw_log (snd (deliver S E i final w)) = nw_log w @ reqs"
    "\<forall>r \<in> set reqs. list_all (in_snapshots S E) (media_of r) \<and> py_len (caption_of r) \<le> max 3 (ns_caption_max S)"
    unfolding sends_only_def by blast
  then show ?thesis by (intro exI[of _ reqs]) (fastforce simp: list_all_iff in_snapshots_def)
qed

section \<open>Held back for ever\<close>

text \<open>The beat's rounds: a sweep of the reconciler and a probe of the gate at each time.\<close>

definition beat_rounds :: "notify_settings \<Rightarrow> notify_env list \<Rightarrow> notify_world \<Rightarrow> notify_world" where
  "beat_rounds S Es w = fold (\<lambda>E w. snd (probe_gate_task S E (snd (reconcile_intents_task S E w)))) Es w"

lemma reconcile_gate: "nw_gate (snd (reconcile_intents_task S E w)) = nw_gate w"
proof -
  have "nw_gate (snd (requeue_one S E c d v)) = nw_gate v" for c d v
    by (auto simp: requeue_one_def retire_poison_def bury_intent_def split: prod.split option.split)
  then have "nw_gate (snd (requeue_all S E ds v)) = nw_gate v" for ds v
    by (induction ds arbitrary: v) (simp_all add: split_beta)
  then show ?thesis by (simp add: reconcile_intents_task_def reconcile_def)
qed

lemma reconcile_leaves_buffered:
  assumes "notify_inv w" "d \<in> set (nw_intents w)" "di_status d = BUFFERED"
  shows "d \<in> set (nw_intents (snd (reconcile_intents_task S E w)))"
proof -
  have dist: "distinct (map di_id (nw_intents w))" using assms(1) by (simp add: notify_inv_def)
  have "d \<in> set (nw_intents (snd (requeue_all S E ds v)))"
    if "d \<in> set (nw_intents v)" "\<forall>e \<in> set ds. di_id d \<noteq> di_id e" for ds v
    using that by (induction ds arbitrary: v) (simp_all add: split_beta requeue_one_others)
  moreover have "di_id d \<noteq> di_id e" if e: "e \<in> set (stale_intents S E w)" for e
  proof
    assume "di_id d = di_id e"
    then have "e = d" using distinct_id[OF dist assms(2)] stale_intents_facts(1)[OF dist] e by (metis subsetD)
    then show False using stale_intents_facts(3)[OF dist, of S E] e assms(3) by auto
  qed
  ultimately show ?thesis using assms(2) by (simp add: reconcile_intents_task_def reconcile_def)
qed

text \<open>An intent held back by the gate is stranded when the gate's key expires instead of being
  lowered by a probe: no later round of the reconciler and the probe touches it, however
  often they run and although Telegram answers.\<close>

theorem expired_gate_strands_intents:
  assumes "(notify_step S)\<^sup>*\<^sup>* empty_world w" "d \<in> set (nw_intents w)" "di_status d = BUFFERED"
    and "nw_gate w = Some (v, until)" "list_all (\<lambda>E. until \<le> ne_now E) Es"
  shows "d \<in> set (nw_intents (beat_rounds S Es w))"
proof -
  have "notify_inv w" using notify_reachable_inv[OF assms(1)] by simp
  then show ?thesis using assms(2,4,5)
  proof (induction Es arbitrary: w)
    case (Cons E Es)
    let ?w = "snd (reconcile_intents_task S E w)"
    have "nw_gate ?w = Some (v, until)" using reconcile_gate Cons.prems(3) by simp
    then have p: "snd (probe_gate_task S E ?w) = ?w"
      using Cons.prems(4) by (simp add: probe_gate_task_def gate_is_raised_def timed_get_def)
    have "notify_inv ?w" using evolves_inv[OF Cons.prems(1) reconcile_evolves[OF Cons.prems(1)]] .
    then have "d \<in> set (nw_intents (beat_rounds S Es ?w))"
      using Cons.IH[of ?w] reconcile_leaves_buffered[OF Cons.prems(1,2) assms(3)] \<open>nw_gate ?w = _\<close> Cons.prems(4) by simp
    then show ?case using p by (simp add: beat_rounds_def)
  qed (simp add: beat_rounds_def)
qed

theorem expired_gate_strands_intents_witness:
  "\<exists>d \<in> set (nw_intents (beat_rounds sample_ns [sample_ne 200000000 sample_ok, sample_ne 900000000 sample_ok] sample_unreachable)).
     di_id d = 1 \<and> di_status d = BUFFERED"
proof -
  obtain d where d: "nw_intents sample_unreachable = [d]" "di_id d = 1" "di_status d = BUFFERED"
    using sample_unreachable_intents by auto
  obtain v where g: "nw_gate sample_unreachable = Some (v, 180000020)"
    using sample_unreachable_intents by auto
  have "d \<in> set (nw_intents (beat_rounds sample_ns [sample_ne 200000000 sample_ok, sample_ne 900000000 sample_ok] sample_unreachable))"
    by (rule expired_gate_strands_intents[OF sample_reached(3) _ d(3) g]) (simp_all add: d(1) sample_ne_def)
  then show ?thesis using d by blast
qed

end
