(* ===== verification/NotifyPoller.thy ===== *)
theory NotifyPoller
  imports NotifyProperties
begin

text \<open>
  The Telegram poller (\<^verbatim>\<open>services/notification/app/telegram/handlers.py\<close>, \<^verbatim>\<open>main.py\<close>): presses of
  decision buttons, linking of accounts, the update loop under its lease.  The decision and the
  auth service are oracles; every call to them is recorded.
\<close>

section \<open>Updates\<close>

record callback_query =
  cq_id :: string
  cq_message :: "(int \<times> int) option"
  cq_from :: "int option"
  cq_data :: string

record tg_message =
  tm_chat :: "(string \<times> int) option"
  tm_from :: "int option"
  tm_text :: string

datatype tg_update = Callback int callback_query | Message int tg_message | OtherUpdate int

fun update_id :: "tg_update \<Rightarrow> int" where
  "update_id (Callback n _) = n" | "update_id (Message n _) = n" | "update_id (OtherUpdate n) = n"

datatype decide_outcome = Decided | AlreadyDecided | AlertNotFound | OperatorUnknown | OperatorForbidden | OtherOutcome

record decide_reply =
  de_outcome :: decide_outcome
  de_decision :: nat
  de_decided_by :: string
  de_decided_at :: "datetime option"

datatype bind_outcome = Bound string | TokenInvalid | AccountInUse | BindOther

record poll_env =
  pe_env :: notify_env
  pe_decide :: "string \<Rightarrow> string \<Rightarrow> int \<Rightarrow> decide_reply option"
  pe_bind :: "string \<Rightarrow> int \<Rightarrow> bind_outcome option"
  pe_broker_up :: bool
  pe_dedupe_ttl :: int

record poll_world =
  pw_notify :: notify_world
  pw_seen :: "(int \<times> datetime) list"
  pw_decides :: "(string \<times> string \<times> int) list"
  pw_binds :: "(string \<times> int) list"

definition on_notify :: "(notify_world \<Rightarrow> notify_world) \<Rightarrow> poll_world \<Rightarrow> poll_world" where
  "on_notify f p = p\<lparr>pw_notify := f (pw_notify p)\<rparr>"

text \<open>\<^verbatim>\<open>SET key 1 NX EX ttl\<close> on the key of the update.\<close>

definition first_time :: "poll_env \<Rightarrow> int \<Rightarrow> poll_world \<Rightarrow> bool \<times> poll_world" where
  "first_time E n p = (let now = ne_now (pe_env E) in
     if \<exists>(m, t) \<in> set (pw_seen p). m = n \<and> now < t then (False, p)
     else (True, p\<lparr>pw_seen := (n, now + seconds (pe_dedupe_ttl E)) # pw_seen p\<rparr>))"

section \<open>Decision buttons\<close>

definition answer :: "poll_env \<Rightarrow> string \<Rightarrow> string \<Rightarrow> bool \<Rightarrow> poll_world \<Rightarrow> poll_world" where
  "answer E callback_id t show_alert = on_notify (\<lambda>w. snd (answer_callback (pe_env E) callback_id t show_alert w))"

definition refuse :: "poll_env \<Rightarrow> string \<Rightarrow> poll_world \<Rightarrow> poll_world" where
  "refuse E callback_id = answer E callback_id ''not accepted'' False"

definition reply_label :: "nat \<Rightarrow> string" where
  "reply_label n = (if n = 1 then ''confirmed'' else if n = 2 then ''dismissed'' else if n = 3 then ''unsure'' else ''decided'')"

definition resync :: "poll_env \<Rightarrow> decide_reply \<Rightarrow> string \<Rightarrow> poll_world \<Rightarrow> poll_world" where
  "resync E r alert_id p = (case (de_decided_at r, decision_name (de_decision r)) of
     (Some t, Some name) \<Rightarrow> if pe_broker_up E
       then on_notify (\<lambda>w. w\<lparr>nw_queue := nw_queue w @ [ApplyDecisionTask alert_id name (de_decided_by r) t]\<rparr>) p else p
   | _ \<Rightarrow> p)"

definition answer_outcome :: "poll_env \<Rightarrow> string \<Rightarrow> int \<Rightarrow> int \<Rightarrow> string \<Rightarrow> decide_reply \<Rightarrow> poll_world \<Rightarrow> poll_world" where
  "answer_outcome E callback_id chat_id message_id alert_id r p = (case de_outcome r of
     Decided \<Rightarrow> answer E callback_id (''recorded: '' @ reply_label (de_decision r)) False p
   | AlreadyDecided \<Rightarrow> resync E r alert_id (answer E callback_id
       (''already '' @ reply_label (de_decision r) @ (if de_decided_by r = '''' then '''' else '' by '' @ de_decided_by r)) False p)
   | AlertNotFound \<Rightarrow> on_notify (remove_keyboard (pe_env E) chat_id message_id)
       (answer E callback_id ''this alert no longer exists'' False p)
   | OperatorUnknown \<Rightarrow> answer E callback_id ''your telegram account is not linked to an operator'' True p
   | OperatorForbidden \<Rightarrow> answer E callback_id ''your account cannot decide alerts'' True p
   | OtherOutcome \<Rightarrow> answer E callback_id ''not recorded, try again'' False p)"

definition intent_by_text :: "notify_env \<Rightarrow> string \<Rightarrow> notify_world \<Rightarrow> payload delivery_intent option" where
  "intent_by_text E t w = first_row (filter (\<lambda>d. ne_oid_text E (di_id d) = t) (nw_intents w))"

text \<open>A press.  Without a readable key \<^verbatim>\<open>verify\<close> raises and the loop logs the exception.\<close>

definition press :: "notify_settings \<Rightarrow> poll_env \<Rightarrow> callback_query \<Rightarrow> poll_world \<Rightarrow> poll_world" where
  "press S E q p = (case (cq_message q, cq_from q) of
     (Some (chat_id, message_id), Some sender) \<Rightarrow>
       if cq_id q = '''' then p
       else if str_int chat_id \<noteq> ns_chat_id S then refuse E (cq_id q) p
       else (case ne_callback_key (pe_env E) of None \<Rightarrow> p
       | Some key \<Rightarrow> (case verify_token (ne_bytes_text (pe_env E)) key (ne_now (pe_env E) div 1000000) (cq_data q) of
           Inl Expired \<Rightarrow> on_notify (remove_keyboard (pe_env E) chat_id message_id)
             (answer E (cq_id q) ''this button expired, decide in the console'' False p)
         | Inl _ \<Rightarrow> refuse E (cq_id q) p
         | Inr claim \<Rightarrow> (case intent_by_text (pe_env E) (bc_intent_id claim) (pw_notify p) of
             None \<Rightarrow> refuse E (cq_id q) p
           | Some d \<Rightarrow> (case di_telegram d of
               None \<Rightarrow> refuse E (cq_id q) p
             | Some ref \<Rightarrow> if mr_chat_id ref \<noteq> chat_id \<or> mr_message_id ref \<noteq> message_id then refuse E (cq_id q) p
                 else let call = (di_source_ref d, decision_wire (bc_decision claim), sender);
                          p1 = p\<lparr>pw_decides := pw_decides p @ [call]\<rparr>
                   in (case pe_decide E (di_source_ref d) (decision_wire (bc_decision claim)) sender of
                       None \<Rightarrow> answer E (cq_id q) ''not recorded, try again'' False p1
                     | Some r \<Rightarrow> answer_outcome E (cq_id q) chat_id message_id (di_source_ref d) r p1)))))
   | _ \<Rightarrow> p)"

section \<open>Linking an account\<close>

definition say :: "notify_settings \<Rightarrow> poll_env \<Rightarrow> int \<Rightarrow> string \<Rightarrow> poll_world \<Rightarrow> poll_world" where
  "say S E chat_id t = on_notify (\<lambda>w. snd (send_message S (pe_env E) t [] (Some (str_int chat_id)) w))"

text \<open>What follows the first word of the text.\<close>

definition after_command :: "string \<Rightarrow> string" where
  "after_command t = dropWhile is_white (dropWhile (\<lambda>c. \<not> is_white c) (dropWhile is_white t))"

definition start_command :: "notify_settings \<Rightarrow> poll_env \<Rightarrow> tg_message \<Rightarrow> poll_world \<Rightarrow> poll_world" where
  "start_command S E m p = (case (tm_chat m, tm_from m) of
     (Some (kind, chat_id), Some sender) \<Rightarrow>
       if kind \<noteq> ''private'' \<or> \<not> starts_with ''/start'' (tm_text m) then p
       else if after_command (tm_text m) = ''''
       then say S E chat_id ''open the link from the console to connect this account.'' p
       else let link_token = strip_chars is_white (after_command (tm_text m));
                p1 = p\<lparr>pw_binds := pw_binds p @ [(link_token, sender)]\<rparr>
         in (case pe_bind E link_token sender of
             None \<Rightarrow> say S E chat_id ''linking is unavailable, try again.'' p1
           | Some (Bound name) \<Rightarrow> say S E chat_id (''linked to '' @ html_escape name @ ''. decisions from here carry that name.'') p1
           | Some TokenInvalid \<Rightarrow> say S E chat_id ''this link is invalid or expired. create a new one from the console.'' p1
           | Some AccountInUse \<Rightarrow> say S E chat_id ''this telegram account is already linked to another user.'' p1
           | Some BindOther \<Rightarrow> say S E chat_id ''linking failed, create a new link.'' p1)
   | _ \<Rightarrow> p)"

definition handle_update :: "notify_settings \<Rightarrow> poll_env \<Rightarrow> tg_update \<Rightarrow> poll_world \<Rightarrow> poll_world" where
  "handle_update S E u p = (if update_id u \<le> 0 then p
     else case first_time E (update_id u) p of
       (False, p1) \<Rightarrow> p1
     | (True, p1) \<Rightarrow> (case u of Callback _ q \<Rightarrow> press S E q p1 | Message _ m \<Rightarrow> start_command S E m p1 | OtherUpdate _ \<Rightarrow> p1))"

section \<open>The loop\<close>

text \<open>One turn of \<^verbatim>\<open>_poll\<close>: the lease is renewed, the updates are fetched (\<open>fetched\<close>) and handled in order,
  and the next offset lies beyond them all.  The answer is \<open>None\<close> where the loop returns.\<close>

fun handle_updates :: "notify_settings \<Rightarrow> poll_env \<Rightarrow> tg_update list \<Rightarrow> int \<Rightarrow> poll_world \<Rightarrow> int \<times> poll_world" where
  "handle_updates S E [] offset p = (offset, p)"
| "handle_updates S E (u # us) offset p =
     handle_updates S E us (max offset (update_id u + 1)) (handle_update S E u p)"

definition poll_turn :: "notify_settings \<Rightarrow> poll_env \<Rightarrow> int \<Rightarrow> string \<Rightarrow> (tg_error + tg_update list) \<Rightarrow> int \<Rightarrow>
    string timed \<times> poll_world \<Rightarrow> int option \<times> string timed \<times> poll_world" where
  "poll_turn S E ttl_ms owner fetched offset st = (case st of (lease, p) \<Rightarrow>
     (case lease_renew (ne_now (pe_env E)) ttl_ms owner lease of
       (False, lease') \<Rightarrow> (None, lease', p)
     | (True, lease') \<Rightarrow> (case fetched of
         Inl (Permanent _ _) \<Rightarrow> (None, lease', p)
       | Inl _ \<Rightarrow> (Some offset, lease', p)
       | Inr updates \<Rightarrow> (case handle_updates S E updates offset p of (offset', p') \<Rightarrow> (Some offset', lease', p')))))"

section \<open>Who decides\<close>

lemma answer_decides [simp]: "pw_decides (answer E c t a p) = pw_decides p" "pw_decides (refuse E c p) = pw_decides p"
  "pw_decides (on_notify f p) = pw_decides p" "pw_decides (resync E r alert p) = pw_decides p" "pw_decides (say S E i t p) = pw_decides p"
  by (simp_all add: answer_def refuse_def on_notify_def resync_def say_def split: option.split prod.split)

lemma answer_outcome_decides [simp]: "pw_decides (answer_outcome E c i m a r p) = pw_decides p"
  by (simp add: answer_outcome_def split: decide_outcome.split)

lemma start_decides [simp]: "pw_decides (start_command S E m p) = pw_decides p"
  by (auto simp: start_command_def Let_def split: option.split prod.split bind_outcome.split)

lemma first_time_facts: "first_time E n p = (b, p1) \<Longrightarrow> pw_decides p1 = pw_decides p \<and> pw_notify p1 = pw_notify p"
  by (auto simp: first_time_def Let_def split: if_splits)

definition press_valid :: "notify_settings \<Rightarrow> poll_env \<Rightarrow> callback_query \<Rightarrow> poll_world \<Rightarrow> string \<times> string \<times> int \<Rightarrow> bool" where
  "press_valid S E q p c \<longleftrightarrow> (\<exists>key claim d ref. ne_callback_key (pe_env E) = Some key \<and>
     verify_token (ne_bytes_text (pe_env E)) key (ne_now (pe_env E) div 1000000) (cq_data q) = Inr claim \<and>
     d \<in> set (nw_intents (pw_notify p)) \<and> ne_oid_text (pe_env E) (di_id d) = bc_intent_id claim \<and>
     di_telegram d = Some ref \<and> cq_message q = Some (mr_chat_id ref, mr_message_id ref) \<and>
     str_int (mr_chat_id ref) = ns_chat_id S \<and>
     (\<exists>sender. cq_from q = Some sender \<and> c = (di_source_ref d, decision_wire (bc_decision claim), sender)))"

lemma press_decides:
  "pw_decides (press S E q p) = pw_decides p \<or>
    (\<exists>c. pw_decides (press S E q p) = pw_decides p @ [c] \<and> press_valid S E q p c)"
proof (cases "cq_message q = None \<or> cq_from q = None \<or> cq_id q = '''' \<or> ne_callback_key (pe_env E) = None")
  case True
  then show ?thesis by (auto simp: press_def split: option.split prod.split)
next
  case False
  then obtain chat mid sender key where q: "cq_message q = Some (chat, mid)" "cq_from q = Some sender" "cq_id q \<noteq> ''''"
    "ne_callback_key (pe_env E) = Some key" by (cases "cq_message q") auto
  let ?v = "verify_token (ne_bytes_text (pe_env E)) key (ne_now (pe_env E) div 1000000) (cq_data q)"
  show ?thesis
  proof (cases "str_int chat = ns_chat_id S \<and> (\<exists>claim. ?v = Inr claim)")
    case False
    then show ?thesis using q
      by (cases ?v) (auto simp: press_def split: token_error.split)
  next
    case True
    then obtain claim where c: "?v = Inr claim" "str_int chat = ns_chat_id S" by auto
    show ?thesis
    proof (cases "intent_by_text (pe_env E) (bc_intent_id claim) (pw_notify p)")
      case None
      then show ?thesis using q c by (simp add: press_def)
    next
      case (Some d)
      have d: "d \<in> set (nw_intents (pw_notify p))" "ne_oid_text (pe_env E) (di_id d) = bc_intent_id claim"
        using first_row_filter_Some[OF Some[unfolded intent_by_text_def]] by simp_all
      show ?thesis
      proof (cases "\<exists>ref. di_telegram d = Some ref \<and> mr_chat_id ref = chat \<and> mr_message_id ref = mid")
        case True
        then have "press_valid S E q p (di_source_ref d, decision_wire (bc_decision claim), sender)"
          using q c d by (auto simp: press_valid_def)
        then show ?thesis using True q c Some by (auto simp: press_def Let_def split: option.split)
      next
        case False
        then show ?thesis using q c Some by (auto simp: press_def split: option.split)
      qed
    qed
  qed
qed

text \<open>C23: A decision reaches the alert service only through a press of a button in the operators' chat,
  on the very message the alert was delivered as, whose data is, character by character, the
  token the service's key signs for that delivery, that decision and a deadline that has not
  passed; every other update leaves the decisions as they are.\<close>

theorem decisions_authorised:
  "pw_decides (handle_update S E u p) = pw_decides p \<or> (\<exists>n q key oid decision deadline d ref sender. u = Callback n q \<and> 0 < n \<and>
    ne_callback_key (pe_env E) = Some key \<and> cq_data q = token_for key oid decision deadline \<and>
    ne_now (pe_env E) div 1000000 \<le> int deadline \<and>
    d \<in> set (nw_intents (pw_notify p)) \<and> ne_oid_text (pe_env E) (di_id d) = ne_bytes_text (pe_env E) oid \<and>
    di_telegram d = Some ref \<and> cq_message q = Some (mr_chat_id ref, mr_message_id ref) \<and>
    str_int (mr_chat_id ref) = ns_chat_id S \<and> cq_from q = Some sender \<and>
    pw_decides (handle_update S E u p) = pw_decides p @ [(di_source_ref d, decision_wire decision, sender)])"
proof (cases "\<exists>n q. u = Callback n q \<and> 0 < n")
  case True
  then obtain n q where u: "u = Callback n q" "0 < n" by auto
  obtain b p1 where f: "first_time E n p = (b, p1)" by fastforce
  note p1 = first_time_facts[OF f]
  have h: "handle_update S E u p = (if b then press S E q p1 else p1)" using u f by (simp add: handle_update_def split: bool.split)
  show ?thesis
  proof (cases "pw_decides (handle_update S E u p) = pw_decides p")
    case False
    then obtain c where c: "pw_decides (handle_update S E u p) = pw_decides p @ [c]" "press_valid S E q p1 c"
      using press_decides[of S E q p1] p1 h by (auto split: if_splits)
    from c(2) obtain key claim d ref sender where v: "ne_callback_key (pe_env E) = Some key"
      "verify_token (ne_bytes_text (pe_env E)) key (ne_now (pe_env E) div 1000000) (cq_data q) = Inr claim"
      "d \<in> set (nw_intents (pw_notify p1))" "ne_oid_text (pe_env E) (di_id d) = bc_intent_id claim"
      "di_telegram d = Some ref" "cq_message q = Some (mr_chat_id ref, mr_message_id ref)"
      "str_int (mr_chat_id ref) = ns_chat_id S" "cq_from q = Some sender"
      "c = (di_source_ref d, decision_wire (bc_decision claim), sender)"
      unfolding press_valid_def by blast
    obtain oid where o: "bc_intent_id claim = ne_bytes_text (pe_env E) oid"
      "ne_now (pe_env E) div 1000000 \<le> int (bc_expires_at claim)"
      "cq_data q = token_for key oid (bc_decision claim) (bc_expires_at claim)"
      using verify_token_Inr[OF v(2)] by metis
    show ?thesis
      by (rule disjI2, rule exI[of _ n], rule exI[of _ q], rule exI[of _ key], rule exI[of _ oid],
          rule exI[of _ "bc_decision claim"], rule exI[of _ "bc_expires_at claim"], rule exI[of _ d],
          rule exI[of _ ref], rule exI[of _ sender])
        (use u v o c(1) p1 in simp)
  qed simp
next
  case False
  then show ?thesis using first_time_facts[where E = E and p = p]
    by (cases u) (auto simp: handle_update_def split: prod.splits bool.splits)
qed

end
