(* ===== verification/AiConcealment.thy ===== *)
theory AiConcealment
  imports Prelude Complex_Main
begin

text \<open>
  The concealment tracker of the inference service (\<^verbatim>\<open>services/ai/app/concealment.py\<close>): objects of
  a camera are matched from frame to frame, an object near a wrist is held, and a held object
  that vanishes while its holder's hands are away from the spot is reported.
  Floating-point numbers are rationals; \<^verbatim>\<open>math.hypot\<close> is an argument.
\<close>

section \<open>Geometry\<close>

type_synonym flt = rat
type_synonym bbox = "flt \<times> flt \<times> flt \<times> flt"
type_synonym keypoint = "flt \<times> flt \<times> flt"
type_synonym person = "int \<times> keypoint list \<times> bbox"
type_synonym detection = "string \<times> bbox"
type_synonym hypot = "flt \<Rightarrow> flt \<Rightarrow> flt"

definition LEFT_WRIST :: nat where "LEFT_WRIST = 9"
definition RIGHT_WRIST :: nat where "RIGHT_WRIST = 10"
definition TORSO_KEYPOINTS :: "nat list" where "TORSO_KEYPOINTS = [5, 6, 11, 12]"
definition MATCH_HEIGHTS :: flt where "MATCH_HEIGHTS = 3 / 2"

fun centre :: "bbox \<Rightarrow> flt \<times> flt" where
  "centre (x1, y1, x2, y2) = ((x1 + x2) / 2, (y1 + y2) / 2)"

fun height :: "bbox \<Rightarrow> flt" where
  "height (x1, y1, x2, y2) = max (y2 - y1) 1"

fun edge_distance :: "hypot \<Rightarrow> flt \<Rightarrow> flt \<Rightarrow> bbox \<Rightarrow> flt" where
  "edge_distance hyp x y (x1, y1, x2, y2) = hyp (max (max (x1 - x) 0) (x - x2)) (max (max (y1 - y) 0) (y - y2))"

fun contains_point :: "flt \<Rightarrow> flt \<Rightarrow> bbox \<Rightarrow> bool" where
  "contains_point x y (x1, y1, x2, y2) \<longleftrightarrow> x1 \<le> x \<and> x \<le> x2 \<and> y1 \<le> y \<and> y \<le> y2"

definition near :: "hypot \<Rightarrow> bbox \<Rightarrow> bbox \<Rightarrow> bool \<times> flt" where
  "near hyp b b' = (let distance = hyp (fst (centre b) - fst (centre b')) (snd (centre b) - snd (centre b'))
     in (distance \<le> MATCH_HEIGHTS * max (height b) (height b'), distance))"

definition kp_x :: "keypoint list \<Rightarrow> nat \<Rightarrow> flt" where "kp_x kps i = fst (kps ! i)"
definition kp_y :: "keypoint list \<Rightarrow> nat \<Rightarrow> flt" where "kp_y kps i = fst (snd (kps ! i))"
definition kp_conf :: "keypoint list \<Rightarrow> nat \<Rightarrow> flt" where "kp_conf kps i = snd (snd (kps ! i))"

definition has_torso :: "keypoint list \<Rightarrow> flt \<Rightarrow> bool" where
  "has_torso kps min_confidence \<longleftrightarrow> length kps > 12 \<and> list_all (\<lambda>i. kp_conf kps i \<ge> min_confidence) TORSO_KEYPOINTS"

definition reference_length :: "hypot \<Rightarrow> keypoint list \<Rightarrow> flt" where
  "reference_length hyp kps = max (hyp
     ((kp_x kps 5 + kp_x kps 6) / 2 - (kp_x kps 11 + kp_x kps 12) / 2)
     ((kp_y kps 5 + kp_y kps 6) / 2 - (kp_y kps 11 + kp_y kps 12) / 2)) 1"

section \<open>State\<close>

record item =
  it_id :: nat
  it_class :: string
  it_bbox :: bbox
  it_rest_x :: flt
  it_rest_y :: flt
  it_rest_height :: flt
  it_last_seen_at :: flt
  it_last_seen_frame :: int
  it_held :: bool
  it_held_by :: int
  it_wrist_index :: int
  it_wrist_x :: flt
  it_wrist_y :: flt
  it_distance :: flt
  it_fired :: bool

record verdict =
  cv_object_track_id :: nat
  cv_object_class :: string
  cv_last_seen_bbox :: bbox
  cv_last_seen_frame :: int
  cv_missing_frames :: int
  cv_person_track_id :: int
  cv_wrist_index :: int
  cv_wrist_x :: flt
  cv_wrist_y :: flt
  cv_grab_distance :: flt

record tuning =
  tn_grab_ratio :: flt
  tn_move_ratio :: flt
  tn_missing_seconds :: flt
  tn_keypoint_confidence :: flt
  tn_expiry_seconds :: flt

record tracker =
  ct_tuning :: tuning
  ct_items :: "string \<Rightarrow> item list"
  ct_persons :: "string \<times> int \<rightharpoonup> flt"
  ct_last_fired :: "string \<rightharpoonup> flt"
  ct_next :: nat

definition new_tracker :: "tuning \<Rightarrow> tracker" where
  "new_tracker tn = \<lparr>ct_tuning = tn, ct_items = (\<lambda>_. []), ct_persons = (\<lambda>_. None), ct_last_fired = (\<lambda>_. None), ct_next = 1\<rparr>"

definition retune :: "flt \<Rightarrow> flt \<Rightarrow> flt \<Rightarrow> flt \<Rightarrow> tracker \<Rightarrow> tracker" where
  "retune grab_ratio missing_seconds keypoint_confidence expiry_seconds st =
     st\<lparr>ct_tuning := (ct_tuning st)\<lparr>tn_grab_ratio := grab_ratio, tn_missing_seconds := missing_seconds,
        tn_keypoint_confidence := keypoint_confidence, tn_expiry_seconds := expiry_seconds\<rparr>\<rparr>"

section \<open>Matching and holding\<close>

definition bodies_of :: "person list \<Rightarrow> int \<rightharpoonup> bbox" where
  "bodies_of ps = map_of (rev (map (\<lambda>(t, kps, b). (t, b)) ps))"

definition on_holder :: "bbox \<Rightarrow> item \<Rightarrow> (int \<rightharpoonup> bbox) \<Rightarrow> bool" where
  "on_holder b it bodies = (case bodies (it_held_by it) of None \<Rightarrow> False
     | Some body \<Rightarrow> contains_point (fst (centre b)) (snd (centre b)) body)"

text \<open>The candidate kept so far and its distance; \<open>None\<close> stands for the initial infinite distance.\<close>

fun match_item :: "hypot \<Rightarrow> item list \<Rightarrow> string \<Rightarrow> bbox \<Rightarrow> (int \<rightharpoonup> bbox) \<Rightarrow> (item \<times> flt) option \<Rightarrow> item option" where
  "match_item hyp [] cls b bodies best = map_option fst best"
| "match_item hyp (it # free) cls b bodies best = match_item hyp free cls b bodies
     (if it_class it = cls then
        (case near hyp b (it_bbox it) of (is_near, distance) \<Rightarrow>
          if (is_near \<or> it_held it \<and> on_holder b it bodies) \<and> (case best of None \<Rightarrow> True | Some (_, d) \<Rightarrow> distance < d)
          then Some (it, distance) else best)
      else best)"

text \<open>A wrist near an object: distance over torso length, person, wrist and where it was.\<close>

type_synonym wrist = "flt \<times> int \<times> nat \<times> flt \<times> flt"

definition wrist_seen :: "tuning \<Rightarrow> keypoint list \<Rightarrow> nat \<Rightarrow> bool" where
  "wrist_seen tn kps i \<longleftrightarrow> kp_conf kps i \<ge> tn_keypoint_confidence tn"

definition wrist_distance :: "hypot \<Rightarrow> keypoint list \<Rightarrow> nat \<Rightarrow> bbox \<Rightarrow> flt" where
  "wrist_distance hyp kps i b = edge_distance hyp (kp_x kps i) (kp_y kps i) b / reference_length hyp kps"

definition consider_wrist :: "hypot \<Rightarrow> tuning \<Rightarrow> bbox \<Rightarrow> int \<Rightarrow> keypoint list \<Rightarrow> nat \<Rightarrow> wrist option \<Rightarrow> wrist option" where
  "consider_wrist hyp tn b t kps i closest =
     (let distance = wrist_distance hyp kps i b in
      if wrist_seen tn kps i \<and> distance \<le> tn_grab_ratio tn \<and> (case closest of None \<Rightarrow> True | Some (d, _) \<Rightarrow> distance < d)
      then Some (distance, t, i, kp_x kps i, kp_y kps i) else closest)"

fun closest_wrist :: "hypot \<Rightarrow> tuning \<Rightarrow> bbox \<Rightarrow> person list \<Rightarrow> wrist option \<Rightarrow> wrist option" where
  "closest_wrist hyp tn b [] closest = closest"
| "closest_wrist hyp tn b ((t, kps, body) # ps) closest = closest_wrist hyp tn b ps
     (if has_torso kps (tn_keypoint_confidence tn)
      then consider_wrist hyp tn b t kps RIGHT_WRIST (consider_wrist hyp tn b t kps LEFT_WRIST closest)
      else closest)"

definition update_hold :: "hypot \<Rightarrow> tuning \<Rightarrow> person list \<Rightarrow> (int \<rightharpoonup> bbox) \<Rightarrow> item \<Rightarrow> item" where
  "update_hold hyp tn ps bodies it =
     (case closest_wrist hyp tn (it_bbox it) ps None of
       Some (d, t, i, x, y) \<Rightarrow> it\<lparr>it_held := True, it_distance := d, it_held_by := t, it_wrist_index := int i,
          it_wrist_x := x, it_wrist_y := y\<rparr>
     | None \<Rightarrow>
         let moved = hyp (fst (centre (it_bbox it)) - it_rest_x it) (snd (centre (it_bbox it)) - it_rest_y it) / it_rest_height it
         in it\<lparr>it_held := it_held it \<and> moved \<ge> tn_move_ratio tn \<and> on_holder (it_bbox it) it bodies\<rparr>)"

definition fresh_item :: "nat \<Rightarrow> string \<Rightarrow> bbox \<Rightarrow> flt \<Rightarrow> int \<Rightarrow> item" where
  "fresh_item i cls b captured_at frame = \<lparr>it_id = i, it_class = cls, it_bbox = b, it_rest_x = fst (centre b),
     it_rest_y = snd (centre b), it_rest_height = height b, it_last_seen_at = captured_at, it_last_seen_frame = frame,
     it_held = False, it_held_by = 0, it_wrist_index = -1, it_wrist_x = 0, it_wrist_y = 0, it_distance = 0, it_fired = False\<rparr>"

definition seen_item :: "hypot \<Rightarrow> tuning \<Rightarrow> person list \<Rightarrow> (int \<rightharpoonup> bbox) \<Rightarrow> bbox \<Rightarrow> flt \<Rightarrow> int \<Rightarrow> item \<Rightarrow> item" where
  "seen_item hyp tn ps bodies b captured_at frame it = update_hold hyp tn ps bodies
     (it\<lparr>it_bbox := b, it_last_seen_at := captured_at, it_last_seen_frame := frame, it_fired := False\<rparr>)"

text \<open>The objects of a frame in turn: the items, those still free, the next id, the ids given.\<close>

fun see_objects :: "hypot \<Rightarrow> tuning \<Rightarrow> person list \<Rightarrow> flt \<Rightarrow> int \<Rightarrow> detection list \<Rightarrow> item list \<Rightarrow> item list \<Rightarrow> nat \<Rightarrow>
    nat list \<times> item list \<times> nat" where
  "see_objects hyp tn ps now frame [] free items next_id = ([], items, next_id)"
| "see_objects hyp tn ps now frame ((cls, b) # objs) free items next_id =
     (let bodies = bodies_of ps; see = seen_item hyp tn ps bodies b now frame in
      case match_item hyp free cls b bodies None of
        None \<Rightarrow> (case see_objects hyp tn ps now frame objs free (items @ [see (fresh_item next_id cls b now frame)]) (next_id + 1) of
          (ids, items', n) \<Rightarrow> (next_id # ids, items', n))
      | Some it \<Rightarrow> (case see_objects hyp tn ps now frame objs (remove1 it free)
            (update_where (\<lambda>j. it_id j = it_id it) see items) next_id of
          (ids, items', n) \<Rightarrow> (it_id it # ids, items', n)))"

section \<open>Verdicts\<close>

definition still_visible :: "hypot \<Rightarrow> item \<Rightarrow> detection list \<Rightarrow> bool" where
  "still_visible hyp it objs = list_ex (\<lambda>(cls, b). cls = it_class it \<and> fst (near hyp b (it_bbox it))) objs"

text \<open>The first person of the frame with the holder's track decides; without one the hand may be there.\<close>

definition hand_on_spot :: "hypot \<Rightarrow> tuning \<Rightarrow> item \<Rightarrow> person list \<Rightarrow> bool" where
  "hand_on_spot hyp tn it ps = (case first_row (filter (\<lambda>(t, kps, b). t = it_held_by it) ps) of
     None \<Rightarrow> True
   | Some (t, kps, b) \<Rightarrow> if \<not> has_torso kps (tn_keypoint_confidence tn) then True
       else let visible = filter (wrist_seen tn kps) [LEFT_WRIST, RIGHT_WRIST]
         in if list_ex (\<lambda>i. wrist_distance hyp kps i (it_bbox it) \<le> tn_grab_ratio tn) visible then True else visible = [])"

definition holder_present :: "tuning \<Rightarrow> (string \<times> int \<rightharpoonup> flt) \<Rightarrow> string \<Rightarrow> item \<Rightarrow> flt \<Rightarrow> bool" where
  "holder_present tn persons camera it now = (case persons (camera, it_held_by it) of None \<Rightarrow> False
     | Some seen \<Rightarrow> now - seen \<le> tn_missing_seconds tn)"

definition ready :: "hypot \<Rightarrow> tuning \<Rightarrow> (string \<times> int \<rightharpoonup> flt) \<Rightarrow> string \<Rightarrow> flt \<Rightarrow> person list \<Rightarrow> detection list \<Rightarrow> item \<Rightarrow> bool" where
  "ready hyp tn persons camera now ps objs it \<longleftrightarrow> \<not> (it_fired it \<or> \<not> it_held it) \<and>
     \<not> now - it_last_seen_at it < tn_missing_seconds tn \<and> \<not> still_visible hyp it objs \<and>
     \<not> hand_on_spot hyp tn it ps \<and> holder_present tn persons camera it now"

definition verdict_of :: "int \<Rightarrow> item \<Rightarrow> verdict" where
  "verdict_of frame it = \<lparr>cv_object_track_id = it_id it, cv_object_class = it_class it, cv_last_seen_bbox = it_bbox it,
     cv_last_seen_frame = it_last_seen_frame it, cv_missing_frames = frame - it_last_seen_frame it,
     cv_person_track_id = it_held_by it, cv_wrist_index = it_wrist_index it, cv_wrist_x = it_wrist_x it,
     cv_wrist_y = it_wrist_y it, cv_grab_distance = it_distance it\<rparr>"

text \<open>The items kept, the verdicts, and whether one was issued (which mutes the rest).\<close>

fun collect :: "(item \<Rightarrow> bool) \<Rightarrow> (item \<Rightarrow> bool) \<Rightarrow> int \<Rightarrow> bool \<Rightarrow> item list \<Rightarrow> item list \<times> verdict list" where
  "collect expired is_ready frame muted [] = ([], [])"
| "collect expired is_ready frame muted (it # items) =
     (if expired it then collect expired is_ready frame muted items
      else if \<not> is_ready it then (case collect expired is_ready frame muted items of (kept, vs) \<Rightarrow> (it # kept, vs))
      else if muted then (case collect expired is_ready frame muted items of (kept, vs) \<Rightarrow> (it\<lparr>it_fired := True\<rparr> # kept, vs))
      else (case collect expired is_ready frame True items of (kept, vs) \<Rightarrow>
        (it\<lparr>it_fired := True\<rparr> # kept, verdict_of frame it # vs)))"

definition observe :: "hypot \<Rightarrow> string \<Rightarrow> int \<Rightarrow> flt \<Rightarrow> person list \<Rightarrow> detection list \<Rightarrow> tracker \<Rightarrow>
    nat list \<times> verdict list \<times> tracker" where
  "observe hyp camera frame now ps objs st = (let
       tn = ct_tuning st;
       persons = fold (\<lambda>(t, kps, b) m. m((camera, t) \<mapsto> now)) ps (ct_persons st)
     in case see_objects hyp tn ps now frame objs (ct_items st camera) (ct_items st camera) (ct_next st) of
       (ids, items, n) \<Rightarrow>
         let muted = (case ct_last_fired st camera of None \<Rightarrow> False | Some t \<Rightarrow> now - t < tn_expiry_seconds tn)
         in case collect (\<lambda>it. now - it_last_seen_at it > tn_expiry_seconds tn)
                (ready hyp tn persons camera now ps objs) frame muted items of
              (kept, vs) \<Rightarrow> (ids, vs, st\<lparr>ct_items := (ct_items st)(camera := kept),
                ct_persons := (\<lambda>k. case persons k of None \<Rightarrow> None
                  | Some seen \<Rightarrow> if fst k = camera \<and> now - seen > tn_expiry_seconds tn then None else Some seen),
                ct_last_fired := (if vs = [] then ct_last_fired st else (ct_last_fired st)(camera \<mapsto> now)),
                ct_next := n\<rparr>))"

end
