(* ===== verification/AiProperties.thy ===== *)
theory AiProperties
  imports AiConcealment
begin

text \<open>
  What the concealment tracker's verdicts mean, over every sequence of frames of all cameras:
  each has a grab before it and the evidence of its own frame, and two of one camera are at
  least the expiry time apart.
\<close>

section \<open>Runs\<close>

record frame =
  fr_camera :: string
  fr_index :: int
  fr_now :: flt
  fr_persons :: "person list"
  fr_objects :: "detection list"

text \<open>The verdicts of every frame, and the tracker after the last.\<close>

fun run_frames :: "hypot \<Rightarrow> frame list \<Rightarrow> tracker \<Rightarrow> (frame \<times> verdict list) list \<times> tracker" where
  "run_frames hyp [] st = ([], st)"
| "run_frames hyp (f # fs) st =
     (case observe hyp (fr_camera f) (fr_index f) (fr_now f) (fr_persons f) (fr_objects f) st of (ids, vs, st') \<Rightarrow>
        (case run_frames hyp fs st' of (out, st'') \<Rightarrow> ((f, vs) # out, st'')))"

section \<open>Grabs\<close>

text \<open>In this frame a wrist of the person with this track is near a detected object of the class.\<close>

definition grab_in :: "hypot \<Rightarrow> tuning \<Rightarrow> person list \<Rightarrow> detection list \<Rightarrow> int \<Rightarrow> string \<Rightarrow> bool" where
  "grab_in hyp tn ps objs t cls \<longleftrightarrow> (\<exists>kps body b i. (t, kps, body) \<in> set ps \<and> (cls, b) \<in> set objs \<and>
     has_torso kps (tn_keypoint_confidence tn) \<and> i \<in> {LEFT_WRIST, RIGHT_WRIST} \<and> wrist_seen tn kps i \<and>
     wrist_distance hyp kps i b \<le> tn_grab_ratio tn)"

lemma consider_wrist_Some:
  "consider_wrist hyp tn b t kps i c = Some w \<Longrightarrow> c = Some w \<or>
     (fst (snd w) = t \<and> wrist_seen tn kps i \<and> wrist_distance hyp kps i b \<le> tn_grab_ratio tn)"
  by (auto simp: consider_wrist_def Let_def split: if_splits)

lemma closest_wrist_Some:
  assumes "closest_wrist hyp tn b ps c = Some w" "(cls, b) \<in> set objs"
  shows "c = Some w \<or> grab_in hyp tn ps objs (fst (snd w)) cls"
  using assms(1)
proof (induction ps arbitrary: c)
  case (Cons p ps)
  obtain t kps body where p: "p = (t, kps, body)" by (cases p) auto
  let ?c = "if has_torso kps (tn_keypoint_confidence tn)
      then consider_wrist hyp tn b t kps RIGHT_WRIST (consider_wrist hyp tn b t kps LEFT_WRIST c) else c"
  have "closest_wrist hyp tn b ps ?c = Some w" using Cons.prems p by simp
  from Cons.IH[OF this] show ?case
  proof
    assume "?c = Some w"
    then consider "c = Some w" | i where "has_torso kps (tn_keypoint_confidence tn)" "i \<in> {LEFT_WRIST, RIGHT_WRIST}"
        "fst (snd w) = t" "wrist_seen tn kps i" "wrist_distance hyp kps i b \<le> tn_grab_ratio tn"
      by (auto split: if_splits dest!: consider_wrist_Some)
    then show ?thesis
    proof cases
      case (2 i)
      then have "grab_in hyp tn (p # ps) objs (fst (snd w)) cls"
        unfolding grab_in_def p using assms(2) by (intro exI[of _ kps] exI[of _ body] exI[of _ b] exI[of _ i]) simp
      then show ?thesis by simp
    qed simp
  next
    assume "grab_in hyp tn ps objs (fst (snd w)) cls"
    then show ?thesis unfolding grab_in_def by (meson list.set_intros(2))
  qed
qed simp

definition held_ok :: "(int \<Rightarrow> string \<Rightarrow> bool) \<Rightarrow> item \<Rightarrow> bool" where
  "held_ok G it \<longleftrightarrow> (it_held it \<longrightarrow> G (it_held_by it) (it_class it))"

lemma seen_item_fields [simp]:
  "it_id (seen_item hyp tn ps bodies b now fr it) = it_id it" "it_class (seen_item hyp tn ps bodies b now fr it) = it_class it"
  by (simp_all add: seen_item_def update_hold_def Let_def split: option.split prod.split)

lemma seen_item_held:
  assumes "held_ok G it" "(it_class it, b) \<in> set objs" "\<And>t c. grab_in hyp tn ps objs t c \<Longrightarrow> G t c"
  shows "held_ok G (seen_item hyp tn ps bodies b now fr it)"
proof (cases "closest_wrist hyp tn b ps None")
  case None
  then show ?thesis using assms(1) by (auto simp: seen_item_def update_hold_def Let_def held_ok_def)
next
  case (Some w)
  obtain d t i x y where w: "w = (d, t, i, x, y)" by (cases w) auto
  have "grab_in hyp tn ps objs t (it_class it)" using closest_wrist_Some[OF Some assms(2)] w by simp
  then show ?thesis using assms(3) Some w by (simp add: seen_item_def update_hold_def held_ok_def)
qed

lemma match_item_Some:
  "match_item hyp free cls b bodies best = Some it \<Longrightarrow>
     map_option fst best = Some it \<or> (it \<in> set free \<and> it_class it = cls)"
proof (induction free arbitrary: best)
  case (Cons f free)
  then show ?case by (fastforce split: if_splits prod.splits)
qed simp

text \<open>Items of one camera have their own ids, all below the next one.\<close>

definition ids_ok :: "nat \<Rightarrow> item list \<Rightarrow> bool" where
  "ids_ok n items \<longleftrightarrow> distinct (map it_id items) \<and> (\<forall>it \<in> set items. it_id it < n)"

lemma ids_ok_same: "ids_ok n items \<Longrightarrow> a \<in> set items \<Longrightarrow> b \<in> set items \<Longrightarrow> it_id a = it_id b \<Longrightarrow> a = b"
  by (auto simp: ids_ok_def distinct_map inj_on_def)

lemma see_objects_ok:
  assumes "see_objects hyp tn ps now fr objs free items n = (ids, items', n')" "set objs \<subseteq> set all"
    and "ids_ok n items" "set free \<subseteq> set items" "distinct free" "\<forall>it \<in> set items. held_ok G it"
    and "\<And>t c. grab_in hyp tn ps all t c \<Longrightarrow> G t c"
  shows "ids_ok n' items' \<and> n \<le> n' \<and> (\<forall>it \<in> set items'. held_ok G it)"
  using assms(1-6)
proof (induction objs arbitrary: free items n ids items' n')
  case (Cons o' objs)
  obtain cls b where o': "o' = (cls, b)" by (cases o')
  let ?see = "seen_item hyp tn ps (bodies_of ps) b now fr"
  have in_all: "(cls, b) \<in> set all" using Cons.prems(2) o' by simp
  show ?case
  proof (cases "match_item hyp free cls b (bodies_of ps) None")
    case None
    let ?new = "?see (fresh_item n cls b now fr)"
    obtain ids' where r: "see_objects hyp tn ps now fr objs free (items @ [?new]) (n + 1) = (ids', items', n')"
      using Cons.prems(1) o' None by (auto simp: Let_def split: prod.splits)
    have "held_ok G ?new"
      by (rule seen_item_held[of _ _ _ all]) (use in_all assms(7) in \<open>auto simp: held_ok_def fresh_item_def\<close>)
    moreover have "ids_ok (n + 1) (items @ [?new])"
      using Cons.prems(3) by (auto simp: ids_ok_def fresh_item_def less_Suc_eq)
    ultimately have "ids_ok n' items' \<and> n + 1 \<le> n' \<and> (\<forall>it \<in> set items'. held_ok G it)"
      using Cons.prems by (intro Cons.IH[OF r]) auto
    then show ?thesis by simp
  next
    case (Some it)
    let ?items = "update_where (\<lambda>j. it_id j = it_id it) ?see items"
    obtain ids' where r: "see_objects hyp tn ps now fr objs (remove1 it free) ?items n = (ids', items', n')"
      using Cons.prems(1) o' Some by (auto simp: Let_def split: prod.splits)
    have it: "it \<in> set free" "it_class it = cls" using match_item_Some[OF Some] by auto
    have only: "j = it" if "j \<in> set items" "it_id j = it_id it" for j
      using ids_ok_same[OF Cons.prems(3) that(1)] it(1) Cons.prems(4) that(2) by blast
    have "map it_id ?items = map it_id items" by (rule map_update_where) simp
    then have ids: "ids_ok n ?items"
      using Cons.prems(3) unfolding ids_ok_def by (metis (no_types, lifting) image_iff set_map)
    have held: "\<forall>j \<in> set ?items. held_ok G j"
    proof (rule update_where_all)
      fix j assume j: "j \<in> set items"
      show "held_ok G (if it_id j = it_id it then ?see j else j)"
      proof (cases "it_id j = it_id it")
        case True
        then have "it_class j = cls" using only[OF j] it(2) by simp
        then have "held_ok G (?see j)"
          using j Cons.prems(6) in_all assms(7) by (intro seen_item_held[of _ _ _ all]) auto
        then show ?thesis using True by simp
      qed (use j Cons.prems(6) in simp)
    qed
    have "set (remove1 it free) \<subseteq> set ?items"
    proof
      fix j assume j: "j \<in> set (remove1 it free)"
      then have "j \<in> set items" "j \<noteq> it" using Cons.prems(4,5) by (auto simp: set_remove1_eq)
      then have "it_id j \<noteq> it_id it" using only by blast
      then show "j \<in> set ?items" unfolding in_update_where by (intro bexI[of _ j] \<open>j \<in> set items\<close>) simp
    qed
    then have "ids_ok n' items' \<and> n \<le> n' \<and> (\<forall>it \<in> set items'. held_ok G it)"
      using Cons.prems ids held by (intro Cons.IH[OF r]) auto
    then show ?thesis .
  qed
qed simp

lemma collect_facts:
  assumes "collect expired is_ready fr muted items = (kept, vs)"
  shows "\<exists>js. kept = map (\<lambda>it. if is_ready it then it\<lparr>it_fired := True\<rparr> else it) (filter (\<lambda>it. \<not> expired it) items) \<and>
      (\<forall>v \<in> set vs. \<exists>it \<in> set items. v = verdict_of fr it \<and> is_ready it) \<and> length vs \<le> (if muted then 0 else 1)"
  using assms
proof (induction items arbitrary: muted kept vs)
  case (Cons it items)
  show ?case
  proof (cases "expired it \<or> \<not> is_ready it")
    case True
    then obtain kept' where "collect expired is_ready fr muted items = (kept', vs)" "kept = (if expired it then kept' else it # kept')"
      using Cons.prems by (auto split: prod.splits if_splits)
    then show ?thesis using Cons.IH[of muted kept' vs] True by auto
  next
    case False
    obtain kept' vs' where c: "collect expired is_ready fr True items = (kept', vs')" by fastforce
    then have "kept = it\<lparr>it_fired := True\<rparr> # kept'" "vs = (if muted then vs' else verdict_of fr it # vs')"
      using Cons.prems False by (cases muted; simp)+
    then show ?thesis using Cons.IH[OF c] False by auto
  qed
qed simp

section \<open>One frame\<close>

definition grabbed :: "hypot \<Rightarrow> tuning \<Rightarrow> frame list \<Rightarrow> string \<Rightarrow> int \<Rightarrow> string \<Rightarrow> bool" where
  "grabbed hyp tn hist camera t cls \<longleftrightarrow>
     (\<exists>g \<in> set hist. fr_camera g = camera \<and> grab_in hyp tn (fr_persons g) (fr_objects g) t cls)"

text \<open>The frame shows the holder's torso and a wrist of his, every wrist it shows is away from where the
  object was, and no object of the class is near there.\<close>

definition hands_away :: "hypot \<Rightarrow> tuning \<Rightarrow> frame \<Rightarrow> int \<Rightarrow> bbox \<Rightarrow> bool" where
  "hands_away hyp tn f t b \<longleftrightarrow> (\<exists>kps body. (t, kps, body) \<in> set (fr_persons f) \<and>
     has_torso kps (tn_keypoint_confidence tn) \<and>
     (let visible = filter (wrist_seen tn kps) [LEFT_WRIST, RIGHT_WRIST]
      in visible \<noteq> [] \<and> list_all (\<lambda>i. wrist_distance hyp kps i b > tn_grab_ratio tn) visible))"

definition gone :: "hypot \<Rightarrow> frame \<Rightarrow> string \<Rightarrow> bbox \<Rightarrow> bool" where
  "gone hyp f cls b \<longleftrightarrow> list_all (\<lambda>(c, b'). \<not> (c = cls \<and> fst (near hyp b' b))) (fr_objects f)"

lemma hand_not_on_spot:
  assumes "\<not> hand_on_spot hyp tn it (fr_persons f)"
  shows "hands_away hyp tn f (it_held_by it) (it_bbox it)"
proof -
  obtain p where p: "first_row (filter (\<lambda>(t, kps, b). t = it_held_by it) (fr_persons f)) = Some p"
    using assms by (cases "first_row (filter (\<lambda>(t, kps, b). t = it_held_by it) (fr_persons f))") (auto simp: hand_on_spot_def)
  obtain t kps body where t: "p = (t, kps, body)" by (cases p) auto
  have "(it_held_by it, kps, body) \<in> set (fr_persons f)" using first_row_filter_Some[OF p] t by auto
  moreover have "has_torso kps (tn_keypoint_confidence tn) \<and>
     (let visible = filter (wrist_seen tn kps) [LEFT_WRIST, RIGHT_WRIST]
      in visible \<noteq> [] \<and> list_all (\<lambda>i. wrist_distance hyp kps i (it_bbox it) > tn_grab_ratio tn) visible)"
    using assms p t by (auto simp: hand_on_spot_def Let_def not_le split: if_splits)
  ultimately show ?thesis unfolding hands_away_def by blast
qed

definition tracker_ok :: "hypot \<Rightarrow> tuning \<Rightarrow> frame list \<Rightarrow> tracker \<Rightarrow> bool" where
  "tracker_ok hyp tn hist st \<longleftrightarrow> ct_tuning st = tn \<and>
     (\<forall>camera. ids_ok (ct_next st) (ct_items st camera) \<and> (\<forall>it \<in> set (ct_items st camera). held_ok (grabbed hyp tn hist camera) it))"

lemma grabbed_mono: "grabbed hyp tn hist camera t c \<Longrightarrow> grabbed hyp tn (hist @ [f]) camera t c"
  by (auto simp: grabbed_def)

abbreviation observe_frame :: "hypot \<Rightarrow> frame \<Rightarrow> tracker \<Rightarrow> nat list \<times> verdict list \<times> tracker" where
  "observe_frame hyp f st \<equiv> observe hyp (fr_camera f) (fr_index f) (fr_now f) (fr_persons f) (fr_objects f) st"

definition muted_at :: "tracker \<Rightarrow> frame \<Rightarrow> bool" where
  "muted_at st f \<longleftrightarrow> (case ct_last_fired st (fr_camera f) of None \<Rightarrow> False | Some t \<Rightarrow> fr_now f - t < tn_expiry_seconds (ct_tuning st))"

lemma observe_facts:
  assumes "tracker_ok hyp tn hist st" "observe_frame hyp f st = (ids, vs, st')"
  shows "tracker_ok hyp tn (hist @ [f]) st'"
    and "\<And>v. v \<in> set vs \<Longrightarrow> grabbed hyp tn (hist @ [f]) (fr_camera f) (cv_person_track_id v) (cv_object_class v) \<and>
       hands_away hyp tn f (cv_person_track_id v) (cv_last_seen_bbox v) \<and> gone hyp f (cv_object_class v) (cv_last_seen_bbox v)"
    and "length vs \<le> (if muted_at st f then 0 else 1)"
    and "ct_last_fired st' = (if vs = [] then ct_last_fired st else (ct_last_fired st)(fr_camera f \<mapsto> fr_now f))"
proof -
  let ?cam = "fr_camera f" and ?G = "grabbed hyp tn (hist @ [f]) (fr_camera f)"
  have tn: "ct_tuning st = tn" using assms(1) by (simp add: tracker_ok_def)
  define persons where "persons = fold (\<lambda>(t, kps, b) m. m((?cam, t) \<mapsto> fr_now f)) (fr_persons f) (ct_persons st)"
  obtain ids' items n where s: "see_objects hyp tn (fr_persons f) (fr_now f) (fr_index f) (fr_objects f) (ct_items st ?cam) (ct_items st ?cam)
      (ct_next st) = (ids', items, n)" by (metis prod.exhaust)
  let ?ready = "ready hyp tn persons ?cam (fr_now f) (fr_persons f) (fr_objects f)"
  let ?expired = "\<lambda>it. fr_now f - it_last_seen_at it > tn_expiry_seconds tn"
  obtain kept vs' where c: "collect ?expired ?ready (fr_index f) (muted_at st f) items = (kept, vs')" by fastforce
  have o': "vs = vs'" "ct_items st' = (ct_items st)(?cam := kept)" "ct_next st' = n" "ct_tuning st' = tn"
    "ct_last_fired st' = (if vs = [] then ct_last_fired st else (ct_last_fired st)(?cam \<mapsto> fr_now f))"
    using assms(2) s c tn unfolding observe_def muted_at_def persons_def by (auto simp: Let_def split: prod.splits)
  then show "ct_last_fired st' = (if vs = [] then ct_last_fired st else (ct_last_fired st)(?cam \<mapsto> fr_now f))" by simp
  have ok: "ids_ok (ct_next st) (ct_items st ?cam)" "\<forall>it \<in> set (ct_items st ?cam). held_ok ?G it"
    using assms(1) grabbed_mono by (auto simp: tracker_ok_def held_ok_def)
  have "distinct (ct_items st ?cam)" using ok(1) by (simp add: ids_ok_def distinct_map)
  moreover have "grab_in hyp tn (fr_persons f) (fr_objects f) t cls \<Longrightarrow> ?G t cls" for t cls by (auto simp: grabbed_def)
  ultimately have items: "ids_ok n items" "ct_next st \<le> n" "\<forall>it \<in> set items. held_ok ?G it"
    using see_objects_ok[OF s subset_refl ok(1) subset_refl] ok(2) by blast+
  note cf = collect_facts[OF c]
  then have kept: "kept = map (\<lambda>it. if ?ready it then it\<lparr>it_fired := True\<rparr> else it) (filter (\<lambda>it. \<not> ?expired it) items)" by simp
  have "map it_id kept = map it_id (filter (\<lambda>it. \<not> ?expired it) items)" by (simp add: kept comp_def)
  then have "distinct (map it_id kept)" using items(1) by (simp add: ids_ok_def distinct_map_filter)
  moreover have "\<forall>it \<in> set kept. it_id it < n \<and> held_ok ?G it"
    using items(1,3) by (auto simp: ids_ok_def kept held_ok_def)
  ultimately have "ids_ok n kept" "\<forall>it \<in> set kept. held_ok ?G it" by (simp_all add: ids_ok_def)
  then show "tracker_ok hyp tn (hist @ [f]) st'"
    unfolding tracker_ok_def
  proof (intro conjI allI)
    show "ct_tuning st' = tn" by (rule o'(4))
    fix camera
    have "ids_ok n (ct_items st camera)" "\<forall>it \<in> set (ct_items st camera). held_ok (grabbed hyp tn (hist @ [f]) camera) it"
      using assms(1) items(2) grabbed_mono by (auto simp: tracker_ok_def ids_ok_def held_ok_def) (meson less_le_trans)
    then show "ids_ok (ct_next st') (ct_items st' camera)"
      "\<forall>it \<in> set (ct_items st' camera). held_ok (grabbed hyp tn (hist @ [f]) camera) it"
      using \<open>ids_ok n kept\<close> \<open>\<forall>it \<in> set kept. held_ok ?G it\<close> o'(2,3) by (cases "camera = ?cam"; simp)+
  qed
  show "length vs \<le> (if muted_at st f then 0 else 1)" using cf o'(1) by simp
  show "?G (cv_person_track_id v) (cv_object_class v) \<and>
       hands_away hyp tn f (cv_person_track_id v) (cv_last_seen_bbox v) \<and> gone hyp f (cv_object_class v) (cv_last_seen_bbox v)"
    if v: "v \<in> set vs" for v
  proof -
    obtain it where it: "it \<in> set items" "v = verdict_of (fr_index f) it" "?ready it" using cf v o'(1) by auto
    then have r: "it_held it" "\<not> still_visible hyp it (fr_objects f)" "\<not> hand_on_spot hyp tn it (fr_persons f)"
      by (simp_all add: ready_def)
    have "?G (it_held_by it) (it_class it)" using items(3) it(1) r(1) by (simp add: held_ok_def)
    moreover have "gone hyp f (it_class it) (it_bbox it)"
      using r(2) by (auto simp: gone_def still_visible_def list_all_iff list_ex_iff)
    ultimately show ?thesis using hand_not_on_spot[OF r(3)] it(2) by (simp add: verdict_of_def)
  qed
qed

section \<open>All frames\<close>

lemma run_length [simp]: "length (fst (run_frames hyp fs st)) = length fs"
  by (induction fs arbitrary: st) (auto split: prod.splits, metis fst_conv)

lemma run_verdicts:
  assumes "tracker_ok hyp tn hist st" "n < length fs" "v \<in> set (snd (fst (run_frames hyp fs st) ! n))"
  shows "grabbed hyp tn (hist @ take (Suc n) fs) (fr_camera (fs ! n)) (cv_person_track_id v) (cv_object_class v) \<and>
    hands_away hyp tn (fs ! n) (cv_person_track_id v) (cv_last_seen_bbox v) \<and> gone hyp (fs ! n) (cv_object_class v) (cv_last_seen_bbox v)"
  using assms
proof (induction fs arbitrary: hist st n)
  case (Cons f fs)
  obtain ids vs st' where o': "observe_frame hyp f st = (ids, vs, st')" by (metis prod.exhaust)
  note facts = observe_facts[OF Cons.prems(1) o']
  have run: "fst (run_frames hyp (f # fs) st) = (f, vs) # fst (run_frames hyp fs st')"
    using o' by (simp split: prod.split)
  show ?case
  proof (cases n)
    case 0
    then show ?thesis using facts(2) Cons.prems(3) run by simp
  next
    case (Suc m)
    then show ?thesis using Cons.IH[OF facts(1), of m] Cons.prems run by simp
  qed
qed simp

lemma new_tracker_ok: "tracker_ok hyp tn [] (new_tracker tn)"
  by (simp add: tracker_ok_def new_tracker_def ids_ok_def)


lemma run_spacing_from:
  assumes "tracker_ok hyp tn hist st" "0 \<le> tn_expiry_seconds tn" "ct_last_fired st camera = Some t"
    and "n < length fs" "fr_camera (fs ! n) = camera" "snd (fst (run_frames hyp fs st) ! n) \<noteq> []"
  shows "tn_expiry_seconds tn \<le> fr_now (fs ! n) - t"
  using assms
proof (induction fs arbitrary: hist st n t)
  case (Cons f fs)
  obtain ids vs st' where o': "observe_frame hyp f st = (ids, vs, st')" by (metis prod.exhaust)
  note facts = observe_facts[OF Cons.prems(1) o']
  have tn: "ct_tuning st = tn" using Cons.prems(1) by (simp add: tracker_ok_def)
  have run: "fst (run_frames hyp (f # fs) st) = (f, vs) # fst (run_frames hyp fs st')"
    using o' by (simp split: prod.split)
  have first: "tn_expiry_seconds tn \<le> fr_now f - t" if "fr_camera f = camera" "vs \<noteq> []"
    using facts(3) that Cons.prems(3) tn by (auto simp: muted_at_def split: if_splits)
  show ?case
  proof (cases n)
    case 0
    then show ?thesis using first Cons.prems run by simp
  next
    case (Suc m)
    define t' where "t' = (if fr_camera f = camera \<and> vs \<noteq> [] then fr_now f else t)"
    have "ct_last_fired st' camera = Some t'" using facts(4) Cons.prems(3) by (auto simp: t'_def)
    then have "tn_expiry_seconds tn \<le> fr_now (fs ! m) - t'"
      using Cons.IH[OF facts(1) Cons.prems(2), of t' m] Cons.prems Suc run by simp
    then show ?thesis using first Cons.prems(2) Suc by (auto simp: t'_def split: if_splits)
  qed
qed simp

lemma run_spacing:
  assumes "tracker_ok hyp tn hist st" "0 \<le> tn_expiry_seconds tn" "n < m" "m < length fs"
    and "fr_camera (fs ! n) = fr_camera (fs ! m)"
    and "snd (fst (run_frames hyp fs st) ! n) \<noteq> []" "snd (fst (run_frames hyp fs st) ! m) \<noteq> []"
  shows "tn_expiry_seconds tn \<le> fr_now (fs ! m) - fr_now (fs ! n)"
  using assms
proof (induction fs arbitrary: hist st n m)
  case (Cons f fs)
  obtain ids vs st' where o': "observe_frame hyp f st = (ids, vs, st')" by (metis prod.exhaust)
  note facts = observe_facts[OF Cons.prems(1) o']
  have run: "fst (run_frames hyp (f # fs) st) = (f, vs) # fst (run_frames hyp fs st')"
    using o' by (simp split: prod.split)
  obtain k where k: "m = Suc k" using Cons.prems(3) by (cases m) auto
  show ?case
  proof (cases n)
    case 0
    then have "ct_last_fired st' (fr_camera f) = Some (fr_now f)" using facts(4) Cons.prems run by simp
    then show ?thesis
      using run_spacing_from[OF facts(1) Cons.prems(2), of "fr_camera f" "fr_now f" k fs] Cons.prems run k 0 by simp
  next
    case (Suc j)
    then show ?thesis using Cons.IH[OF facts(1) Cons.prems(2), of j k] Cons.prems run k by simp
  qed
qed simp

lemma run_single:
  assumes "tracker_ok hyp tn hist st" "n < length fs"
  shows "length (snd (fst (run_frames hyp fs st) ! n)) \<le> 1"
  using assms
proof (induction fs arbitrary: hist st n)
  case (Cons f fs)
  obtain ids vs st' where o': "observe_frame hyp f st = (ids, vs, st')" by (metis prod.exhaust)
  note facts = observe_facts[OF Cons.prems(1) o']
  have run: "fst (run_frames hyp (f # fs) st) = (f, vs) # fst (run_frames hyp fs st')"
    using o' by (simp split: prod.split)
  have "length vs \<le> 1" using facts(3) by (auto split: if_splits)
  then show ?case using Cons.IH[OF facts(1), of "n - 1"] Cons.prems run by (cases n) auto
qed simp

text \<open>A frame yields at most one concealment, and two concealments of one camera are at least the
  expiry time apart, whatever happens in the frames between.\<close>

theorem concealments_spaced:
  assumes "0 \<le> tn_expiry_seconds tn" "n < m" "m < length fs" "fr_camera (fs ! n) = fr_camera (fs ! m)"
    and "snd (fst (run_frames hyp fs (new_tracker tn)) ! n) \<noteq> []" "snd (fst (run_frames hyp fs (new_tracker tn)) ! m) \<noteq> []"
  shows "tn_expiry_seconds tn \<le> fr_now (fs ! m) - fr_now (fs ! n) \<and>
    length (snd (fst (run_frames hyp fs (new_tracker tn)) ! m)) = 1"
  using run_spacing[OF new_tracker_ok assms] run_single[OF new_tracker_ok assms(3), of hyp tn] assms(6)
  by (cases "snd (fst (run_frames hyp fs (new_tracker tn)) ! m)") auto

section \<open>A sample run\<close>

text \<open>A bottle at a shelf; a hand on it; the hand away and the bottle gone; the same again later.\<close>

definition sample_kps :: "flt \<Rightarrow> keypoint list" where
  "sample_kps x = map (\<lambda>i. if i = 10 then (x, 50, 1) else if i < 9 then (100, 0, 1) else (100, 100, 1)) [0 ..< 13]"

definition sample_frame :: "int \<Rightarrow> flt \<Rightarrow> flt \<Rightarrow> bool \<Rightarrow> frame" where
  "sample_frame n t x shown = \<lparr>fr_camera = ''c'', fr_index = n, fr_now = t, fr_persons = [(7, sample_kps x, (80, 0, 120, 200))],
     fr_objects = (if shown then [(''bottle'', (0, 40, 10, 60))] else [])\<rparr>"

definition sample_tuning :: tuning where
  "sample_tuning = \<lparr>tn_grab_ratio = 1 / 4, tn_move_ratio = 1, tn_missing_seconds = 1, tn_keypoint_confidence = 1 / 2, tn_expiry_seconds = 5\<rparr>"

definition sample_hypot :: hypot where
  "sample_hypot x y = \<bar>x\<bar> + \<bar>y\<bar>"

definition sample_frames :: "frame list" where
  "sample_frames = [sample_frame 1 1 10 True, sample_frame 2 3 90 False, sample_frame 3 7 10 True, sample_frame 4 9 90 False]"

lemma sample_verdicts:
  "map (map cv_person_track_id \<circ> snd) (fst (run_frames sample_hypot sample_frames (new_tracker sample_tuning))) = [[], [7], [], [7]]"
  by code_simp


theorem concealments_spaced_witness:
  "tn_expiry_seconds sample_tuning \<le> fr_now (sample_frames ! 3) - fr_now (sample_frames ! 1)"
proof -
  have l: "(1 :: nat) < 3" "3 < length sample_frames" "fr_camera (sample_frames ! 1) = fr_camera (sample_frames ! 3)"
    "0 \<le> tn_expiry_seconds sample_tuning"
    by (simp_all add: sample_frames_def sample_frame_def sample_tuning_def)
  have "map (map cv_person_track_id \<circ> snd) (fst (run_frames sample_hypot sample_frames (new_tracker sample_tuning))) ! 1 \<noteq> []"
    "map (map cv_person_track_id \<circ> snd) (fst (run_frames sample_hypot sample_frames (new_tracker sample_tuning))) ! 3 \<noteq> []"
    by (simp_all add: sample_verdicts)
  then have "snd (fst (run_frames sample_hypot sample_frames (new_tracker sample_tuning)) ! 1) \<noteq> []"
    "snd (fst (run_frames sample_hypot sample_frames (new_tracker sample_tuning)) ! 3) \<noteq> []"
    using l(2) by simp_all
  from concealments_spaced[OF l(4) l(1-3) this] show ?thesis by simp
qed

end
