(* ===== verification/GatePresence.thy ===== *)
theory GatePresence
  imports PyText
begin

text \<open>
  Presence gating: the detect-gate's state machine and its event stream
  (\<^verbatim>\<open>services/detect-gate/app/capture/presence.py\<close>, \<^verbatim>\<open>presence_client.py\<close>, \<^verbatim>\<open>app/main.py\<close>) and the
  inference service's view of it (\<^verbatim>\<open>services/ai/app/presence_servicer.py\<close>).  Monotonic clocks are
  integers of microseconds.
\<close>

section \<open>The state machine\<close>

datatype presence_state = PresenceUnknown | PresenceAbsent | PresencePresent

datatype presence_edge = EdgeNone | EdgeEntered | EdgeLeft

record presence_machine =
  pm_debounce :: nat
  pm_state :: presence_state
  pm_streak :: nat
  pm_cold_start_absent :: bool

definition new_machine :: "nat \<Rightarrow> presence_machine" where
  "new_machine debounce = \<lparr>pm_debounce = debounce, pm_state = PresenceUnknown, pm_streak = 0, pm_cold_start_absent = False\<rparr>"

definition observe_presence :: "bool \<Rightarrow> presence_machine \<Rightarrow> presence_edge \<times> presence_machine" where
  "observe_presence person_seen m =
     (if person_seen
      then let m1 = m\<lparr>pm_streak := 0\<rparr>
        in if pm_state m \<noteq> PresencePresent
           then (EdgeEntered, m1\<lparr>pm_state := PresencePresent, pm_cold_start_absent := False\<rparr>) else (EdgeNone, m1)
      else let m1 = m\<lparr>pm_streak := pm_streak m + 1\<rparr>
        in if pm_state m = PresencePresent \<and> pm_streak m1 \<ge> pm_debounce m
           then (EdgeLeft, m1\<lparr>pm_state := PresenceAbsent\<rparr>)
           else if pm_state m = PresenceUnknown \<and> pm_streak m1 \<ge> pm_debounce m
           then (EdgeLeft, m1\<lparr>pm_state := PresenceAbsent, pm_cold_start_absent := True\<rparr>)
           else (EdgeNone, m1))"

fun run_machine :: "bool list \<Rightarrow> presence_machine \<Rightarrow> presence_edge list \<times> presence_machine" where
  "run_machine [] m = ([], m)"
| "run_machine (b # bs) m = (case observe_presence b m of (e, m') \<Rightarrow>
     (case run_machine bs m' of (es, m'') \<Rightarrow> (e # es, m'')))"

section \<open>The event stream\<close>

datatype event_kind = PersonEntered | PersonLeft | Heartbeat | OtherKind

record presence_event =
  pv_id :: string
  pv_kind :: event_kind
  pv_camera :: string

record presence_client =
  pc_camera :: string
  pc_session :: nat
  pc_seq :: nat
  pc_queue :: "presence_event list"
  pc_depth :: nat
  pc_heartbeats_dropped :: nat

definition new_client :: "string \<Rightarrow> nat \<Rightarrow> nat \<Rightarrow> presence_client" where
  "new_client camera session depth = \<lparr>pc_camera = camera, pc_session = session, pc_seq = 0, pc_queue = [], pc_depth = depth,
     pc_heartbeats_dropped = 0\<rparr>"

definition edge_kind :: "presence_edge \<Rightarrow> event_kind option" where
  "edge_kind e = (case e of EdgeEntered \<Rightarrow> Some PersonEntered | EdgeLeft \<Rightarrow> Some PersonLeft | EdgeNone \<Rightarrow> None)"

definition build_event :: "event_kind \<Rightarrow> presence_client \<Rightarrow> presence_event \<times> presence_client" where
  "build_event k c = (let n = pc_seq c + 1 in
     (\<lparr>pv_id = pc_camera c @ ''-'' @ str_nat (pc_session c) @ ''-'' @ str_nat n, pv_kind = k, pv_camera = pc_camera c\<rparr>,
      c\<lparr>pc_seq := n\<rparr>))"

definition submit_edge :: "presence_edge \<Rightarrow> presence_client \<Rightarrow> presence_client" where
  "submit_edge e c = (case edge_kind e of None \<Rightarrow> c
   | Some k \<Rightarrow> (case build_event k c of (ev, c1) \<Rightarrow>
       if length (pc_queue c1) < pc_depth c1 then c1\<lparr>pc_queue := pc_queue c1 @ [ev]\<rparr>
       else c1\<lparr>pc_queue := drop 1 (pc_queue c1) @ [ev]\<rparr>))"

definition send_heartbeat :: "presence_client \<Rightarrow> presence_client" where
  "send_heartbeat c = (case build_event Heartbeat c of (ev, c1) \<Rightarrow>
     if length (pc_queue c1) < pc_depth c1 then c1\<lparr>pc_queue := pc_queue c1 @ [ev]\<rparr>
     else c1\<lparr>pc_heartbeats_dropped := pc_heartbeats_dropped c1 + 1\<rparr>)"

text \<open>One turn of \<^verbatim>\<open>_frame_loop\<close> for a frame read at \<open>now\<close>: the heartbeat if it is due, then the edge.\<close>

record gate_loop =
  gt_machine :: presence_machine
  gt_client :: presence_client
  gt_last_heartbeat :: int

definition new_gate :: "nat \<Rightarrow> string \<Rightarrow> nat \<Rightarrow> nat \<Rightarrow> gate_loop" where
  "new_gate debounce camera session depth =
     \<lparr>gt_machine = new_machine debounce, gt_client = new_client camera session depth, gt_last_heartbeat = 0\<rparr>"

definition gate_frame :: "int \<Rightarrow> int \<Rightarrow> bool \<Rightarrow> gate_loop \<Rightarrow> gate_loop" where
  "gate_frame interval now person_seen g =
     (let beat = now - gt_last_heartbeat g \<ge> interval;
          c1 = (if beat then send_heartbeat (gt_client g) else gt_client g)
      in case observe_presence person_seen (gt_machine g) of (e, m) \<Rightarrow>
        \<lparr>gt_machine = m, gt_client = submit_edge e c1, gt_last_heartbeat = (if beat then now else gt_last_heartbeat g)\<rparr>)"

fun gate_frames :: "int \<Rightarrow> (int \<times> bool) list \<Rightarrow> gate_loop \<Rightarrow> gate_loop" where
  "gate_frames interval [] g = g"
| "gate_frames interval ((now, seen) # fs) g = gate_frames interval fs (gate_frame interval now seen g)"

section \<open>The inference service's view\<close>

record presence_view =
  vw_state :: "string \<rightharpoonup> nat"
  vw_changed_at :: "string \<rightharpoonup> int"
  vw_last_signal :: "string \<rightharpoonup> int"
  vw_seen :: "string \<Rightarrow> string set"

datatype ack_status = AckAccepted | AckDroppedDuplicate | AckDroppedStale

definition empty_view :: presence_view where
  "empty_view = \<lparr>vw_state = (\<lambda>_. None), vw_changed_at = (\<lambda>_. None), vw_last_signal = (\<lambda>_. None), vw_seen = (\<lambda>_. {})\<rparr>"

definition kind_to_gauge :: "event_kind \<Rightarrow> nat option" where
  "kind_to_gauge k = (case k of PersonEntered \<Rightarrow> Some 1 | PersonLeft \<Rightarrow> Some 0 | _ \<Rightarrow> None)"

definition handle_event :: "int \<Rightarrow> presence_event \<Rightarrow> presence_view \<Rightarrow> ack_status \<times> presence_view" where
  "handle_event now ev v = (let c = pv_camera ev in
     if pv_kind ev = Heartbeat then (AckAccepted, v\<lparr>vw_last_signal := (vw_last_signal v)(c \<mapsto> now)\<rparr>)
     else if pv_id ev \<in> vw_seen v c then (AckDroppedDuplicate, v)
     else let v1 = v\<lparr>vw_seen := (vw_seen v)(c := insert (pv_id ev) (vw_seen v c))\<rparr> in
       case kind_to_gauge (pv_kind ev) of
         None \<Rightarrow> (AckDroppedStale, v1)
       | Some gauge \<Rightarrow> (AckAccepted, v1\<lparr>vw_last_signal := (vw_last_signal v)(c \<mapsto> now),
            vw_changed_at := (if vw_state v c \<noteq> Some gauge then (vw_changed_at v)(c \<mapsto> now) else vw_changed_at v),
            vw_state := (vw_state v)(c \<mapsto> gauge)\<rparr>))"

definition handle_events :: "(int \<times> presence_event) list \<Rightarrow> presence_view \<Rightarrow> presence_view" where
  "handle_events evs v = fold (\<lambda>(now, ev) v. snd (handle_event now ev v)) evs v"

definition presence_value :: "presence_view \<Rightarrow> string \<Rightarrow> nat" where
  "presence_value v c = (case vw_state v c of None \<Rightarrow> 0 | Some n \<Rightarrow> n)"

definition is_absent :: "int \<Rightarrow> int \<Rightarrow> int \<Rightarrow> presence_view \<Rightarrow> string \<Rightarrow> bool" where
  "is_absent lease holdoff now v c = (if vw_state v c \<noteq> Some 0 then False
     else if now - (case vw_last_signal v c of None \<Rightarrow> 0 | Some t \<Rightarrow> t) > lease then False
     else now - (case vw_changed_at v c of None \<Rightarrow> now | Some t \<Rightarrow> t) \<ge> holdoff)"

section \<open>The machine against its specification\<close>

text \<open>Frames without a person at the end of a sequence.\<close>

definition trailing_empty :: "bool list \<Rightarrow> nat" where
  "trailing_empty bs = length (takeWhile Not (rev bs))"

text \<open>What the machine promises: unknown until the first person or a full debounce of empty frames,
  then absent after a full debounce of empty frames, else present.\<close>

definition presence_spec :: "nat \<Rightarrow> bool list \<Rightarrow> presence_state" where
  "presence_spec debounce bs = (if bs \<noteq> [] \<and> trailing_empty bs \<ge> debounce \<and> trailing_empty bs > 0 then PresenceAbsent
     else if True \<in> set bs then PresencePresent else PresenceUnknown)"

definition edge_of :: "presence_state \<Rightarrow> presence_state \<Rightarrow> presence_edge" where
  "edge_of s s' = (if s' = s then EdgeNone else if s' = PresencePresent then EdgeEntered else EdgeLeft)"

definition after_frames :: "nat \<Rightarrow> bool list \<Rightarrow> presence_machine" where
  "after_frames debounce bs = fold (\<lambda>b m. snd (observe_presence b m)) bs (new_machine debounce)"

lemma trailing_empty_snoc: "trailing_empty (bs @ [b]) = (if b then 0 else Suc (trailing_empty bs))"
  by (simp add: trailing_empty_def)

lemma after_frames_state:
  "pm_debounce (after_frames n bs) = n \<and> pm_streak (after_frames n bs) = trailing_empty bs \<and>
     pm_state (after_frames n bs) = presence_spec n bs"
proof (induction bs rule: rev_induct)
  case Nil
  then show ?case by (simp add: after_frames_def new_machine_def trailing_empty_def presence_spec_def)
next
  case (snoc b bs)
  let ?m = "after_frames n bs"
  have step: "after_frames n (bs @ [b]) = snd (observe_presence b ?m)" by (simp add: after_frames_def)
  show ?case
  proof (cases b)
    case True
    then show ?thesis using snoc step
      by (auto simp: observe_presence_def Let_def presence_spec_def trailing_empty_snoc)
  next
    case False
    have "presence_spec n (bs @ [b]) = (if Suc (trailing_empty bs) \<ge> n then PresenceAbsent else presence_spec n bs)"
      using False by (auto simp: presence_spec_def trailing_empty_snoc)
    moreover have "presence_spec n bs \<noteq> PresenceAbsent \<or> Suc (trailing_empty bs) \<ge> n" by (auto simp: presence_spec_def)
    ultimately show ?thesis using snoc step False
      by (cases "presence_spec n bs") (auto simp: observe_presence_def Let_def trailing_empty_snoc)
  qed
qed

text \<open>C25: The presence machine refines its specification: after any frames its state is the specified one,
  and the edge of the next frame is exactly the change of the specified state; so a person is
  announced with the first frame that shows one and his leaving with the frame that completes
  the debounce, and nothing is announced twice.\<close>

theorem presence_refines_spec:
  "pm_state (after_frames n bs) = presence_spec n bs \<and>
    fst (observe_presence b (after_frames n bs)) = edge_of (presence_spec n bs) (presence_spec n (bs @ [b]))"
proof -
  note st = after_frames_state[of n bs]
  have "presence_spec n (bs @ [b]) = (if b then PresencePresent
      else if Suc (trailing_empty bs) \<ge> n then PresenceAbsent else presence_spec n bs)"
    by (auto simp: presence_spec_def trailing_empty_snoc)
  moreover have "presence_spec n bs \<noteq> PresenceAbsent \<or> Suc (trailing_empty bs) \<ge> n" by (auto simp: presence_spec_def)
  ultimately show ?thesis using st
    by (cases "presence_spec n bs"; cases b) (auto simp: observe_presence_def Let_def edge_of_def)
qed

section \<open>Restarts of the gate\<close>

lemma handle_event_seen: "vw_seen v c \<subseteq> vw_seen (snd (handle_event now ev v)) c"
  by (auto simp: handle_event_def Let_def split: option.splits)

lemma handle_events_seen: "vw_seen v c \<subseteq> vw_seen (handle_events evs v) c"
proof (induction evs arbitrary: v)
  case Nil
  then show ?case by (simp add: handle_events_def)
next
  case (Cons x evs)
  obtain now ev where x: "x = (now, ev)" by (cases x)
  have "handle_events (x # evs) v = handle_events evs (snd (handle_event now ev v))"
    by (simp add: handle_events_def x)
  then show ?case using order_trans[OF handle_event_seen[of v c now ev] Cons(1)] by simp
qed

lemma first_frame_queue:
  assumes "interval \<le> t" "2 \<le> depth"
  shows "pc_queue (gt_client (gate_frame interval t True (new_gate n cam s depth))) =
      [\<lparr>pv_id = cam @ ''-'' @ str_nat s @ ''-'' @ str_nat 1, pv_kind = Heartbeat, pv_camera = cam\<rparr>,
       \<lparr>pv_id = cam @ ''-'' @ str_nat s @ ''-'' @ str_nat 2, pv_kind = PersonEntered, pv_camera = cam\<rparr>]"
    "pm_state (gt_machine (gate_frame interval t True (new_gate n cam s depth))) = PresencePresent"
  using assms
  by (simp_all add: gate_frame_def new_gate_def new_machine_def new_client_def send_heartbeat_def build_event_def
      observe_presence_def submit_edge_def edge_kind_def Let_def numeral_2_eq_2)

lemma entered_seen:
  assumes "pv_kind ev \<noteq> Heartbeat"
  shows "pv_id ev \<in> vw_seen (snd (handle_event now ev v)) (pv_camera ev)"
  using assms by (auto simp: handle_event_def Let_def split: option.splits)

text \<open>The first edge of a restarted gate can be lost.  The session number is a constant of the
  deployment and the sequence restarts at one, so a gate that sees a person in its first frame
  sends the same two events after a restart as it did at its first start; whatever happened in
  between, the inference service then refuses the announcement as a duplicate and only renews the
  lease: the room it holds empty stays empty for it although the gate sees a person.\<close>

theorem restarted_gate_event_dropped:
  fixes interval t0 t1 :: int and depth n :: nat and cam :: string and s :: nat
  defines "first \<equiv> gate_frame interval t0 True (new_gate n cam s depth)"
  defines "again \<equiv> gate_frame interval t1 True (new_gate n cam s depth)"
  assumes "interval \<le> t0" "interval \<le> t1" "2 \<le> depth"
    and v: "v = handle_events later (handle_events (map (Pair r0) (pc_queue (gt_client first))) v0)"
  shows "pm_state (gt_machine again) = PresencePresent \<and>
    handle_events (map (Pair r1) (pc_queue (gt_client again))) v = v\<lparr>vw_last_signal := (vw_last_signal v)(cam \<mapsto> r1)\<rparr> \<and>
    is_absent lease holdoff r (handle_events (map (Pair r1) (pc_queue (gt_client again))) v) cam =
      (vw_state v cam = Some 0 \<and> r - r1 \<le> lease \<and> holdoff \<le> r - (case vw_changed_at v cam of None \<Rightarrow> r | Some t \<Rightarrow> t))"
proof -
  let ?id = "cam @ ''-'' @ str_nat s @ ''-'' @ str_nat 2"
  note q0 = first_frame_queue(1)[OF assms(3,5), of n cam s, folded first_def]
  note q1 = first_frame_queue(1)[OF assms(4,5), of n cam s, folded again_def]
  have "?id \<in> vw_seen (handle_events (map (Pair r0) (pc_queue (gt_client first))) v0) cam"
    unfolding q0 handle_events_def
    using entered_seen[of "\<lparr>pv_id = ?id, pv_kind = PersonEntered, pv_camera = cam\<rparr>" r0] by simp
  then have seen: "?id \<in> vw_seen v cam" unfolding v by (rule subsetD[OF handle_events_seen])
  then have step: "handle_events (map (Pair r1) (pc_queue (gt_client again))) v = v\<lparr>vw_last_signal := (vw_last_signal v)(cam \<mapsto> r1)\<rparr>"
    unfolding q1 by (simp add: handle_events_def handle_event_def Let_def)
  show ?thesis
    using first_frame_queue(2)[OF assms(4,5), of n cam s, folded again_def]
    by (auto simp: step is_absent_def)
qed

theorem restarted_gate_event_dropped_witness:
  "is_absent 30 3 44 (handle_events (map (Pair 40) (pc_queue (gt_client (gate_frame 5 20 True (new_gate 2 ''cam'' 1 64)))))
     (handle_events [(15, \<lparr>pv_id = ''cam-1-3'', pv_kind = PersonLeft, pv_camera = ''cam''\<rparr>)]
       (handle_events (map (Pair 10) (pc_queue (gt_client (gate_frame 5 9 True (new_gate 2 ''cam'' 1 64))))) empty_view))) ''cam''"
  (is "is_absent _ _ _ (handle_events _ ?v) _")
proof -
  have "pc_queue (gt_client (gate_frame 5 9 True (new_gate 2 ''cam'' 1 64))) =
      [\<lparr>pv_id = ''cam'' @ ''-'' @ str_nat 1 @ ''-'' @ str_nat 1, pv_kind = Heartbeat, pv_camera = ''cam''\<rparr>,
       \<lparr>pv_id = ''cam'' @ ''-'' @ str_nat 1 @ ''-'' @ str_nat 2, pv_kind = PersonEntered, pv_camera = ''cam''\<rparr>]"
    by (rule first_frame_queue(1)) simp_all
  moreover have "str_nat 1 = ''1''" "str_nat 2 = ''2''" by (code_simp+)
  ultimately have "vw_state ?v ''cam'' = Some 0 \<and> vw_changed_at ?v ''cam'' = Some 15"
    by (simp add: handle_events_def handle_event_def Let_def empty_view_def kind_to_gauge_def)
  then have absent: "vw_state ?v ''cam'' = Some 0 \<and> 44 - 40 \<le> (30::int) \<and>
      3 \<le> 44 - (case vw_changed_at ?v ''cam'' of None \<Rightarrow> 44 | Some t \<Rightarrow> t)" by simp
  show ?thesis
    by (rule restarted_gate_event_dropped[THEN conjunct2, THEN conjunct2, THEN iffD2, OF _ _ _ refl absent]) simp_all
qed

end
