(* ===== verification/AiPipeline.thy ===== *)
theory AiPipeline
  imports AiConcealment GatePresence "HOL-Library.Word"
begin

text \<open>
  The inference service around the concealment tracker: the observations of a track kept in Redis
  (\<^verbatim>\<open>services/ai/app/tracker_store.py\<close>), the classifier's input (\<^verbatim>\<open>predictor.py\<close>), the frames kept for clips
  (\<^verbatim>\<open>clip_buffer.py\<close>), the analysis of a frame (\<^verbatim>\<open>inference.py\<close>), the alert ids (\<^verbatim>\<open>ids.py\<close>), the alerts a
  frame gives rise to (\<^verbatim>\<open>servicer.py\<close>) and how they are sent (\<^verbatim>\<open>alert_client.py\<close>).  The two YOLO models, the
  LSTM with its softmax, image decoding and encoding and the HTTP calls are arguments.  A frame's
  image is an abstract value, floats are rationals.
\<close>

section \<open>The observations of a track\<close>

record observation =
  ob_frame_index :: int
  ob_bbox :: bbox
  ob_keypoints :: "keypoint list"

definition KEYPOINTS :: nat where "KEYPOINTS = 17"

definition track_key :: "string \<Rightarrow> int \<Rightarrow> string" where
  "track_key camera track = ''ai:track:'' @ camera @ '':'' @ str_int track"

text \<open>A stream with the time it expires.  \<open>trim\<close> is the approximate trimming of XADD: it may leave more
  entries than the limit.\<close>

type_synonym track_store = "string \<Rightarrow> (observation list \<times> int) option"

definition stream_of :: "int \<Rightarrow> string \<Rightarrow> track_store \<Rightarrow> observation list" where
  "stream_of now key st = (case st key of None \<Rightarrow> [] | Some (es, expires) \<Rightarrow> if now \<le> expires then es else [])"

definition append_observation :: "(nat \<Rightarrow> observation list \<Rightarrow> observation list) \<Rightarrow> nat \<Rightarrow> int \<Rightarrow> int \<Rightarrow> string \<Rightarrow> int \<Rightarrow>
    observation \<Rightarrow> track_store \<Rightarrow> track_store" where
  "append_observation trim window ttl now camera track e st =
     (if length (ob_keypoints e) \<noteq> KEYPOINTS then st
      else let key = track_key camera track
        in st(key \<mapsto> (trim window (stream_of now key st @ [e]), now + ttl)))"

definition read_window :: "nat \<Rightarrow> int \<Rightarrow> string \<Rightarrow> int \<Rightarrow> track_store \<Rightarrow> observation list" where
  "read_window window now camera track st =
     filter (\<lambda>e. length (ob_keypoints e) = KEYPOINTS) (take window (stream_of now (track_key camera track) st))"

definition drop_stream :: "string \<Rightarrow> int \<Rightarrow> track_store \<Rightarrow> track_store" where
  "drop_stream camera track st = st(track_key camera track := None)"

section \<open>The classifier\<close>

definition normalize_pose :: "bbox \<Rightarrow> keypoint list \<Rightarrow> flt list" where
  "normalize_pose b kps = (case b of (x1, y1, x2, y2) \<Rightarrow>
     let cx = (x1 + x2) / 2; cy = (y1 + y2) / 2; half_w = max ((x2 - x1) / 2) 1; half_h = max ((y2 - y1) / 2) 1
     in if length kps \<noteq> KEYPOINTS then replicate (KEYPOINTS * 3) 0
        else concat (map (\<lambda>(x, y, c). [(x - cx) / half_w, (y - cy) / half_h, c]) kps))"

text \<open>\<open>model\<close> is the probability of the second class that network and softmax give for a window.\<close>

record classifier =
  cl_model :: "flt list list \<Rightarrow> flt"
  cl_trim :: "nat \<Rightarrow> observation list \<Rightarrow> observation list"
  cl_window :: nat
  cl_store_window :: nat
  cl_ttl :: int

definition update_track :: "classifier \<Rightarrow> int \<Rightarrow> string \<Rightarrow> int \<Rightarrow> observation \<Rightarrow> track_store \<Rightarrow> flt option \<times> track_store" where
  "update_track cl now camera track e st =
     (let st1 = append_observation (cl_trim cl) (cl_store_window cl) (cl_ttl cl) now camera track e st;
          window = read_window (cl_store_window cl) now camera track st1
      in (if length window < cl_window cl then None
          else Some (cl_model cl (map (\<lambda>o'. normalize_pose (ob_bbox o') (ob_keypoints o')) window)), st1))"

datatype inference_state = STATE_UNSPECIFIED | WARMING_UP | NORMAL | ANOMALY

definition state_of :: "flt \<Rightarrow> flt option \<Rightarrow> inference_state \<times> flt" where
  "state_of threshold p = (case p of None \<Rightarrow> (WARMING_UP, 0) | Some a \<Rightarrow> if a \<ge> threshold then (ANOMALY, a) else (NORMAL, a))"

record tracked_person =
  tp_track_id :: int
  tp_bbox :: bbox
  tp_keypoints :: "keypoint list"
  tp_score :: flt
  tp_state :: inference_state

fun classify_persons :: "classifier \<Rightarrow> flt \<Rightarrow> int \<Rightarrow> string \<Rightarrow> int \<Rightarrow> (int \<times> bbox \<times> keypoint list) list \<Rightarrow> track_store
    \<Rightarrow> tracked_person list \<times> track_store" where
  "classify_persons cl threshold now camera frame [] st = ([], st)"
| "classify_persons cl threshold now camera frame ((track, b, kps) # rs) st =
     (case update_track cl now camera track \<lparr>ob_frame_index = frame, ob_bbox = b, ob_keypoints = kps\<rparr> st of (p, st1) \<Rightarrow>
       case classify_persons cl threshold now camera frame rs st1 of (out, st2) \<Rightarrow>
         (\<lparr>tp_track_id = track, tp_bbox = b, tp_keypoints = kps, tp_score = snd (state_of threshold p),
            tp_state = fst (state_of threshold p)\<rparr> # out, st2))"

text \<open>\<^verbatim>\<open>_track_persons\<close> for the tracks the pose model found; the sort is stable.\<close>

definition track_persons :: "classifier \<Rightarrow> flt \<Rightarrow> int \<Rightarrow> string \<Rightarrow> int \<Rightarrow> (int \<times> bbox \<times> keypoint list) list \<Rightarrow> track_store
    \<Rightarrow> tracked_person list \<times> track_store" where
  "track_persons cl threshold now camera frame rs st = (case classify_persons cl threshold now camera frame rs st of
     (out, st') \<Rightarrow> (sort_key (\<lambda>p. - tp_score p) out, st'))"

section \<open>The frames kept for clips\<close>

type_synonym 'i clip_buffer = "string \<Rightarrow> (flt \<times> 'i) list"

definition clip_append :: "nat \<Rightarrow> string \<Rightarrow> flt \<Rightarrow> 'i \<Rightarrow> 'i clip_buffer \<Rightarrow> 'i clip_buffer" where
  "clip_append max_frames camera t img cb =
     cb(camera := (let fs = cb camera @ [(t, img)] in drop (length fs - max_frames) fs))"

definition clip_window :: "flt \<Rightarrow> string \<Rightarrow> 'i clip_buffer \<Rightarrow> (flt \<times> 'i) list" where
  "clip_window clip_secs camera cb = (if cb camera = [] then []
     else filter (\<lambda>f. fst f \<ge> fst (last (cb camera)) - clip_secs) (cb camera))"

definition clip_path :: "bool \<Rightarrow> flt \<Rightarrow> string \<Rightarrow> string \<Rightarrow> string \<Rightarrow> 'i clip_buffer \<Rightarrow> string option" where
  "clip_path enabled clip_secs dir camera alert_id cb =
     (if \<not> enabled \<or> clip_window clip_secs camera cb = [] then None else Some (dir @ ''/'' @ alert_id @ ''.mp4''))"

section \<open>Alert ids\<close>

definition alert_id_value :: "nat \<Rightarrow> 12 word \<Rightarrow> 62 word \<Rightarrow> 128 word" where
  "alert_id_value millis a b =
     or (or (or (or (push_bit 80 (and (of_nat millis) (mask 48))) (push_bit 76 7)) (push_bit 64 (ucast a))) (push_bit 62 2)) (ucast b)"

section \<open>The analysis of a frame\<close>

record 'i detector =
  dt_classifier :: classifier
  dt_threshold :: flt
  dt_tracker :: tracker
  dt_store :: track_store
  dt_clips :: "'i clip_buffer"
  dt_clip_enabled :: bool
  dt_clip_seconds :: flt
  dt_clip_max_frames :: nat
  dt_snapshot_dir :: string

record detection_result =
  rs_persons :: "tracked_person list"
  rs_objects :: "(nat \<times> string \<times> bbox \<times> flt) list"
  rs_concealments :: "verdict list"
  rs_alert_ids :: "(nat \<times> string) list"
  rs_snapshots :: "(nat \<times> string) list"
  rs_clips :: "(nat \<times> string) list"
  rs_width :: nat
  rs_height :: nat

definition lead_person :: "detection_result \<Rightarrow> tracked_person" where
  "lead_person r = (case rs_persons r of p # _ \<Rightarrow> p
     | [] \<Rightarrow> \<lparr>tp_track_id = 0, tp_bbox = (0, 0, 0, 0), tp_keypoints = [], tp_score = 0, tp_state = STATE_UNSPECIFIED\<rparr>)"

text \<open>What the models and the machine contribute to one frame: its size if it decodes, the tracks and
  objects found, the alert ids drawn, and whether a snapshot file could be written.\<close>

record 'i sensing =
  sn_size :: "(nat \<times> nat) option"
  sn_tracks :: "(int \<times> bbox \<times> keypoint list) list"
  sn_objects :: "(string \<times> bbox \<times> flt) list"
  sn_ids :: "nat \<Rightarrow> string"
  sn_written :: "string \<Rightarrow> bool"
  sn_image :: 'i
  sn_now :: int

definition write_snapshot :: "'i sensing \<Rightarrow> string \<Rightarrow> string \<Rightarrow> string option" where
  "write_snapshot sn dir alert_id = (let path = dir @ ''/'' @ alert_id @ ''.jpg'' in if sn_written sn path then Some path else None)"

definition analyze_frame :: "hypot \<Rightarrow> 'i sensing \<Rightarrow> int \<Rightarrow> string \<Rightarrow> bool \<Rightarrow> flt \<Rightarrow> 'i detector
    \<Rightarrow> detection_result option \<times> 'i detector" where
  "analyze_frame hyp sn frame camera run_pose captured_at dt =
     (case sn_size sn of None \<Rightarrow> (None, dt)
     | Some (w, h) \<Rightarrow>
       let clips = clip_append (dt_clip_max_frames dt) camera captured_at (sn_image sn) (dt_clips dt) in
       case (if run_pose then track_persons (dt_classifier dt) (dt_threshold dt) (sn_now sn) camera frame (sn_tracks sn) (dt_store dt)
             else ([], dt_store dt)) of
         (persons, store) \<Rightarrow>
           (case observe hyp camera frame captured_at (map (\<lambda>p. (tp_track_id p, tp_keypoints p, tp_bbox p)) persons)
               (map (\<lambda>(c, b, conf). (c, b)) (sn_objects sn)) (dt_tracker dt) of
             (ids, verdicts, tracker) \<Rightarrow>
               let objects = zip ids (sn_objects sn);
                   named = zip (map cv_object_track_id verdicts) (map (sn_ids sn) [0..<length verdicts]);
                   dt' = dt\<lparr>dt_clips := clips, dt_store := store, dt_tracker := tracker\<rparr>
               in (if persons = [] \<and> objects = [] \<and> verdicts = [] then None
                   else Some \<lparr>rs_persons = persons, rs_objects = objects, rs_concealments = verdicts, rs_alert_ids = named,
                     rs_snapshots = [(k, path). (k, a) \<leftarrow> named, path \<leftarrow> (case write_snapshot sn (dt_snapshot_dir dt) a of None \<Rightarrow> [] | Some x \<Rightarrow> [x])],
                     rs_clips = [(k, path). (k, a) \<leftarrow> named, path \<leftarrow> (case clip_path (dt_clip_enabled dt) (dt_clip_seconds dt)
                        (dt_snapshot_dir dt) camera a clips of None \<Rightarrow> [] | Some x \<Rightarrow> [x])],
                     rs_width = w, rs_height = h\<rparr>, dt')))"

section \<open>Alerts\<close>

datatype alert_level = LEVEL_WARNING | LEVEL_CRITICAL

record alert_payload =
  ap_alert_id :: string
  ap_session_id :: int
  ap_frame_index :: int
  ap_camera_id :: string
  ap_severity :: alert_level
  ap_verdict :: verdict
  ap_person :: "tracked_person option"
  ap_classifier_score :: "flt option"
  ap_classifier_state :: "inference_state option"
  ap_snapshot_path :: "string option"
  ap_clip_path :: "string option"
  ap_width :: nat
  ap_height :: nat

definition payload_of :: "int \<Rightarrow> int \<Rightarrow> string \<Rightarrow> detection_result \<Rightarrow> verdict \<Rightarrow> alert_payload" where
  "payload_of session frame camera r v =
     (let person = map_of (rev (map (\<lambda>p. (tp_track_id p, p)) (rs_persons r))) (cv_person_track_id v);
          k = cv_object_track_id v
      in \<lparr>ap_alert_id = the (map_of (rs_alert_ids r) k), ap_session_id = session, ap_frame_index = frame, ap_camera_id = camera,
          ap_severity = (case person of None \<Rightarrow> LEVEL_WARNING | Some p \<Rightarrow> if tp_state p = ANOMALY then LEVEL_CRITICAL else LEVEL_WARNING),
          ap_verdict = v, ap_person = person, ap_classifier_score = map_option tp_score person,
          ap_classifier_state = map_option tp_state person, ap_snapshot_path = map_of (rs_snapshots r) k,
          ap_clip_path = map_of (rs_clips r) k, ap_width = rs_width r, ap_height = rs_height r\<rparr>)"

datatype post_reply = PostFailed | PostStatus nat

text \<open>\<^verbatim>\<open>AlertClient.send\<close>: \<open>logins\<close> and \<open>posts\<close> answer for each attempt, the post under the token it used.\<close>

fun send_from :: "nat list \<Rightarrow> (nat \<Rightarrow> string option) \<Rightarrow> (nat \<Rightarrow> string \<Rightarrow> post_reply) \<Rightarrow> string option \<Rightarrow> bool \<times> string option" where
  "send_from [] logins posts token = (False, token)"
| "send_from (attempt # rest) logins posts token =
     (case (case token of None \<Rightarrow> logins attempt | Some t \<Rightarrow> Some t) of
        None \<Rightarrow> (False, None)
      | Some t \<Rightarrow> (case posts attempt t of
          PostFailed \<Rightarrow> send_from rest logins posts None
        | PostStatus s \<Rightarrow> if (s = 401 \<or> s = 403) \<and> attempt = 1 then send_from rest logins posts None
            else if s \<noteq> 201 then (False, Some t) else (True, Some t)))"

definition send_payload :: "(nat \<Rightarrow> string option) \<Rightarrow> (nat \<Rightarrow> string \<Rightarrow> post_reply) \<Rightarrow> string option \<Rightarrow> bool \<times> string option" where
  "send_payload logins posts token = send_from [1, 2] logins posts token"

section \<open>The service\<close>

record 'i ai_state =
  ai_detector :: "'i detector"
  ai_view :: presence_view

record gating =
  ga_enabled :: bool
  ga_lease :: int
  ga_holdoff :: int

text \<open>\<^verbatim>\<open>Analyze\<close>: the alerts it posts and the detection it answers with (\<open>None\<close> inside for "nothing
  detected"); \<open>Inl\<close> is the refusal of a frame without a timestamp.  \<open>clock\<close> is the monotonic clock.\<close>

definition Analyze :: "hypot \<Rightarrow> gating \<Rightarrow> int \<Rightarrow> 'i sensing \<Rightarrow> int option \<Rightarrow> int \<Rightarrow> int \<Rightarrow> string \<Rightarrow> flt \<Rightarrow> 'i ai_state
    \<Rightarrow> (unit + alert_payload list \<times> (bool \<times> detection_result) option) \<times> 'i ai_state" where
  "Analyze hyp ga clock sn timestamp session frame camera captured_at st =
     (if timestamp = None \<or> the timestamp \<le> 0 then (Inl (), st)
      else let run_pose = (if ga_enabled ga then \<not> is_absent (ga_lease ga) (ga_holdoff ga) clock (ai_view st) camera else True)
        in case analyze_frame hyp sn frame camera run_pose captured_at (ai_detector st) of
          (None, dt) \<Rightarrow> (Inr ([], None), st\<lparr>ai_detector := dt\<rparr>)
        | (Some r, dt) \<Rightarrow> (Inr (map (payload_of session frame camera r) (rs_concealments r), Some (rs_persons r \<noteq> [], r)),
            st\<lparr>ai_detector := dt\<rparr>))"

section \<open>Lemmas and properties\<close>

lemma collect_idle: "(\<And>it. \<not> is_ready it) \<Longrightarrow> snd (collect expired is_ready frame muted items) = []"
  by (induction items) (auto split: prod.splits)

lemma observe_nobody: "fst (snd (observe hyp camera frame now [] objs st)) = []"
proof -
  have "\<not> ready hyp tn persons camera now [] objs it" for tn persons it
    by (simp add: ready_def hand_on_spot_def first_row_def)
  then show ?thesis using collect_idle
    by (simp add: observe_def Let_def split: prod.splits) (metis snd_conv)
qed

lemma analyze_without_pose:
  assumes "analyze_frame hyp sn frame camera False t dt = (Some r, dt')"
  shows "rs_persons r = []" "rs_concealments r = []"
  using assms observe_nobody[of hyp camera frame t]
  by (auto simp: analyze_frame_def Let_def split: option.splits prod.splits if_splits) (metis fst_conv snd_conv)+

text \<open>C26: A room the gate reports as empty raises no alarm.  While gating is on and the inference service
  holds a camera absent, whatever the models see in its frames and whatever was seen before, analysing
  a frame posts no alert, reports no person and leaves the observations of all tracks alone; a frame
  without a timestamp changes nothing at all.\<close>

theorem absent_room_raises_no_alert:
  assumes "ga_enabled ga" "is_absent (ga_lease ga) (ga_holdoff ga) clock (ai_view st) camera"
  shows "case Analyze hyp ga clock sn timestamp session frame camera t st of
      (Inl _, st') \<Rightarrow> st' = st
    | (Inr (alerts, reply), st') \<Rightarrow> alerts = [] \<and> (case reply of None \<Rightarrow> True | Some (present, r) \<Rightarrow> \<not> present \<and> rs_concealments r = []) \<and>
        dt_store (ai_detector st') = dt_store (ai_detector st) \<and> ai_view st' = ai_view st"
proof (cases "timestamp = None \<or> the timestamp \<le> 0")
  case True
  then show ?thesis by (simp add: Analyze_def)
next
  case False
  obtain res dt where a: "analyze_frame hyp sn frame camera False t (ai_detector st) = (res, dt)"
    by (cases "analyze_frame hyp sn frame camera False t (ai_detector st)")
  have store: "dt_store dt = dt_store (ai_detector st)"
    using a by (auto simp: analyze_frame_def Let_def split: option.splits prod.splits)
  have go: "Analyze hyp ga clock sn timestamp session frame camera t st = (case (res, dt) of
      (None, dt) \<Rightarrow> (Inr ([], None), st\<lparr>ai_detector := dt\<rparr>)
    | (Some r, dt) \<Rightarrow> (Inr (map (payload_of session frame camera r) (rs_concealments r), Some (rs_persons r \<noteq> [], r)),
        st\<lparr>ai_detector := dt\<rparr>))"
  proof -
    obtain ts where "timestamp = Some ts" "\<not> ts \<le> 0" using False by auto
    then show ?thesis using assms a by (simp add: Analyze_def)
  qed
  show ?thesis
  proof (cases res)
    case None
    then show ?thesis using store by (simp add: go)
  next
    case (Some r)
    then show ?thesis using store analyze_without_pose[OF a[unfolded Some]] by (simp add: go)
  qed
qed

theorem absent_room_raises_no_alert_witness:
  "\<forall>hyp (sn :: nat sensing) (dt :: nat detector).
    (case Analyze hyp \<lparr>ga_enabled = True, ga_lease = 8, ga_holdoff = 3\<rparr> 14 sn (Some 1) 1 5 ''cam'' 2
        \<lparr>ai_detector = dt, ai_view = handle_events [(10, \<lparr>pv_id = ''cam-1-1'', pv_kind = PersonLeft, pv_camera = ''cam''\<rparr>)] empty_view\<rparr> of
      (Inl _, st') \<Rightarrow> False
    | (Inr (alerts, reply), st') \<Rightarrow> alerts = [])"
proof (intro allI)
  fix hyp and sn :: "nat sensing" and dt :: "nat detector"
  let ?ga = "\<lparr>ga_enabled = True, ga_lease = 8, ga_holdoff = 3\<rparr>"
  let ?st = "\<lparr>ai_detector = dt, ai_view = handle_events [(10, \<lparr>pv_id = ''cam-1-1'', pv_kind = PersonLeft, pv_camera = ''cam''\<rparr>)] empty_view\<rparr>"
  have absent: "is_absent (ga_lease ?ga) (ga_holdoff ?ga) 14 (ai_view ?st) ''cam''"
    by (simp add: is_absent_def handle_events_def handle_event_def Let_def empty_view_def kind_to_gauge_def)
  have "\<not> isl (fst (Analyze hyp ?ga 14 sn (Some 1) 1 5 ''cam'' 2 ?st))"
    by (simp add: Analyze_def Let_def split: prod.split option.split)
  with absent_room_raises_no_alert[OF _ absent, of hyp sn "Some 1" 1 5 2]
  show "case Analyze hyp ?ga 14 sn (Some 1) 1 5 ''cam'' 2 ?st of
      (Inl _, st') \<Rightarrow> False
    | (Inr (alerts, reply), st') \<Rightarrow> alerts = []"
    by (simp split: prod.splits sum.splits)
qed

text \<open>An alert is critical exactly when its person is among those of the frame and classified as an
  anomaly, and it carries the classifier's verdict on that person.\<close>

lemma payload_severity:
  assumes "distinct (map tp_track_id (rs_persons r))"
  shows "ap_severity (payload_of session frame camera r v) = LEVEL_CRITICAL \<longleftrightarrow>
    (\<exists>p\<in>set (rs_persons r). tp_track_id p = cv_person_track_id v \<and> tp_state p = ANOMALY)"
proof -
  let ?m = "map_of (rev (map (\<lambda>p. (tp_track_id p, p)) (rs_persons r)))"
  have d: "distinct (map fst (rev (map (\<lambda>p. (tp_track_id p, p)) (rs_persons r))))"
    using assms by (simp add: rev_map[symmetric] comp_def)
  have "?m k = Some p \<longleftrightarrow> p \<in> set (rs_persons r) \<and> tp_track_id p = k" for k p
    using map_of_eq_Some_iff[OF d, of k p] by auto
  note m = this
  show ?thesis
  proof (cases "?m (cv_person_track_id v)")
    case None
    then show ?thesis using m[of "cv_person_track_id v"] by (auto simp: payload_of_def Let_def)
  next
    case (Some p)
    then have "q = p" if "q \<in> set (rs_persons r)" "tp_track_id q = cv_person_track_id v" for q
      using m[of "cv_person_track_id v" q] that by simp
    then show ?thesis using m[of "cv_person_track_id v" p] Some by (auto simp: payload_of_def Let_def)
  qed
qed

text \<open>The clip buffer holds the newest frames of a camera, at most as many as configured.\<close>

lemma clip_append_newest:
  "(fold (\<lambda>(t, img). clip_append n camera t img) fs cb) camera = (let all = cb camera @ fs in drop (length all - n) all)"
  if "length (cb camera) \<le> n"
  using that
proof (induction fs arbitrary: cb)
  case (Cons f fs)
  obtain t img where f: "f = (t, img)" by (cases f)
  let ?cb = "clip_append n camera t img cb"
  have cb: "?cb camera = drop (length (cb camera) + 1 - n) (cb camera @ [f])" by (simp add: clip_append_def f)
  then have len: "length (?cb camera) \<le> n" by simp
  let ?k = "length (cb camera) + 1 - n" and ?xs = "cb camera @ f # fs"
  have "?k \<le> length (cb camera @ [f])" by simp
  then have "drop ?k (cb camera @ [f]) @ fs = drop ?k ((cb camera @ [f]) @ fs)" by (simp only: drop_append) simp
  then have xs: "?cb camera @ fs = drop ?k ?xs" by (simp only: cb) simp
  have "length ?xs - ?k - n + ?k = length ?xs - n" by simp
  then have "drop (length (drop ?k ?xs) - n) (drop ?k ?xs) = drop (length ?xs - n) ?xs" by (simp only: drop_drop length_drop)
  then show ?case using Cons.IH[of ?cb, OF len] xs by (simp only: Let_def fold_simps f prod.case)
qed simp

text \<open>The classifier does not see the present.  Redis trims a stream to at least the limit, so the
  stream of a track may hold more observations than the window; the window is then read from the old
  end, and the observation just appended, with every other beyond the window, is not part of what the
  classifier judges.  Were the stream trimmed exactly, the window would be the newest observations.\<close>

theorem window_reads_old_end:
  fixes st :: track_store
  assumes "length (ob_keypoints e) = KEYPOINTS" "0 \<le> ttl"
    and "\<forall>o'\<in>set (stream_of now (track_key camera track) st). length (ob_keypoints o') = KEYPOINTS"
    and "cl_trim cl (cl_store_window cl) es = drop j es" "es = stream_of now (track_key camera track) st @ [e]"
    and "cl_store_window cl \<le> length es - j" "j \<le> length es" "cl_ttl cl = ttl"
  shows "read_window (cl_store_window cl) now camera track (snd (update_track cl now camera track e st))
      = take (cl_store_window cl) (drop j es) \<and>
    (cl_store_window cl < length es - j \<and> distinct es \<longrightarrow>
       e \<notin> set (read_window (cl_store_window cl) now camera track (snd (update_track cl now camera track e st)))) \<and>
    (cl_store_window cl = length es - j \<longrightarrow>
       read_window (cl_store_window cl) now camera track (snd (update_track cl now camera track e st)) = drop j es)"
proof -
  let ?w = "cl_store_window cl"
  have st1: "stream_of now (track_key camera track) (snd (update_track cl now camera track e st)) = drop j es"
    using assms by (simp add: update_track_def append_observation_def stream_of_def Let_def)
  have good: "\<forall>o'\<in>set es. length (ob_keypoints o') = KEYPOINTS" using assms(1,3,5) by simp
  have "\<forall>o'\<in>set (take ?w (drop j es)). length (ob_keypoints o') = KEYPOINTS"
    using good set_take_subset set_drop_subset by (metis subset_iff)
  then have read: "read_window ?w now camera track (snd (update_track cl now camera track e st)) = take ?w (drop j es)"
    by (simp add: read_window_def st1)
  have new: "e \<notin> set (take ?w (drop j es))" if "?w < length es - j" "distinct es"
  proof -
    have es: "es = butlast es @ [e]" using assms(5) by simp
    then have "take ?w (drop j es) = take ?w (drop j (butlast es))"
      using that(1) by (metis butlast_snoc drop_butlast length_butlast length_drop take_butlast take_append diff_diff_left drop_append)
    moreover have "e \<notin> set (butlast es)" using es that(2) by (metis distinct.simps(2) distinct1_rotate rotate1.simps(2) append_Cons append_Nil not_distinct_conv_prefix)
    ultimately show ?thesis by (metis in_set_dropD in_set_takeD)
  qed
  have exact: "take ?w (drop j es) = drop j es" if "?w = length es - j" using that by simp
  show ?thesis unfolding read using new exact by blast
qed

text \<open>The first 48 bits of an alert id are the time it was drawn at, whatever the random bits, so alert
  ids sort by time.\<close>

lemma alert_id_time: "drop_bit 80 (alert_id_value millis a b) = and (of_nat millis) (mask 48)"
  by (rule bit_word_eqI) (auto simp: alert_id_value_def bit_simps dest: bit_imp_le_length)

end
