(* ===== verification/ApiPolicy.thy ===== *)
theory ApiPolicy
  imports PyText Complex_Main
begin

text \<open>
  The detection policy: its versions in the alert service's database
  (\<^verbatim>\<open>services/api/app/repositories/policy_repository.py\<close>, \<^verbatim>\<open>usecases/policy_usecase.py\<close>,
  \<^verbatim>\<open>schemas/policy.py\<close>), its copy on the stream Redis (\<^verbatim>\<open>services/policy_sync.py\<close>) and the
  inference service that follows it (\<^verbatim>\<open>services/ai/app/policy_watcher.py\<close>).  Floats are rationals; a
  message is the pair of its version and its payload.
\<close>

section \<open>The payload\<close>

record concealment_policy =
  grab_ratio :: rat
  missing_seconds :: rat
  keypoint_confidence :: rat
  expiry_seconds :: rat

record classifier_policy =
  anomaly_threshold :: rat
  person_confidence :: rat
  object_confidence :: rat

record policy_payload =
  pl_concealment :: concealment_policy
  pl_classifier :: classifier_policy

definition default_policy :: policy_payload where
  "default_policy = \<lparr>pl_concealment = \<lparr>grab_ratio = 15 / 100, missing_seconds = 1, keypoint_confidence = 1 / 2, expiry_seconds = 10\<rparr>,
     pl_classifier = \<lparr>anomaly_threshold = 6 / 10, person_confidence = 7 / 10, object_confidence = 35 / 100\<rparr>\<rparr>"

definition field_within :: "rat \<Rightarrow> rat \<Rightarrow> rat \<Rightarrow> bool" where
  "field_within lo hi x \<longleftrightarrow> lo \<le> x \<and> x \<le> hi"

text \<open>The bounds that a request's payload is validated against.\<close>

definition valid_policy :: "policy_payload \<Rightarrow> bool" where
  "valid_policy p = (let c = pl_concealment p; k = pl_classifier p in
     field_within (1 / 10) (15 / 10) (grab_ratio c) \<and> field_within (2 / 10) 5 (missing_seconds c) \<and>
     field_within (1 / 10) (95 / 100) (keypoint_confidence c) \<and> field_within 2 60 (expiry_seconds c) \<and>
     field_within (5 / 100) (95 / 100) (anomaly_threshold k) \<and> field_within (1 / 10) (95 / 100) (person_confidence k) \<and>
     field_within (5 / 100) (95 / 100) (object_confidence k))"

definition flatten_policy :: "policy_payload \<Rightarrow> (string \<times> rat) list" where
  "flatten_policy p = (let c = pl_concealment p; k = pl_classifier p in
    [(''concealment.grab_ratio'', grab_ratio c), (''concealment.missing_seconds'', missing_seconds c),
     (''concealment.keypoint_confidence'', keypoint_confidence c), (''concealment.expiry_seconds'', expiry_seconds c),
     (''classifier.anomaly_threshold'', anomaly_threshold k), (''classifier.person_confidence'', person_confidence k),
     (''classifier.object_confidence'', object_confidence k)])"

record policy_change =
  pg_field_name :: string
  pg_previous :: rat
  pg_current :: rat

definition diff_policy :: "policy_payload \<Rightarrow> policy_payload \<Rightarrow> policy_change list" where
  "diff_policy before after = (let old = map_of (flatten_policy before); new = flatten_policy after in
     concat (map (\<lambda>(name, value). case old name of
         Some prev \<Rightarrow> if prev \<noteq> value then [\<lparr>pg_field_name = name, pg_previous = prev, pg_current = value\<rparr>] else []
       | None \<Rightarrow> []) new))"

section \<open>The repository\<close>

record policy_doc =
  pd_version :: nat
  pd_policy :: policy_payload
  pd_changed_by :: string
  pd_changed_at :: int
  pd_changes :: "policy_change list"

type_synonym policy_store = "policy_doc list"

fun newest :: "policy_doc list \<Rightarrow> policy_doc option" where
  "newest [] = None"
| "newest (d # ds) = (case newest ds of None \<Rightarrow> Some d | Some e \<Rightarrow> if pd_version e > pd_version d then Some e else Some d)"

definition current_doc :: "policy_store \<Rightarrow> policy_doc option" where
  "current_doc st = newest st"

text \<open>\<^verbatim>\<open>append\<close>: the unique key on the version refuses a second document of one version.\<close>

definition append_policy :: "policy_doc \<Rightarrow> policy_store \<Rightarrow> policy_store option" where
  "append_policy d st = (if pd_version d \<in> pd_version ` set st then None else Some (st @ [d]))"

definition policy_history :: "nat \<Rightarrow> policy_store \<Rightarrow> policy_doc list" where
  "policy_history limit st = take limit (rev (sort_key pd_version st))"

section \<open>The stream\<close>

record policy_stream =
  sm_current :: "(nat \<times> policy_payload) option"
  sm_channel :: "(nat \<times> policy_payload) list"
  sm_applied :: "nat option"

definition publish_policy :: "nat \<Rightarrow> policy_payload \<Rightarrow> policy_stream \<Rightarrow> bool \<times> policy_stream" where
  "publish_policy version p sm =
     (case sm_current sm of
        Some (held, _) \<Rightarrow> if held \<ge> version then (False, sm)
          else (True, sm\<lparr>sm_current := Some (version, p), sm_channel := sm_channel sm @ [(version, p)]\<rparr>)
      | None \<Rightarrow> (True, sm\<lparr>sm_current := Some (version, p), sm_channel := sm_channel sm @ [(version, p)]\<rparr>))"

definition sync_once :: "policy_store \<Rightarrow> policy_stream \<Rightarrow> policy_stream" where
  "sync_once st sm = (case current_doc st of None \<Rightarrow> sm | Some d \<Rightarrow> snd (publish_policy (pd_version d) (pd_policy d) sm))"

section \<open>The use case\<close>

datatype policy_error = PolicyConflict

record policy_response =
  pr_version :: nat
  pr_policy :: policy_payload
  pr_changed_by :: string
  pr_changed_at :: int
  pr_runtime :: "nat option"

definition current_policy :: "int \<Rightarrow> policy_store \<Rightarrow> policy_stream \<Rightarrow> policy_response" where
  "current_policy now st sm = (case current_doc st of
     None \<Rightarrow> \<lparr>pr_version = 0, pr_policy = default_policy, pr_changed_by = '''', pr_changed_at = now, pr_runtime = sm_applied sm\<rparr>
   | Some d \<Rightarrow> \<lparr>pr_version = pd_version d, pr_policy = pd_policy d, pr_changed_by = pd_changed_by d,
       pr_changed_at = pd_changed_at d, pr_runtime = sm_applied sm\<rparr>)"

text \<open>\<^verbatim>\<open>update\<close> up to the insert: the refusal of a stale version, nothing to change, or the document.\<close>

definition prepare_update :: "nat \<Rightarrow> policy_payload \<Rightarrow> string \<Rightarrow> int \<Rightarrow> policy_store \<Rightarrow> policy_error + policy_doc option" where
  "prepare_update expected p actor now st =
     (let doc = current_doc st; live = (case doc of None \<Rightarrow> 0 | Some d \<Rightarrow> pd_version d) in
      if expected \<noteq> live then Inl PolicyConflict
      else let before = (case doc of None \<Rightarrow> default_policy | Some d \<Rightarrow> pd_policy d); changes = diff_policy before p in
        if changes = [] then Inr None
        else Inr (Some \<lparr>pd_version = live + 1, pd_policy = p, pd_changed_by = actor, pd_changed_at = now, pd_changes = changes\<rparr>))"

record config_changed =
  ccg_actor :: string
  ccg_field_path :: string
  ccg_before :: rat
  ccg_after :: rat

definition config_events :: "policy_doc \<Rightarrow> config_changed list" where
  "config_events d = map (\<lambda>c. \<lparr>ccg_actor = pd_changed_by d, ccg_field_path = pg_field_name c, ccg_before = pg_previous c,
     ccg_after = pg_current c\<rparr>) (pd_changes d)"

section \<open>The watcher in the inference service\<close>

record policy_watcher =
  wt_version :: nat
  wt_policy :: policy_payload

definition apply_message :: "nat \<times> policy_payload \<Rightarrow> policy_watcher \<Rightarrow> policy_watcher" where
  "apply_message m w = (if fst m \<le> wt_version w then w else w\<lparr>wt_version := fst m, wt_policy := snd m\<rparr>)"

definition report_applied :: "bool \<Rightarrow> policy_watcher \<Rightarrow> policy_watcher \<Rightarrow> policy_stream \<Rightarrow> policy_stream" where
  "report_applied up before w sm = (if up \<and> wt_version w \<noteq> wt_version before then sm\<lparr>sm_applied := Some (wt_version w)\<rparr> else sm)"

definition catch_up :: "policy_stream \<Rightarrow> policy_watcher \<Rightarrow> policy_watcher" where
  "catch_up sm w = (case sm_current sm of None \<Rightarrow> w | Some m \<Rightarrow> apply_message m w)"

section \<open>Interleaved updates\<close>

datatype policy_client = PIdle | PHolding policy_doc | PStored policy_doc | PDone | PRefused

record policy_system =
  py_store :: policy_store
  py_stream :: policy_stream
  py_audit :: "config_changed list"
  py_clients :: "nat \<Rightarrow> policy_client"
  py_watcher :: policy_watcher
  py_inbox :: "(nat \<times> policy_payload) list"

text \<open>The steps between two waits of the handlers: a client reads the current document and builds the
  next one, writes it, publishes it; the sync task runs; the stream Redis loses its data; the watcher
  catches up, takes a message, misses one or starts again on its own defaults.  \<open>py_inbox\<close> holds the
  messages on their way to the watcher.\<close>

inductive policy_step :: "policy_system \<Rightarrow> policy_system \<Rightarrow> bool" where
  read_current: "prepare_update expected p actor now (py_store s) = Inr (Some d) \<Longrightarrow> py_clients s i = PIdle \<Longrightarrow>
    policy_step s (s\<lparr>py_clients := (py_clients s)(i := PHolding d)\<rparr>)"
| stale: "prepare_update expected p actor now (py_store s) = Inl e \<Longrightarrow> py_clients s i = PIdle \<Longrightarrow>
    policy_step s (s\<lparr>py_clients := (py_clients s)(i := PRefused)\<rparr>)"
| stored: "py_clients s i = PHolding d \<Longrightarrow> append_policy d (py_store s) = Some st \<Longrightarrow>
    policy_step s (s\<lparr>py_store := st, py_audit := py_audit s @ config_events d, py_clients := (py_clients s)(i := PStored d)\<rparr>)"
| duplicate: "py_clients s i = PHolding d \<Longrightarrow> append_policy d (py_store s) = None \<Longrightarrow>
    policy_step s (s\<lparr>py_clients := (py_clients s)(i := PRefused)\<rparr>)"
| published: "py_clients s i = PStored d \<Longrightarrow> publish_policy (pd_version d) (pd_policy d) (py_stream s) = (told, sm) \<Longrightarrow>
    policy_step s (s\<lparr>py_stream := sm, py_inbox := py_inbox s @ drop (length (sm_channel (py_stream s))) (sm_channel sm),
      py_clients := (py_clients s)(i := PDone)\<rparr>)"
| publish_fails: "py_clients s i = PStored d \<Longrightarrow>
    policy_step s (s\<lparr>py_clients := (py_clients s)(i := PDone)\<rparr>)"
| sync: "sync_once (py_store s) (py_stream s) = sm \<Longrightarrow>
    policy_step s (s\<lparr>py_stream := sm, py_inbox := py_inbox s @ drop (length (sm_channel (py_stream s))) (sm_channel sm)\<rparr>)"
| stream_lost: "policy_step s (s\<lparr>py_stream := \<lparr>sm_current = None, sm_channel = [], sm_applied = None\<rparr>\<rparr>)"
| caught_up: "catch_up (py_stream s) (py_watcher s) = w \<Longrightarrow>
    policy_step s (s\<lparr>py_watcher := w, py_stream := report_applied up (py_watcher s) w (py_stream s)\<rparr>)"
| message: "py_inbox s = m # ms \<Longrightarrow> apply_message m (py_watcher s) = w \<Longrightarrow>
    policy_step s (s\<lparr>py_inbox := ms, py_watcher := w, py_stream := report_applied up (py_watcher s) w (py_stream s)\<rparr>)"
| missed: "policy_step s (s\<lparr>py_inbox := []\<rparr>)"
| watcher_restart: "policy_step s (s\<lparr>py_watcher := \<lparr>wt_version = 0, wt_policy = env\<rparr>, py_inbox := []\<rparr>)"

definition initial_policy_system :: "policy_payload \<Rightarrow> policy_system" where
  "initial_policy_system env = \<lparr>py_store = [], py_stream = \<lparr>sm_current = None, sm_channel = [], sm_applied = None\<rparr>,
     py_audit = [], py_clients = (\<lambda>_. PIdle), py_watcher = \<lparr>wt_version = 0, wt_policy = env\<rparr>, py_inbox = []\<rparr>"

inductive policy_reachable :: "policy_payload \<Rightarrow> policy_system \<Rightarrow> bool" for env where
  start: "policy_reachable env (initial_policy_system env)"
| more: "policy_reachable env s \<Longrightarrow> policy_step s s' \<Longrightarrow> policy_reachable env s'"

section \<open>The invariant\<close>

fun policy_chain :: "policy_payload \<Rightarrow> policy_doc list \<Rightarrow> bool" where
  "policy_chain before [] \<longleftrightarrow> True"
| "policy_chain before (d # ds) \<longleftrightarrow> pd_changes d = diff_policy before (pd_policy d) \<and> pd_changes d \<noteq> [] \<and>
     policy_chain (pd_policy d) ds"

definition policy_after :: "policy_doc list \<Rightarrow> policy_payload" where
  "policy_after ds = (if ds = [] then default_policy else pd_policy (last ds))"

definition as_message :: "policy_doc \<Rightarrow> nat \<times> policy_payload" where
  "as_message d = (pd_version d, pd_policy d)"

definition fits :: "policy_store \<Rightarrow> policy_doc \<Rightarrow> bool" where
  "fits st d \<longleftrightarrow> 1 \<le> pd_version d \<and> pd_version d \<le> length st + 1 \<and> pd_changes d \<noteq> [] \<and>
     pd_changes d = diff_policy (policy_after (take (pd_version d - 1) st)) (pd_policy d)"

definition policy_client_ok :: "policy_store \<Rightarrow> policy_client \<Rightarrow> bool" where
  "policy_client_ok st c = (case c of PHolding d \<Rightarrow> fits st d | PStored d \<Rightarrow> d \<in> set st | _ \<Rightarrow> True)"

definition store_ok :: "policy_store \<Rightarrow> bool" where
  "store_ok st \<longleftrightarrow> map pd_version st = [1..<Suc (length st)] \<and> policy_chain default_policy st"

definition stream_ok :: "policy_store \<Rightarrow> policy_stream \<Rightarrow> bool" where
  "stream_ok st sm \<longleftrightarrow> set_option (sm_current sm) \<union> set (sm_channel sm) \<subseteq> as_message ` set st"

definition watcher_ok :: "policy_store \<Rightarrow> policy_watcher \<Rightarrow> bool" where
  "watcher_ok st w \<longleftrightarrow> wt_version w = 0 \<or> (wt_version w, wt_policy w) \<in> as_message ` set st"

definition policy_inv :: "policy_system \<Rightarrow> bool" where
  "policy_inv s \<longleftrightarrow> store_ok (py_store s) \<and> py_audit s = concat (map config_events (py_store s)) \<and>
     (\<forall>i. policy_client_ok (py_store s) (py_clients s i)) \<and> stream_ok (py_store s) (py_stream s) \<and>
     set (py_inbox s) \<subseteq> as_message ` set (py_store s) \<and> watcher_ok (py_store s) (py_watcher s)"

lemma newest_snoc: "\<forall>x\<in>set ds. pd_version x < pd_version d \<Longrightarrow> newest (ds @ [d]) = Some d"
  by (induction ds) auto

lemma current_doc_last:
  assumes "store_ok st"
  shows "current_doc st = (if st = [] then None else Some (last st))"
proof (cases st rule: rev_cases)
  case (snoc ds d)
  have "map pd_version ds @ [pd_version d] = [1..<Suc (length ds)] @ [Suc (length ds)]"
    using assms snoc by (simp add: store_ok_def)
  then have "map pd_version ds = [1..<Suc (length ds)]" "pd_version d = Suc (length ds)" by auto
  then have "\<forall>x\<in>set ds. pd_version x < pd_version d"
    using image_set[of pd_version ds] by (auto simp del: upt_Suc)
  then show ?thesis using snoc newest_snoc by (simp add: current_doc_def)
qed (simp add: current_doc_def)

lemma last_version:
  assumes "store_ok st" "st \<noteq> []"
  shows "pd_version (last st) = length st"
proof -
  obtain ds d where st: "st = ds @ [d]" using assms(2) by (metis append_butlast_last_id)
  then have "map pd_version ds @ [pd_version d] = [1..<Suc (length ds)] @ [Suc (length ds)]"
    using assms by (simp add: store_ok_def)
  then show ?thesis using st by simp
qed

lemma prepare_fits:
  assumes "store_ok st" "prepare_update expected p actor now st = Inr (Some d)"
  shows "fits st d"
proof (cases "st = []")
  case True
  then show ?thesis using assms
    by (auto simp: prepare_update_def current_doc_last Let_def fits_def policy_after_def split: if_splits)
next
  case False
  then show ?thesis using assms last_version[OF assms(1) False]
    by (auto simp: prepare_update_def current_doc_last Let_def fits_def policy_after_def split: if_splits)
qed

lemma policy_chain_snoc:
  "policy_chain before (ds @ [d]) \<longleftrightarrow> policy_chain before ds \<and> pd_changes d \<noteq> [] \<and>
     pd_changes d = diff_policy (if ds = [] then before else pd_policy (last ds)) (pd_policy d)"
  by (induction ds arbitrary: before) auto

lemma append_store_ok:
  assumes "store_ok st" "fits st d" "append_policy d st = Some st'"
  shows "st' = st @ [d]" "store_ok st'" "fits st x \<Longrightarrow> fits st' x"
proof -
  have new: "pd_version d \<notin> pd_version ` set st" and st': "st' = st @ [d]"
    using assms(3) by (auto simp: append_policy_def split: if_splits)
  have "pd_version ` set st = set [1..<Suc (length st)]"
    using assms(1) by (metis store_ok_def set_map)
  with new have v: "pd_version d = Suc (length st)" using assms(2) by (auto simp: fits_def)
  then have "pd_changes d = diff_policy (policy_after st) (pd_policy d)" using assms(2) by (simp add: fits_def)
  then have changes: "pd_changes d = diff_policy (if st = [] then default_policy else pd_policy (last st)) (pd_policy d)"
    by (simp only: policy_after_def)
  have ne: "pd_changes d \<noteq> []" using assms(2) unfolding fits_def by blast
  have "policy_chain default_policy st" using assms(1) by (simp add: store_ok_def)
  then have chain: "policy_chain default_policy (st @ [d])"
    unfolding policy_chain_snoc using changes ne by blast
  show "st' = st @ [d]" by (fact st')
  show "store_ok st'" using assms(1) v chain by (simp add: store_ok_def st')
  show "fits st x \<Longrightarrow> fits st' x" using st' by (auto simp: fits_def)
qed

lemma publish_grows:
  assumes "publish_policy version p sm = (told, sm')"
  shows "set_option (sm_current sm') \<union> set (sm_channel sm') \<subseteq>
    insert (version, p) (set_option (sm_current sm) \<union> set (sm_channel sm))"
  using assms by (auto simp: publish_policy_def split: option.splits if_splits)

lemma publish_stream_ok:
  assumes "stream_ok st sm" "d \<in> set st" "publish_policy (pd_version d) (pd_policy d) sm = (told, sm')"
  shows "stream_ok st sm'" "set (drop n (sm_channel sm')) \<subseteq> as_message ` set st"
proof -
  define M where "M = as_message ` set st"
  have "(pd_version d, pd_policy d) \<in> M" using assms(2) by (auto simp: as_message_def M_def)
  then show ok: "stream_ok st sm'"
    using assms(1) publish_grows[OF assms(3)] unfolding stream_ok_def M_def[symmetric] by blast
  then show "set (drop n (sm_channel sm')) \<subseteq> as_message ` set st"
    using set_drop_subset[of n "sm_channel sm'"] by (auto simp: stream_ok_def)
qed

lemma apply_watcher_ok: "watcher_ok st w \<Longrightarrow> m \<in> as_message ` set st \<Longrightarrow> watcher_ok st (apply_message m w)"
  by (auto simp: watcher_ok_def apply_message_def)

lemma report_stream_ok [simp]: "stream_ok st (report_applied up w w' sm) = stream_ok st sm"
  by (simp add: report_applied_def stream_ok_def)

lemma set_client_ok: "\<forall>i. policy_client_ok st (cs i) \<Longrightarrow> policy_client_ok st c \<Longrightarrow> \<forall>j. policy_client_ok st ((cs(i := c)) j)"
  by simp

lemma policy_inv_mono:
  assumes "policy_inv s" "st = py_store s @ [d]" "\<And>x. fits (py_store s) x \<Longrightarrow> fits st x"
  shows "\<forall>i. policy_client_ok st (py_clients s i)" "stream_ok st (py_stream s)"
    "set (py_inbox s) \<subseteq> as_message ` set st" "watcher_ok st (py_watcher s)"
proof -
  show "\<forall>i. policy_client_ok st (py_clients s i)"
    using assms by (auto simp: policy_inv_def policy_client_ok_def split: policy_client.splits)
  have sub: "as_message ` set (py_store s) \<subseteq> as_message ` set st" using assms(2) by auto
  then show "stream_ok st (py_stream s)" "set (py_inbox s) \<subseteq> as_message ` set st" "watcher_ok st (py_watcher s)"
    using assms(1) unfolding policy_inv_def stream_ok_def watcher_ok_def by blast+
qed

lemma policy_step_inv:
  assumes "policy_step s s'" "policy_inv s"
  shows "policy_inv s'"
  using assms
proof (induction rule: policy_step.induct)
  case (read_current expected p actor now s d i)
  then have "fits (py_store s) d" by (intro prepare_fits) (auto simp: policy_inv_def)
  then show ?case using read_current by (simp add: policy_inv_def policy_client_ok_def)
next
  case (stale expected p actor now s e i)
  then show ?case by (simp add: policy_inv_def policy_client_ok_def)
next
  case (stored s i d st)
  have "policy_client_ok (py_store s) (py_clients s i)" using stored(3) by (simp add: policy_inv_def)
  then have fit: "fits (py_store s) d" using stored(1) by (simp add: policy_client_ok_def)
  have ok: "store_ok (py_store s)" using stored(3) by (simp add: policy_inv_def)
  note app = append_store_ok[OF ok fit stored(2)]
  note mono = policy_inv_mono[OF stored(3) app(1) app(3)]
  have "policy_client_ok st (PStored d)" by (simp add: policy_client_ok_def app(1))
  then show ?case using stored(3) app(1,2) mono by (simp add: policy_inv_def)
next
  case (duplicate s i d)
  then show ?case by (simp add: policy_inv_def policy_client_ok_def)
next
  case (published s i d told sm)
  have "policy_client_ok (py_store s) (py_clients s i)" using published(3) by (simp add: policy_inv_def)
  then have "d \<in> set (py_store s)" using published(1) by (simp add: policy_client_ok_def)
  moreover have "stream_ok (py_store s) (py_stream s)" using published(3) by (simp add: policy_inv_def)
  ultimately show ?case using published(3) publish_stream_ok[OF _ _ published(2)]
    by (simp add: policy_inv_def policy_client_ok_def)
next
  case (publish_fails s i d)
  then show ?case by (simp add: policy_inv_def policy_client_ok_def)
next
  case (sync s sm)
  have ok: "store_ok (py_store s)" "stream_ok (py_store s) (py_stream s)" using sync(2) by (simp_all add: policy_inv_def)
  show ?case
  proof (cases "py_store s = []")
    case True
    then have "sm = py_stream s" using sync(1) ok(1) by (simp add: sync_once_def current_doc_last)
    then show ?thesis using sync(2) by (simp add: policy_inv_def)
  next
    case False
    let ?d = "last (py_store s)"
    obtain told where "publish_policy (pd_version ?d) (pd_policy ?d) (py_stream s) = (told, sm)"
      using sync(1) ok(1) False
      by (cases "publish_policy (pd_version ?d) (pd_policy ?d) (py_stream s)") (simp add: sync_once_def current_doc_last)
    from publish_stream_ok[OF ok(2) last_in_set[OF False] this] show ?thesis
      using sync(2) by (simp add: policy_inv_def)
  qed
next
  case (stream_lost s)
  then show ?case by (simp add: policy_inv_def stream_ok_def)
next
  case (caught_up s w up)
  have "watcher_ok (py_store s) w"
  proof (cases "sm_current (py_stream s)")
    case None
    then show ?thesis using caught_up by (simp add: catch_up_def policy_inv_def)
  next
    case (Some m)
    then have "m \<in> as_message ` set (py_store s)" using caught_up(2) by (simp add: policy_inv_def stream_ok_def)
    then have "watcher_ok (py_store s) (apply_message m (py_watcher s))"
      using caught_up(2) by (intro apply_watcher_ok) (simp_all add: policy_inv_def)
    then show ?thesis using caught_up(1) Some by (simp add: catch_up_def)
  qed
  then show ?case using caught_up(2) by (simp add: policy_inv_def)
next
  case (message s m ms w up)
  then have "watcher_ok (py_store s) (apply_message m (py_watcher s))"
    by (intro apply_watcher_ok) (simp_all add: policy_inv_def)
  then have "watcher_ok (py_store s) w" by (simp only: message(2))
  then show ?case using message by (simp add: policy_inv_def)
next
  case (missed s)
  then show ?case by (simp add: policy_inv_def)
next
  case (watcher_restart s env)
  then show ?case by (simp add: policy_inv_def watcher_ok_def)
qed

lemma policy_reachable_inv: "policy_reachable env s \<Longrightarrow> policy_inv s"
proof (induction rule: policy_reachable.induct)
  case start
  show ?case
    by (simp add: initial_policy_system_def policy_inv_def store_ok_def stream_ok_def watcher_ok_def policy_client_ok_def)
next
  case (more s s')
  then show ?case using policy_step_inv by blast
qed

section \<open>Properties\<close>


lemma policy_reachable_update:
  assumes "prepare_update 0 p actor now [] = Inr (Some d)"
  shows "policy_reachable env ((initial_policy_system env)\<lparr>py_store := [d], py_audit := config_events d,
    py_clients := (\<lambda>_. PIdle)(0 := PStored d)\<rparr>)"
proof -
  let ?s0 = "initial_policy_system env"
  let ?s1 = "?s0\<lparr>py_clients := (\<lambda>_. PIdle)(0 := PHolding d)\<rparr>"
  have "policy_step ?s0 (?s0\<lparr>py_clients := (py_clients ?s0)(0 := PHolding d)\<rparr>)"
    by (rule read_current[where expected = 0 and p = p and actor = actor and now = now])
      (use assms in \<open>simp_all add: initial_policy_system_def\<close>)
  then have s1: "policy_reachable env ?s1"
    using policy_reachable.start policy_reachable.more by (simp add: initial_policy_system_def) blast
  have "policy_step ?s1 (?s1\<lparr>py_store := [d], py_audit := py_audit ?s1 @ config_events d,
      py_clients := (py_clients ?s1)(0 := PStored d)\<rparr>)"
    by (rule stored) (simp_all add: initial_policy_system_def append_policy_def)
  from policy_reachable.more[OF s1 this] show ?thesis by (simp add: initial_policy_system_def)
qed


lemma apply_message_mono: "wt_version w \<le> wt_version (apply_message m w)"
  by (simp add: apply_message_def)

lemma catch_up_mono: "wt_version w \<le> wt_version (catch_up sm w)"
  by (simp add: catch_up_def apply_message_mono split: option.splits)

lemma newest_top:
  assumes "store_ok st" "x \<in> set st"
  shows "pd_version x \<le> pd_version (last st) \<and> (pd_version x = pd_version (last st) \<longrightarrow> x = last st) \<and> 0 < pd_version x"
proof -
  obtain j where j: "j < length st" "x = st ! j" using assms(2) by (metis in_set_conv_nth)
  have v: "map pd_version st = [1..<Suc (length st)]" using assms(1) by (simp add: store_ok_def)
  have nth: "pd_version (st ! k) = Suc k" if "k < length st" for k
    using arg_cong[OF v, of "\<lambda>l. l ! k"] that by (simp del: upt_Suc)
  have ne: "st \<noteq> []" using assms(2) by auto
  note l = last_conv_nth[OF ne] ne
  show ?thesis
  proof (cases "Suc j = length st")
    case True
    then have "length st - 1 = j" by simp
    then show ?thesis using j l nth[of j] by simp
  next
    case False
    then show ?thesis using j last_version[OF assms(1) l(2)] nth[of j] by simp
  qed
qed

lemma sync_catches_up:
  assumes "policy_inv s" "current_doc (py_store s) = Some d"
  shows "sm_current (sync_once (py_store s) (py_stream s)) = Some (as_message d)"
proof -
  let ?st = "py_store s" and ?sm = "py_stream s"
  have ok: "store_ok ?st" "stream_ok ?st ?sm" using assms(1) by (simp_all add: policy_inv_def)
  have ne: "?st \<noteq> []" and d: "d = last ?st" using assms(2) current_doc_last[OF ok(1)] by (auto split: if_splits)
  note le = newest_top[OF ok(1)]
  show ?thesis
  proof (cases "sm_current ?sm")
    case None
    then show ?thesis using assms(2) by (simp add: sync_once_def publish_policy_def as_message_def)
  next
    case (Some m)
    then obtain x where "x \<in> set ?st" "m = as_message x" using ok(2) by (auto simp: stream_ok_def)
    then show ?thesis using le[of x] Some assms(2) d
      by (cases "pd_version x = pd_version d") (auto simp: sync_once_def publish_policy_def as_message_def)
  qed
qed

text \<open>C33: The inference service follows the policy.  At any moment of any run it works either with its
  own defaults or with exactly the payload of a stored version; once the sync task has run, however
  much the stream Redis has lost and whichever notifications went missing, a catch-up leaves it with
  the newest version; and its version falls only when it starts again.\<close>

theorem policy_converges:
  assumes "policy_reachable env s" "current_doc (py_store s) = Some d"
  shows "(wt_version (py_watcher s) = 0 \<or> (wt_version (py_watcher s), wt_policy (py_watcher s)) \<in> as_message ` set (py_store s)) \<and>
    (let w = catch_up (sync_once (py_store s) (py_stream s)) (py_watcher s) in
       wt_version w = pd_version d \<and> wt_policy w = pd_policy d) \<and>
    (\<forall>s'. policy_step s s' \<longrightarrow> wt_version (py_watcher s) \<le> wt_version (py_watcher s') \<or>
       wt_version (py_watcher s') = 0 \<and> py_inbox s' = [])"
proof (intro conjI allI impI)
  have inv: "policy_inv s" using assms(1) by (rule policy_reachable_inv)
  then show w: "wt_version (py_watcher s) = 0 \<or> (wt_version (py_watcher s), wt_policy (py_watcher s)) \<in> as_message ` set (py_store s)"
    by (simp add: policy_inv_def watcher_ok_def)
  have ok: "store_ok (py_store s)" using inv by (simp add: policy_inv_def)
  have ne: "py_store s \<noteq> []" and d: "d = last (py_store s)" using assms(2) current_doc_last[OF ok] by (auto split: if_splits)
  note top = newest_top[OF ok]
  show "let w = catch_up (sync_once (py_store s) (py_stream s)) (py_watcher s) in
      wt_version w = pd_version d \<and> wt_policy w = pd_policy d"
  proof (cases "wt_version (py_watcher s) = 0")
    case True
    then show ?thesis using sync_catches_up[OF inv assms(2)] top[of "last (py_store s)"] d ne
      by (simp add: catch_up_def apply_message_def as_message_def Let_def)
  next
    case False
    then obtain x where x: "x \<in> set (py_store s)" "wt_version (py_watcher s) = pd_version x" "wt_policy (py_watcher s) = pd_policy x"
      using w by (auto simp: as_message_def)
    show ?thesis using sync_catches_up[OF inv assms(2)] top[OF x(1)] x d
      by (auto simp: catch_up_def apply_message_def as_message_def Let_def)
  qed
  fix s' assume "policy_step s s'"
  then show "wt_version (py_watcher s) \<le> wt_version (py_watcher s') \<or> wt_version (py_watcher s') = 0 \<and> py_inbox s' = []"
    by (cases rule: policy_step.cases) (use apply_message_mono catch_up_mono in auto)
qed

theorem policy_converges_witness:
  "\<exists>d. prepare_update 0 (default_policy\<lparr>pl_classifier := (pl_classifier default_policy)\<lparr>anomaly_threshold := 1 / 2\<rparr>\<rparr>) ''admin'' 0 []
      = Inr (Some d) \<and>
    wt_version (catch_up (sync_once [d] \<lparr>sm_current = None, sm_channel = [], sm_applied = None\<rparr>)
      \<lparr>wt_version = 0, wt_policy = default_policy\<rparr>) = pd_version d"
proof -
  obtain d where d: "prepare_update 0 (default_policy\<lparr>pl_classifier := (pl_classifier default_policy)\<lparr>anomaly_threshold := 1 / 2\<rparr>\<rparr>)
      ''admin'' 0 [] = Inr (Some d)"
    by (simp add: prepare_update_def current_doc_def default_policy_def diff_policy_def flatten_policy_def Let_def)
  show ?thesis
    using d policy_converges[OF policy_reachable_update[OF d, of default_policy], of d]
    by (auto simp: initial_policy_system_def current_doc_def Let_def)
qed

end
