(* ===== verification/CameraCapture.thy ===== *)
theory CameraCapture
  imports Prelude Complex_Main "HOL-Library.Product_Lexorder" "HOL-Library.Sublist"
begin

text \<open>
  The camera service (\<^verbatim>\<open>services/camera/app/capture\<close>): the device and its sessions
  (\<^verbatim>\<open>device.py\<close>), the capture thread (\<^verbatim>\<open>loop.py\<close>), the buffer from which the newest frame is
  forwarded (\<^verbatim>\<open>buffer.py\<close>, \<^verbatim>\<open>forwarder.py\<close>), the queue to the frame stream (\<^verbatim>\<open>publisher.py\<close>), the
  detection stream (\<^verbatim>\<open>detection_publisher.py\<close>) and the frame rate (\<^verbatim>\<open>rate.py\<close>).  The capture,
  publisher and forwarder threads share buffer and queue under their locks; a step of a thread ends
  where it lets go of a lock or waits for an answer, and the steps interleave.  Times are rationals
  of the monotonic clock.  Reading the device and the answers of Redis and the inference service
  are arguments.
\<close>

section \<open>Frames and the forward buffer\<close>

record captured_frame =
  cf_payload :: bytes
  cf_session_id :: nat
  cf_frame_index :: nat
  cf_camera_id :: string
  cf_timestamp :: rat
  cf_captured_at :: rat

record forward_buffer =
  fb_max_depth :: nat
  fb_max_age :: rat
  fb_frames :: "captured_frame list"
  fb_captured_total :: nat
  fb_overflow_total :: nat
  fb_stale_total :: nat

definition new_buffer :: "nat \<Rightarrow> rat \<Rightarrow> forward_buffer" where
  "new_buffer depth age = \<lparr>fb_max_depth = depth, fb_max_age = age, fb_frames = [], fb_captured_total = 0,
     fb_overflow_total = 0, fb_stale_total = 0\<rparr>"

text \<open>\<^verbatim>\<open>deque.append\<close> with a \<^verbatim>\<open>maxlen\<close>: the oldest entries leave.\<close>

definition deque_append :: "nat \<Rightarrow> 'a \<Rightarrow> 'a list \<Rightarrow> 'a list" where
  "deque_append maxlen x xs = drop (Suc (length xs) - maxlen) (xs @ [x])"

definition buffer_push :: "captured_frame \<Rightarrow> forward_buffer \<Rightarrow> forward_buffer" where
  "buffer_push f b = b\<lparr>
     fb_overflow_total := fb_overflow_total b + (if length (fb_frames b) = fb_max_depth b then 1 else 0),
     fb_frames := deque_append (fb_max_depth b) f (fb_frames b),
     fb_captured_total := fb_captured_total b + 1\<rparr>"

text \<open>The loop of \<^verbatim>\<open>pop_fresh\<close> runs at most once, as it clears the frames.\<close>

definition pop_fresh :: "rat \<Rightarrow> forward_buffer \<Rightarrow> captured_frame option \<times> forward_buffer" where
  "pop_fresh now b = (if fb_frames b = [] then (None, b)
     else let f = last (fb_frames b);
              b1 = b\<lparr>fb_stale_total := fb_stale_total b + (length (fb_frames b) - 1), fb_frames := []\<rparr>
          in if now - cf_captured_at f \<le> fb_max_age b then (Some f, b1)
             else (None, b1\<lparr>fb_stale_total := fb_stale_total b1 + 1\<rparr>))"

section \<open>The frame stream\<close>

record frame_publisher =
  fp_queue_depth :: nat
  fp_queue :: "captured_frame list"
  fp_published_total :: nat
  fp_failed_total :: nat
  fp_overflow_total :: nat
  fp_backoff :: rat
  fp_backoff_first :: rat
  fp_backoff_max :: rat

definition new_publisher :: "nat \<Rightarrow> rat \<Rightarrow> rat \<Rightarrow> frame_publisher" where
  "new_publisher depth first most = \<lparr>fp_queue_depth = depth, fp_queue = [], fp_published_total = 0, fp_failed_total = 0,
     fp_overflow_total = 0, fp_backoff = first, fp_backoff_first = first, fp_backoff_max = most\<rparr>"

definition publisher_push :: "captured_frame \<Rightarrow> frame_publisher \<Rightarrow> frame_publisher" where
  "publisher_push f p = p\<lparr>
     fp_overflow_total := fp_overflow_total p + (if length (fp_queue p) = fp_queue_depth p then 1 else 0),
     fp_queue := deque_append (fp_queue_depth p) f (fp_queue p)\<rparr>"

definition publisher_pop :: "frame_publisher \<Rightarrow> captured_frame option \<times> frame_publisher" where
  "publisher_pop p = (case fp_queue p of [] \<Rightarrow> (None, p) | f # fs \<Rightarrow> (Some f, p\<lparr>fp_queue := fs\<rparr>))"

text \<open>What \<^verbatim>\<open>_run\<close> does when Redis has answered: \<open>up\<close> says whether it took the frame.\<close>

definition publish_done :: "bool \<Rightarrow> frame_publisher \<Rightarrow> frame_publisher" where
  "publish_done up p = (if up then p\<lparr>fp_published_total := fp_published_total p + 1, fp_backoff := fp_backoff_first p\<rparr>
     else p\<lparr>fp_failed_total := fp_failed_total p + 1, fp_backoff := min (fp_backoff p * 2) (fp_backoff_max p)\<rparr>)"

section \<open>The detection stream\<close>

record seen_person =
  sp_track_id :: int
  sp_bbox :: "rat \<times> rat \<times> rat \<times> rat"
  sp_keypoints :: "(rat \<times> rat \<times> rat) list"
  sp_score :: rat
  sp_inference_state :: string

record seen_object =
  so_track_id :: int
  so_class_name :: string
  so_bbox :: "rat \<times> rat \<times> rat \<times> rat"
  so_confidence :: rat

text \<open>The answer of the inference service.\<close>

record frame_detection =
  fd_frame_width :: int
  fd_frame_height :: int
  fd_detection_present :: bool
  fd_persons :: "seen_person list"
  fd_objects :: "seen_object list"

text \<open>The body of an entry of the detection stream, before it is written as JSON.\<close>

record detection_body =
  db_session_id :: nat
  db_frame_index :: nat
  db_timestamp :: rat
  db_detection :: frame_detection

record detection_publisher =
  dp_published_total :: nat
  dp_failed_total :: nat

definition detection_body_of :: "frame_detection \<Rightarrow> captured_frame \<Rightarrow> detection_body" where
  "detection_body_of d f = \<lparr>db_session_id = cf_session_id f, db_frame_index = cf_frame_index f, db_timestamp = cf_timestamp f,
     db_detection = d\<rparr>"

definition publish_detection :: "bool \<Rightarrow> detection_body \<Rightarrow> detection_publisher \<times> detection_body list \<Rightarrow>
    detection_publisher \<times> detection_body list" where
  "publish_detection up body = (\<lambda>(p, stream).
     if up then (p\<lparr>dp_published_total := dp_published_total p + 1\<rparr>, stream @ [body])
     else (p\<lparr>dp_failed_total := dp_failed_total p + 1\<rparr>, stream))"

section \<open>The rate\<close>

record rate_controller =
  rt_idle_fps :: nat
  rt_active_fps :: nat
  rt_dwell :: rat
  rt_current_fps :: nat
  rt_last_present :: rat

definition new_rate :: "nat \<Rightarrow> nat \<Rightarrow> rat \<Rightarrow> rate_controller" where
  "new_rate idle active dwell = \<lparr>rt_idle_fps = idle, rt_active_fps = active, rt_dwell = dwell, rt_current_fps = idle,
     rt_last_present = 0\<rparr>"

text \<open>The new pace, if it changes, is the argument of \<^verbatim>\<open>set_pace\<close>.\<close>

definition observe_rate :: "rat \<Rightarrow> bool \<Rightarrow> rate_controller \<Rightarrow> nat option \<times> rate_controller" where
  "observe_rate now present r =
     (let r1 = (if present then r\<lparr>rt_last_present := now\<rparr> else r);
          desired = (if present then rt_active_fps r else if now - rt_last_present r < rt_dwell r then rt_active_fps r
                     else rt_idle_fps r)
      in if desired \<noteq> rt_current_fps r then (Some desired, r1\<lparr>rt_current_fps := desired\<rparr>) else (None, r1))"

section \<open>The device and the capture loop\<close>

record capture_loop =
  cl_camera_id :: string
  cl_session_id :: nat
  cl_actual_fps :: rat
  cl_frame_interval :: rat
  cl_frame_index :: nat
  cl_last_grab :: rat
  cl_last_heartbeat :: rat
  cl_next_deadline :: rat
  cl_paused :: bool

definition new_loop :: "string \<Rightarrow> nat \<Rightarrow> capture_loop" where
  "new_loop camera fps = \<lparr>cl_camera_id = camera, cl_session_id = 0, cl_actual_fps = 0, cl_frame_interval = 1 / of_nat fps,
     cl_frame_index = 0, cl_last_grab = 0, cl_last_heartbeat = 0, cl_next_deadline = 0, cl_paused = False\<rparr>"

text \<open>\<^verbatim>\<open>CameraDevice.open\<close>: the frame rate that the driver reports when it opens.\<close>

definition open_device :: "rat option \<Rightarrow> capture_loop \<Rightarrow> bool \<times> capture_loop" where
  "open_device reported l = (case reported of None \<Rightarrow> (False, l)
     | Some fps \<Rightarrow> (True, l\<lparr>cl_session_id := cl_session_id l + 1, cl_actual_fps := fps\<rparr>))"

text \<open>\<^verbatim>\<open>reopen_with_backoff\<close> on the outcomes of its attempts: the delays slept, and whether the
  device is open at the end (it has not come back when the outcomes run out).\<close>

fun reopen :: "rat \<Rightarrow> rat \<Rightarrow> rat option list \<Rightarrow> capture_loop \<Rightarrow> (rat list \<times> bool) \<times> capture_loop" where
  "reopen delay most [] l = (([], False), l)"
| "reopen delay most (r # rs) l = (case open_device r l of
     (True, l1) \<Rightarrow> (([delay], True), l1)
   | (False, l1) \<Rightarrow> (case reopen (min (delay * 2) most) most rs l1 of ((ds, ok), l2) \<Rightarrow> ((delay # ds, ok), l2)))"

text \<open>\<^verbatim>\<open>_touch_heartbeat\<close>: whether the file is touched.\<close>

definition touch_heartbeat :: "rat \<Rightarrow> capture_loop \<Rightarrow> bool \<times> capture_loop" where
  "touch_heartbeat now l = (if now - cl_last_heartbeat l < 1 then (False, l) else (True, l\<lparr>cl_last_heartbeat := now\<rparr>))"

definition build_record :: "rat \<Rightarrow> rat \<Rightarrow> rat \<Rightarrow> bytes \<Rightarrow> capture_loop \<Rightarrow> captured_frame option \<times> capture_loop" where
  "build_record now beat wall payload l = (if payload = [] then (None, l)
     else let l1 = snd (touch_heartbeat beat (l\<lparr>cl_last_grab := now\<rparr>))
       in (Some \<lparr>cf_payload = payload, cf_session_id = cl_session_id l1, cf_frame_index = cl_frame_index l1,
             cf_camera_id = cl_camera_id l1, cf_timestamp = wall, cf_captured_at = now\<rparr>,
           l1\<lparr>cl_frame_index := cl_frame_index l1 + 1\<rparr>))"

text \<open>\<^verbatim>\<open>_pace\<close>: the seconds to sleep.\<close>

definition pace :: "rat \<Rightarrow> capture_loop \<Rightarrow> rat \<times> capture_loop" where
  "pace now l = (if cl_actual_fps l > 0 \<and> cl_frame_interval l \<le> 1 / cl_actual_fps l then (0, l\<lparr>cl_next_deadline := 0\<rparr>)
     else let d = (if cl_next_deadline l \<le> 0 then now else cl_next_deadline l) + cl_frame_interval l
       in if d - now > 0 then (d - now, l\<lparr>cl_next_deadline := d\<rparr>) else (0, l\<lparr>cl_next_deadline := now\<rparr>))"

definition set_pace :: "nat \<Rightarrow> capture_loop \<Rightarrow> capture_loop" where
  "set_pace fps l = l\<lparr>cl_frame_interval := 1 / of_nat fps\<rparr>"

section \<open>The service\<close>

record forward_counters =
  fw_forwarded_total :: nat
  fw_failed_total :: nat
  fw_latency :: "rat list"
  fw_backoff :: rat

definition LATENCY_WINDOW :: nat where "LATENCY_WINDOW = 30"

definition record_latency :: "rat \<Rightarrow> rat list \<Rightarrow> rat list" where
  "record_latency secs xs = (let ys = xs @ [secs * 1000] in drop (length ys - LATENCY_WINDOW) ys)"

definition latency_ms :: "rat list \<Rightarrow> rat option" where
  "latency_ms samples = (if samples = [] then None else Some (sum_list samples / of_nat (length samples)))"

text \<open>Each thread works on at most one frame between two of its steps: \<open>cs_capturing\<close> is in the
  buffer but not yet in the queue, \<open>cs_analysing\<close> is with the inference service, \<open>cs_publishing\<close> on
  the way to Redis.  \<open>cs_sent\<close> lists the frames handed to the inference service with the time they
  were taken from the buffer, \<open>cs_stream\<close> and \<open>cs_detections\<close> the entries of the two streams.\<close>

record camera_state =
  cs_loop :: capture_loop
  cs_buffer :: forward_buffer
  cs_publisher :: frame_publisher
  cs_rate :: rate_controller
  cs_forward :: forward_counters
  cs_detector :: detection_publisher
  cs_capturing :: "captured_frame option"
  cs_analysing :: "captured_frame option"
  cs_publishing :: "captured_frame option"
  cs_sent :: "(rat \<times> captured_frame) list"
  cs_stream :: "captured_frame list"
  cs_detections :: "detection_body list"

record camera_settings =
  ks_camera_id :: string
  ks_idle_fps :: nat
  ks_active_fps :: nat
  ks_dwell :: rat
  ks_buffer_depth :: nat
  ks_buffer_age :: rat
  ks_queue_depth :: nat
  ks_backoff :: rat
  ks_backoff_max :: rat

definition new_camera :: "camera_settings \<Rightarrow> camera_state" where
  "new_camera k = \<lparr>cs_loop = new_loop (ks_camera_id k) (ks_idle_fps k), cs_buffer = new_buffer (ks_buffer_depth k) (ks_buffer_age k),
     cs_publisher = new_publisher (ks_queue_depth k) (ks_backoff k) (ks_backoff_max k),
     cs_rate = new_rate (ks_idle_fps k) (ks_active_fps k) (ks_dwell k),
     cs_forward = \<lparr>fw_forwarded_total = 0, fw_failed_total = 0, fw_latency = [], fw_backoff = ks_backoff k\<rparr>,
     cs_detector = \<lparr>dp_published_total = 0, dp_failed_total = 0\<rparr>,
     cs_capturing = None, cs_analysing = None, cs_publishing = None, cs_sent = [], cs_stream = [], cs_detections = []\<rparr>"

text \<open>\<^verbatim>\<open>CaptureLoop.start\<close>: the first attempt to open the device, and the outcomes of the others.\<close>

definition start_capture :: "camera_settings \<Rightarrow> rat option \<Rightarrow> rat option list \<Rightarrow> camera_state \<Rightarrow> camera_state" where
  "start_capture k r rs c = (case open_device r (cs_loop c) of
     (True, l) \<Rightarrow> c\<lparr>cs_loop := l\<rparr>
   | (False, l) \<Rightarrow> c\<lparr>cs_loop := snd (reopen (ks_backoff k) (ks_backoff_max k) rs l)\<rparr>)"

text \<open>What the device gives a turn of the capture thread: a frame (empty or not) with the readings
  of the clocks, or nothing, after which it is reopened with the given outcomes.\<close>

datatype grab = Grabbed rat rat rat bytes | GrabFailed "rat option list"

text \<open>A turn of \<^verbatim>\<open>_run\<close> up to the push into the buffer, and from there to its end; \<open>now\<close> is the
  clock in \<^verbatim>\<open>_pace\<close>.\<close>

definition capture_take :: "camera_settings \<Rightarrow> grab \<Rightarrow> rat \<Rightarrow> camera_state \<Rightarrow> camera_state" where
  "capture_take k g now c =
     (if cl_paused (cs_loop c) then c\<lparr>cs_loop := (cs_loop c)\<lparr>cl_next_deadline := 0\<rparr>\<rparr>
      else case g of
        GrabFailed rs \<Rightarrow> (case reopen (ks_backoff k) (ks_backoff_max k) rs (cs_loop c) of ((_, ok), l) \<Rightarrow>
          if ok then c\<lparr>cs_loop := l\<lparr>cl_frame_index := 0, cl_next_deadline := 0\<rparr>\<rparr> else c\<lparr>cs_loop := l\<rparr>)
      | Grabbed at_grab beat wall payload \<Rightarrow> (case build_record at_grab beat wall payload (cs_loop c) of
          (None, l) \<Rightarrow> c\<lparr>cs_loop := snd (pace now l)\<rparr>
        | (Some f, l) \<Rightarrow> c\<lparr>cs_loop := l, cs_buffer := buffer_push f (cs_buffer c), cs_capturing := Some f\<rparr>))"

definition capture_hand_over :: "rat \<Rightarrow> camera_state \<Rightarrow> camera_state" where
  "capture_hand_over now c = (case cs_capturing c of None \<Rightarrow> c
     | Some f \<Rightarrow> c\<lparr>cs_publisher := publisher_push f (cs_publisher c), cs_capturing := None,
         cs_loop := snd (pace now (cs_loop c))\<rparr>)"

definition forward_take :: "rat \<Rightarrow> camera_state \<Rightarrow> camera_state" where
  "forward_take now c = (case pop_fresh now (cs_buffer c) of
     (None, b) \<Rightarrow> c\<lparr>cs_buffer := b\<rparr>
   | (Some f, b) \<Rightarrow> c\<lparr>cs_buffer := b, cs_analysing := Some f, cs_sent := cs_sent c @ [(now, f)]\<rparr>)"

text \<open>The answer of the inference service: what it sees, the seconds it took, the clock when the
  rate is adapted, and whether Redis takes the detection.\<close>

datatype analysis = Analysed frame_detection rat rat bool | AnalysisFailed

definition forward_answer :: "camera_settings \<Rightarrow> analysis \<Rightarrow> camera_state \<Rightarrow> camera_state" where
  "forward_answer k answer c = (case cs_analysing c of None \<Rightarrow> c | Some f \<Rightarrow>
     (let c1 = c\<lparr>cs_analysing := None\<rparr>; w = cs_forward c
      in case answer of
        AnalysisFailed \<Rightarrow> c1\<lparr>cs_forward := w\<lparr>fw_failed_total := fw_failed_total w + 1,
           fw_backoff := min (fw_backoff w * 2) (ks_backoff_max k)\<rparr>\<rparr>
      | Analysed d secs now up \<Rightarrow>
         (case observe_rate now (fd_detection_present d) (cs_rate c) of (fps, r) \<Rightarrow>
          case publish_detection up (detection_body_of d f) (cs_detector c, cs_detections c) of (dp, stream) \<Rightarrow>
           c1\<lparr>cs_forward := w\<lparr>fw_forwarded_total := fw_forwarded_total w + 1, fw_latency := record_latency secs (fw_latency w),
                fw_backoff := ks_backoff k\<rparr>,
              cs_rate := r, cs_loop := (case fps of None \<Rightarrow> cs_loop c | Some n \<Rightarrow> set_pace n (cs_loop c)),
              cs_detector := dp, cs_detections := stream\<rparr>)))"

definition stream_take :: "camera_state \<Rightarrow> camera_state" where
  "stream_take c = (case publisher_pop (cs_publisher c) of (out, p) \<Rightarrow> c\<lparr>cs_publisher := p, cs_publishing := out\<rparr>)"

definition stream_answer :: "bool \<Rightarrow> camera_state \<Rightarrow> camera_state" where
  "stream_answer up c = (case cs_publishing c of None \<Rightarrow> c
     | Some f \<Rightarrow> c\<lparr>cs_publisher := publish_done up (cs_publisher c), cs_publishing := None,
         cs_stream := (if up then cs_stream c @ [f] else cs_stream c)\<rparr>)"

section \<open>Interleavings of the threads\<close>

text \<open>\<^verbatim>\<open>reopen_with_backoff\<close> does not return before an attempt succeeds.\<close>

definition reopens :: "rat option list \<Rightarrow> bool" where
  "reopens rs \<longleftrightarrow> list_ex (\<lambda>r. r \<noteq> None) rs"

definition grab_returns :: "grab \<Rightarrow> bool" where
  "grab_returns g = (case g of Grabbed _ _ _ _ \<Rightarrow> True | GrabFailed rs \<Rightarrow> reopens rs)"

inductive camera_step :: "camera_settings \<Rightarrow> camera_state \<Rightarrow> camera_state \<Rightarrow> bool" for k where
  captures: "grab_returns g \<Longrightarrow> cs_capturing c = None \<Longrightarrow> camera_step k c (capture_take k g now c)"
| hands_over: "camera_step k c (capture_hand_over now c)"
| pauses: "camera_step k c (c\<lparr>cs_loop := (cs_loop c)\<lparr>cl_paused := p\<rparr>\<rparr>)"
| forwards: "cs_analysing c = None \<Longrightarrow> camera_step k c (forward_take now c)"
| answers: "camera_step k c (forward_answer k answer c)"
| publishes: "cs_publishing c = None \<Longrightarrow> camera_step k c (stream_take c)"
| streams: "camera_step k c (stream_answer up c)"

inductive camera_reach :: "camera_settings \<Rightarrow> camera_state \<Rightarrow> bool" for k where
  started: "reopens (r # rs) \<Longrightarrow> camera_reach k (start_capture k r rs (new_camera k))"
| stepped: "camera_reach k c \<Longrightarrow> camera_step k c c' \<Longrightarrow> camera_reach k c'"

section \<open>Lemmas\<close>

definition frame_key :: "captured_frame \<Rightarrow> nat \<times> nat" where
  "frame_key f = (cf_session_id f, cf_frame_index f)"

definition next_key :: "capture_loop \<Rightarrow> nat \<times> nat" where
  "next_key l = (cl_session_id l, cl_frame_index l)"

text \<open>Frames in the order of their keys, all before the next frame of the loop.\<close>

definition in_order :: "captured_frame list \<Rightarrow> capture_loop \<Rightarrow> bool" where
  "in_order fs l \<longleftrightarrow> sorted_wrt (<) (map frame_key fs) \<and> (\<forall>f\<in>set fs. frame_key f < next_key l)"

lemma length_deque_append:
  "length xs \<le> n \<Longrightarrow> length (deque_append n x xs) + (if length xs = n then 1 else 0) = length xs + 1"
  by (auto simp: deque_append_def)

lemma length_deque_append_le: "length xs \<le> n \<Longrightarrow> length (deque_append n x xs) \<le> n"
  by (auto simp: deque_append_def)

lemma in_order_later: "in_order fs l \<Longrightarrow> next_key l \<le> next_key l' \<Longrightarrow> in_order fs l'"
  by (auto simp: in_order_def)

lemma in_order_drop:
  assumes "in_order (as @ bs) l"
  shows "in_order (as @ drop n bs) l"
proof -
  have "sorted_wrt (<) (map frame_key (drop n bs))"
    using assms unfolding drop_map[symmetric] by (auto simp: in_order_def sorted_wrt_append intro: sorted_wrt_drop)
  then show ?thesis using assms by (auto simp: in_order_def sorted_wrt_append dest: in_set_dropD)
qed

lemma in_order_snoc:
  "in_order fs l \<Longrightarrow> frame_key f = next_key l \<Longrightarrow> next_key l < next_key l' \<Longrightarrow> in_order (fs @ [f]) l'"
  by (auto simp: in_order_def sorted_wrt_append)

lemma in_order_front: "in_order (as @ bs) l \<Longrightarrow> in_order as l"
  by (auto simp: in_order_def sorted_wrt_append)

lemma in_order_cut: "in_order (as @ f # bs) l \<Longrightarrow> in_order (as @ bs) l"
  using in_order_drop[of as "f # bs" l 1] by simp

text \<open>The contract of the two bounded queues a captured frame enters: what a push does to the
  entries and to the count of those lost.  It is all that the accounting below needs.\<close>

locale bounded_queue =
  fixes entries :: "'q \<Rightarrow> captured_frame list" and lost :: "'q \<Rightarrow> nat" and room :: "'q \<Rightarrow> nat"
    and push :: "captured_frame \<Rightarrow> 'q \<Rightarrow> 'q"
  assumes push_entries: "entries (push f q) = deque_append (room q) f (entries q)"
    and push_lost: "lost (push f q) = lost q + (if length (entries q) = room q then 1 else 0)"
    and push_room: "room (push f q) = room q"
begin

lemma push_bounded: "length (entries q) \<le> room q \<Longrightarrow> length (entries (push f q)) \<le> room (push f q)"
  by (simp add: push_entries push_room length_deque_append_le)

lemma push_accounted:
  "length (entries q) \<le> room q \<Longrightarrow> lost (push f q) + length (entries (push f q)) = Suc (lost q + length (entries q))"
  using length_deque_append[of "entries q" "room q" f] by (simp add: push_entries push_lost)

lemma push_in_order: "in_order (as @ entries q @ [f]) l \<Longrightarrow> in_order (as @ entries (push f q)) l"
  unfolding push_entries deque_append_def by (rule in_order_drop)

end

interpretation forwarding: bounded_queue fb_frames fb_overflow_total fb_max_depth buffer_push
  by unfold_locales (simp_all add: buffer_push_def)

interpretation publishing: bounded_queue fp_queue fp_overflow_total fp_queue_depth publisher_push
  by unfold_locales (simp_all add: publisher_push_def)

lemma open_device_key: "snd (open_device r l) = l \<or> cl_session_id (snd (open_device r l)) = Suc (cl_session_id l)"
  by (auto simp: open_device_def split: option.split)

lemma reopen_session:
  "reopens rs \<Longrightarrow> \<exists>ds l'. reopen d m rs l = ((ds, True), l') \<and> cl_session_id l' = Suc (cl_session_id l) \<and> ds \<noteq> []"
proof (induction rs arbitrary: d)
  case (Cons r rs)
  show ?case
  proof (cases r)
    case None
    then have "reopens rs" using Cons.prems by (simp add: reopens_def)
    from Cons.IH[OF this, of "min (d * 2) m"] obtain ds l' where
      "reopen (min (d * 2) m) m rs l = ((ds, True), l')" "cl_session_id l' = Suc (cl_session_id l)" by blast
    then show ?thesis using None by (simp add: open_device_def)
  qed (simp add: open_device_def)
qed (simp add: reopens_def)

lemma pace_key: "next_key (snd (pace now l)) = next_key l"
  by (auto simp: pace_def next_key_def Let_def)

lemma build_record_facts:
  "build_record now beat wall payload l = (None, l') \<Longrightarrow> l' = l"
  "build_record now beat wall payload l = (Some f, l') \<Longrightarrow> frame_key f = next_key l \<and> next_key l < next_key l'"
  by (auto simp: build_record_def Let_def frame_key_def next_key_def touch_heartbeat_def split: if_splits)

section \<open>The invariant\<close>

definition in_hand :: "captured_frame option \<Rightarrow> captured_frame list" where
  "in_hand x = (case x of None \<Rightarrow> [] | Some f \<Rightarrow> [f])"

lemma in_hand_simps [simp]: "in_hand None = []" "in_hand (Some f) = [f]"
  by (simp_all add: in_hand_def)

definition buffer_ok :: "camera_settings \<Rightarrow> camera_state \<Rightarrow> bool" where
  "buffer_ok k c \<longleftrightarrow> (let b = cs_buffer c in
     fb_max_depth b = ks_buffer_depth k \<and> fb_max_age b = ks_buffer_age k \<and> length (fb_frames b) \<le> ks_buffer_depth k \<and>
     fb_captured_total b = length (cs_sent c) + fb_overflow_total b + fb_stale_total b + length (fb_frames b) \<and>
     in_order (map snd (cs_sent c) @ fb_frames b) (cs_loop c) \<and>
     (\<forall>(t, f)\<in>set (cs_sent c). t - cf_captured_at f \<le> ks_buffer_age k) \<and>
     length (cs_sent c) = fw_forwarded_total (cs_forward c) + fw_failed_total (cs_forward c) + length (in_hand (cs_analysing c)))"

definition queue_ok :: "camera_settings \<Rightarrow> camera_state \<Rightarrow> bool" where
  "queue_ok k c \<longleftrightarrow> (let p = cs_publisher c in
     fp_queue_depth p = ks_queue_depth k \<and> length (fp_queue p) \<le> ks_queue_depth k \<and>
     fb_captured_total (cs_buffer c) = length (cs_stream c) + fp_failed_total p + fp_overflow_total p + length (fp_queue p)
       + length (in_hand (cs_publishing c)) + length (in_hand (cs_capturing c)) \<and>
     fp_published_total p = length (cs_stream c) \<and>
     in_order ((cs_stream c @ in_hand (cs_publishing c)) @ fp_queue p @ in_hand (cs_capturing c)) (cs_loop c))"

text \<open>Every detection in the stream belongs to a frame that was analysed, in that order.\<close>

definition body_key :: "detection_body \<Rightarrow> nat \<times> nat" where
  "body_key d = (db_session_id d, db_frame_index d)"

definition detections_ok :: "camera_state \<Rightarrow> bool" where
  "detections_ok c \<longleftrightarrow> (\<exists>done. map snd (cs_sent c) = done @ in_hand (cs_analysing c) \<and>
       subseq (map body_key (cs_detections c)) (map frame_key done)) \<and>
     fw_forwarded_total (cs_forward c) = dp_published_total (cs_detector c) + dp_failed_total (cs_detector c) \<and>
     dp_published_total (cs_detector c) = length (cs_detections c)"

definition camera_ok :: "camera_settings \<Rightarrow> camera_state \<Rightarrow> bool" where
  "camera_ok k c \<longleftrightarrow> buffer_ok k c \<and> queue_ok k c \<and> detections_ok c"

lemmas camera_ok_defs = camera_ok_def buffer_ok_def queue_ok_def detections_ok_def Let_def

lemma new_camera_ok: "camera_ok k (new_camera k)"
  by (simp add: camera_ok_defs new_camera_def new_buffer_def new_publisher_def in_order_def)

text \<open>Turns that leave the buffer and the queue alone and do not set the loop back.\<close>

lemma loop_only: "next_key (cs_loop c) \<le> next_key l \<Longrightarrow> camera_ok k c \<Longrightarrow> camera_ok k (c\<lparr>cs_loop := l\<rparr>)"
  using in_order_later by (auto simp: camera_ok_defs)

lemma start_capture_ok:
  assumes "reopens (r # rs)"
  shows "camera_ok k (start_capture k r rs (new_camera k))"
proof (cases r)
  case None
  then have "reopens rs" using assms by (simp add: reopens_def)
  from reopen_session[OF this, of "ks_backoff k" "ks_backoff_max k" "cs_loop (new_camera k)"] obtain ds l where
    l: "reopen (ks_backoff k) (ks_backoff_max k) rs (cs_loop (new_camera k)) = ((ds, True), l)"
    "cl_session_id l = Suc (cl_session_id (cs_loop (new_camera k)))" by blast
  have "next_key (cs_loop (new_camera k)) \<le> next_key l" by (simp add: next_key_def l(2) less_eq_prod_def)
  from loop_only[OF this new_camera_ok] show ?thesis by (simp add: start_capture_def None open_device_def l(1))
next
  case (Some fps)
  let ?l = "(cs_loop (new_camera k))\<lparr>cl_session_id := Suc (cl_session_id (cs_loop (new_camera k))), cl_actual_fps := fps\<rparr>"
  have "next_key (cs_loop (new_camera k)) \<le> next_key ?l" by (simp add: next_key_def less_eq_prod_def)
  from loop_only[OF this new_camera_ok] show ?thesis by (simp add: start_capture_def Some open_device_def)
qed

lemma captured_frame_ok:
  assumes "camera_ok k c" "cs_capturing c = None" "frame_key f = next_key (cs_loop c)" "next_key (cs_loop c) < next_key l"
  shows "camera_ok k (c\<lparr>cs_loop := l, cs_buffer := buffer_push f (cs_buffer c), cs_capturing := Some f\<rparr>)"
proof -
  let ?b = "cs_buffer c"
  have same: "fb_max_age (buffer_push f ?b) = fb_max_age ?b" "fb_stale_total (buffer_push f ?b) = fb_stale_total ?b"
    "fb_captured_total (buffer_push f ?b) = Suc (fb_captured_total ?b)" by (simp_all add: buffer_push_def)
  have "in_order (map snd (cs_sent c) @ fb_frames ?b @ [f]) l"
    using in_order_snoc[OF _ assms(3,4), of "map snd (cs_sent c) @ fb_frames ?b"] assms(1) by (simp add: camera_ok_defs)
  from forwarding.push_in_order[OF this] have b: "in_order (map snd (cs_sent c) @ fb_frames (buffer_push f ?b)) l" .
  have "in_order ((cs_stream c @ in_hand (cs_publishing c)) @ fp_queue (cs_publisher c) @ [f]) l"
    using in_order_snoc[OF _ assms(3,4), of "(cs_stream c @ in_hand (cs_publishing c)) @ fp_queue (cs_publisher c)"] assms(1,2)
    by (simp add: camera_ok_defs)
  with b show ?thesis using assms(1,2) forwarding.push_bounded[of ?b f] forwarding.push_accounted[of ?b f]
    by (simp add: camera_ok_defs forwarding.push_room same)
qed

lemma capture_take_ok:
  assumes "camera_ok k c" "cs_capturing c = None" "grab_returns g"
  shows "camera_ok k (capture_take k g now c)"
proof (cases "cl_paused (cs_loop c)")
  case True
  have "next_key (cs_loop c) \<le> next_key ((cs_loop c)\<lparr>cl_next_deadline := 0\<rparr>)" by (simp add: next_key_def)
  from loop_only[OF this assms(1)] True show ?thesis by (simp add: capture_take_def)
next
  case False
  show ?thesis
  proof (cases g)
    case (GrabFailed rs)
    then obtain ds l where r: "reopen (ks_backoff k) (ks_backoff_max k) rs (cs_loop c) = ((ds, True), l)"
      "cl_session_id l = Suc (cl_session_id (cs_loop c))"
      using assms(3) reopen_session by (force simp: grab_returns_def)
    have "next_key (cs_loop c) \<le> next_key (l\<lparr>cl_frame_index := 0, cl_next_deadline := 0\<rparr>)"
      by (simp add: next_key_def r(2) less_eq_prod_def)
    from loop_only[OF this assms(1)] show ?thesis by (simp add: capture_take_def False GrabFailed r(1))
  next
    case (Grabbed at_grab beat wall payload)
    obtain out l where e: "build_record at_grab beat wall payload (cs_loop c) = (out, l)" by fastforce
    show ?thesis
    proof (cases out)
      case None
      have "l = cs_loop c" by (rule build_record_facts(1)) (use e None in simp)
      then have "next_key (cs_loop c) \<le> next_key (snd (pace now l))" by (simp add: pace_key)
      from loop_only[OF this assms(1)] show ?thesis by (simp add: capture_take_def False Grabbed e None)
    next
      case (Some f)
      from build_record_facts(2)[OF e[unfolded Some]] captured_frame_ok[OF assms(1,2)]
      show ?thesis by (simp add: capture_take_def False Grabbed e Some)
    qed
  qed
qed

lemma capture_hand_over_ok:
  assumes "camera_ok k c"
  shows "camera_ok k (capture_hand_over now c)"
proof (cases "cs_capturing c")
  case None
  then show ?thesis using assms by (simp add: capture_hand_over_def)
next
  case (Some f)
  let ?p = "cs_publisher c"
  have same: "fp_published_total (publisher_push f ?p) = fp_published_total ?p" "fp_failed_total (publisher_push f ?p) = fp_failed_total ?p"
    by (simp_all add: publisher_push_def)
  have "in_order ((cs_stream c @ in_hand (cs_publishing c)) @ fp_queue ?p @ [f]) (cs_loop c)"
    using assms Some by (simp add: camera_ok_defs)
  from publishing.push_in_order[OF this] have
    "in_order ((cs_stream c @ in_hand (cs_publishing c)) @ fp_queue (publisher_push f ?p)) (cs_loop c)" .
  then have "camera_ok k (c\<lparr>cs_publisher := publisher_push f ?p, cs_capturing := None\<rparr>)"
    using assms Some publishing.push_bounded[of ?p f] publishing.push_accounted[of ?p f]
    by (simp add: camera_ok_defs publishing.push_room same)
  from loop_only[OF _ this, of "snd (pace now (cs_loop c))"] show ?thesis
    by (simp add: capture_hand_over_def Some pace_key)
qed

lemma forward_take_ok:
  assumes "camera_ok k c" "cs_analysing c = None"
  shows "camera_ok k (forward_take now c)"
proof -
  let ?b = "cs_buffer c"
  obtain out b where e: "pop_fresh now ?b = (out, b)" by fastforce
  have shape: "fb_captured_total b = fb_captured_total ?b" "fb_max_depth b = fb_max_depth ?b" "fb_max_age b = fb_max_age ?b"
    "fb_overflow_total b = fb_overflow_total ?b" "fb_frames b = []"
    using e by (auto simp: pop_fresh_def Let_def split: if_splits)
  show ?thesis
  proof (cases out)
    case None
    have "fb_stale_total b = fb_stale_total ?b + length (fb_frames ?b)"
      using e None by (auto simp: pop_fresh_def Let_def split: if_splits)
    then show ?thesis using assms shape in_order_front
      by (auto simp: forward_take_def e None camera_ok_defs)
  next
    case (Some f)
    then have f: "fb_frames ?b \<noteq> []" "f = last (fb_frames ?b)" "now - cf_captured_at f \<le> fb_max_age ?b"
      "fb_stale_total b + 1 = fb_stale_total ?b + length (fb_frames ?b)"
      using e by (auto simp: pop_fresh_def Let_def split: if_splits)
    have "in_order (map snd (cs_sent c) @ drop (length (fb_frames ?b) - 1) (fb_frames ?b)) (cs_loop c)"
      by (rule in_order_drop) (use assms(1) in \<open>simp add: camera_ok_defs\<close>)
    moreover have "drop (length (fb_frames ?b) - 1) (fb_frames ?b) = [f]"
      using f(1,2) by (cases "fb_frames ?b" rule: rev_cases) simp_all
    ultimately have "in_order (map snd (cs_sent c) @ [f]) (cs_loop c)" by simp
    then show ?thesis using assms shape f(3,4)
      by (auto simp: forward_take_def e Some camera_ok_defs)
  qed
qed

lemma forward_answer_ok:
  assumes "camera_ok k c"
  shows "camera_ok k (forward_answer k answer c)"
proof (cases "cs_analysing c")
  case None
  then show ?thesis using assms by (simp add: forward_answer_def)
next
  case (Some f)
  obtain ds where d: "map snd (cs_sent c) = ds @ [f]" "subseq (map body_key (cs_detections c)) (map frame_key ds)"
    using assms Some by (auto simp: camera_ok_defs)
  have skip: "subseq (map body_key (cs_detections c)) (map frame_key (ds @ [f]))"
    using d(2) by (auto intro: subseq_order.trans)
  show ?thesis
  proof (cases answer)
    case AnalysisFailed
    then show ?thesis using assms skip d(1) by (auto simp: forward_answer_def Some camera_ok_defs)
  next
    case (Analysed d secs now up)
    obtain fps r where o: "observe_rate now (fd_detection_present d) (cs_rate c) = (fps, r)" by fastforce
    let ?l = "case fps of None \<Rightarrow> cs_loop c | Some n \<Rightarrow> set_pace n (cs_loop c)"
    have key: "next_key ?l = next_key (cs_loop c)"
      by (cases fps) (simp_all add: set_pace_def next_key_def)
    have "body_key (detection_body_of d f) = frame_key f" by (simp add: body_key_def detection_body_of_def frame_key_def)
    then have sent: "subseq (map body_key (cs_detections c @ [detection_body_of d f])) (map frame_key (ds @ [f]))"
      using d(2) by (simp add: list_emb_append_mono)
    have ord: "in_order fs (cs_loop c) \<Longrightarrow> in_order fs ?l" for fs by (simp add: in_order_def key)
    show ?thesis using assms skip sent d(1) ord
      by (cases up) (auto simp: forward_answer_def Some Analysed o publish_detection_def camera_ok_defs)
  qed
qed

lemma stream_take_ok:
  assumes "camera_ok k c" "cs_publishing c = None"
  shows "camera_ok k (stream_take c)"
  using assms by (cases "fp_queue (cs_publisher c)") (auto simp: stream_take_def publisher_pop_def camera_ok_defs)

lemma stream_answer_ok:
  assumes "camera_ok k c"
  shows "camera_ok k (stream_answer up c)"
proof (cases "cs_publishing c")
  case None
  then show ?thesis using assms by (simp add: stream_answer_def)
next
  case (Some f)
  have "in_order (cs_stream c @ fp_queue (cs_publisher c) @ in_hand (cs_capturing c)) (cs_loop c)"
    using assms Some in_order_cut by (auto simp: camera_ok_defs)
  then show ?thesis using assms Some
    by (cases up) (auto simp: stream_answer_def publish_done_def camera_ok_defs)
qed

lemma camera_reach_ok: "camera_reach k c \<Longrightarrow> camera_ok k c"
proof (induction rule: camera_reach.induct)
  case started
  then show ?case by (rule start_capture_ok)
next
  case (stepped c c')
  from stepped(2) show ?case
  proof cases
    case (pauses p)
    have "next_key (cs_loop c) \<le> next_key ((cs_loop c)\<lparr>cl_paused := p\<rparr>)" by (simp add: next_key_def)
    from loop_only[OF this stepped.IH] pauses show ?thesis by simp
  qed (use stepped.IH capture_take_ok capture_hand_over_ok forward_take_ok forward_answer_ok stream_take_ok stream_answer_ok
      in auto)
qed


definition demo_camera_settings :: camera_settings where
  "demo_camera_settings = \<lparr>ks_camera_id = ''cam'', ks_idle_fps = 5, ks_active_fps = 25, ks_dwell = 3, ks_buffer_depth = 2,
     ks_buffer_age = 1, ks_queue_depth = 4, ks_backoff = 1, ks_backoff_max = 8\<rparr>"

definition demo_camera :: camera_state where
  "demo_camera = forward_take 1 (capture_hand_over 0 (capture_take demo_camera_settings (Grabbed 0 0 0 [8]) 0
     (start_capture demo_camera_settings None [Some 30] (new_camera demo_camera_settings))))"


end
