(* ===== verification/ApiMigrations.thy ===== *)
theory ApiMigrations
  imports ApiAccess
begin

text \<open>
  The migrations of the alert service's database (\<^verbatim>\<open>services/api/app/migrations\<close>): the statements
  of the ten versions in both directions (\<^verbatim>\<open>versions/\<close>), the runner that applies or reverts
  them and its lock (\<^verbatim>\<open>runner.py\<close>).  A document maps field names to values; a collection is the
  list of its documents.  The runner may be killed at any point, also between two documents of
  one statement.  \<open>read_iso\<close> reads and \<open>fmt\<close> writes ISO timestamps.
\<close>

section \<open>Documents, indexes and statements\<close>

datatype mvalue = MStr string | MInt int | MBool bool | MDate int | MObject nat

type_synonym mdoc = "string \<Rightarrow> mvalue option"

datatype partial_filter = NoFilter | DecidedOnly | HasAlertId

record index_spec =
  ix_keys :: "(string \<times> int) list"
  ix_unique :: bool
  ix_partial :: partial_filter

record mongo =
  mg_docs :: "string \<Rightarrow> mdoc list"
  mg_indexes :: "string \<Rightarrow> (string \<times> index_spec) list"
  mg_applied :: "nat list"

datatype mstatement =
    UpdateMany string "mdoc \<Rightarrow> bool" "mdoc \<Rightarrow> mdoc"
  | AssertUnique string string "mdoc \<Rightarrow> bool"
  | CreateIndex string string index_spec
  | DropIndex string string

datatype migration_error = DuplicateKey | IndexConflict

definition is_str :: "mvalue option \<Rightarrow> bool" where
  "is_str v = (case v of Some (MStr _) \<Rightarrow> True | _ \<Rightarrow> False)"

definition is_date :: "mvalue option \<Rightarrow> bool" where
  "is_date v = (case v of Some (MDate _) \<Rightarrow> True | _ \<Rightarrow> False)"

definition filter_admits :: "partial_filter \<Rightarrow> mdoc \<Rightarrow> bool" where
  "filter_admits p d = (case p of NoFilter \<Rightarrow> True | DecidedOnly \<Rightarrow> is_date (d ''decided_at'')
     | HasAlertId \<Rightarrow> is_str (d ''alert_id''))"

definition index_fits :: "index_spec \<Rightarrow> mdoc list \<Rightarrow> bool" where
  "index_fits sp ds \<longleftrightarrow> (ix_unique sp \<longrightarrow>
     distinct (map (\<lambda>d. map (\<lambda>(f, _). d f) (ix_keys sp)) (filter (filter_admits (ix_partial sp)) ds)))"

definition set_docs :: "string \<Rightarrow> mdoc list \<Rightarrow> mongo \<Rightarrow> mongo" where
  "set_docs c ds m = m\<lparr>mg_docs := (mg_docs m)(c := ds)\<rparr>"

definition set_indexes :: "string \<Rightarrow> (string \<times> index_spec) list \<Rightarrow> mongo \<Rightarrow> mongo" where
  "set_indexes c is m = m\<lparr>mg_indexes := (mg_indexes m)(c := is)\<rparr>"

text \<open>Dropping an index that is not there raises \<^verbatim>\<open>OperationFailure\<close>, which every migration catches
  or avoids.\<close>

fun run_statement :: "mstatement \<Rightarrow> mongo \<Rightarrow> migration_error + mongo" where
  "run_statement (UpdateMany c P f) m = Inr (set_docs c (update_where P f (mg_docs m c)) m)"
| "run_statement (AssertUnique c f M) m =
     (if distinct (map (\<lambda>d. d f) (filter M (mg_docs m c))) then Inr m else Inl DuplicateKey)"
| "run_statement (CreateIndex c n sp) m = (let is = mg_indexes m c in
     if map_of is n = Some sp then Inr m
     else if n \<in> fst ` set is \<or> list_ex (\<lambda>(_, s). ix_keys s = ix_keys sp \<and> ix_partial s = ix_partial sp) is then Inl IndexConflict
     else if \<not> index_fits sp (mg_docs m c) then Inl DuplicateKey
     else Inr (set_indexes c (is @ [(n, sp)]) m))"
| "run_statement (DropIndex c n) m = Inr (set_indexes c (filter (\<lambda>(k, _). k \<noteq> n) (mg_indexes m c)) m)"

fun run_statements :: "mstatement list \<Rightarrow> mongo \<Rightarrow> migration_error + mongo" where
  "run_statements [] m = Inr m"
| "run_statements (s # ss) m = rbind (run_statement s m) (run_statements ss)"

section \<open>Statements of the versions\<close>

definition set_fields :: "(string \<times> mvalue) list \<Rightarrow> mdoc \<Rightarrow> mdoc" where
  "set_fields kvs d = fold (\<lambda>(k, v) d. d(k \<mapsto> v)) kvs d"

definition unset_fields :: "string list \<Rightarrow> mdoc \<Rightarrow> mdoc" where
  "unset_fields ks d = (\<lambda>k. if k \<in> set ks then None else d k)"

definition plain_index :: "(string \<times> int) list \<Rightarrow> index_spec" where
  "plain_index ks = \<lparr>ix_keys = ks, ix_unique = False, ix_partial = NoFilter\<rparr>"

definition unique_index :: "string \<Rightarrow> index_spec" where
  "unique_index f = \<lparr>ix_keys = [(f, 1)], ix_unique = True, ix_partial = NoFilter\<rparr>"

definition decided_index :: "(string \<times> int) list \<Rightarrow> index_spec" where
  "decided_index ks = \<lparr>ix_keys = ks, ix_unique = False, ix_partial = DecidedOnly\<rparr>"

definition LEGACY_INDEX :: string where "LEGACY_INDEX = ''acknowledged_1_created_at_-1''"

definition legacy_spec :: index_spec where
  "legacy_spec = plain_index [(''acknowledged'', 1), (''created_at'', -1)]"

text \<open>001.\<close>

definition up_001 :: "mstatement list" where
  "up_001 = [UpdateMany ''detections'' (\<lambda>d. d ''track_id'' = None)
     (set_fields [(''track_id'', MInt 0), (''detection_present'', MBool False)])]"

definition down_001 :: "mstatement list" where
  "down_001 = [UpdateMany ''detections'' (\<lambda>d. d ''track_id'' \<noteq> None) (unset_fields [''track_id'', ''detection_present''])]"

text \<open>002.\<close>

definition INFERENCE_STATE_MAP :: "(string \<times> string) list" where
  "INFERENCE_STATE_MAP = [(''warming_up'', ''INFERENCE_STATE_WARMING_UP''), (''normal'', ''INFERENCE_STATE_NORMAL''),
     (''anomaly'', ''INFERENCE_STATE_ANOMALY'')]"

definition SEVERITY_MAP :: "(string \<times> string) list" where
  "SEVERITY_MAP = [(''HIGH'', ''SEVERITY_WARNING''), (''MEDIUM'', ''SEVERITY_NOTICE''), (''LOW'', ''SEVERITY_INFO''),
     (''CRITICAL'', ''SEVERITY_CRITICAL'')]"

definition ALERT_TYPE_MAP :: "(string \<times> string) list" where
  "ALERT_TYPE_MAP = [(''object_proximity'', ''ALERT_TYPE_OBJECT_PROXIMITY''), (''bending'', ''ALERT_TYPE_BENDING''),
     (''loitering'', ''ALERT_TYPE_LOITERING'')]"

definition reverse_map :: "(string \<times> string) list \<Rightarrow> (string \<times> string) list" where
  "reverse_map kvs = map (\<lambda>(k, v). (v, k)) kvs"

definition rewrite_field :: "string \<Rightarrow> string \<Rightarrow> (string \<times> string) list \<Rightarrow> mstatement list" where
  "rewrite_field c f kvs = map (\<lambda>(old, new). UpdateMany c (\<lambda>d. d f = Some (MStr old)) (\<lambda>d. d(f \<mapsto> MStr new))) kvs"

text \<open>The pattern \<^verbatim>\<open>^old$\<close> without regard to case; \<^verbatim>\<open>$\<close> also matches before a final newline.\<close>

definition matches_ci :: "string \<Rightarrow> mvalue option \<Rightarrow> bool" where
  "matches_ci old v = (case v of Some (MStr s) \<Rightarrow> lower s = lower old \<or> lower s = lower old @ [CHR 0x0A] | _ \<Rightarrow> False)"

definition rewrite_field_ci :: "string \<Rightarrow> string \<Rightarrow> (string \<times> string) list \<Rightarrow> mstatement list" where
  "rewrite_field_ci c f kvs = map (\<lambda>(old, new). UpdateMany c (\<lambda>d. matches_ci old (d f)) (\<lambda>d. d(f \<mapsto> MStr new))) kvs"

definition zulu :: "string \<Rightarrow> string" where
  "zulu s = concat (map (\<lambda>c. if c = CHR ''Z'' then ''+00:00'' else [c]) s)"

definition parsed_timestamp :: "(string \<Rightarrow> int option) \<Rightarrow> mdoc \<Rightarrow> int option" where
  "parsed_timestamp read_iso d = (case d ''timestamp'' of Some (MStr raw) \<Rightarrow> read_iso (zulu raw) | _ \<Rightarrow> None)"

definition rename_timestamp :: "(string \<Rightarrow> int option) \<Rightarrow> string \<Rightarrow> mstatement" where
  "rename_timestamp read_iso c = UpdateMany c (\<lambda>d. d ''occurred_at'' = None \<and> parsed_timestamp read_iso d \<noteq> None)
     (\<lambda>d. unset_fields [''timestamp''] (d(''occurred_at'' \<mapsto> MDate (the (parsed_timestamp read_iso d)))))"

definition up_002 :: "(string \<Rightarrow> int option) \<Rightarrow> mstatement list" where
  "up_002 read_iso = rewrite_field ''detections'' ''class_name'' INFERENCE_STATE_MAP @
     rewrite_field_ci ''alerts'' ''severity'' SEVERITY_MAP @ rewrite_field ''alerts'' ''alert_type'' ALERT_TYPE_MAP @
     [rename_timestamp read_iso ''detections'', rename_timestamp read_iso ''alerts'',
      UpdateMany ''alerts'' (\<lambda>d. d ''torso_angle'' \<noteq> None) (unset_fields [''torso_angle''])]"

definition date_of :: "mvalue option \<Rightarrow> int" where
  "date_of v = (case v of Some (MDate t) \<Rightarrow> t | _ \<Rightarrow> 0)"

definition rename_occurred_at :: "(int \<Rightarrow> string) \<Rightarrow> string \<Rightarrow> mstatement" where
  "rename_occurred_at fmt c = UpdateMany c (\<lambda>d. is_date (d ''occurred_at''))
     (\<lambda>d. unset_fields [''occurred_at''] (d(''timestamp'' \<mapsto> MStr (fmt (date_of (d ''occurred_at''))))))"

definition down_002 :: "(int \<Rightarrow> string) \<Rightarrow> mstatement list" where
  "down_002 fmt = rewrite_field ''detections'' ''class_name'' (reverse_map INFERENCE_STATE_MAP) @
     rewrite_field ''alerts'' ''severity'' (reverse_map SEVERITY_MAP) @
     rewrite_field ''alerts'' ''alert_type'' (reverse_map ALERT_TYPE_MAP) @
     [rename_occurred_at fmt ''detections'', rename_occurred_at fmt ''alerts'']"

text \<open>003.\<close>

definition up_003 :: "mstatement list" where
  "up_003 = [UpdateMany ''alerts'' (\<lambda>d. d ''created_at'' = None \<and> d ''occurred_at'' \<noteq> None)
       (\<lambda>d. d(''created_at'' := d ''occurred_at'')),
     UpdateMany ''alerts'' (\<lambda>d. d ''acknowledged'' = None) (\<lambda>d. d(''acknowledged'' \<mapsto> MBool False)),
     DropIndex ''alerts'' LEGACY_INDEX,
     CreateIndex ''alerts'' ''created_at_-1__id_-1'' (plain_index [(''created_at'', -1), (''_id'', -1)]),
     CreateIndex ''alerts'' ''severity_1_created_at_-1__id_-1''
       (plain_index [(''severity'', 1), (''created_at'', -1), (''_id'', -1)])]"

definition down_003 :: "mstatement list" where
  "down_003 = [DropIndex ''alerts'' ''created_at_-1__id_-1'', DropIndex ''alerts'' ''severity_1_created_at_-1__id_-1'',
     CreateIndex ''alerts'' LEGACY_INDEX legacy_spec,
     UpdateMany ''alerts'' (\<lambda>d. d ''created_at'' \<noteq> None) (unset_fields [''created_at''])]"

text \<open>004.\<close>

definition up_004 :: "mstatement list" where
  "up_004 = [AssertUnique ''cameras'' ''name'' (\<lambda>_. True), AssertUnique ''cameras'' ''camera_id'' (\<lambda>_. True),
     CreateIndex ''cameras'' ''name_1'' (unique_index ''name''),
     CreateIndex ''cameras'' ''camera_id_1'' (unique_index ''camera_id''),
     CreateIndex ''detections'' ''session_id_1_occurred_at_-1'' (plain_index [(''session_id'', 1), (''occurred_at'', -1)]),
     DropIndex ''alerts'' LEGACY_INDEX]"

definition down_004 :: "mstatement list" where
  "down_004 = [CreateIndex ''alerts'' LEGACY_INDEX legacy_spec]"

text \<open>005.\<close>

definition up_005 :: "mstatement list" where
  "up_005 = [UpdateMany ''alerts'' (\<lambda>d. d ''decision'' = None) (\<lambda>d. d(''decision'' \<mapsto> MStr ''DECISION_UNSPECIFIED'')),
     CreateIndex ''alerts'' ''decided_at_-1__id_-1_partial'' (decided_index [(''decided_at'', -1), (''_id'', -1)]),
     CreateIndex ''alerts'' ''decision_1_decided_at_-1__id_-1_partial''
       (decided_index [(''decision'', 1), (''decided_at'', -1), (''_id'', -1)])]"

definition down_005 :: "mstatement list" where
  "down_005 = [DropIndex ''alerts'' ''decided_at_-1__id_-1_partial'',
     DropIndex ''alerts'' ''decision_1_decided_at_-1__id_-1_partial'',
     UpdateMany ''alerts'' (\<lambda>d. d ''decision'' = Some (MStr ''DECISION_UNSPECIFIED'') \<and> d ''decided_at'' = None)
       (unset_fields [''decision''])]"

text \<open>006 to 010.\<close>

definition up_006 :: "mstatement list" where
  "up_006 = [CreateIndex ''alerts'' ''camera_id_1_created_at_-1__id_-1''
       (plain_index [(''camera_id'', 1), (''created_at'', -1), (''_id'', -1)]),
     CreateIndex ''alerts'' ''camera_id_1_decided_at_-1__id_-1_partial''
       (decided_index [(''camera_id'', 1), (''decided_at'', -1), (''_id'', -1)])]"

definition down_006 :: "mstatement list" where
  "down_006 = [DropIndex ''alerts'' ''camera_id_1_created_at_-1__id_-1'',
     DropIndex ''alerts'' ''camera_id_1_decided_at_-1__id_-1_partial'']"

definition up_007 :: "mstatement list" where
  "up_007 = [AssertUnique ''audit_outbox'' ''event_id'' (\<lambda>_. True),
     CreateIndex ''audit_outbox'' ''next_attempt_at_1'' (plain_index [(''next_attempt_at'', 1)]),
     CreateIndex ''audit_outbox'' ''event_id_1'' (unique_index ''event_id'')]"

definition down_007 :: "mstatement list" where
  "down_007 = [DropIndex ''audit_outbox'' ''next_attempt_at_1'', DropIndex ''audit_outbox'' ''event_id_1'']"

definition up_008 :: "mstatement list" where
  "up_008 = [AssertUnique ''detection_policy'' ''version'' (\<lambda>_. True),
     CreateIndex ''detection_policy'' ''version_1'' (unique_index ''version''),
     CreateIndex ''detection_policy'' ''changed_at_-1'' (plain_index [(''changed_at'', -1)])]"

definition down_008 :: "mstatement list" where
  "down_008 = [DropIndex ''detection_policy'' ''version_1'', DropIndex ''detection_policy'' ''changed_at_-1'']"

definition up_009 :: "mstatement list" where
  "up_009 = [AssertUnique ''alerts'' ''alert_id'' (filter_admits HasAlertId),
     CreateIndex ''alerts'' ''alert_id_1'' \<lparr>ix_keys = [(''alert_id'', 1)], ix_unique = True, ix_partial = HasAlertId\<rparr>]"

definition down_009 :: "mstatement list" where
  "down_009 = [DropIndex ''alerts'' ''alert_id_1'']"

definition up_010 :: "mstatement list" where
  "up_010 = [DropIndex ''alerts'' LEGACY_INDEX]"

definition down_010 :: "mstatement list" where
  "down_010 = []"

type_synonym migration = "nat \<times> mstatement list"

definition ups :: "(string \<Rightarrow> int option) \<Rightarrow> migration list" where
  "ups read_iso = [(1, up_001), (2, up_002 read_iso), (3, up_003), (4, up_004), (5, up_005), (6, up_006), (7, up_007), (8, up_008),
     (9, up_009), (10, up_010)]"

definition downs :: "(int \<Rightarrow> string) \<Rightarrow> migration list" where
  "downs fmt = [(1, down_001), (2, down_002 fmt), (3, down_003), (4, down_004), (5, down_005), (6, down_006), (7, down_007),
     (8, down_008), (9, down_009), (10, down_010)]"

section \<open>The runner\<close>

datatype direction = Up | Down

text \<open>The tracking collection has a unique index on the version, so \<^verbatim>\<open>delete_one\<close> leaves none of it.\<close>

definition record_version :: "direction \<Rightarrow> nat \<Rightarrow> mongo \<Rightarrow> mongo" where
  "record_version dir v m = m\<lparr>mg_applied := (case dir of Up \<Rightarrow> mg_applied m @ [v] | Down \<Rightarrow> filter (\<lambda>x. x \<noteq> v) (mg_applied m))\<rparr>"

text \<open>What \<^verbatim>\<open>_apply_up\<close> and \<^verbatim>\<open>_apply_down\<close> have to do: \<open>discovered\<close> is sorted by version.\<close>

definition pending :: "direction \<Rightarrow> nat option \<Rightarrow> migration list \<Rightarrow> mongo \<Rightarrow> migration list" where
  "pending dir target discovered m = (case dir of
     Up \<Rightarrow> filter (\<lambda>(v, _). v \<notin> set (mg_applied m) \<and> (case target of None \<Rightarrow> True | Some t \<Rightarrow> v \<le> t)) discovered
   | Down \<Rightarrow> filter (\<lambda>(v, _). v \<in> set (mg_applied m) \<and> (case target of None \<Rightarrow> True | Some t \<Rightarrow> v \<ge> t)) (rev discovered))"

fun apply_all :: "direction \<Rightarrow> migration list \<Rightarrow> mongo \<Rightarrow> migration_error + mongo" where
  "apply_all dir [] m = Inr m"
| "apply_all dir ((v, ss) # ms) m = rbind (run_statements ss m) (\<lambda>m1. apply_all dir ms (record_version dir v m1))"

definition run_migrations :: "direction \<Rightarrow> nat option \<Rightarrow> migration list \<Rightarrow> mongo \<Rightarrow> migration_error + mongo" where
  "run_migrations dir target discovered m = apply_all dir (pending dir target discovered m) m"

section \<open>The lock\<close>

record migration_lock =
  ml_owner :: string
  ml_renewed_at :: int
  ml_expires_at :: int

definition LEASE_SECONDS :: int where "LEASE_SECONDS = 120"

text \<open>\<^verbatim>\<open>_claim_lock\<close>: the pipeline that the server applies to the lock document, inserting it when there
  is none; \<open>now\<close> is the server's clock.\<close>

definition claim_lock :: "int \<Rightarrow> string \<Rightarrow> migration_lock option \<Rightarrow> bool \<times> migration_lock option" where
  "claim_lock now owner l = (let taken = \<lparr>ml_owner = owner, ml_renewed_at = now, ml_expires_at = now + LEASE_SECONDS\<rparr> in
     case l of None \<Rightarrow> (True, Some taken)
     | Some d \<Rightarrow> if ml_expires_at d < now \<or> ml_owner d = owner then (True, Some taken) else (False, Some d))"

definition release_lock :: "string \<Rightarrow> migration_lock option \<Rightarrow> migration_lock option" where
  "release_lock owner l = (case l of None \<Rightarrow> None | Some d \<Rightarrow> if ml_owner d = owner then None else Some d)"

end
