(* ===== verification/NotifyMigrations.thy ===== *)
theory NotifyMigrations
  imports ApiMigrations
begin

text \<open>
  The migrations of the notification service (\<^verbatim>\<open>services/notification/app/migrations\<close>): four
  indexes (\<^verbatim>\<open>versions/\<close>) and their runner (\<^verbatim>\<open>runner.py\<close>), which takes no lock.  Documents,
  statements and the record of applied versions are those of \<open>ApiMigrations\<close>.
\<close>

definition intent_key_fields :: "(string \<times> int) list" where
  "intent_key_fields = [(''source'', 1), (''source_ref'', 1), (''channel'', 1), (''recipient'', 1)]"

definition intent_key_spec :: index_spec where
  "intent_key_spec = \<lparr>ix_keys = intent_key_fields, ix_unique = True, ix_partial = NoFilter\<rparr>"

definition notify_up_001 :: "mstatement list" where
  "notify_up_001 = [CreateIndex ''delivery_intents'' ''uniq_delivery_natural_key'' intent_key_spec]"

definition notify_down_001 :: "mstatement list" where
  "notify_down_001 = [DropIndex ''delivery_intents'' ''uniq_delivery_natural_key'']"

definition notify_up_002 :: "mstatement list" where
  "notify_up_002 = [CreateIndex ''delivery_intents'' ''delivery_status_updated_at''
     (plain_index [(''status'', 1), (''updated_at'', 1)])]"

definition notify_down_002 :: "mstatement list" where
  "notify_down_002 = [DropIndex ''delivery_intents'' ''delivery_status_updated_at'']"

definition notify_up_003 :: "mstatement list" where
  "notify_up_003 = [CreateIndex ''dead_letters'' ''dead_letter_natural_key'' (plain_index intent_key_fields)]"

definition notify_down_003 :: "mstatement list" where
  "notify_down_003 = [DropIndex ''dead_letters'' ''dead_letter_natural_key'']"

definition notify_up_004 :: "mstatement list" where
  "notify_up_004 = [CreateIndex ''delivery_intents'' ''delivery_status_created_at''
     (plain_index [(''status'', 1), (''created_at'', 1)])]"

definition notify_down_004 :: "mstatement list" where
  "notify_down_004 = [DropIndex ''delivery_intents'' ''delivery_status_created_at'']"

definition notify_ups :: "migration list" where
  "notify_ups = [(1, notify_up_001), (2, notify_up_002), (3, notify_up_003), (4, notify_up_004)]"

definition notify_downs :: "migration list" where
  "notify_downs = [(1, notify_down_001), (2, notify_down_002), (3, notify_down_003), (4, notify_down_004)]"

text \<open>\<^verbatim>\<open>_run\<close> with its exit code.\<close>

definition run_notify_migrations ::
  "string \<Rightarrow> nat option \<Rightarrow> migration list \<Rightarrow> mongo \<Rightarrow> migration_error + (int \<times> mongo)" where
  "run_notify_migrations dir target discovered m =
     (if discovered = [] then Inr (0, m)
      else if dir = ''up'' then
        (let todo = filter (\<lambda>(v, _). v \<notin> set (mg_applied m)) discovered;
             todo = (case target of None \<Rightarrow> todo | Some t \<Rightarrow> filter (\<lambda>(v, _). v \<le> t) todo)
         in if todo = [] then Inr (0, m) else rbind (apply_all Up todo m) (\<lambda>m1. Inr (0, m1)))
      else if dir = ''down'' then
        (let todo = filter (\<lambda>(v, _). v \<in> set (mg_applied m)) (rev discovered);
             todo = (case target of None \<Rightarrow> todo | Some t \<Rightarrow> filter (\<lambda>(v, _). v \<ge> t) todo)
         in if todo = [] then Inr (0, m) else rbind (apply_all Down todo m) (\<lambda>m1. Inr (0, m1)))
      else Inr (2, m))"

lemma pending_filters:
  "pending Up target ds m = (let todo = filter (\<lambda>(v, _). v \<notin> set (mg_applied m)) ds
     in case target of None \<Rightarrow> todo | Some t \<Rightarrow> filter (\<lambda>(v, _). v \<le> t) todo)"
  "pending Down target ds m = (let todo = filter (\<lambda>(v, _). v \<in> set (mg_applied m)) (rev ds)
     in case target of None \<Rightarrow> todo | Some t \<Rightarrow> filter (\<lambda>(v, _). v \<ge> t) todo)"
  by (auto simp: pending_def Let_def case_prod_beta split: option.split intro!: filter_cong)

lemma pending_none [simp]: "pending dir target [] m = []"
  by (cases dir) (simp_all add: pending_def)

lemma run_notify:
  "run_notify_migrations ''up'' target ds m = rbind (run_migrations Up target ds m) (\<lambda>m1. Inr (0, m1))"
  "run_notify_migrations ''down'' target ds m = rbind (run_migrations Down target ds m) (\<lambda>m1. Inr (0, m1))"
  by (simp_all add: run_notify_migrations_def run_migrations_def Let_def pending_filters[unfolded Let_def, symmetric])

end
