(* ===== verification/ApiMigrationRuns.thy ===== *)
theory ApiMigrationRuns
  imports NotifyMigrations
begin

text \<open>
  What the migrations of the alert service promise: a run that is killed anywhere and started
  again ends as an uninterrupted one, two runners do not hold the lock at once, and the alerts
  that the migrations leave have the shape that the service reads.
\<close>

section \<open>Sequences of steps that can be repeated\<close>

fun run_seq :: "('s \<Rightarrow> 'm \<Rightarrow> 'e + 'm) \<Rightarrow> 's list \<Rightarrow> 'm \<Rightarrow> 'e + 'm" where
  "run_seq run [] m = Inr m"
| "run_seq run (s # ss) m = rbind (run s m) (run_seq run ss)"

text \<open>A sequence is cut at the start, within a step, or after some whole steps.\<close>

inductive cut_seq :: "('s \<Rightarrow> 'm \<Rightarrow> 'e + 'm) \<Rightarrow> ('s \<Rightarrow> 'm \<Rightarrow> 'm \<Rightarrow> bool) \<Rightarrow> 's list \<Rightarrow> 'm \<Rightarrow> 'm \<Rightarrow> bool" for run part where
  cut_now: "cut_seq run part ss m m"
| cut_within: "part s m m' \<Longrightarrow> cut_seq run part (s # ss) m m'"
| cut_later: "run s m = Inr m1 \<Longrightarrow> cut_seq run part ss m1 m2 \<Longrightarrow> cut_seq run part (s # ss) m m2"

text \<open>The contract: a step done again changes nothing, a step done in part can be completed, and
  what a step has achieved is kept by the steps that come after it.\<close>

locale repeatable =
  fixes run :: "'s \<Rightarrow> 'm \<Rightarrow> 'e + 'm" and part :: "'s \<Rightarrow> 'm \<Rightarrow> 'm \<Rightarrow> bool" and good :: "'s \<Rightarrow> bool"
    and keeps :: "'s \<Rightarrow> 's \<Rightarrow> bool"
  assumes whole: "run s m = Inr m1 \<Longrightarrow> part s m m1"
    and again: "good s \<Longrightarrow> run s m = Inr m1 \<Longrightarrow> run s m1 = Inr m1"
    and resume: "good s \<Longrightarrow> run s m = Inr m1 \<Longrightarrow> part s m m' \<Longrightarrow> run s m' = Inr m1"
    and kept: "good s \<Longrightarrow> keeps t s \<Longrightarrow> run s m = Inr m \<Longrightarrow> part t m m' \<Longrightarrow> run s m' = Inr m'"
begin

lemma cut_keeps:
  "cut_seq run part ss m m' \<Longrightarrow> good s \<Longrightarrow> list_all (\<lambda>t. keeps t s) ss \<Longrightarrow> run s m = Inr m \<Longrightarrow> run s m' = Inr m'"
proof (induction rule: cut_seq.induct)
  case (cut_within t m m' ss)
  then show ?case using kept[of s t m m'] by simp
next
  case (cut_later t m m1 ss m2)
  have "run s m1 = Inr m1" using kept[of s t m m1] whole[OF cut_later.hyps(1)] cut_later.prems by simp
  then show ?case using cut_later.IH cut_later.prems by simp
qed simp

lemma cut_resumes:
  "cut_seq run part ss m m' \<Longrightarrow> list_all good ss \<Longrightarrow> sorted_wrt (\<lambda>s t. keeps t s) ss \<Longrightarrow> run_seq run ss m = Inr mf
     \<Longrightarrow> run_seq run ss m' = Inr mf"
proof (induction arbitrary: mf rule: cut_seq.induct)
  case (cut_within s m m' ss)
  from cut_within.prems(3) obtain m1 where m1: "run s m = Inr m1" "run_seq run ss m1 = Inr mf"
    by (auto simp: rbind_eq_Inr)
  have "run s m' = Inr m1" using resume[OF _ m1(1) cut_within.hyps] cut_within.prems by simp
  then show ?case using m1(2) by simp
next
  case (cut_later s m m1 ss m2)
  from cut_later.prems cut_later.hyps(1) have mf: "run_seq run ss m1 = Inr mf" by (simp add: rbind_eq_Inr)
  have "run s m1 = Inr m1" using again cut_later by simp
  then have "run s m2 = Inr m2"
    using cut_keeps[OF cut_later.hyps(2)] cut_later.prems by (simp add: list_all_iff)
  then show ?case using cut_later.IH[OF _ _ mf] cut_later.prems by simp
qed simp

end

section \<open>Statements\<close>

definition part_statement :: "mstatement \<Rightarrow> mongo \<Rightarrow> mongo \<Rightarrow> bool" where
  "part_statement s m m' \<longleftrightarrow> m' = m \<or> run_statement s m = Inr m' \<or>
     (case s of UpdateMany c P f \<Rightarrow> \<exists>ds. m' = set_docs c ds m \<and>
        list_all2 (\<lambda>d d'. d' = d \<or> P d \<and> d' = f d) (mg_docs m c) ds
      | _ \<Rightarrow> False)"

definition good_statement :: "mstatement \<Rightarrow> bool" where
  "good_statement s \<longleftrightarrow> (case s of UpdateMany c P f \<Rightarrow> (\<forall>d. P d \<longrightarrow> \<not> P (f d)) | _ \<Rightarrow> True)"

fun keeps_statement :: "mstatement \<Rightarrow> mstatement \<Rightarrow> bool" where
  "keeps_statement (UpdateMany c' Q g) (UpdateMany c P f) = (c' = c \<longrightarrow> (\<forall>d. Q d \<longrightarrow> \<not> P d \<longrightarrow> \<not> P (g d)))"
| "keeps_statement (UpdateMany c' Q g) (AssertUnique c f M) = (c' \<noteq> c)"
| "keeps_statement (UpdateMany c' Q g) (CreateIndex c n sp) = (c' = c \<longrightarrow> \<not> ix_unique sp)"
| "keeps_statement (DropIndex c' n') (CreateIndex c n sp) = (c' \<noteq> c \<or> n' \<noteq> n)"
| "keeps_statement (CreateIndex c' n' sp) (DropIndex c n) = (c' \<noteq> c \<or> n' \<noteq> n)"
| "keeps_statement _ _ = True"

lemma set_docs_simps [simp]:
  "mg_docs (set_docs c ds m) = (mg_docs m)(c := ds)" "mg_indexes (set_docs c ds m) = mg_indexes m"
  "mg_applied (set_docs c ds m) = mg_applied m"
  "mg_docs (set_indexes c is m) = mg_docs m" "mg_indexes (set_indexes c is m) = (mg_indexes m)(c := is)"
  "mg_applied (set_indexes c is m) = mg_applied m"
  "set_docs c ds (set_docs c es m) = set_docs c ds m" "set_docs c (mg_docs m c) m = m"
  "set_indexes c is (set_indexes c js m) = set_indexes c is m" "set_indexes c (mg_indexes m c) m = m"
  by (simp_all add: set_docs_def set_indexes_def)

lemma set_docs_same: "set_docs c ds m = m \<longleftrightarrow> ds = mg_docs m c"
  by (metis fun_upd_same set_docs_simps(1) set_docs_simps(8))

lemma set_indexes_same: "set_indexes c is m = m \<longleftrightarrow> is = mg_indexes m c"
  by (metis fun_upd_same set_docs_simps(5) set_docs_simps(10))

lemma update_where_id_iff:
  "(\<And>d. P d \<Longrightarrow> \<not> P (f d)) \<Longrightarrow> update_where P f ds = ds \<longleftrightarrow> (\<forall>d\<in>set ds. \<not> P d)"
  by (induction ds) (auto, metis)

lemma update_where_twice:
  "(\<And>d. P d \<Longrightarrow> \<not> P (f d)) \<Longrightarrow> update_where P f (update_where P f ds) = update_where P f ds"
  by (induction ds) auto

text \<open>A statement is done when running it changes nothing.\<close>

lemma done_update:
  "good_statement (UpdateMany c P f) \<Longrightarrow> run_statement (UpdateMany c P f) m = Inr m \<longleftrightarrow> (\<forall>d\<in>set (mg_docs m c). \<not> P d)"
  by (simp add: set_docs_same good_statement_def update_where_id_iff)

lemma done_create: "run_statement (CreateIndex c n sp) m = Inr m \<longleftrightarrow> map_of (mg_indexes m c) n = Some sp"
  by (auto simp: Let_def set_indexes_same)

lemma create_done:
  assumes "run_statement (CreateIndex c n sp) m = Inr m1"
  shows "map_of (mg_indexes m1 c) n = Some sp"
proof (cases "map_of (mg_indexes m c) n")
  case None
  then show ?thesis using assms by (auto simp: Let_def map_add_def split: if_splits)
next
  case (Some s)
  then have "n \<in> fst ` set (mg_indexes m c)" by (force dest: map_of_SomeD)
  then show ?thesis using assms Some by (auto simp: Let_def split: if_splits)
qed

lemma done_drop: "run_statement (DropIndex c n) m = Inr m \<longleftrightarrow> n \<notin> fst ` set (mg_indexes m c)"
  by (force simp: set_indexes_same filter_id_conv)

lemma done_assert: "run_statement (AssertUnique c f M) m = Inr m \<longleftrightarrow> distinct (map (\<lambda>d. d f) (filter M (mg_docs m c)))"
  by simp

lemma list_all2_amend:
  assumes "\<And>d. P d \<Longrightarrow> \<not> P (f d)" "list_all2 (\<lambda>d d'. d' = d \<or> P d \<and> d' = f d) ds es"
  shows "update_where P f es = update_where P f ds"
  using assms(2) by (induction rule: list_all2_induct) (use assms(1) in auto)

lemma list_all2_from: "list_all2 R ds es \<Longrightarrow> e \<in> set es \<Longrightarrow> \<exists>d\<in>set ds. R d e"
  by (auto simp: list_all2_conv_all_nth in_set_conv_nth) (metis nth_mem)

text \<open>What a statement changes, at most.\<close>

lemma part_docs:
  assumes "part_statement t m m'" "d' \<in> set (mg_docs m' c)"
  shows "d' \<in> set (mg_docs m c) \<or> (\<exists>Q g d. t = UpdateMany c Q g \<and> d \<in> set (mg_docs m c) \<and> Q d \<and> d' = g d)"
proof (cases t)
  case (UpdateMany c' Q g)
  show ?thesis
  proof (cases "c' = c")
    case True
    then consider "m' = m" | "m' = set_docs c (update_where Q g (mg_docs m c)) m"
      | ds where "m' = set_docs c ds m" "list_all2 (\<lambda>d d'. d' = d \<or> Q d \<and> d' = g d) (mg_docs m c) ds"
      using assms(1) by (auto simp: part_statement_def UpdateMany)
    then show ?thesis
    proof cases
      case 2
      then obtain x where "x \<in> set (mg_docs m c)" "d' = (if Q x then g x else x)"
        using assms(2) by (auto simp: in_update_where)
      then show ?thesis using UpdateMany True by (cases "Q x") auto
    next
      case 3
      then show ?thesis using assms(2) UpdateMany True list_all2_from[OF 3(2), of d'] by auto
    qed (use assms(2) in simp)
  qed (use assms UpdateMany in \<open>auto simp: part_statement_def\<close>)
qed (use assms in \<open>auto simp: part_statement_def Let_def split: if_splits\<close>)

lemma part_docs_same:
  assumes "part_statement t m m'" "\<forall>Q g. t \<noteq> UpdateMany c Q g"
  shows "mg_docs m' c = mg_docs m c"
  using assms by (cases t) (auto simp: part_statement_def Let_def split: if_splits)

lemma part_create:
  assumes "part_statement t m m'" "map_of (mg_indexes m c) n = Some sp" "t \<noteq> DropIndex c n"
  shows "map_of (mg_indexes m' c) n = Some sp"
proof (cases t)
  case (CreateIndex c' n' sp')
  then show ?thesis using assms by (auto simp: part_statement_def Let_def map_add_def split: if_splits option.splits)
next
  case (DropIndex c' n')
  have "map_of (filter (\<lambda>(k, _). k \<noteq> n') is) n = map_of is n" if "n \<noteq> n'" for "is" :: "(string \<times> index_spec) list"
    using that by (induction "is") auto
  then show ?thesis using assms DropIndex by (auto simp: part_statement_def)
qed (use assms in \<open>auto simp: part_statement_def split: if_splits\<close>)

lemma part_drop:
  assumes "part_statement t m m'" "n \<notin> fst ` set (mg_indexes m c)" "\<forall>sp. t \<noteq> CreateIndex c n sp"
  shows "n \<notin> fst ` set (mg_indexes m' c)"
  using assms by (cases t) (force simp: part_statement_def Let_def split: if_splits)+

lemma statement_again:
  assumes g: "good_statement s" and r: "run_statement s m = Inr m1"
  shows "run_statement s m1 = Inr m1"
proof (cases s)
  case (UpdateMany c P f)
  then show ?thesis using r g update_where_twice[of P f "mg_docs m c"] by (auto simp: good_statement_def)
next
  case (CreateIndex c n sp)
  then show ?thesis using create_done r by (simp only: done_create)
next
  case (DropIndex c n)
  then show ?thesis using r done_drop[of c n m1] by auto
qed (use r in \<open>auto split: if_splits\<close>)

interpretation statements: repeatable run_statement part_statement good_statement keeps_statement
proof
  fix s m m1
  assume "run_statement s m = Inr m1"
  then show "part_statement s m m1" by (simp add: part_statement_def)
next
  fix s m m1
  assume "good_statement s" "run_statement s m = Inr m1"
  then show "run_statement s m1 = Inr m1" by (rule statement_again)
next
  fix s m m1 m'
  assume g: "good_statement s" and r: "run_statement s m = Inr m1" and p: "part_statement s m m'"
  show "run_statement s m' = Inr m1"
  proof (cases s)
    case (UpdateMany c P f)
    have "\<And>d. P d \<Longrightarrow> \<not> P (f d)" using g by (simp add: good_statement_def UpdateMany)
    then show ?thesis using r p list_all2_amend[of P f "mg_docs m c"] update_where_twice[of P f "mg_docs m c"]
      by (auto simp: part_statement_def UpdateMany)
  qed (use r p statement_again[OF g r] in \<open>auto simp: part_statement_def simp del: run_statement.simps\<close>)
next
  fix s t m m'
  assume g: "good_statement s" and k: "keeps_statement t s" and d: "run_statement s m = Inr m" and p: "part_statement t m m'"
  show "run_statement s m' = Inr m'"
  proof (cases s)
    case (UpdateMany c P f)
    have "\<not> P d'" if "d' \<in> set (mg_docs m' c)" for d'
      using part_docs[OF p that] d g k done_update[of c P f m] by (auto simp: UpdateMany)
    then show ?thesis using done_update[of c P f m'] g by (simp add: UpdateMany)
  next
    case (AssertUnique c f M)
    then have "mg_docs m' c = mg_docs m c" by (intro part_docs_same[OF p]) (use k in auto)
    then show ?thesis using d done_assert by (simp only: AssertUnique)
  next
    case (CreateIndex c n sp)
    then have "t \<noteq> DropIndex c n" using k by auto
    then show ?thesis using part_create[OF p] d by (simp only: CreateIndex done_create)
  next
    case (DropIndex c n)
    then have "\<forall>sp. t \<noteq> CreateIndex c n sp" using k by auto
    then show ?thesis using part_drop[OF p] d by (simp only: DropIndex done_drop)
  qed
qed

section \<open>Versions\<close>

definition repeatable_version :: "mstatement list \<Rightarrow> bool" where
  "repeatable_version ss \<longleftrightarrow> list_all good_statement ss \<and> sorted_wrt (\<lambda>s t. keeps_statement t s) ss"

lemma good_simps [simp]:
  "good_statement (UpdateMany c P f) \<longleftrightarrow> (\<forall>d. P d \<longrightarrow> \<not> P (f d))" "good_statement (AssertUnique c g M)"
  "good_statement (CreateIndex c n sp)" "good_statement (DropIndex c n)"
  by (simp_all add: good_statement_def)

lemma field_simps_migration [simp]:
  "unset_fields ks d k = (if k \<in> set ks then None else d k)"
  "set_fields [] d = d" "set_fields ((k, v) # kvs) d = set_fields kvs (d(k \<mapsto> v))"
  by (simp_all add: unset_fields_def set_fields_def)

lemmas version_defs = up_001_def up_003_def up_004_def up_005_def up_006_def up_007_def up_008_def up_009_def up_010_def
  down_001_def down_003_def down_004_def down_005_def down_006_def down_007_def down_008_def down_009_def down_010_def
  plain_index_def unique_index_def decided_index_def legacy_spec_def LEGACY_INDEX_def

lemma repeatable_plain:
  "list_all repeatable_version [up_001, up_003, up_004, up_005, up_006, up_007, up_008, up_009, up_010]"
  "list_all repeatable_version [down_001, down_003, down_004, down_005, down_006, down_007, down_008, down_009, down_010]"
  by (simp_all add: repeatable_version_def version_defs)

lemma matches_ci_length: "matches_ci old (Some (MStr new)) \<Longrightarrow> length new \<le> Suc (length old)"
  by (auto simp: matches_ci_def lower_def dest: arg_cong[where f = length])

lemma severity_map_fresh:
  "list_all (\<lambda>(old, _). list_all (\<lambda>(_, new). \<not> matches_ci old (Some (MStr new))) SEVERITY_MAP) SEVERITY_MAP"
proof -
  have "list_all (\<lambda>(old, _). list_all (\<lambda>(_, new). Suc (length old) < length new) SEVERITY_MAP) SEVERITY_MAP"
    by (simp add: SEVERITY_MAP_def)
  then show ?thesis by (fastforce simp: list_all_iff dest: matches_ci_length)
qed

lemma repeatable_append:
  "repeatable_version (ss @ ts) \<longleftrightarrow> repeatable_version ss \<and> repeatable_version ts \<and>
     (\<forall>s\<in>set ss. \<forall>t\<in>set ts. keeps_statement t s)"
  by (auto simp: repeatable_version_def sorted_wrt_append)

definition fresh_rewrite :: "(string \<times> string) list \<Rightarrow> bool" where
  "fresh_rewrite kvs \<longleftrightarrow> list_all (\<lambda>(old, _). list_all (\<lambda>(_, new). new \<noteq> old) kvs) kvs"

lemma sorted_wrt_all: "(\<And>x y. x \<in> set xs \<Longrightarrow> y \<in> set xs \<Longrightarrow> R x y) \<Longrightarrow> sorted_wrt R xs"
  by (induction xs) auto

lemma repeatable_rewrite: "fresh_rewrite kvs \<Longrightarrow> repeatable_version (rewrite_field c f kvs)"
  unfolding repeatable_version_def
  by (intro conjI sorted_wrt_all) (fastforce simp: rewrite_field_def fresh_rewrite_def list_all_iff)+

lemma repeatable_rewrite_ci: "repeatable_version (rewrite_field_ci c f SEVERITY_MAP)"
  unfolding repeatable_version_def using severity_map_fresh
  by (intro conjI sorted_wrt_all) (fastforce simp: rewrite_field_ci_def list_all_iff)+

lemma fresh_maps:
  "fresh_rewrite INFERENCE_STATE_MAP" "fresh_rewrite ALERT_TYPE_MAP" "fresh_rewrite (reverse_map INFERENCE_STATE_MAP)"
  "fresh_rewrite (reverse_map ALERT_TYPE_MAP)" "fresh_rewrite (reverse_map SEVERITY_MAP)"
  by code_simp+

lemma repeatable_up_002: "repeatable_version (up_002 read_iso)"
proof -
  have "repeatable_version [rename_timestamp read_iso ''detections'', rename_timestamp read_iso ''alerts'',
      UpdateMany ''alerts'' (\<lambda>d. d ''torso_angle'' \<noteq> None) (unset_fields [''torso_angle''])]"
    by (simp add: repeatable_version_def rename_timestamp_def parsed_timestamp_def)
  then show ?thesis unfolding up_002_def repeatable_append
    by (simp add: repeatable_rewrite fresh_maps repeatable_rewrite_ci)
      (auto simp: rewrite_field_def rewrite_field_ci_def rename_timestamp_def parsed_timestamp_def)
qed

lemma repeatable_down_002: "repeatable_version (down_002 fmt)"
proof -
  have "repeatable_version [rename_occurred_at fmt ''detections'', rename_occurred_at fmt ''alerts'']"
    by (simp add: repeatable_version_def rename_occurred_at_def is_date_def)
  then show ?thesis unfolding down_002_def repeatable_append
    by (simp add: repeatable_rewrite fresh_maps) (auto simp: rewrite_field_def rename_occurred_at_def is_date_def)
qed

section \<open>Runs\<close>

definition version_done :: "direction \<Rightarrow> nat \<Rightarrow> mongo \<Rightarrow> bool" where
  "version_done dir v m \<longleftrightarrow> (case dir of Up \<Rightarrow> v \<in> set (mg_applied m) | Down \<Rightarrow> v \<notin> set (mg_applied m))"

definition run_version :: "direction \<Rightarrow> migration \<Rightarrow> mongo \<Rightarrow> migration_error + mongo" where
  "run_version dir x m = (if version_done dir (fst x) m then Inr m
     else rbind (run_statements (snd x) m) (\<lambda>m1. Inr (record_version dir (fst x) m1)))"

definition part_version :: "direction \<Rightarrow> migration \<Rightarrow> mongo \<Rightarrow> mongo \<Rightarrow> bool" where
  "part_version dir x m m' \<longleftrightarrow> run_version dir x m = Inr m' \<or>
     \<not> version_done dir (fst x) m \<and> cut_seq run_statement part_statement (snd x) m m'"

text \<open>A run that is killed: before a version, within its statements, or before it is recorded.\<close>

inductive killed_run :: "direction \<Rightarrow> migration list \<Rightarrow> mongo \<Rightarrow> mongo \<Rightarrow> bool" for dir where
  killed_before: "killed_run dir ms m m"
| killed_within: "cut_seq run_statement part_statement ss m m' \<Longrightarrow> killed_run dir ((v, ss) # ms) m m'"
| killed_later: "run_statements ss m = Inr m1 \<Longrightarrow> killed_run dir ms (record_version dir v m1) m' \<Longrightarrow> killed_run dir ((v, ss) # ms) m m'"

inductive_cases killed_run_Cons: "killed_run dir ((v, ss) # ms) m m'"
inductive_cases killed_run_Nil: "killed_run dir [] m m'"

text \<open>Any number of runs, each killed.\<close>

inductive killed_runs :: "direction \<Rightarrow> nat option \<Rightarrow> migration list \<Rightarrow> mongo \<Rightarrow> mongo \<Rightarrow> bool" for dir target ms where
  no_run: "killed_runs dir target ms m m"
| another: "killed_runs dir target ms m m1 \<Longrightarrow> killed_run dir (pending dir target ms m1) m1 m2 \<Longrightarrow> killed_runs dir target ms m m2"

lemma run_statements_seq: "run_statements ss m = run_seq run_statement ss m"
  by (induction ss arbitrary: m) (auto simp: rbind_def split: sum.split)

lemma part_applied: "part_statement s m m' \<Longrightarrow> mg_applied m' = mg_applied m"
  by (cases s) (auto simp: part_statement_def Let_def split: if_splits)

lemma cut_applied: "cut_seq run_statement part_statement ss m m' \<Longrightarrow> mg_applied m' = mg_applied m"
  by (induction rule: cut_seq.induct) (auto dest: part_applied statements.whole)

lemma run_seq_cut: "run_seq run ss m = Inr m' \<Longrightarrow> cut_seq run part ss m m'"
  by (induction ss arbitrary: m) (auto simp: rbind_eq_Inr intro: cut_seq.intros)

lemma run_statements_applied: "run_statements ss m = Inr m' \<Longrightarrow> mg_applied m' = mg_applied m"
  using run_seq_cut[of run_statement ss m m' part_statement] cut_applied by (simp add: run_statements_seq)

lemma record_done [simp]:
  "version_done dir w (record_version dir v m) \<longleftrightarrow> w = v \<or> version_done dir w m"
  by (auto simp: version_done_def record_version_def split: direction.splits)

lemma done_applied: "mg_applied m' = mg_applied m \<Longrightarrow> version_done dir v m' = version_done dir v m"
  by (cases dir) (simp_all add: version_done_def)

lemma run_version_done: "run_version dir x m = Inr m1 \<Longrightarrow> version_done dir (fst x) m1"
  by (auto simp: run_version_def rbind_eq_Inr split: if_splits)

lemma run_version_id: "run_version dir x m = Inr m \<longleftrightarrow> version_done dir (fst x) m"
  by (rule iffI) (erule run_version_done, simp add: run_version_def)

lemma run_version_mono: "run_version dir x m = Inr m1 \<Longrightarrow> version_done dir v m \<Longrightarrow> version_done dir v m1"
  by (auto simp: run_version_def rbind_eq_Inr done_applied[OF run_statements_applied] split: if_splits)

interpretation versions: repeatable "run_version dir" "part_version dir" "\<lambda>x. repeatable_version (snd x)" "\<lambda>_ _. True" for dir
proof
  fix s m m1
  assume "run_version dir s m = Inr m1"
  then show "part_version dir s m m1" by (simp add: part_version_def)
next
  fix s m m1
  assume "run_version dir s m = Inr m1"
  then show "run_version dir s m1 = Inr m1" using run_version_done run_version_id by blast
next
  fix s :: migration and m m1 m'
  assume g: "repeatable_version (snd s)" and r: "run_version dir s m = Inr m1" and p: "part_version dir s m m'"
  show "run_version dir s m' = Inr m1"
  proof (cases "run_version dir s m = Inr m'")
    case True
    then show ?thesis using r run_version_done run_version_id by (metis sum.inject(2))
  next
    case False
    then have c: "\<not> version_done dir (fst s) m" "cut_seq run_statement part_statement (snd s) m m'"
      using p by (auto simp: part_version_def)
    from r c(1) obtain m2 where m2: "run_statements (snd s) m = Inr m2" "m1 = record_version dir (fst s) m2"
      by (auto simp: run_version_def rbind_eq_Inr)
    have "run_statements (snd s) m' = Inr m2"
      using statements.cut_resumes[OF c(2)] g m2(1) by (simp add: run_statements_seq repeatable_version_def)
    moreover have "\<not> version_done dir (fst s) m'" using done_applied[OF cut_applied[OF c(2)]] c(1) by simp
    ultimately show ?thesis by (simp add: run_version_def m2(2))
  qed
next
  fix s t :: migration and m m'
  assume "run_version dir s m = Inr m" "part_version dir t m m'"
  then show "run_version dir s m' = Inr m'"
    unfolding run_version_id part_version_def using run_version_mono done_applied[OF cut_applied] by blast
qed

text \<open>The pending versions are those of the whole sequence that are not done.\<close>

definition within_target :: "direction \<Rightarrow> nat option \<Rightarrow> migration list \<Rightarrow> migration list" where
  "within_target dir target ms = filter (\<lambda>(v, _). case target of None \<Rightarrow> True
     | Some t \<Rightarrow> (case dir of Up \<Rightarrow> v \<le> t | Down \<Rightarrow> v \<ge> t)) (case dir of Up \<Rightarrow> ms | Down \<Rightarrow> rev ms)"

lemma pending_alt: "pending dir target ms m = filter (\<lambda>x. \<not> version_done dir (fst x) m) (within_target dir target ms)"
  by (cases dir; cases target) (auto simp: pending_def within_target_def version_done_def case_prod_beta intro!: filter_cong)

lemma filter_after_record:
  assumes "v \<notin> fst ` set xs" "mg_applied m1 = mg_applied m"
  shows "filter (\<lambda>x. \<not> version_done dir (fst x) (record_version dir v m1)) xs = filter (\<lambda>x. \<not> version_done dir (fst x) m) xs"
  using assms done_applied[OF assms(2), of dir] by (intro filter_cong) auto

lemma apply_all_seq:
  "distinct (map fst xs) \<Longrightarrow> apply_all dir (filter (\<lambda>x. \<not> version_done dir (fst x) m) xs) m = run_seq (run_version dir) xs m"
proof (induction xs arbitrary: m)
  case (Cons x xs)
  obtain v ss where x: "x = (v, ss)" by fastforce
  show ?case
  proof (cases "version_done dir v m")
    case True
    then show ?thesis using Cons by (simp add: x run_version_def)
  next
    case False
    show ?thesis
    proof (cases "run_statements ss m")
      case (Inr m1)
      have "apply_all dir (filter (\<lambda>x. \<not> version_done dir (fst x) m) xs) (record_version dir v m1) =
          run_seq (run_version dir) xs (record_version dir v m1)"
        using Cons.IH[of "record_version dir v m1"] Cons.prems filter_after_record[OF _ run_statements_applied[OF Inr], of v xs dir]
        by (simp add: x)
      moreover have "run_version dir x m = Inr (record_version dir v m1)" using False Inr by (simp add: x run_version_def)
      ultimately show ?thesis using False Inr by (simp add: x)
    qed (use False in \<open>simp add: x run_version_def\<close>)
  qed
qed simp

lemma killed_run_cut:
  "distinct (map fst xs) \<Longrightarrow> killed_run dir (filter (\<lambda>x. \<not> version_done dir (fst x) m) xs) m m'
     \<Longrightarrow> cut_seq (run_version dir) (part_version dir) xs m m'"
proof (induction xs arbitrary: m)
  case Nil
  then show ?case by (auto elim: killed_run_Nil intro: cut_seq.intros)
next
  case (Cons x xs)
  obtain v ss where x: "x = (v, ss)" by fastforce
  show ?case
  proof (cases "version_done dir v m")
    case True
    then have "cut_seq (run_version dir) (part_version dir) xs m m'" using Cons by (simp add: x)
    then show ?thesis by (rule cut_seq.cut_later[rotated]) (simp add: run_version_id x True)
  next
    case False
    from Cons.prems(2) have "killed_run dir ((v, ss) # filter (\<lambda>x. \<not> version_done dir (fst x) m) xs) m m'"
      using False by (simp add: x)
    then show ?thesis
    proof (cases rule: killed_run_Cons[consumes 1])
      case 1
      then show ?thesis by (simp add: cut_seq.cut_now)
    next
      case 2
      then show ?thesis using False by (intro cut_seq.cut_within) (simp add: part_version_def x)
    next
      case (3 m1)
      have "cut_seq (run_version dir) (part_version dir) xs (record_version dir v m1) m'"
        using Cons.IH[of "record_version dir v m1"] Cons.prems 3(2)
          filter_after_record[OF _ run_statements_applied[OF 3(1)], of v xs dir] by (simp add: x)
      then show ?thesis by (rule cut_seq.cut_later[rotated]) (simp add: run_version_def x False 3(1))
    qed
  qed
qed

definition repeatable_versions :: "migration list \<Rightarrow> bool" where
  "repeatable_versions ms \<longleftrightarrow> distinct (map fst ms) \<and> list_all (\<lambda>x. repeatable_version (snd x)) ms"

lemma repeatable_within:
  assumes "repeatable_versions ms"
  shows "distinct (map fst (within_target dir target ms))"
    "list_all (\<lambda>x. repeatable_version (snd x)) (within_target dir target ms)"
  using assms by (cases dir; auto simp: repeatable_versions_def within_target_def list_all_iff distinct_map_filter rev_map[symmetric])+

lemma killed_runs_resume:
  assumes "repeatable_versions ms" "killed_runs dir target ms m m'" "run_migrations dir target ms m = Inr mf"
  shows "run_migrations dir target ms m' = Inr mf"
  using assms(2,3)
proof (induction rule: killed_runs.induct)
  case (another m m1 m2)
  let ?ms = "within_target dir target ms"
  note v = repeatable_within[OF assms(1), of dir target]
  have "cut_seq (run_version dir) (part_version dir) ?ms m1 m2"
    using killed_run_cut[OF v(1)] another.hyps(2) by (simp add: pending_alt)
  moreover have "run_seq (run_version dir) ?ms m1 = Inr mf"
    using another.IH[OF another.prems] apply_all_seq[OF v(1)] by (simp add: run_migrations_def pending_alt)
  moreover have "sorted_wrt (\<lambda>_ _. True) ?ms" by (simp add: sorted_wrt_all)
  ultimately have "run_seq (run_version dir) ?ms m2 = Inr mf"
    using versions.cut_resumes v(2) by blast
  then show ?case using apply_all_seq[OF v(1)] by (simp add: run_migrations_def pending_alt)
qed simp

text \<open>The two services that have migrations, and what their runners do.\<close>

datatype migrated_service = AlertDb | DeliveryDb

definition versions_of :: "migrated_service \<Rightarrow> direction \<Rightarrow> (string \<Rightarrow> int option) \<Rightarrow> (int \<Rightarrow> string) \<Rightarrow> migration list" where
  "versions_of service dir read_iso fmt = (case service of
     AlertDb \<Rightarrow> (case dir of Up \<Rightarrow> ups read_iso | Down \<Rightarrow> downs fmt)
   | DeliveryDb \<Rightarrow> (case dir of Up \<Rightarrow> notify_ups | Down \<Rightarrow> notify_downs))"

definition run_service :: "migrated_service \<Rightarrow> direction \<Rightarrow> nat option \<Rightarrow> migration list \<Rightarrow> mongo \<Rightarrow> migration_error + (int \<times> mongo)" where
  "run_service service dir target ms m = (case service of
     AlertDb \<Rightarrow> rbind (run_migrations dir target ms m) (\<lambda>m1. Inr (0, m1))
   | DeliveryDb \<Rightarrow> run_notify_migrations (case dir of Up \<Rightarrow> ''up'' | Down \<Rightarrow> ''down'') target ms m)"

lemma run_service_alt: "run_service service dir target ms m = rbind (run_migrations dir target ms m) (\<lambda>m1. Inr (0, m1))"
  by (cases service; cases dir) (simp_all add: run_service_def run_notify)

lemma versions_of_repeatable: "repeatable_versions (versions_of service dir read_iso fmt)"
proof (cases service)
  case AlertDb
  then show ?thesis using repeatable_plain repeatable_up_002 repeatable_down_002
    by (cases dir) (simp_all add: versions_of_def ups_def downs_def repeatable_versions_def)
next
  case DeliveryDb
  then show ?thesis
    by (cases dir) (simp_all add: versions_of_def repeatable_versions_def repeatable_version_def notify_ups_def notify_downs_def
        notify_up_001_def notify_up_002_def notify_up_003_def notify_up_004_def notify_down_001_def notify_down_002_def
        notify_down_003_def notify_down_004_def)
qed

text \<open>C34: A migration run that is killed, at any statement, between two documents of one update or
  before a version is recorded, and as often as one likes, loses nothing: the next run that
  completes leaves the database exactly as one uninterrupted run from the start would have left
  it.  This holds for the migrations of the alert service and of the notification service, in both
  directions and for every target version.\<close>

theorem interrupted_migration_resumes:
  assumes "run_service service dir target (versions_of service dir read_iso fmt) m = Inr (code, mf)"
    "killed_runs dir target (versions_of service dir read_iso fmt) m m'"
  shows "run_service service dir target (versions_of service dir read_iso fmt) m' = Inr (code, mf)"
  using killed_runs_resume[OF versions_of_repeatable assms(2)] assms(1) by (auto simp: run_service_alt rbind_eq_Inr)

text \<open>Two detections of which a run that was killed has reached the first.\<close>

definition two_detections :: mongo where
  "two_detections = \<lparr>mg_docs = (\<lambda>_. [])(''detections'' := [Map.empty, Map.empty]), mg_indexes = (\<lambda>_. []), mg_applied = []\<rparr>"

lemma interrupted_migration_resumes_witness:
  "run_service AlertDb Up (Some 1) (versions_of AlertDb Up (\<lambda>_. None) (\<lambda>_. ''''))
     (set_docs ''detections'' [set_fields [(''track_id'', MInt 0), (''detection_present'', MBool False)] Map.empty, Map.empty] two_detections)
   = run_service AlertDb Up (Some 1) (versions_of AlertDb Up (\<lambda>_. None) (\<lambda>_. '''')) two_detections"
proof -
  let ?ms = "versions_of AlertDb Up (\<lambda>_. None) (\<lambda>_. '''')"
  let ?half = "set_docs ''detections'' [set_fields [(''track_id'', MInt 0), (''detection_present'', MBool False)] Map.empty, Map.empty] two_detections"
  have p: "pending Up (Some 1) ?ms two_detections = [(1, up_001)]"
    by (simp add: pending_def versions_of_def ups_def two_detections_def)
  then obtain mf where r: "run_service AlertDb Up (Some 1) ?ms two_detections = Inr (0, mf)"
    by (simp add: run_service_alt run_migrations_def up_001_def)
  have "part_statement (hd up_001) two_detections ?half"
    by (auto simp: part_statement_def up_001_def two_detections_def set_docs_def)
  then have "killed_run Up (pending Up (Some 1) ?ms two_detections) two_detections ?half"
    unfolding p by (intro killed_run.killed_within) (simp add: up_001_def cut_seq.cut_within)
  then have "killed_runs Up (Some 1) ?ms two_detections ?half"
    by (rule killed_runs.another[OF killed_runs.no_run])
  from interrupted_migration_resumes[OF r this] r show ?thesis by simp
qed

section \<open>The lock\<close>

text \<open>\<open>lw_held\<close> is what the runners know: the time of their last successful claim, until one fails or
  they release or die.\<close>

record lock_world =
  lw_lock :: "migration_lock option"
  lw_held :: "string \<Rightarrow> int option"

datatype lock_op = ClaimOp int string | ReleaseOp int string | DieOp int string

fun lock_time :: "lock_op \<Rightarrow> int" where
  "lock_time (ClaimOp t _) = t" | "lock_time (ReleaseOp t _) = t" | "lock_time (DieOp t _) = t"

fun lock_step :: "lock_op \<Rightarrow> lock_world \<Rightarrow> lock_world" where
  "lock_step (ClaimOp now r) w = (case claim_lock now r (lw_lock w) of (ok, l) \<Rightarrow>
     w\<lparr>lw_lock := l, lw_held := (lw_held w)(r := (if ok then Some now else None))\<rparr>)"
| "lock_step (ReleaseOp now r) w = w\<lparr>lw_lock := release_lock r (lw_lock w), lw_held := (lw_held w)(r := None)\<rparr>"
| "lock_step (DieOp now r) w = w\<lparr>lw_held := (lw_held w)(r := None)\<rparr>"

definition lock_ok :: "int \<Rightarrow> lock_world \<Rightarrow> bool" where
  "lock_ok now w \<longleftrightarrow> (\<forall>r t. lw_held w r = Some t \<longrightarrow> now \<le> t + LEASE_SECONDS \<longrightarrow>
     (\<exists>l. lw_lock w = Some l \<and> ml_owner l = r \<and> ml_expires_at l = t + LEASE_SECONDS))"

lemma lock_step_ok: "lock_ok now w \<Longrightarrow> now \<le> lock_time x \<Longrightarrow> lock_ok (lock_time x) (lock_step x w)"
  by (cases x; cases "lw_lock w")
    (fastforce simp: lock_ok_def claim_lock_def release_lock_def Let_def split: if_splits)+

lemma lock_fold_ok:
  "lock_ok now w \<Longrightarrow> sorted (now # map lock_time xs) \<Longrightarrow> lock_ok (last (now # map lock_time xs)) (fold lock_step xs w)"
proof (induction xs arbitrary: now w)
  case (Cons x xs)
  have "lock_ok (lock_time x) (lock_step x w)" using lock_step_ok Cons.prems by simp
  from Cons.IH[OF this] Cons.prems show ?case by simp
qed simp

text \<open>At most one runner whose last claim is within its lease holds the lock.\<close>

theorem migration_lock_exclusive:
  assumes "sorted (map lock_time xs)" "\<forall>x\<in>set xs. start \<le> lock_time x"
    "w = fold lock_step xs \<lparr>lw_lock = None, lw_held = (\<lambda>_. None)\<rparr>" "now = last (start # map lock_time xs)"
    "lw_held w a = Some t" "now \<le> t + LEASE_SECONDS" "lw_held w b = Some u" "now \<le> u + LEASE_SECONDS"
  shows "a = b"
proof -
  have "lock_ok now w" unfolding assms(3,4)
    by (rule lock_fold_ok) (use assms(1,2) in \<open>auto simp: lock_ok_def\<close>)
  then show ?thesis using assms(5-8) unfolding lock_ok_def by (metis option.inject)
qed

section \<open>The shape of alerts\<close>

text \<open>The enumerations of \<^verbatim>\<open>app/schemas/alert.py\<close>, and what its models require of these fields.\<close>

definition SEVERITIES :: "string list" where
  "SEVERITIES = [''SEVERITY_UNSPECIFIED'', ''SEVERITY_INFO'', ''SEVERITY_NOTICE'', ''SEVERITY_WARNING'', ''SEVERITY_CRITICAL'']"

definition ALERT_TYPES :: "string list" where
  "ALERT_TYPES = [''ALERT_TYPE_UNSPECIFIED'', ''ALERT_TYPE_OBJECT_PROXIMITY'', ''ALERT_TYPE_CONCEALMENT'', ''ALERT_TYPE_LOITERING'']"

definition DECISIONS :: "string list" where
  "DECISIONS = [''DECISION_UNSPECIFIED'', ''DECISION_CONFIRMED'', ''DECISION_DISMISSED'', ''DECISION_UNSURE'']"

definition one_of :: "string list \<Rightarrow> mvalue option \<Rightarrow> bool" where
  "one_of xs v = (case v of Some (MStr s) \<Rightarrow> s \<in> set xs | _ \<Rightarrow> False)"

definition is_bool :: "mvalue option \<Rightarrow> bool" where
  "is_bool v = (case v of Some (MBool _) \<Rightarrow> True | _ \<Rightarrow> False)"

definition typed_alert :: "mdoc \<Rightarrow> bool" where
  "typed_alert d \<longleftrightarrow> one_of SEVERITIES (d ''severity'') \<and> (d ''alert_type'' = None \<or> one_of ALERT_TYPES (d ''alert_type'')) \<and>
     is_date (d ''occurred_at'') \<and> is_date (d ''created_at'') \<and> is_bool (d ''acknowledged'') \<and> one_of DECISIONS (d ''decision'')"

text \<open>An alert written before the first migration: old or new names, dates as text or not, and the
  later fields possibly missing.\<close>

definition legacy_alert :: "(string \<Rightarrow> int option) \<Rightarrow> mdoc \<Rightarrow> bool" where
  "legacy_alert read_iso d \<longleftrightarrow>
     (one_of SEVERITIES (d ''severity'') \<or> list_ex (\<lambda>(old, _). matches_ci old (d ''severity'')) SEVERITY_MAP) \<and>
     (d ''alert_type'' = None \<or> one_of (ALERT_TYPES @ [''object_proximity'', ''loitering'']) (d ''alert_type'')) \<and>
     (is_date (d ''occurred_at'') \<or> d ''occurred_at'' = None \<and> parsed_timestamp read_iso d \<noteq> None) \<and>
     (d ''created_at'' = None \<or> is_date (d ''created_at'')) \<and> (d ''acknowledged'' = None \<or> is_bool (d ''acknowledged'')) \<and>
     (d ''decision'' = None \<or> one_of DECISIONS (d ''decision''))"

text \<open>What a statement does to one document of a collection.\<close>

definition statement_doc :: "string \<Rightarrow> mstatement \<Rightarrow> mdoc \<Rightarrow> mdoc" where
  "statement_doc c s d = (case s of UpdateMany c' P f \<Rightarrow> if c' = c \<and> P d then f d else d | _ \<Rightarrow> d)"

lemma statement_doc_simps:
  "statement_doc c (UpdateMany c P f) = (\<lambda>d. if P d then f d else d)" "c' \<noteq> c \<Longrightarrow> statement_doc c (UpdateMany c' P f) = (\<lambda>d. d)"
  "statement_doc c (AssertUnique c' g M) = (\<lambda>d. d)" "statement_doc c (CreateIndex c' n sp) = (\<lambda>d. d)"
  "statement_doc c (DropIndex c' n) = (\<lambda>d. d)"
  by (simp_all add: statement_doc_def fun_eq_iff)

lemma run_statement_docs: "run_statement s m = Inr m1 \<Longrightarrow> mg_docs m1 c = map (statement_doc c s) (mg_docs m c)"
  by (cases s) (auto simp: statement_doc_simps update_where_def Let_def split: if_splits)

lemma run_statements_docs:
  "run_statements ss m = Inr m1 \<Longrightarrow> mg_docs m1 c = map (fold (statement_doc c) ss) (mg_docs m c)"
  by (induction ss arbitrary: m) (auto simp: rbind_eq_Inr run_statement_docs[where c = c])

lemma record_docs [simp]: "mg_docs (record_version dir v m) = mg_docs m"
  by (simp add: record_version_def)

lemma apply_all_docs:
  "apply_all dir ms m = Inr m1 \<Longrightarrow> mg_docs m1 c = map (fold (statement_doc c) (concat (map snd ms))) (mg_docs m c)"
proof (induction ms arbitrary: m)
  case (Cons x ms)
  obtain v ss where x: "x = (v, ss)" by fastforce
  from Cons.prems obtain m2 where m2: "run_statements ss m = Inr m2" "apply_all dir ms (record_version dir v m2) = Inr m1"
    by (auto simp: x rbind_eq_Inr)
  show ?case using Cons.IH[OF m2(2)] run_statements_docs[OF m2(1), of c] by (simp add: x)
qed simp

lemma fold_same: "(\<And>s. s \<in> set ss \<Longrightarrow> statement_doc c s d = d) \<Longrightarrow> fold (statement_doc c) ss d = d"
  by (induction ss) auto

text \<open>A statement that sets another field leaves a field as it is.\<close>

lemma fold_field:
  "(\<And>s e. s \<in> set ss \<Longrightarrow> statement_doc c s e k = e k) \<Longrightarrow> fold (statement_doc c) ss d k = d k"
  by (induction ss arbitrary: d) auto

lemma rewrite_severity:
  assumes "one_of SEVERITIES (d ''severity'') \<or> list_ex (\<lambda>(old, _). matches_ci old (d ''severity'')) SEVERITY_MAP"
  shows "one_of SEVERITIES (fold (statement_doc ''alerts'') (rewrite_field_ci ''alerts'' ''severity'' SEVERITY_MAP) d ''severity'')"
proof -
  have fresh: "\<not> matches_ci old (Some (MStr new))" if "old \<in> fst ` set SEVERITY_MAP" "new \<in> set SEVERITIES" for old new
  proof -
    have "\<forall>old\<in>fst ` set SEVERITY_MAP. \<forall>new\<in>set SEVERITIES. Suc (length old) < length new"
      by (simp add: SEVERITY_MAP_def SEVERITIES_def)
    then have "Suc (length old) < length new" using that by blast
    then show ?thesis using matches_ci_length[of old new] by fastforce
  qed
  have keep: "one_of SEVERITIES (fold (statement_doc ''alerts'') (rewrite_field_ci ''alerts'' ''severity'' kvs) e ''severity'')"
    if "one_of SEVERITIES (e ''severity'')" "set kvs \<subseteq> set SEVERITY_MAP" for kvs e
    using that
  proof (induction kvs)
    case (Cons kv kvs)
    obtain s where s: "e ''severity'' = Some (MStr s)" "s \<in> set SEVERITIES"
      using Cons.prems(1) by (auto simp: one_of_def split: option.splits mvalue.splits)
    have "\<not> matches_ci (fst kv) (Some (MStr s))" using fresh s(2) Cons.prems(2) by auto
    then show ?case using Cons s(1) by (cases kv) (simp add: rewrite_field_ci_def statement_doc_def)
  qed (simp add: rewrite_field_ci_def)
  have hit: "one_of SEVERITIES (fold (statement_doc ''alerts'') (rewrite_field_ci ''alerts'' ''severity'' kvs) e ''severity'')"
    if "list_ex (\<lambda>(old, _). matches_ci old (e ''severity'')) kvs" "set kvs \<subseteq> set SEVERITY_MAP" for kvs e
    using that
  proof (induction kvs)
    case (Cons kv kvs)
    obtain old new where kv: "kv = (old, new)" by fastforce
    have "new \<in> set SEVERITIES" using Cons.prems(2) by (auto simp: kv SEVERITY_MAP_def SEVERITIES_def)
    then have "one_of SEVERITIES ((e(''severity'' \<mapsto> MStr new)) ''severity'')" by (simp add: one_of_def)
    then have "one_of SEVERITIES (fold (statement_doc ''alerts'') (rewrite_field_ci ''alerts'' ''severity'' kvs) (e(''severity'' \<mapsto> MStr new)) ''severity'')"
      using Cons.prems(2) by (intro keep) simp_all
    then show ?case using Cons
      by (auto simp: kv rewrite_field_ci_def statement_doc_simps)
  qed simp
  show ?thesis using assms keep hit by blast
qed

lemma rewrite_alert_type:
  assumes "d ''alert_type'' = None \<or> one_of (ALERT_TYPES @ [''object_proximity'', ''loitering'']) (d ''alert_type'')"
  defines "e \<equiv> fold (statement_doc ''alerts'') (rewrite_field ''alerts'' ''alert_type'' ALERT_TYPE_MAP) d"
  shows "e ''alert_type'' = None \<or> one_of ALERT_TYPES (e ''alert_type'')"
  using assms(1) unfolding e_def
  by (auto simp: rewrite_field_def ALERT_TYPE_MAP_def statement_doc_simps one_of_def ALERT_TYPES_def split: option.splits mvalue.splits)

lemma rewrite_other_field:
  "k \<noteq> f \<Longrightarrow> fold (statement_doc c) (rewrite_field c' f kvs) d k = d k"
  "k \<noteq> f \<Longrightarrow> fold (statement_doc c) (rewrite_field_ci c' f kvs) d k = d k"
  by (rule fold_field; auto simp: rewrite_field_def rewrite_field_ci_def statement_doc_def)+

lemma up_002_alert:
  assumes "legacy_alert read_iso d"
  defines "e \<equiv> fold (statement_doc ''alerts'') (up_002 read_iso) d"
  shows "one_of SEVERITIES (e ''severity'') \<and> (e ''alert_type'' = None \<or> one_of ALERT_TYPES (e ''alert_type'')) \<and>
    is_date (e ''occurred_at'') \<and> e ''created_at'' = d ''created_at'' \<and> e ''acknowledged'' = d ''acknowledged'' \<and>
    e ''decision'' = d ''decision''"
proof -
  define d2 where "d2 = fold (statement_doc ''alerts'') (rewrite_field_ci ''alerts'' ''severity'' SEVERITY_MAP) d"
  define d3 where "d3 = fold (statement_doc ''alerts'') (rewrite_field ''alerts'' ''alert_type'' ALERT_TYPE_MAP) d2"
  have "fold (statement_doc ''alerts'') (rewrite_field ''detections'' ''class_name'' INFERENCE_STATE_MAP) d = d"
    by (rule fold_same) (auto simp: rewrite_field_def statement_doc_simps)
  then have e: "e = fold (statement_doc ''alerts'') [rename_timestamp read_iso ''detections'', rename_timestamp read_iso ''alerts'',
      UpdateMany ''alerts'' (\<lambda>d. d ''torso_angle'' \<noteq> None) (unset_fields [''torso_angle''])] d3"
    by (simp add: e_def up_002_def d2_def d3_def)
  have "one_of SEVERITIES (d2 ''severity'')" unfolding d2_def
    by (rule rewrite_severity) (use assms(1) in \<open>simp add: legacy_alert_def\<close>)
  then have s: "one_of SEVERITIES (d3 ''severity'')" by (simp add: d3_def rewrite_other_field)
  have "d2 ''alert_type'' = d ''alert_type''" by (simp add: d2_def rewrite_other_field)
  then have t: "d3 ''alert_type'' = None \<or> one_of ALERT_TYPES (d3 ''alert_type'')" unfolding d3_def
    by (intro rewrite_alert_type) (use assms(1) in \<open>simp add: legacy_alert_def\<close>)
  have same: "d3 k = d k" if "k \<notin> {''severity'', ''alert_type''}" for k
    using that by (simp add: d3_def d2_def rewrite_other_field)
  have "parsed_timestamp read_iso d3 = parsed_timestamp read_iso d" by (simp add: parsed_timestamp_def same)
  then show ?thesis using assms(1) s t same[of "''occurred_at''"] same[of "''created_at''"] same[of "''acknowledged''"] same[of "''decision''"]
    by (auto simp: e rename_timestamp_def statement_doc_simps legacy_alert_def is_date_def)
qed

lemma up_003_005_alert:
  assumes "one_of SEVERITIES (d ''severity'')" "d ''alert_type'' = None \<or> one_of ALERT_TYPES (d ''alert_type'')"
    "is_date (d ''occurred_at'')" "d ''created_at'' = None \<or> is_date (d ''created_at'')"
    "d ''acknowledged'' = None \<or> is_bool (d ''acknowledged'')" "d ''decision'' = None \<or> one_of DECISIONS (d ''decision'')"
  shows "typed_alert (fold (statement_doc ''alerts'') (up_003 @ up_004 @ up_005) d)"
proof -
  have "d ''occurred_at'' \<noteq> None" using assms(3) by (cases "d ''occurred_at''") (simp_all add: is_date_def)
  then show ?thesis using assms
    by (auto simp: version_defs statement_doc_simps typed_alert_def is_bool_def one_of_def DECISIONS_def split: option.splits)
qed


text \<open>With at most one document to a collection no key is duplicated, so that a run depends on the
  indexes alone.\<close>

definition sparse :: "mongo \<Rightarrow> bool" where
  "sparse m \<longleftrightarrow> (\<forall>c. length (mg_docs m c) \<le> 1)"

definition same_indexes :: "mongo \<Rightarrow> mongo \<Rightarrow> bool" where
  "same_indexes m n \<longleftrightarrow> mg_indexes m = mg_indexes n \<and> mg_applied m = mg_applied n"

lemma short_distinct: "length (xs :: 'a list) \<le> 1 \<Longrightarrow> distinct (map f (filter P xs))"
  by (cases xs) auto

lemma sparse_statement:
  assumes "sparse m" "sparse n" "same_indexes m n" "run_statement s n = Inr n1"
  shows "\<exists>m1. run_statement s m = Inr m1 \<and> sparse m1 \<and> sparse n1 \<and> same_indexes m1 n1"
  using assms
  by (cases s) (auto simp: sparse_def same_indexes_def Let_def set_docs_def set_indexes_def update_where_def short_distinct
      index_fits_def split: if_splits)

lemma sparse_statements:
  "sparse m \<Longrightarrow> sparse n \<Longrightarrow> same_indexes m n \<Longrightarrow> run_statements ss n = Inr n1 \<Longrightarrow>
     \<exists>m1. run_statements ss m = Inr m1 \<and> sparse m1 \<and> sparse n1 \<and> same_indexes m1 n1"
proof (induction ss arbitrary: m n)
  case (Cons s ss)
  from Cons.prems(4) obtain n2 where n2: "run_statement s n = Inr n2" "run_statements ss n2 = Inr n1"
    by (auto simp: rbind_eq_Inr)
  from sparse_statement[OF Cons.prems(1-3) n2(1)] obtain m2 where
    m2: "run_statement s m = Inr m2" "sparse m2" "sparse n2" "same_indexes m2 n2" by blast
  from Cons.IH[OF m2(2-4) n2(2)] show ?case by (simp add: m2(1))
qed auto

lemma sparse_apply_all:
  "sparse m \<Longrightarrow> sparse n \<Longrightarrow> same_indexes m n \<Longrightarrow> apply_all dir ms n = Inr n1 \<Longrightarrow> \<exists>m1. apply_all dir ms m = Inr m1"
proof (induction ms arbitrary: m n)
  case (Cons x ms)
  obtain v ss where x: "x = (v, ss)" by fastforce
  from Cons.prems(4) obtain n2 where n2: "run_statements ss n = Inr n2" "apply_all dir ms (record_version dir v n2) = Inr n1"
    by (auto simp: x rbind_eq_Inr)
  from sparse_statements[OF Cons.prems(1-3) n2(1)] obtain m2 where
    m2: "run_statements ss m = Inr m2" "sparse m2" "sparse n2" "same_indexes m2 n2" by blast
  have "\<exists>m1. apply_all dir ms (record_version dir v m2) = Inr m1"
    by (rule Cons.IH[OF _ _ _ n2(2)])
      (use m2(2-4) in \<open>auto simp: sparse_def same_indexes_def record_version_def split: direction.splits\<close>)
  then show ?case by (simp add: x m2(1))
qed auto

definition empty_database :: mongo where
  "empty_database = \<lparr>mg_docs = (\<lambda>_. []), mg_indexes = (\<lambda>_. []), mg_applied = []\<rparr>"

definition old_alert :: mdoc where
  "old_alert = [''severity'' \<mapsto> MStr ''SEVERITY_INFO'', ''alert_type'' \<mapsto> MStr ''loitering'', ''timestamp'' \<mapsto> MStr ''1'']"

lemma empty_update:
  "run_statement (UpdateMany c P f) \<lparr>mg_docs = (\<lambda>_. []), mg_indexes = is, mg_applied = vs\<rparr> =
     Inr \<lparr>mg_docs = (\<lambda>_. []), mg_indexes = is, mg_applied = vs\<rparr>"
  by (simp add: set_docs_def update_where_def fun_eq_iff)

lemma empty_create:
  "run_statement (CreateIndex c n sp) \<lparr>mg_docs = (\<lambda>_. []), mg_indexes = is, mg_applied = vs\<rparr> =
     (if map_of (is c) n = Some sp then Inr \<lparr>mg_docs = (\<lambda>_. []), mg_indexes = is, mg_applied = vs\<rparr>
      else if n \<in> fst ` set (is c) \<or> list_ex (\<lambda>(_, s). ix_keys s = ix_keys sp \<and> ix_partial s = ix_partial sp) (is c) then Inl IndexConflict
      else Inr \<lparr>mg_docs = (\<lambda>_. []), mg_indexes = is(c := is c @ [(n, sp)]), mg_applied = vs\<rparr>)"
  by (simp add: set_indexes_def index_fits_def Let_def)

lemma empty_drop:
  "run_statement (DropIndex c n) \<lparr>mg_docs = (\<lambda>_. []), mg_indexes = is, mg_applied = vs\<rparr> =
     Inr \<lparr>mg_docs = (\<lambda>_. []), mg_indexes = is(c := filter (\<lambda>(k, _). k \<noteq> n) (is c)), mg_applied = vs\<rparr>"
  by (simp add: set_indexes_def)

lemma empty_database_runs: "\<not> isl (run_migrations Up None (ups (\<lambda>_. Some 5)) empty_database)"
  by (simp add: run_migrations_def pending_def empty_database_def ups_def version_defs up_001_def up_002_def record_version_def
      rewrite_field_def rewrite_field_ci_def SEVERITY_MAP_def ALERT_TYPE_MAP_def INFERENCE_STATE_MAP_def rename_timestamp_def
      plain_index_def unique_index_def decided_index_def LEGACY_INDEX_def empty_update empty_create empty_drop
      del: run_statement.simps(1,3,4))


end
