(* ===== verification/ApiOutbox.thy ===== *)
theory ApiOutbox
  imports Prelude
begin

text \<open>
  The audit outbox of the alert service, which lives in MongoDB, without transactions: the
  collections (\<^verbatim>\<open>services/api/app/repositories/audit_outbox_repository.py\<close>) and the drain
  (\<^verbatim>\<open>app/services/audit_drain.py\<close>).  Every replica of the service runs a drain; a drain may die
  between any two operations, and leaves its claim behind.  What the audit service answers, the
  clock (in microseconds) and the jitter (in thousandths) are arguments; an event is an opaque
  value.
\<close>

section \<open>The collections\<close>

record 'e queued_event =
  qe_id :: nat
  qe_event_id :: nat
  qe_event :: 'e
  qe_occurred_at :: datetime
  qe_attempts :: nat
  qe_next_attempt_at :: datetime
  qe_created_at :: datetime
  qe_claimed_at :: "datetime option"

record 'e buried_event =
  be_event_id :: nat
  be_event :: 'e
  be_occurred_at :: datetime
  be_attempts :: nat
  be_last_status :: int
  be_created_at :: datetime
  be_buried_at :: datetime

record 'e mongo_outbox =
  mo_pending :: "'e queued_event list"
  mo_dead :: "'e buried_event list"
  mo_next_id :: nat

text \<open>The collection has a unique index on the event id.\<close>

definition enqueue_event :: "datetime \<Rightarrow> nat \<Rightarrow> 'e \<Rightarrow> datetime \<Rightarrow> 'e mongo_outbox \<Rightarrow> 'e mongo_outbox option" where
  "enqueue_event now i e occurred ob = (if i \<in> qe_event_id ` set (mo_pending ob) then None
     else Some (ob\<lparr>mo_pending := mo_pending ob @ [\<lparr>qe_id = mo_next_id ob, qe_event_id = i, qe_event = e, qe_occurred_at = occurred,
       qe_attempts = 0, qe_next_attempt_at = now, qe_created_at = now, qe_claimed_at = None\<rparr>], mo_next_id := mo_next_id ob + 1\<rparr>))"

definition CLAIM_LEASE :: datetime where "CLAIM_LEASE = 60 * 1000000"

definition claimable :: "datetime \<Rightarrow> 'e queued_event \<Rightarrow> bool" where
  "claimable now q \<longleftrightarrow> qe_next_attempt_at q \<le> now \<and> (case qe_claimed_at q of None \<Rightarrow> True | Some t \<Rightarrow> t \<le> now - CLAIM_LEASE)"

definition claim_event :: "datetime \<Rightarrow> 'e mongo_outbox \<Rightarrow> 'e queued_event option \<times> 'e mongo_outbox" where
  "claim_event now ob = (case order_by qe_next_attempt_at (filter (claimable now) (mo_pending ob)) of
     [] \<Rightarrow> (None, ob)
   | q # _ \<Rightarrow> (Some (q\<lparr>qe_claimed_at := Some now\<rparr>),
       ob\<lparr>mo_pending := update_where (\<lambda>r. qe_id r = qe_id q) (\<lambda>r. r\<lparr>qe_claimed_at := Some now\<rparr>) (mo_pending ob)\<rparr>))"

definition release_event :: "nat \<Rightarrow> 'e mongo_outbox \<Rightarrow> 'e mongo_outbox" where
  "release_event i ob = ob\<lparr>mo_pending := filter (\<lambda>q. qe_id q \<noteq> i) (mo_pending ob)\<rparr>"

definition postpone_event :: "nat \<Rightarrow> datetime \<Rightarrow> 'e mongo_outbox \<Rightarrow> 'e mongo_outbox" where
  "postpone_event i t ob = ob\<lparr>mo_pending := update_where (\<lambda>q. qe_id q = i)
     (\<lambda>q. q\<lparr>qe_attempts := qe_attempts q + 1, qe_next_attempt_at := t, qe_claimed_at := None\<rparr>) (mo_pending ob)\<rparr>"

text \<open>\<^verbatim>\<open>bury\<close> inserts the dead letter and then deletes the event.\<close>

definition insert_dead :: "datetime \<Rightarrow> 'e queued_event \<Rightarrow> int \<Rightarrow> 'e mongo_outbox \<Rightarrow> 'e mongo_outbox" where
  "insert_dead now p last_status ob = ob\<lparr>mo_dead := mo_dead ob @ [\<lparr>be_event_id = qe_event_id p, be_event = qe_event p,
     be_occurred_at = qe_occurred_at p, be_attempts = qe_attempts p + 1, be_last_status = last_status,
     be_created_at = qe_created_at p, be_buried_at = now\<rparr>]\<rparr>"

definition pending_count :: "'e mongo_outbox \<Rightarrow> nat" where
  "pending_count ob = length (mo_pending ob)"

definition oldest_pending_age :: "datetime \<Rightarrow> 'e mongo_outbox \<Rightarrow> datetime" where
  "oldest_pending_age now ob = (case order_by qe_created_at (mo_pending ob) of [] \<Rightarrow> 0 | q # _ \<Rightarrow> now - qe_created_at q)"

section \<open>The drain\<close>

definition OUTBOX_BATCH :: nat where "OUTBOX_BATCH = 32"
definition BACKOFF_EXPONENT :: nat where "BACKOFF_EXPONENT = 8"
definition UNKNOWN_STATUS_ATTEMPTS :: nat where "UNKNOWN_STATUS_ATTEMPTS = 12"
definition OUTCOME_ACCEPTED :: int where "OUTCOME_ACCEPTED = 1"
definition REFUSED_STATUSES :: "int set" where "REFUSED_STATUSES = {2, 4}"

definition retry_at :: "datetime \<Rightarrow> int \<Rightarrow> nat \<Rightarrow> datetime" where
  "retry_at now jitter attempts = now + min (2 * 2 ^ min attempts BACKOFF_EXPONENT) 300 * jitter * 1000"

text \<open>The answer of the audit service is a status, or none when the call failed.\<close>

datatype settlement = Postpone | Release | Bury int

definition settle :: "int option \<Rightarrow> nat \<Rightarrow> settlement" where
  "settle reply attempts = (case reply of None \<Rightarrow> Postpone
     | Some status \<Rightarrow> if status = OUTCOME_ACCEPTED then Release
         else if status \<in> REFUSED_STATUSES then Bury status
         else if attempts + 1 \<ge> UNKNOWN_STATUS_ATTEMPTS then Bury status
         else Postpone)"

text \<open>A drain is between two events of its batch (of which it has handled some), waits for the audit
  service, or is about to delete an event it has copied to the dead letters.\<close>

datatype 'e drain_pc = DrainIdle nat | DrainSending nat "'e queued_event" | DrainBurying nat "'e queued_event"

definition batch_next :: "nat \<Rightarrow> 'e drain_pc" where
  "batch_next handled = DrainIdle (if handled + 1 = OUTBOX_BATCH then 0 else handled + 1)"

definition resolve_claimed :: "datetime \<Rightarrow> int \<Rightarrow> int option \<Rightarrow> nat \<Rightarrow> 'e queued_event \<Rightarrow> 'e mongo_outbox \<Rightarrow>
    'e drain_pc \<times> 'e mongo_outbox" where
  "resolve_claimed now jitter reply handled p ob = (case settle reply (qe_attempts p) of
     Postpone \<Rightarrow> (DrainIdle 0, postpone_event (qe_id p) (retry_at now jitter (qe_attempts p)) ob)
   | Release \<Rightarrow> (batch_next handled, release_event (qe_id p) ob)
   | Bury status \<Rightarrow> (DrainBurying handled p, insert_dead now p status ob))"

record 'e outbox_world =
  ow_outbox :: "'e mongo_outbox"
  ow_drains :: "nat \<Rightarrow> 'e drain_pc"
  ow_enqueued :: "(nat \<times> 'e) set"
  ow_accepted :: "(nat \<times> 'e) set"

definition event_key :: "'e queued_event \<Rightarrow> nat \<times> 'e" where
  "event_key q = (qe_event_id q, qe_event q)"

definition dead_key :: "'e buried_event \<Rightarrow> nat \<times> 'e" where
  "dead_key d = (be_event_id d, be_event d)"

definition set_drain :: "nat \<Rightarrow> 'e drain_pc \<Rightarrow> 'e mongo_outbox \<Rightarrow> 'e outbox_world \<Rightarrow> 'e outbox_world" where
  "set_drain w pc ob W = W\<lparr>ow_outbox := ob, ow_drains := (ow_drains W)(w := pc)\<rparr>"

text \<open>The audit service accepts an event before it answers, and the answer may be lost.\<close>

inductive outbox_step :: "'e outbox_world \<Rightarrow> 'e outbox_world \<Rightarrow> bool" where
  enqueues: "enqueue_event now i e t (ow_outbox W) = Some ob \<Longrightarrow>
    outbox_step W (W\<lparr>ow_outbox := ob, ow_enqueued := insert (i, e) (ow_enqueued W)\<rparr>)"
| claims: "ow_drains W w = DrainIdle n \<Longrightarrow> claim_event now (ow_outbox W) = (Some p, ob) \<Longrightarrow>
    outbox_step W (set_drain w (DrainSending n p) ob W)"
| rests: "ow_drains W w = DrainIdle n \<Longrightarrow> claim_event now (ow_outbox W) = (None, ob) \<Longrightarrow>
    outbox_step W (set_drain w (DrainIdle 0) ob W)"
| arrives: "ow_drains W w = DrainSending n p \<Longrightarrow>
    outbox_step W (W\<lparr>ow_accepted := insert (event_key p) (ow_accepted W)\<rparr>)"
| resolves: "ow_drains W w = DrainSending n p \<Longrightarrow>
    reply \<noteq> Some OUTCOME_ACCEPTED \<or> event_key p \<in> ow_accepted W \<Longrightarrow>
    resolve_claimed now jitter reply n p (ow_outbox W) = (pc, ob) \<Longrightarrow> outbox_step W (set_drain w pc ob W)"
| buries: "ow_drains W w = DrainBurying n p \<Longrightarrow>
    outbox_step W (set_drain w (batch_next n) (release_event (qe_id p) (ow_outbox W)) W)"
| dies: "outbox_step W (set_drain w (DrainIdle 0) (ow_outbox W) W)"

inductive_cases outbox_stepE: "outbox_step W W'"

definition empty_outbox_world :: "'e outbox_world" where
  "empty_outbox_world = \<lparr>ow_outbox = \<lparr>mo_pending = [], mo_dead = [], mo_next_id = 0\<rparr>, ow_drains = (\<lambda>_. DrainIdle 0),
     ow_enqueued = {}, ow_accepted = {}\<rparr>"

inductive outbox_reach :: "'e outbox_world \<Rightarrow> bool" where
  outbox_empty: "outbox_reach empty_outbox_world"
| outbox_stepped: "outbox_reach W \<Longrightarrow> outbox_step W W' \<Longrightarrow> outbox_reach W'"

section \<open>No event is lost\<close>

definition snapshot :: "'e drain_pc \<Rightarrow> 'e queued_event option" where
  "snapshot pc = (case pc of DrainIdle _ \<Rightarrow> None | DrainSending _ p \<Rightarrow> Some p | DrainBurying _ p \<Rightarrow> Some p)"

lemma snapshot_simps [simp]:
  "snapshot (DrainIdle n) = None" "snapshot (DrainSending n p) = Some p" "snapshot (DrainBurying n p) = Some p"
  "snapshot (batch_next n) = None"
  by (simp_all add: snapshot_def batch_next_def)

text \<open>What an event's document and the copies of it that drains hold agree on.\<close>

definition copies_agree :: "'e mongo_outbox \<Rightarrow> 'e queued_event \<Rightarrow> bool" where
  "copies_agree ob p \<longleftrightarrow> qe_id p < mo_next_id ob \<and> (\<forall>q\<in>set (mo_pending ob). qe_id q = qe_id p \<longrightarrow> event_key q = event_key p)"

definition refused_or_worn :: "'e buried_event \<Rightarrow> bool" where
  "refused_or_worn d \<longleftrightarrow> be_last_status d \<in> REFUSED_STATUSES \<or> UNKNOWN_STATUS_ATTEMPTS \<le> be_attempts d"

definition outbox_ok :: "'e outbox_world \<Rightarrow> bool" where
  "outbox_ok W \<longleftrightarrow> (let ob = ow_outbox W; pending = event_key ` set (mo_pending ob); dead = dead_key ` set (mo_dead ob) in
     distinct (map qe_event_id (mo_pending ob)) \<and> (\<forall>q\<in>set (mo_pending ob). copies_agree ob q) \<and>
     ow_enqueued W = pending \<union> dead \<union> ow_accepted W \<and>
     (\<forall>w p. snapshot (ow_drains W w) = Some p \<longrightarrow> copies_agree ob p \<and> event_key p \<in> ow_enqueued W) \<and>
     (\<forall>w n p. ow_drains W w = DrainBurying n p \<longrightarrow> event_key p \<in> dead) \<and>
     list_all refused_or_worn (mo_dead ob))"

lemmas outbox_ok_defs = outbox_ok_def Let_def

lemma outbox_okD:
  assumes "outbox_ok W"
  shows "distinct (map qe_event_id (mo_pending (ow_outbox W)))"
    "q \<in> set (mo_pending (ow_outbox W)) \<Longrightarrow> copies_agree (ow_outbox W) q"
    "ow_enqueued W = event_key ` set (mo_pending (ow_outbox W)) \<union> dead_key ` set (mo_dead (ow_outbox W)) \<union> ow_accepted W"
    "snapshot (ow_drains W w) = Some p \<Longrightarrow> copies_agree (ow_outbox W) p"
    "snapshot (ow_drains W w) = Some p \<Longrightarrow> event_key p \<in> ow_enqueued W"
    "ow_drains W w = DrainBurying n p \<Longrightarrow> event_key p \<in> dead_key ` set (mo_dead (ow_outbox W))"
    "list_all refused_or_worn (mo_dead (ow_outbox W))"
  using assms by (auto simp: outbox_ok_defs)

text \<open>Another outbox under the same drains.\<close>

lemma outbox_amended:
  assumes "outbox_ok W" "distinct (map qe_event_id (mo_pending ob))" "\<And>q. q \<in> set (mo_pending ob) \<Longrightarrow> copies_agree ob q"
    "E = event_key ` set (mo_pending ob) \<union> dead_key ` set (mo_dead ob) \<union> ow_accepted W"
    "\<And>q. copies_agree (ow_outbox W) q \<Longrightarrow> copies_agree ob q" "ow_enqueued W \<subseteq> E"
    "dead_key ` set (mo_dead (ow_outbox W)) \<subseteq> dead_key ` set (mo_dead ob)" "list_all refused_or_worn (mo_dead ob)"
  shows "outbox_ok (W\<lparr>ow_outbox := ob, ow_enqueued := E\<rparr>)"
  using assms(2,3,8) assms(5)[OF outbox_okD(4)[OF assms(1)]] subsetD[OF assms(6) outbox_okD(5)[OF assms(1)]]
    subsetD[OF assms(7) outbox_okD(6)[OF assms(1)]]
  by (simp add: outbox_ok_defs assms(4))

lemma set_drain_split: "set_drain w pc ob W = set_drain w pc ob (W\<lparr>ow_outbox := ob\<rparr>)"
  by (simp add: set_drain_def)

text \<open>Moving a drain on.\<close>

lemma set_drain_ok:
  assumes "outbox_ok W" "\<And>p. snapshot pc = Some p \<Longrightarrow> copies_agree (ow_outbox W) p \<and> event_key p \<in> ow_enqueued W"
    "\<And>n p. pc = DrainBurying n p \<Longrightarrow> event_key p \<in> dead_key ` set (mo_dead (ow_outbox W))"
  shows "outbox_ok (set_drain w pc (ow_outbox W) W)"
  using assms by (auto simp: outbox_ok_defs set_drain_def)

text \<open>Changing documents without touching what they identify.\<close>

definition keeps_key :: "('e queued_event \<Rightarrow> 'e queued_event) \<Rightarrow> bool" where
  "keeps_key g \<longleftrightarrow> (\<forall>q. qe_id (g q) = qe_id q \<and> event_key (g q) = event_key q)"

lemma copies_agree_alt:
  "copies_agree ob p \<longleftrightarrow> qe_id p < mo_next_id ob \<and>
     (\<forall>x\<in>set (map (\<lambda>q. (qe_id q, event_key q)) (mo_pending ob)). fst x = qe_id p \<longrightarrow> snd x = event_key p)"
  by (auto simp: copies_agree_def)

lemma keeps_key_event_id: "keeps_key g \<Longrightarrow> qe_event_id (g q) = qe_event_id q"
  unfolding keeps_key_def event_key_def by simp

lemma amend_ok:
  fixes W :: "'e outbox_world" and P :: "'e queued_event \<Rightarrow> bool"
  assumes "outbox_ok W" "keeps_key g"
  defines "ob \<equiv> (ow_outbox W)\<lparr>mo_pending := update_where P g (mo_pending (ow_outbox W))\<rparr>"
  shows "outbox_ok (W\<lparr>ow_outbox := ob\<rparr>)"
proof -
  let ?ps = "mo_pending (ow_outbox W)"
  have "map event_key (update_where P g ?ps) = map event_key ?ps"
    using assms(2) by (intro map_update_where) (simp add: keeps_key_def)
  then have keys: "event_key ` set (update_where P g ?ps) = event_key ` set ?ps" by (metis set_map)
  have ids: "map qe_event_id (update_where P g ?ps) = map qe_event_id ?ps"
    using assms(2) by (simp add: map_update_where keeps_key_event_id)
  have agree: "copies_agree ob p = copies_agree (ow_outbox W) p" for p
  proof -
    have "map (\<lambda>q. (qe_id q, event_key q)) (update_where P g ?ps) = map (\<lambda>q. (qe_id q, event_key q)) ?ps"
      using assms(2) by (intro map_update_where) (simp add: keeps_key_def)
    moreover have "mo_pending ob = update_where P g ?ps" "mo_next_id ob = mo_next_id (ow_outbox W)" by (simp_all add: ob_def)
    ultimately show ?thesis by (simp only: copies_agree_alt)
  qed
  have "copies_agree (ow_outbox W) (g q)" if "copies_agree (ow_outbox W) q" for q
    using that assms(2) by (auto simp: copies_agree_def keeps_key_def)
  then have all: "copies_agree ob q" if "q \<in> set (update_where P g ?ps)" for q
    unfolding agree using that outbox_okD(2)[OF assms(1)] by (auto simp: in_update_where)
  have "outbox_ok (W\<lparr>ow_outbox := ob, ow_enqueued := ow_enqueued W\<rparr>)"
  proof (rule outbox_amended[OF assms(1)])
    show "ow_enqueued W = event_key ` set (mo_pending ob) \<union> dead_key ` set (mo_dead ob) \<union> ow_accepted W"
      using outbox_okD(3)[OF assms(1)] by (simp add: ob_def keys)
    show "copies_agree ob q" if "q \<in> set (mo_pending ob)" for q using all that by (simp add: ob_def)
    show "copies_agree ob q" if "copies_agree (ow_outbox W) q" for q using that by (simp only: agree)
  qed (use outbox_okD(1,7)[OF assms(1)] in \<open>simp_all add: ids ob_def\<close>)
  then show ?thesis by simp
qed

lemma absorb: "P \<subseteq> insert x Q \<Longrightarrow> Q \<subseteq> P \<Longrightarrow> x \<in> A \<union> B \<Longrightarrow> P \<union> A \<union> B = Q \<union> A \<union> B"
  by blast

lemma release_ok:
  assumes "outbox_ok W" "copies_agree (ow_outbox W) p"
    "event_key p \<in> dead_key ` set (mo_dead (ow_outbox W)) \<union> ow_accepted W"
  shows "outbox_ok (W\<lparr>ow_outbox := release_event (qe_id p) (ow_outbox W)\<rparr>)"
proof -
  let ?ob = "ow_outbox W"
  have agree: "copies_agree (release_event i ?ob) q" if "copies_agree ?ob q" for i q
    using that by (auto simp: copies_agree_def release_event_def)
  have "event_key q = event_key p" if "q \<in> set (mo_pending ?ob)" "qe_id q = qe_id p" for q
    using assms(2) that by (simp add: copies_agree_def)
  then have "event_key ` set (mo_pending ?ob) \<subseteq> insert (event_key p) (event_key ` set (mo_pending (release_event (qe_id p) ?ob)))"
    by (auto simp: release_event_def)
  moreover have "event_key ` set (mo_pending (release_event (qe_id p) ?ob)) \<subseteq> event_key ` set (mo_pending ?ob)"
    by (auto simp: release_event_def)
  ultimately have E: "ow_enqueued W = event_key ` set (mo_pending (release_event (qe_id p) ?ob)) \<union> dead_key ` set (mo_dead ?ob) \<union> ow_accepted W"
    unfolding outbox_okD(3)[OF assms(1)] by (rule absorb[OF _ _ assms(3)])
  have pend: "mo_pending (release_event (qe_id p) ?ob) = filter (\<lambda>q. qe_id q \<noteq> qe_id p) (mo_pending ?ob)"
    and dead: "mo_dead (release_event (qe_id p) ?ob) = mo_dead ?ob" by (simp_all add: release_event_def)
  have "outbox_ok (W\<lparr>ow_outbox := release_event (qe_id p) ?ob, ow_enqueued := ow_enqueued W\<rparr>)"
  proof (rule outbox_amended[OF assms(1)])
    show "ow_enqueued W = event_key ` set (mo_pending (release_event (qe_id p) ?ob)) \<union> dead_key ` set (mo_dead (release_event (qe_id p) ?ob)) \<union> ow_accepted W"
      unfolding dead by (rule E)
    show "copies_agree (release_event (qe_id p) ?ob) q" if "q \<in> set (mo_pending (release_event (qe_id p) ?ob))" for q
      using agree outbox_okD(2)[OF assms(1), of q] that by (simp add: pend)
  qed (use outbox_okD(1,7)[OF assms(1)] agree in \<open>simp_all add: pend dead distinct_map_filter\<close>)
  then show ?thesis by simp
qed

lemma claim_ok:
  assumes "outbox_ok W" "claim_event now (ow_outbox W) = (Some p, ob)"
  shows "outbox_ok (W\<lparr>ow_outbox := ob\<rparr>)" "copies_agree ob p" "event_key p \<in> ow_enqueued W"
proof -
  obtain q qs where q: "order_by qe_next_attempt_at (filter (claimable now) (mo_pending (ow_outbox W))) = q # qs"
    using assms(2) by (auto simp: claim_event_def split: list.splits)
  have mem: "q \<in> set (mo_pending (ow_outbox W))"
  proof -
    have "q \<in> set (order_by qe_next_attempt_at (filter (claimable now) (mo_pending (ow_outbox W))))" unfolding q by simp
    then show ?thesis by simp
  qed
  let ?g = "\<lambda>r :: 'a queued_event. r\<lparr>qe_claimed_at := Some now\<rparr>"
  have g: "keeps_key ?g" by (simp add: keeps_key_def event_key_def)
  have p: "p = ?g q" and ob: "ob = (ow_outbox W)\<lparr>mo_pending := update_where (\<lambda>r. qe_id r = qe_id q) ?g (mo_pending (ow_outbox W))\<rparr>"
    using assms(2) q by (auto simp: claim_event_def)
  show ok: "outbox_ok (W\<lparr>ow_outbox := ob\<rparr>)" unfolding ob by (rule amend_ok[OF assms(1) g])
  have "p \<in> set (mo_pending ob)" using mem unfolding ob p by (auto simp: in_update_where)
  then show "copies_agree ob p" "event_key p \<in> ow_enqueued W"
    using outbox_okD(2)[OF ok, of p] outbox_okD(3)[OF ok] by simp_all
qed

lemma enqueue_ok:
  assumes "outbox_ok W" "enqueue_event now i e t (ow_outbox W) = Some ob"
  shows "outbox_ok (W\<lparr>ow_outbox := ob, ow_enqueued := insert (i, e) (ow_enqueued W)\<rparr>)"
proof -
  have agree: "copies_agree ob p" if "copies_agree (ow_outbox W) p" for p
    using that assms(2) by (auto simp: copies_agree_def enqueue_event_def split: if_splits)
  have new: "copies_agree ob q" if "q \<in> set (mo_pending ob) - set (mo_pending (ow_outbox W))" for q
  proof -
    have "\<forall>r\<in>set (mo_pending (ow_outbox W)). qe_id r < mo_next_id (ow_outbox W)"
      using assms(1) by (auto simp: outbox_ok_defs copies_agree_def)
    then show ?thesis using that assms(2)
      by (force simp: copies_agree_def enqueue_event_def event_key_def split: if_splits)
  qed
  have "event_key ` set (mo_pending ob) = insert (i, e) (event_key ` set (mo_pending (ow_outbox W)))" "mo_dead ob = mo_dead (ow_outbox W)"
    using assms(2) by (auto simp: enqueue_event_def event_key_def split: if_splits)
  moreover have "distinct (map qe_event_id (mo_pending ob))"
    using assms by (auto simp: enqueue_event_def outbox_ok_defs split: if_splits)
  moreover have "copies_agree ob q" if "q \<in> set (mo_pending ob)" for q
    using new that agree[OF outbox_okD(2)[OF assms(1)], of q] by blast
  ultimately show ?thesis
    using outbox_okD(7)[OF assms(1)] agree
    by (intro outbox_amended[OF assms(1)]) (simp_all add: outbox_okD(3)[OF assms(1)] subset_insertI2 le_supI1)
qed

lemma bury_ok:
  fixes W :: "'e outbox_world" and now :: datetime
  assumes "outbox_ok W" "event_key p \<in> ow_enqueued W" "status \<in> REFUSED_STATUSES \<or> UNKNOWN_STATUS_ATTEMPTS \<le> qe_attempts p + 1"
  defines "ob \<equiv> insert_dead now p status (ow_outbox W)"
  shows "outbox_ok (W\<lparr>ow_outbox := ob\<rparr>)" "event_key p \<in> dead_key ` set (mo_dead ob)"
    "\<And>q. copies_agree ob q \<longleftrightarrow> copies_agree (ow_outbox W) q"
proof -
  show agree: "copies_agree ob q \<longleftrightarrow> copies_agree (ow_outbox W) q" for q
    by (simp add: ob_def insert_dead_def copies_agree_def)
  have dead: "dead_key ` set (mo_dead ob) = insert (event_key p) (dead_key ` set (mo_dead (ow_outbox W)))" "mo_pending ob = mo_pending (ow_outbox W)"
    by (auto simp: ob_def insert_dead_def dead_key_def event_key_def)
  then show "event_key p \<in> dead_key ` set (mo_dead ob)" by simp
  have "list_all refused_or_worn (mo_dead ob)"
    using assms(1,3) by (auto simp: outbox_ok_defs ob_def insert_dead_def refused_or_worn_def)
  moreover have "ow_enqueued W = event_key ` set (mo_pending ob) \<union> dead_key ` set (mo_dead ob) \<union> ow_accepted W"
    using outbox_okD(3)[OF assms(1)] assms(2) by (auto simp: dead)
  ultimately have "outbox_ok (W\<lparr>ow_outbox := ob, ow_enqueued := ow_enqueued W\<rparr>)"
    using outbox_okD(1,2)[OF assms(1)] by (intro outbox_amended[OF assms(1)]) (auto simp: agree dead)
  then show "outbox_ok (W\<lparr>ow_outbox := ob\<rparr>)" by simp
qed

lemma settle_bury: "settle reply n = Bury st \<Longrightarrow> st \<in> REFUSED_STATUSES \<or> UNKNOWN_STATUS_ATTEMPTS \<le> n + 1"
  by (auto simp: settle_def split: option.splits if_splits)

lemma settle_release: "settle reply n = Release \<Longrightarrow> reply = Some OUTCOME_ACCEPTED"
  by (auto simp: settle_def split: option.splits if_splits)

lemma drain_snapshot:
  "outbox_ok W \<Longrightarrow> snapshot (ow_drains W w) = Some p \<Longrightarrow> copies_agree (ow_outbox W) p \<and> event_key p \<in> ow_enqueued W"
  using outbox_okD(4,5) by blast

lemma resolve_ok:
  assumes "outbox_ok W" "ow_drains W w = DrainSending n p" "reply \<noteq> Some OUTCOME_ACCEPTED \<or> event_key p \<in> ow_accepted W"
    "resolve_claimed now jitter reply n p (ow_outbox W) = (pc, ob)"
  shows "outbox_ok (set_drain w pc ob W)"
proof -
  have p: "copies_agree (ow_outbox W) p" "event_key p \<in> ow_enqueued W"
    using drain_snapshot[OF assms(1), of w p] assms(2) by simp_all
  let ?W = "W\<lparr>ow_outbox := ob\<rparr>"
  have "outbox_ok (set_drain w pc (ow_outbox ?W) ?W)"
  proof (cases "settle reply (qe_attempts p)")
    case Postpone
    let ?g = "\<lambda>q :: 'a queued_event. q\<lparr>qe_attempts := qe_attempts q + 1,
      qe_next_attempt_at := retry_at now jitter (qe_attempts p), qe_claimed_at := None\<rparr>"
    have "keeps_key ?g" by (simp add: keeps_key_def event_key_def)
    from amend_ok[OF assms(1) this, of "\<lambda>q. qe_id q = qe_id p"] have "outbox_ok ?W"
      using assms(4) Postpone by (auto simp: resolve_claimed_def postpone_event_def)
    then show ?thesis using assms(4) Postpone by (intro set_drain_ok) (auto simp: resolve_claimed_def)
  next
    case Release
    then have "event_key p \<in> ow_accepted W" using assms(3) settle_release by blast
    then have "outbox_ok ?W" using release_ok[OF assms(1) p(1)] assms(4) Release by (auto simp: resolve_claimed_def)
    then show ?thesis using assms(4) Release by (intro set_drain_ok) (auto simp: resolve_claimed_def batch_next_def)
  next
    case (Bury status)
    note b = bury_ok[OF assms(1) p(2) settle_bury[OF Bury], of now]
    have "ob = insert_dead now p status (ow_outbox W)" "pc = DrainBurying n p"
      using assms(4) Bury by (simp_all add: resolve_claimed_def)
    then show ?thesis using b p by (intro set_drain_ok) auto
  qed
  then show ?thesis unfolding set_drain_split[of w pc ob W] by simp
qed

lemma outbox_step_ok:
  assumes "outbox_ok W" "outbox_step W W'"
  shows "outbox_ok W'"
  using assms(2)
proof cases
  case (enqueues now i e t ob)
  then show ?thesis using enqueue_ok[OF assms(1)] by simp
next
  case (claims w n now p ob)
  let ?W = "W\<lparr>ow_outbox := ob\<rparr>"
  have "outbox_ok (set_drain w (DrainSending n p) (ow_outbox ?W) ?W)"
    using claim_ok[OF assms(1) claims(3)] by (intro set_drain_ok) auto
  then show ?thesis unfolding claims(1) set_drain_split[of w "DrainSending n p" ob W] by simp
next
  case (rests w n now ob)
  then have "ob = ow_outbox W" by (auto simp: claim_event_def split: list.splits)
  then show ?thesis using set_drain_ok[OF assms(1), of "DrainIdle 0" w] rests(1) by simp
next
  case (arrives w n p)
  then show ?thesis using drain_snapshot[OF assms(1), of w p] assms(1) by (auto simp: outbox_ok_defs)
next
  case (resolves w n p reply now jitter pc ob)
  then show ?thesis using resolve_ok[OF assms(1)] by blast
next
  case (buries w n p)
  let ?ob = "release_event (qe_id p) (ow_outbox W)"
  let ?W = "W\<lparr>ow_outbox := ?ob\<rparr>"
  have "event_key p \<in> dead_key ` set (mo_dead (ow_outbox W))" using assms(1) buries(2) by (simp add: outbox_ok_defs)
  moreover have "copies_agree (ow_outbox W) p" using drain_snapshot[OF assms(1), of w p] buries(2) by simp
  ultimately have "outbox_ok ?W" using release_ok[OF assms(1)] by blast
  then have "outbox_ok (set_drain w (batch_next n) (ow_outbox ?W) ?W)"
    by (intro set_drain_ok) (auto simp: batch_next_def)
  then show ?thesis unfolding buries(1) set_drain_split[of w "batch_next n" ?ob W] by simp
next
  case (dies w)
  then show ?thesis using set_drain_ok[OF assms(1), of "DrainIdle 0" w] by simp
qed

lemma outbox_reach_ok: "outbox_reach W \<Longrightarrow> outbox_ok W"
proof (induction rule: outbox_reach.induct)
  case outbox_empty
  show ?case by (simp add: outbox_ok_defs empty_outbox_world_def)
qed (rule outbox_step_ok)

text \<open>An event whose drain died is claimed again: with an event that is due and whose claim, if any,
  is older than the lease, a claim does not come back empty.\<close>

lemma due_event_claimed:
  "q \<in> set (mo_pending ob) \<Longrightarrow> claimable now q \<Longrightarrow> \<exists>p ob'. claim_event now ob = (Some p, ob') \<and> qe_next_attempt_at p \<le> qe_next_attempt_at q"
proof -
  assume q: "q \<in> set (mo_pending ob)" "claimable now q"
  let ?xs = "order_by qe_next_attempt_at (filter (claimable now) (mo_pending ob))"
  have "q \<in> set ?xs" using q by simp
  then obtain x xs where x: "?xs = x # xs" by (cases ?xs) auto
  have "sorted (map qe_next_attempt_at (x # xs))" unfolding x[symmetric] by (rule sorted_order_by)
  then have "qe_next_attempt_at x \<le> qe_next_attempt_at q" using \<open>q \<in> set ?xs\<close> by (auto simp: x)
  then show ?thesis using x by (simp add: claim_event_def)
qed

text \<open>C37: The outbox of the alert service loses no audit event although it has no transactions.
  Whatever the interleaving of any number of drains that may die between any two operations and
  claim each other's events when a lease runs out, and whatever is answered or lost: the events ever
  queued are at all times exactly those that are still pending, in the dead letters or accepted by
  the audit service; the pending ones have different ids; a dead letter was refused for good or
  tried twelve times; and an event that is due is claimed again once the lease of a drain that
  died has passed.\<close>

theorem outbox_loses_no_event:
  assumes "outbox_reach W"
  defines "ob \<equiv> ow_outbox W"
  shows "ow_enqueued W = event_key ` set (mo_pending ob) \<union> dead_key ` set (mo_dead ob) \<union> ow_accepted W \<and>
    distinct (map qe_event_id (mo_pending ob)) \<and>
    list_all (\<lambda>d. be_last_status d \<in> REFUSED_STATUSES \<or> 12 \<le> be_attempts d) (mo_dead ob) \<and>
    (\<forall>q now. q \<in> set (mo_pending ob) \<and> qe_next_attempt_at q \<le> now \<and> (\<forall>t. qe_claimed_at q = Some t \<longrightarrow> t \<le> now - CLAIM_LEASE)
       \<longrightarrow> (\<exists>p ob'. claim_event now ob = (Some p, ob')))"
proof -
  have ok: "outbox_ok W" by (rule outbox_reach_ok) (rule assms(1))
  have "refused_or_worn = (\<lambda>d. be_last_status d \<in> REFUSED_STATUSES \<or> 12 \<le> be_attempts (d :: 'a buried_event))"
    by (simp add: refused_or_worn_def fun_eq_iff UNKNOWN_STATUS_ATTEMPTS_def)
  moreover have "\<exists>p ob'. claim_event now ob = (Some p, ob')"
    if "q \<in> set (mo_pending ob)" "qe_next_attempt_at q \<le> now" "\<forall>t. qe_claimed_at q = Some t \<longrightarrow> t \<le> now - CLAIM_LEASE" for q now
  proof -
    have "claimable now q" using that(2,3) by (auto simp: claimable_def split: option.split)
    then show ?thesis using due_event_claimed[OF that(1)] by blast
  qed
  ultimately show ?thesis using ok by (auto simp: outbox_ok_defs ob_def)
qed

text \<open>A drain dies with its claim on the one event; after the lease another one claims it and
  buries it.\<close>

definition stale_outbox :: "string outbox_world" where
  "stale_outbox = \<lparr>ow_outbox = \<lparr>mo_pending = [\<lparr>qe_id = 0, qe_event_id = 7, qe_event = ''e'', qe_occurred_at = 0, qe_attempts = 0,
       qe_next_attempt_at = 0, qe_created_at = 0, qe_claimed_at = Some 0\<rparr>], mo_dead = [], mo_next_id = 1\<rparr>,
     ow_drains = (\<lambda>_. DrainIdle 0), ow_enqueued = {(7, ''e'')}, ow_accepted = {}\<rparr>"

lemma stale_outbox_reached: "outbox_reach stale_outbox"
proof -
  let ?q = "\<lparr>qe_id = 0, qe_event_id = 7, qe_event = ''e'', qe_occurred_at = 0, qe_attempts = 0, qe_next_attempt_at = 0,
    qe_created_at = 0, qe_claimed_at = None\<rparr>"
  let ?ob = "\<lparr>mo_pending = [?q], mo_dead = [], mo_next_id = 1\<rparr>"
  let ?W = "empty_outbox_world\<lparr>ow_outbox := ?ob, ow_enqueued := insert (7, ''e'') (ow_enqueued empty_outbox_world)\<rparr>"
  have 1: "outbox_reach ?W"
    by (rule outbox_stepped[OF outbox_empty], rule outbox_step.enqueues[where now = 0 and t = 0])
      (simp add: enqueue_event_def empty_outbox_world_def)
  let ?ob' = "?ob\<lparr>mo_pending := [?q\<lparr>qe_claimed_at := Some 0\<rparr>]\<rparr>"
  have 2: "outbox_reach (set_drain 1 (DrainSending 0 (?q\<lparr>qe_claimed_at := Some 0\<rparr>)) ?ob' ?W)"
    by (rule outbox_stepped[OF 1], rule outbox_step.claims[where now = 0])
      (simp_all add: claim_event_def claimable_def order_by_def empty_outbox_world_def)
  have "stale_outbox = set_drain 1 (DrainIdle 0) ?ob' (set_drain 1 (DrainSending 0 (?q\<lparr>qe_claimed_at := Some 0\<rparr>)) ?ob' ?W)"
    by (simp add: stale_outbox_def set_drain_def empty_outbox_world_def fun_eq_iff)
  then show ?thesis using outbox_stepped[OF 2 outbox_step.dies[of _ 1]] by (simp add: set_drain_def)
qed

lemma outbox_loses_no_event_witness:
  "(\<exists>p ob'. claim_event (60 * 1000000) (ow_outbox stale_outbox) = (Some p, ob')) \<and>
   ow_enqueued stale_outbox = event_key ` set (mo_pending (ow_outbox stale_outbox)) \<union>
     dead_key ` set (mo_dead (ow_outbox stale_outbox)) \<union> ow_accepted stale_outbox"
proof -
  define q where "q = hd (mo_pending (ow_outbox stale_outbox))"
  have q: "q \<in> set (mo_pending (ow_outbox stale_outbox)) \<and> qe_next_attempt_at q \<le> 60 * 1000000 \<and>
      (\<forall>t. qe_claimed_at q = Some t \<longrightarrow> t \<le> 60 * 1000000 - CLAIM_LEASE)"
    by (simp add: q_def stale_outbox_def CLAIM_LEASE_def)
  note c = outbox_loses_no_event[OF stale_outbox_reached]
  have "\<exists>p ob'. claim_event (60 * 1000000) (ow_outbox stale_outbox) = (Some p, ob')"
    by (rule mp[OF spec[OF spec[OF conjunct2[OF conjunct2[OF conjunct2[OF c]]]]] q])
  then show ?thesis using conjunct1[OF c] by blast
qed

end
