(* ===== verification/ApiIdempotency.thy ===== *)
theory ApiIdempotency
  imports Prelude
begin

text \<open>
  Idempotency keys (\<^verbatim>\<open>services/api/app/core/idempotency.py\<close>): what Redis holds under a key, the
  claim, the replay, the stored response and the release, and the interleavings of requests that
  use them.  Times are milliseconds of the Redis clock; the hash of a body and the random token of
  a claim are numbers, and the JSON written for an entry is the entry itself.
\<close>

section \<open>Entries\<close>

datatype 'r idem_entry = IdemPending nat nat | IdemDone 'r nat

type_synonym 'r idem_store = "string \<Rightarrow> ('r idem_entry \<times> int) option"

datatype idem_error = RequestInProgress | KeyReused

definition TTL_SECONDS :: int where "TTL_SECONDS = 60 * 60 * 24"

definition ttl_ms :: int where "ttl_ms = TTL_SECONDS * 1000"

definition idem_key :: "string \<Rightarrow> string \<Rightarrow> string \<Rightarrow> string" where
  "idem_key meth path header = ''idem:'' @ meth @ '':'' @ path @ '':'' @ header"

text \<open>An entry is gone when its time to live has passed.\<close>

definition idem_get :: "int \<Rightarrow> string \<Rightarrow> 'r idem_store \<Rightarrow> 'r idem_entry option" where
  "idem_get now k S = (case S k of None \<Rightarrow> None | Some (e, until) \<Rightarrow> if now < until then Some e else None)"

definition idem_claim :: "int \<Rightarrow> int \<Rightarrow> string \<Rightarrow> nat \<Rightarrow> nat \<Rightarrow> 'r idem_store \<Rightarrow> bool \<times> 'r idem_store" where
  "idem_claim pending now k hash token S =
     (if idem_get now k S = None then (True, S(k \<mapsto> (IdemPending hash token, now + pending))) else (False, S))"

definition idem_replay :: "nat \<Rightarrow> 'r idem_entry option \<Rightarrow> idem_error + 'r" where
  "idem_replay hash raw = (case raw of None \<Rightarrow> Inl RequestInProgress
     | Some (IdemPending h _) \<Rightarrow> if h \<noteq> hash then Inl KeyReused else Inl RequestInProgress
     | Some (IdemDone body h) \<Rightarrow> if h \<noteq> hash then Inl KeyReused else Inr body)"

definition idem_save :: "int \<Rightarrow> string \<Rightarrow> 'r \<Rightarrow> nat \<Rightarrow> 'r idem_store \<Rightarrow> 'r idem_store" where
  "idem_save now k body hash S = S(k \<mapsto> (IdemDone body hash, now + ttl_ms))"

definition idem_release :: "int \<Rightarrow> string \<Rightarrow> nat \<Rightarrow> nat \<Rightarrow> 'r idem_store \<Rightarrow> 'r idem_store" where
  "idem_release now k hash token S =
     (case idem_get now k S of Some (IdemPending h t) \<Rightarrow> if h = hash \<and> t = token then S(k := None) else S | _ \<Rightarrow> S)"

section \<open>Requests\<close>

text \<open>A request has claimed its key at some time and runs its handler, waits for the entry of another
  one, or has ended: with a response of its own, with an answer, or without.\<close>

datatype 'r idem_pc = IdemReady | IdemRunning int | IdemAsking | IdemStored | IdemAnswered "idem_error + 'r" | IdemFailed

record 'r idem_world =
  iw_now :: int
  iw_store :: "'r idem_store"
  iw_pc :: "nat \<Rightarrow> 'r idem_pc"
  iw_runs :: "(int \<times> nat \<times> 'r) list"

text \<open>The requests \<open>r\<close> have the key \<open>key r\<close> and the hash \<open>hash r\<close>, and \<open>r\<close> is also the token of its
  claim.  A handler that succeeds does so before its claim runs out; one that fails or dies may do
  so at any time.  \<open>iw_runs\<close> lists the responses with the time they were stored.\<close>

inductive idem_step :: "int \<Rightarrow> (nat \<Rightarrow> string) \<Rightarrow> (nat \<Rightarrow> nat) \<Rightarrow> 'r idem_world \<Rightarrow> 'r idem_world \<Rightarrow> bool" for pending key hash where
  passes: "iw_now W \<le> t \<Longrightarrow> idem_step pending key hash W (W\<lparr>iw_now := t\<rparr>)"
| claims: "iw_pc W r = IdemReady \<Longrightarrow> idem_claim pending (iw_now W) (key r) (hash r) r (iw_store W) = (True, S) \<Longrightarrow>
    idem_step pending key hash W (W\<lparr>iw_store := S, iw_pc := (iw_pc W)(r := IdemRunning (iw_now W))\<rparr>)"
| finds: "iw_pc W r = IdemReady \<Longrightarrow> idem_claim pending (iw_now W) (key r) (hash r) r (iw_store W) = (False, S) \<Longrightarrow>
    idem_step pending key hash W (W\<lparr>iw_store := S, iw_pc := (iw_pc W)(r := IdemAsking)\<rparr>)"
| answers: "iw_pc W r = IdemAsking \<Longrightarrow>
    idem_step pending key hash W (W\<lparr>iw_pc := (iw_pc W)(r := IdemAnswered (idem_replay (hash r) (idem_get (iw_now W) (key r) (iw_store W))))\<rparr>)"
| saves: "iw_pc W r = IdemRunning t \<Longrightarrow> iw_now W < t + pending \<Longrightarrow>
    idem_step pending key hash W (W\<lparr>iw_store := idem_save (iw_now W) (key r) body (hash r) (iw_store W),
      iw_pc := (iw_pc W)(r := IdemStored), iw_runs := iw_runs W @ [(iw_now W, r, body)]\<rparr>)"
| fails: "iw_pc W r = IdemRunning t \<Longrightarrow>
    idem_step pending key hash W (W\<lparr>iw_store := idem_release (iw_now W) (key r) (hash r) r (iw_store W),
      iw_pc := (iw_pc W)(r := IdemFailed)\<rparr>)"
| dies: "iw_pc W r = IdemRunning t \<Longrightarrow> idem_step pending key hash W (W\<lparr>iw_pc := (iw_pc W)(r := IdemFailed)\<rparr>)"

definition idem_start :: "int \<Rightarrow> 'r idem_world" where
  "idem_start t = \<lparr>iw_now = t, iw_store = Map.empty, iw_pc = (\<lambda>_. IdemReady), iw_runs = []\<rparr>"

inductive idem_reach :: "int \<Rightarrow> (nat \<Rightarrow> string) \<Rightarrow> (nat \<Rightarrow> nat) \<Rightarrow> 'r idem_world \<Rightarrow> bool" for pending key hash where
  idem_started: "idem_reach pending key hash (idem_start t)"
| idem_stepped: "idem_reach pending key hash W \<Longrightarrow> idem_step pending key hash W W' \<Longrightarrow> idem_reach pending key hash W'"

section \<open>The invariant\<close>

text \<open>A request whose claim has not run out holds the entry; a response is found until it expires;
  answers come from responses.\<close>

definition idem_ok :: "int \<Rightarrow> (nat \<Rightarrow> string) \<Rightarrow> (nat \<Rightarrow> nat) \<Rightarrow> 'r idem_world \<Rightarrow> bool" where
  "idem_ok pending key hash W \<longleftrightarrow>
     (\<forall>r t. iw_pc W r = IdemRunning t \<longrightarrow> t \<le> iw_now W) \<and>
     (\<forall>r t. iw_pc W r = IdemRunning t \<longrightarrow> iw_now W < t + pending \<longrightarrow>
        iw_store W (key r) = Some (IdemPending (hash r) r, t + pending)) \<and>
     (\<forall>t r body. (t, r, body) \<in> set (iw_runs W) \<longrightarrow> t \<le> iw_now W) \<and>
     (\<forall>t r body. (t, r, body) \<in> set (iw_runs W) \<longrightarrow> iw_now W < t + ttl_ms \<longrightarrow>
        iw_store W (key r) = Some (IdemDone body (hash r), t + ttl_ms)) \<and>
     (\<forall>k body h until. iw_store W k = Some (IdemDone body h, until) \<longrightarrow>
        (\<exists>t r. (t, r, body) \<in> set (iw_runs W) \<and> key r = k \<and> hash r = h)) \<and>
     (\<forall>r body. iw_pc W r = IdemAnswered (Inr body) \<longrightarrow>
        (\<exists>t s. (t, s, body) \<in> set (iw_runs W) \<and> key s = key r \<and> hash s = hash r)) \<and>
     sorted_wrt (\<lambda>(t, r, _) (u, s, _). key r = key s \<longrightarrow> t + ttl_ms \<le> u) (iw_runs W)"

lemma idem_okD:
  assumes "idem_ok pending key hash W"
  shows "iw_pc W r = IdemRunning t \<Longrightarrow> t \<le> iw_now W"
    "iw_pc W r = IdemRunning t \<Longrightarrow> iw_now W < t + pending \<Longrightarrow> iw_store W (key r) = Some (IdemPending (hash r) r, t + pending)"
    "(u, s, body) \<in> set (iw_runs W) \<Longrightarrow> u \<le> iw_now W"
    "(u, s, body) \<in> set (iw_runs W) \<Longrightarrow> iw_now W < u + ttl_ms \<Longrightarrow> iw_store W (key s) = Some (IdemDone body (hash s), u + ttl_ms)"
    "iw_store W k = Some (IdemDone b h, until) \<Longrightarrow> \<exists>t r. (t, r, b) \<in> set (iw_runs W) \<and> key r = k \<and> hash r = h"
    "iw_pc W q = IdemAnswered (Inr a) \<Longrightarrow> \<exists>t s. (t, s, a) \<in> set (iw_runs W) \<and> key s = key q \<and> hash s = hash q"
    "sorted_wrt (\<lambda>(t, r, _) (u, s, _). key r = key s \<longrightarrow> t + ttl_ms \<le> u) (iw_runs W)"
  using assms unfolding idem_ok_def by ((simp; fail) | blast)+

lemma idem_okI:
  assumes "\<And>r t. iw_pc W r = IdemRunning t \<Longrightarrow> t \<le> iw_now W"
    "\<And>r t. iw_pc W r = IdemRunning t \<Longrightarrow> iw_now W < t + pending \<Longrightarrow> iw_store W (key r) = Some (IdemPending (hash r) r, t + pending)"
    "\<And>t r body. (t, r, body) \<in> set (iw_runs W) \<Longrightarrow> t \<le> iw_now W"
    "\<And>t r body. (t, r, body) \<in> set (iw_runs W) \<Longrightarrow> iw_now W < t + ttl_ms \<Longrightarrow> iw_store W (key r) = Some (IdemDone body (hash r), t + ttl_ms)"
    "\<And>k body h until. iw_store W k = Some (IdemDone body h, until) \<Longrightarrow> \<exists>t r. (t, r, body) \<in> set (iw_runs W) \<and> key r = k \<and> hash r = h"
    "\<And>r body. iw_pc W r = IdemAnswered (Inr body) \<Longrightarrow> \<exists>t s. (t, s, body) \<in> set (iw_runs W) \<and> key s = key r \<and> hash s = hash r"
    "sorted_wrt (\<lambda>(t, r, _) (u, s, _). key r = key s \<longrightarrow> t + ttl_ms \<le> u) (iw_runs W)"
  shows "idem_ok pending key hash W"
  unfolding idem_ok_def
proof (intro conjI allI impI)
qed (erule (1) assms(2) assms(4) | erule assms(1,3,5,6) | rule assms(7))+

text \<open>A live entry is not overwritten by a claim, and a request that may still save finds its own.\<close>

lemma idem_get_live: "idem_get now k S = None \<longleftrightarrow> (\<forall>e until. S k = Some (e, until) \<longrightarrow> until \<le> now)"
  by (auto simp: idem_get_def split: option.splits)

lemma idem_get_Some: "idem_get now k S = Some e \<longleftrightarrow> (\<exists>until. S k = Some (e, until) \<and> now < until)"
  by (auto simp: idem_get_def split: option.splits)

lemma claims_ok:
  assumes ok: "idem_ok pending key hash W" and "0 < pending" and free: "idem_get (iw_now W) (key r) (iw_store W) = None"
    and ready: "iw_pc W r = IdemReady"
  shows "idem_ok pending key hash (W\<lparr>iw_store := (iw_store W)(key r \<mapsto> (IdemPending (hash r) r, iw_now W + pending)),
    iw_pc := (iw_pc W)(r := IdemRunning (iw_now W))\<rparr>)"
proof -
  have dead: "until \<le> iw_now W" if "iw_store W (key r) = Some (e, until)" for e until
    using free that by (simp add: idem_get_live)
  have other: "key s \<noteq> key r" if "iw_pc W s = IdemRunning t" "iw_now W < t + pending" for s t
    using idem_okD(2)[OF ok that] dead that(2) by fastforce
  have past: "key s \<noteq> key r" if "(u, s, b) \<in> set (iw_runs W)" "iw_now W < u + ttl_ms" for u s b
    using idem_okD(4)[OF ok that] dead that(2) by fastforce
  have "s \<noteq> r" if "iw_pc W s = IdemAnswered a" for s a using that ready by auto
  then show ?thesis
    using idem_okD[OF ok] other past
    by (auto simp: idem_ok_def)
qed

lemma saves_ok:
  assumes ok: "idem_ok pending key hash W" and run: "iw_pc W r = IdemRunning t" "iw_now W < t + pending"
  shows "idem_ok pending key hash (W\<lparr>iw_store := idem_save (iw_now W) (key r) body (hash r) (iw_store W),
    iw_pc := (iw_pc W)(r := IdemStored), iw_runs := iw_runs W @ [(iw_now W, r, body)]\<rparr>)"
proof -
  have mine: "iw_store W (key r) = Some (IdemPending (hash r) r, t + pending)" using idem_okD(2)[OF ok run] .
  have other: "key s \<noteq> key r" if "iw_pc W s = IdemRunning u" "iw_now W < u + pending" "s \<noteq> r" for s u
    using idem_okD(2)[OF ok that(1,2)] mine that(3) by auto
  have past: "u + ttl_ms \<le> iw_now W \<or> key s \<noteq> key r" if "(u, s, b) \<in> set (iw_runs W)" for u s b
    using idem_okD(4)[OF ok that] mine by (cases "iw_now W < u + ttl_ms") auto
  have "sorted_wrt (\<lambda>(t, r, _) (u, s, _). key r = key s \<longrightarrow> t + ttl_ms \<le> u) (iw_runs W @ [(iw_now W, r, body)])"
    using idem_okD(7)[OF ok] past by (auto simp: sorted_wrt_append)
  then show ?thesis
  proof (intro idem_okI, goal_cases)
    case (2 s u) then show ?case using idem_okD(2)[OF ok, of s u] other[of s u] by (cases "s = r") (auto simp: idem_save_def)
  next
    case (4 u s b) then show ?case using idem_okD(4)[OF ok, of u s b] past[of u s b] by (auto simp: idem_save_def)
  next
    case (5 k b h until)
    show ?case
    proof (cases "k = key r")
      case False
      then have "iw_store W k = Some (IdemDone b h, until)" using 5 by (simp add: idem_save_def)
      from idem_okD(5)[OF ok this] show ?thesis by auto
    qed (use 5 in \<open>auto simp: idem_save_def\<close>)
  next
    case (6 s b) then show ?case using idem_okD(6)[OF ok, of s b] by (auto split: if_splits)
  qed (use idem_okD(1,3)[OF ok] in \<open>auto split: if_splits\<close>)
qed

lemma release_store:
  "idem_release now i h r S k = S k \<or> k = i \<and> idem_release now i h r S k = None \<and>
     (\<exists>until. S k = Some (IdemPending h r, until))"
  by (auto simp: idem_release_def idem_get_Some split: option.splits idem_entry.splits)

lemma ends_ok:
  assumes ok: "idem_ok pending key hash W" and run: "iw_pc W r = IdemRunning t"
    and S: "\<forall>k. S k = iw_store W k \<or> k = key r \<and> S k = None \<and> (\<exists>until. iw_store W k = Some (IdemPending (hash r) r, until))"
  shows "idem_ok pending key hash (W\<lparr>iw_store := S, iw_pc := (iw_pc W)(r := IdemFailed)\<rparr>)"
proof -
  have running: "S (key s) = Some (IdemPending (hash s) s, u + pending)"
    if "iw_pc W s = IdemRunning u" "iw_now W < u + pending" "s \<noteq> r" for s u
    using idem_okD(2)[OF ok that(1,2)] S that(3) by (metis Pair_inject idem_entry.inject(1) option.inject)
  have past: "S (key s) = Some (IdemDone b (hash s), u + ttl_ms)"
    if "(u, s, b) \<in> set (iw_runs W)" "iw_now W < u + ttl_ms" for u s b
    using idem_okD(4)[OF ok that] S by (metis Pair_inject idem_entry.distinct(1) option.inject)
  have old: "iw_store W k = Some (IdemDone b h, until)" if "S k = Some (IdemDone b h, until)" for k b h until
    using that S by (metis option.distinct(1))
  show ?thesis
  proof (rule idem_okI, goal_cases)
    case (2 s u) then show ?case using running[of s u] by (auto split: if_splits)
  next
    case (4 u s b) then show ?case using past[of u s b] by simp
  next
    case (5 k b h until) then show ?case using idem_okD(5)[OF ok old[of k b h until]] by simp
  next
    case (6 s b) then show ?case using idem_okD(6)[OF ok, of s b] by (auto split: if_splits)
  qed (use idem_okD(1,3,7)[OF ok] in \<open>auto split: if_splits\<close>)
qed

lemma pc_ok:
  assumes ok: "idem_ok pending key hash W" and "\<forall>t. pc \<noteq> IdemRunning t"
    "\<And>body. pc = IdemAnswered (Inr body) \<Longrightarrow> \<exists>t s. (t, s, body) \<in> set (iw_runs W) \<and> key s = key r \<and> hash s = hash r"
  shows "idem_ok pending key hash (W\<lparr>iw_pc := (iw_pc W)(r := pc)\<rparr>)"
proof (rule idem_okI, goal_cases)
  case (2 s u) then show ?case using idem_okD(2)[OF ok, of s u] assms(2) by (auto split: if_splits)
next
  case (6 s b) then show ?case using idem_okD(6)[OF ok, of s b] assms(3)[of b] by (cases "s = r") auto
qed (use idem_okD(1,3,4,5,7)[OF ok] assms(2) in \<open>auto split: if_splits\<close>)

lemma idem_step_ok:
  assumes "0 < pending" "idem_ok pending key hash W" "idem_step pending key hash W W'"
  shows "idem_ok pending key hash W'"
  using assms(3)
proof cases
  case (passes t)
  show ?thesis unfolding passes(1)
  proof (rule idem_okI, goal_cases)
    case (1 r u) then show ?case using idem_okD(1)[OF assms(2), of r u] passes(2) by simp
  next
    case (2 r u) then show ?case using idem_okD(2)[OF assms(2), of r u] passes(2) by simp
  next
    case (3 u r b) then show ?case using idem_okD(3)[OF assms(2), of u r b] passes(2) by simp
  next
    case (4 u r b) then show ?case using idem_okD(4)[OF assms(2), of u r b] passes(2) by simp
  qed (use idem_okD(5-7)[OF assms(2)] in \<open>auto\<close>)
next
  case (claims r S)
  then have "idem_get (iw_now W) (key r) (iw_store W) = None" "S = (iw_store W)(key r \<mapsto> (IdemPending (hash r) r, iw_now W + pending))"
    by (auto simp: idem_claim_def split: if_splits)
  then show ?thesis using claims_ok[OF assms(2,1)] claims by simp
next
  case (finds r S)
  then have "S = iw_store W" by (auto simp: idem_claim_def split: if_splits)
  then show ?thesis using finds pc_ok[OF assms(2), of IdemAsking r] by simp
next
  case (answers r)
  have "\<exists>t s. (t, s, body) \<in> set (iw_runs W) \<and> key s = key r \<and> hash s = hash r"
    if "idem_replay (hash r) (idem_get (iw_now W) (key r) (iw_store W)) = Inr body" for body
  proof -
    have "\<exists>until. iw_store W (key r) = Some (IdemDone body (hash r), until)"
      using that by (auto simp: idem_replay_def idem_get_Some split: option.splits idem_entry.splits if_splits)
    then show ?thesis using idem_okD(5)[OF assms(2)] by blast
  qed
  then show ?thesis using answers
      pc_ok[OF assms(2), of "IdemAnswered (idem_replay (hash r) (idem_get (iw_now W) (key r) (iw_store W)))" r] by simp
next
  case (saves r t body)
  then show ?thesis using saves_ok[OF assms(2)] by simp
next
  case (fails r t)
  show ?thesis unfolding fails(1) by (rule ends_ok[OF assms(2) fails(2)]) (intro allI release_store)
next
  case (dies r t)
  have "idem_ok pending key hash (W\<lparr>iw_store := iw_store W, iw_pc := (iw_pc W)(r := IdemFailed)\<rparr>)"
    by (rule ends_ok[OF assms(2) dies(2)]) simp
  then show ?thesis using dies by simp
qed

lemma idem_reach_ok: "idem_reach pending key hash W \<Longrightarrow> 0 < pending \<Longrightarrow> idem_ok pending key hash W"
proof (induction rule: idem_reach.induct)
  case (idem_started t)
  show ?case by (simp add: idem_ok_def idem_start_def)
next
  case (idem_stepped W W')
  then show ?case using idem_step_ok by blast
qed

lemma replay_of_run:
  assumes "idem_ok pending key hash W" "(t, r, body) \<in> set (iw_runs W)" "iw_now W < t + ttl_ms"
  shows "idem_replay h (idem_get (iw_now W) (key r) (iw_store W)) = (if h = hash r then Inr body else Inl KeyReused)"
  using idem_okD(4)[OF assms] assms(3) by (simp add: idem_get_def idem_replay_def)



end
