(* ===== verification/ApiCameras.thy ===== *)
theory ApiCameras
  imports Prelude PyText Complex_Main
begin

text \<open>
  Cameras at the alert service: their health, read off the frame streams
  (\<^verbatim>\<open>services/api/app/services/camera_health.py\<close>), the loop that announces changes of it, one in
  every replica (\<^verbatim>\<open>camera_reconcile.py\<close> with its Lua script), and the cached operations on the
  collection (\<^verbatim>\<open>usecases/camera_usecase.py\<close>, \<^verbatim>\<open>repositories/camera_repository.py\<close>,
  \<^verbatim>\<open>core/cache.py\<close>, the route in \<^verbatim>\<open>api/v1/cameras.py\<close>).
\<close>

section \<open>Health\<close>

datatype health_state = Online | Degraded | Offline | Unknown

record camera_health =
  ch_state :: health_state
  ch_last_frame_at :: "rat option"
  ch_age_seconds :: "rat option"

record health_settings =
  hs_online_max :: rat
  hs_degraded_max :: rat

definition unknown_health :: camera_health where
  "unknown_health = \<lparr>ch_state = Unknown, ch_last_frame_at = None, ch_age_seconds = None\<rparr>"

definition offline_health :: camera_health where
  "offline_health = \<lparr>ch_state = Offline, ch_last_frame_at = None, ch_age_seconds = None\<rparr>"

definition derive_state :: "health_settings \<Rightarrow> rat option \<Rightarrow> health_state" where
  "derive_state k age = (case age of None \<Rightarrow> Offline
     | Some a \<Rightarrow> if a \<le> hs_online_max k then Online else if a \<le> hs_degraded_max k then Degraded else Offline)"

definition frame_age :: "string \<Rightarrow> rat \<Rightarrow> rat option" where
  "frame_age entry_id now = (case py_int 10 (takeWhile (\<lambda>c. c \<noteq> CHR ''-'') entry_id) of None \<Rightarrow> None
     | Some ms \<Rightarrow> (let age = now - of_int ms / 1000 in Some (if age \<ge> 0 then age else 0)))"

text \<open>The answer to \<^verbatim>\<open>XREVRANGE\<close> with a count of one: an error, or the id of the newest entry, if any.\<close>

datatype stream_reply = StreamError | NewestEntry "string option"

definition health_from_reply :: "health_settings \<Rightarrow> stream_reply \<Rightarrow> rat \<Rightarrow> camera_health" where
  "health_from_reply k reply now = (case reply of
     StreamError \<Rightarrow> unknown_health
   | NewestEntry None \<Rightarrow> offline_health
   | NewestEntry (Some i) \<Rightarrow> (case frame_age i now of None \<Rightarrow> unknown_health
       | Some age \<Rightarrow> \<lparr>ch_state = derive_state k (Some age), ch_last_frame_at = Some (now - age), ch_age_seconds = Some age\<rparr>))"

definition read_health :: "health_settings \<Rightarrow> (string \<Rightarrow> stream_reply) \<Rightarrow> rat \<Rightarrow> string \<Rightarrow> camera_health" where
  "read_health k stream now camera = (case stream camera of
     StreamError \<Rightarrow> unknown_health
   | NewestEntry None \<Rightarrow> offline_health
   | NewestEntry (Some i) \<Rightarrow> (case frame_age i now of None \<Rightarrow> unknown_health
       | Some age \<Rightarrow> \<lparr>ch_state = derive_state k (Some age), ch_last_frame_at = Some (now - age), ch_age_seconds = Some age\<rparr>))"

text \<open>The batch is one pipeline, which may fail as a whole.\<close>

definition read_health_many :: "health_settings \<Rightarrow> (string \<Rightarrow> stream_reply) option \<Rightarrow> rat \<Rightarrow> string list \<Rightarrow> (string \<times> camera_health) list" where
  "read_health_many k replies now cameras = (case replies of
     None \<Rightarrow> map (\<lambda>c. (c, unknown_health)) cameras
   | Some f \<Rightarrow> map (\<lambda>c. (c, health_from_reply k (f c) now)) cameras)"

section \<open>Announcing changes of health\<close>

text \<open>The script stores the state with the time of its observation; \<open>he_until\<close> is when the key
  expires.\<close>

record health_entry =
  he_state :: health_state
  he_observed :: int
  he_until :: int

record announcement =
  an_camera :: string
  an_state :: health_state
  an_observed :: int
  an_at :: int

record health_world =
  hw_keys :: "string \<Rightarrow> health_entry option"
  hw_channel :: "announcement list"

definition STATE_TTL_INTERVALS :: int where "STATE_TTL_INTERVALS = 10"

definition live_entry :: "int \<Rightarrow> string \<Rightarrow> health_world \<Rightarrow> health_entry option" where
  "live_entry now camera W = (case hw_keys W camera of None \<Rightarrow> None | Some e \<Rightarrow> if now < he_until e then Some e else None)"

text \<open>\<^verbatim>\<open>TRANSITION_LUA\<close>; \<open>now\<close> is the clock of Redis and \<open>ttl\<close> the time to live, both in milliseconds.\<close>

definition transition_script :: "int \<Rightarrow> int \<Rightarrow> string \<Rightarrow> health_state \<Rightarrow> int \<Rightarrow> health_world \<Rightarrow> bool \<times> health_world" where
  "transition_script ttl now camera s observed W =
     (let e = live_entry now camera W;
          W1 = W\<lparr>hw_keys := (hw_keys W)(camera \<mapsto> \<lparr>he_state = s, he_observed = observed, he_until = now + ttl\<rparr>)\<rparr>
      in if (case e of None \<Rightarrow> False | Some x \<Rightarrow> observed \<le> he_observed x) then (False, W)
         else if (case e of None \<Rightarrow> False | Some x \<Rightarrow> he_state x = s) then (False, W1)
         else (True, W1\<lparr>hw_channel := hw_channel W @ [\<lparr>an_camera = camera, an_state = s, an_observed = observed, an_at = now\<rparr>]\<rparr>))"

text \<open>\<^verbatim>\<open>_publish_if_changed\<close>: \<open>up\<close> says whether Redis answers.\<close>

definition publish_if_changed :: "int \<Rightarrow> bool \<Rightarrow> int \<Rightarrow> string \<Rightarrow> camera_health \<Rightarrow> int \<Rightarrow> health_world \<Rightarrow> bool \<times> health_world" where
  "publish_if_changed ttl up now camera h observed W =
     (if up then transition_script ttl now camera (ch_state h) observed W else (False, W))"

text \<open>A tick of a replica reads the health of the cameras, and its calls of the script may come later
  and between those of other replicas.  A call is a camera, its health, the time it was observed
  and the time the script runs.\<close>

type_synonym health_call = "string \<times> camera_health \<times> int \<times> int"

definition reconcile_tick :: "health_settings \<Rightarrow> (string \<Rightarrow> stream_reply) option \<Rightarrow> string list \<Rightarrow> rat \<Rightarrow> int \<Rightarrow>
    (string \<times> camera_health \<times> int) list" where
  "reconcile_tick k replies cameras now observed = map (\<lambda>(c, h). (c, h, observed)) (read_health_many k replies now cameras)"

definition run_calls :: "int \<Rightarrow> health_call list \<Rightarrow> health_world \<Rightarrow> health_world" where
  "run_calls ttl calls W = fold (\<lambda>(c, h, observed, now) W. snd (publish_if_changed ttl True now c h observed W)) calls W"

definition announced :: "string \<Rightarrow> health_world \<Rightarrow> announcement list" where
  "announced camera W = filter (\<lambda>a. an_camera a = camera) (hw_channel W)"

text \<open>Two announcements in a row: a change with a later observation, or the key had expired.\<close>

definition proper_change :: "int \<Rightarrow> announcement \<Rightarrow> announcement \<Rightarrow> bool" where
  "proper_change ttl a b \<longleftrightarrow> an_state a \<noteq> an_state b \<and> an_observed a < an_observed b \<or> an_at a + ttl \<le> an_at b"

definition entry_ok :: "int \<Rightarrow> health_entry option \<Rightarrow> announcement list \<Rightarrow> bool" where
  "entry_ok ttl e as = (case e of None \<Rightarrow> as = []
     | Some e \<Rightarrow> as \<noteq> [] \<and> an_state (last as) = he_state e \<and> an_observed (last as) \<le> he_observed e \<and> an_at (last as) + ttl \<le> he_until e)"

definition health_ok :: "int \<Rightarrow> int \<Rightarrow> health_world \<Rightarrow> bool" where
  "health_ok ttl now W \<longleftrightarrow> (\<forall>a\<in>set (hw_channel W). an_at a \<le> now) \<and>
     (\<forall>c. successively (proper_change ttl) (announced c W) \<and> entry_ok ttl (hw_keys W c) (announced c W))"

lemma script_ok:
  assumes "health_ok ttl t W" "t \<le> now"
  shows "health_ok ttl now (snd (transition_script ttl now c s observed W))"
proof -
  let ?W = "snd (transition_script ttl now c s observed W)"
  have old: "successively (proper_change ttl) (announced x W)" "entry_ok ttl (hw_keys W x) (announced x W)" for x
    using assms(1) by (simp_all add: health_ok_def)
  have times: "\<forall>a\<in>set (hw_channel W). an_at a \<le> now" using assms by (force simp: health_ok_def)
  have others: "announced x ?W = announced x W" "hw_keys ?W x = hw_keys W x" if "x \<noteq> c" for x
    using that by (auto simp: transition_script_def Let_def announced_def)
  have last_time: "an_at (last (announced c W)) \<le> now" if "announced c W \<noteq> []"
    using times last_in_set[OF that] by (simp add: announced_def)
  have mine: "successively (proper_change ttl) (announced c ?W) \<and> entry_ok ttl (hw_keys ?W c) (announced c ?W)"
    using old[of c] last_time
    by (cases "hw_keys W c")
      (auto simp: transition_script_def live_entry_def Let_def announced_def successively_append_iff proper_change_def entry_ok_def
        split: if_splits)
  have "\<forall>a\<in>set (hw_channel ?W). an_at a \<le> now" using times by (auto simp: transition_script_def Let_def)
  then show ?thesis unfolding health_ok_def using old others mine by metis
qed

lemma run_calls_ok:
  "health_ok ttl t W \<Longrightarrow> sorted (t # map (\<lambda>(_, _, _, now). now) calls) \<Longrightarrow>
     health_ok ttl (last (t # map (\<lambda>(_, _, _, now). now) calls)) (run_calls ttl calls W)"
proof (induction calls arbitrary: t W)
  case (Cons x calls)
  obtain c h observed now where x: "x = (c, h, observed, now)" by (rule prod_cases4)
  have "health_ok ttl now (snd (publish_if_changed ttl True now c h observed W))"
    using script_ok[OF Cons.prems(1), of now] Cons.prems(2) by (simp add: x publish_if_changed_def)
  from Cons.IH[OF this] Cons.prems(2) show ?case by (simp add: x run_calls_def)
qed (simp add: run_calls_def)

text \<open>What the replicas announce about a camera are its changes of health.  However their calls
  of the script interleave and however late they come: of two announcements in a row the second
  has another state and a later observation, unless the key expired in between; and while the key
  lives, its state is the one announced last, from an observation at least as late.\<close>

theorem health_changes_announced:
  fixes ttl start :: int
  assumes "sorted (map (\<lambda>(_, _, _, now). now) calls)" "\<forall>x\<in>set calls. start \<le> snd (snd (snd x))"
  defines "W \<equiv> run_calls ttl calls \<lparr>hw_keys = Map.empty, hw_channel = []\<rparr>"
  shows "successively (proper_change ttl) (announced camera W) \<and>
    (\<forall>now e. live_entry now camera W = Some e \<longrightarrow> announced camera W \<noteq> [] \<and>
       an_state (last (announced camera W)) = he_state e \<and> an_observed (last (announced camera W)) \<le> he_observed e)"
proof -
  have "sorted (start # map (\<lambda>(_, _, _, now). now) calls)" using assms(1,2) by (auto simp: split_def)
  moreover have "health_ok ttl start \<lparr>hw_keys = Map.empty, hw_channel = []\<rparr>" by (simp add: health_ok_def announced_def entry_ok_def)
  ultimately have "health_ok ttl (last (start # map (\<lambda>(_, _, _, now). now) calls)) W"
    unfolding W_def by (intro run_calls_ok)
  then show ?thesis
    by (auto simp: health_ok_def live_entry_def entry_ok_def split: option.splits if_splits dest!: spec[where x = camera])
qed

text \<open>Two replicas, of which the second runs the script late.\<close>

definition late_replica :: "health_call list" where
  "late_replica = [(''c'', unknown_health, 10, 11), (''c'', offline_health, 30, 31), (''c'', unknown_health, 20, 32)]"

lemma health_changes_announced_witness:
  "successively (proper_change 30000) (announced ''c'' (run_calls 30000 late_replica \<lparr>hw_keys = Map.empty, hw_channel = []\<rparr>)) \<and>
   map an_state (announced ''c'' (run_calls 30000 late_replica \<lparr>hw_keys = Map.empty, hw_channel = []\<rparr>)) = [Unknown, Offline]"
proof -
  have "map an_state (announced ''c'' (run_calls 30000 late_replica \<lparr>hw_keys = Map.empty, hw_channel = []\<rparr>)) = [Unknown, Offline]"
    by (simp add: run_calls_def late_replica_def publish_if_changed_def transition_script_def live_entry_def announced_def
        unknown_health_def offline_health_def)
  then show ?thesis using health_changes_announced[of late_replica 0 30000 "''c''"]
    by (simp add: late_replica_def)
qed

section \<open>The collection and its cache\<close>

record camera_create =
  cc_camera_id :: string
  cc_name :: string
  cc_location :: string
  cc_stream_url :: "string option"
  cc_status :: string

record camera_doc =
  cd_oid :: nat
  cd_camera :: camera_create
  cd_created_at :: datetime

record camera_view =
  cv_doc :: camera_doc
  cv_health :: camera_health

text \<open>What the cache holds under a key: the item of one camera, or the list.\<close>

datatype cached_cameras = CachedItem camera_doc | CachedList "camera_doc list"

datatype camera_error = CameraConflict string | CameraNotFound string | CameraInvalid

datatype camera_event = CameraCreated camera_doc | CameraDeleted camera_doc

record camera_world =
  cw_docs :: "camera_doc list"
  cw_cache :: "string \<Rightarrow> (cached_cameras \<times> int) option"
  cw_events :: "camera_event list"
  cw_next_oid :: nat

definition LIST_KEY :: string where "LIST_KEY = ''cache:cameras:list''"

definition item_key :: "string \<Rightarrow> string" where
  "item_key camera = ''cache:cameras:'' @ camera"

definition CAMERA_TTL :: int where "CAMERA_TTL = 300 * 1000"

definition cache_get :: "int \<Rightarrow> string \<Rightarrow> camera_world \<Rightarrow> cached_cameras option" where
  "cache_get now k w = (case cw_cache w k of None \<Rightarrow> None | Some (v, until) \<Rightarrow> if now < until then Some v else None)"

text \<open>\<^verbatim>\<open>get_or_set\<close>; a loader that raises leaves the cache alone.\<close>

definition get_or_set :: "int \<Rightarrow> string \<Rightarrow> (camera_world \<Rightarrow> camera_error + cached_cameras) \<Rightarrow> camera_world \<Rightarrow>
    (camera_error + cached_cameras) \<times> camera_world" where
  "get_or_set now k loader w = (case cache_get now k w of Some v \<Rightarrow> (Inr v, w)
     | None \<Rightarrow> (case loader w of Inl e \<Rightarrow> (Inl e, w)
         | Inr v \<Rightarrow> (Inr v, w\<lparr>cw_cache := (cw_cache w)(k \<mapsto> (v, now + CAMERA_TTL))\<rparr>)))"

definition invalidate :: "string \<Rightarrow> camera_world \<Rightarrow> camera_world" where
  "invalidate k w = w\<lparr>cw_cache := (cw_cache w)(k := None)\<rparr>"

definition find_camera :: "string \<Rightarrow> camera_world \<Rightarrow> camera_doc option" where
  "find_camera c w = find (\<lambda>d. cc_camera_id (cd_camera d) = c) (cw_docs w)"

text \<open>\<^verbatim>\<open>delete_one\<close>.\<close>

definition delete_camera_doc :: "string \<Rightarrow> camera_world \<Rightarrow> bool \<times> camera_world" where
  "delete_camera_doc c w = (find_camera c w \<noteq> None,
     w\<lparr>cw_docs := (case find_camera c w of None \<Rightarrow> cw_docs w | Some d \<Rightarrow> remove1 d (cw_docs w))\<rparr>)"

text \<open>The unique indexes on the name and on the camera id, in the order in which they were made.\<close>

definition insert_camera :: "datetime \<Rightarrow> camera_create \<Rightarrow> camera_world \<Rightarrow> camera_error + camera_doc \<times> camera_world" where
  "insert_camera now p w =
     (if cc_name p \<in> (cc_name \<circ> cd_camera) ` set (cw_docs w)
      then Inl (CameraConflict (''camera with name '' @ cc_name p @ '' already exists''))
      else if cc_camera_id p \<in> (cc_camera_id \<circ> cd_camera) ` set (cw_docs w)
      then Inl (CameraConflict (''camera with camera_id '' @ cc_camera_id p @ '' already exists''))
      else let d = \<lparr>cd_oid = cw_next_oid w, cd_camera = p, cd_created_at = now\<rparr>
        in Inr (d, w\<lparr>cw_docs := cw_docs w @ [d], cw_next_oid := cw_next_oid w + 1\<rparr>))"

text \<open>\<open>up\<close> says whether the message reaches Redis.\<close>

definition publish_camera :: "bool \<Rightarrow> camera_event \<Rightarrow> camera_world \<Rightarrow> camera_world" where
  "publish_camera up ev w = (if up then w\<lparr>cw_events := cw_events w @ [ev]\<rparr> else w)"

definition create_camera :: "bool \<Rightarrow> datetime \<Rightarrow> camera_create \<Rightarrow> camera_world \<Rightarrow> (camera_error + camera_doc) \<times> camera_world" where
  "create_camera up now p w = (case insert_camera now p w of Inl e \<Rightarrow> (Inl e, w)
     | Inr (d, w1) \<Rightarrow> (Inr d, publish_camera up (CameraCreated d) (invalidate LIST_KEY w1)))"

definition with_health :: "health_settings \<Rightarrow> (string \<Rightarrow> stream_reply) \<Rightarrow> rat \<Rightarrow> camera_doc \<Rightarrow> camera_view" where
  "with_health k stream t d = \<lparr>cv_doc = d, cv_health = read_health k stream t (cc_camera_id (cd_camera d))\<rparr>"

text \<open>An item under the key of the list, or the list under the key of an item, does not validate.\<close>

definition list_cameras :: "health_settings \<Rightarrow> (string \<Rightarrow> stream_reply) \<Rightarrow> rat \<Rightarrow> int \<Rightarrow> camera_world \<Rightarrow>
    (camera_error + camera_view list) \<times> camera_world" where
  "list_cameras k stream t now w = (case get_or_set now LIST_KEY (\<lambda>w. Inr (CachedList (take 200 (cw_docs w)))) w of
     (Inl e, w1) \<Rightarrow> (Inl e, w1)
   | (Inr (CachedItem d), w1) \<Rightarrow> (Inl CameraInvalid, w1)
   | (Inr (CachedList ds), w1) \<Rightarrow> (Inr (map (with_health k stream t) ds), w1))"

definition get_camera :: "health_settings \<Rightarrow> (string \<Rightarrow> stream_reply) \<Rightarrow> rat \<Rightarrow> int \<Rightarrow> string \<Rightarrow> camera_world \<Rightarrow>
    (camera_error + camera_view) \<times> camera_world" where
  "get_camera k stream t now c w = (case get_or_set now (item_key c) (\<lambda>w. case find_camera c w of
       None \<Rightarrow> Inl (CameraNotFound c) | Some d \<Rightarrow> Inr (CachedItem d)) w of
     (Inl e, w1) \<Rightarrow> (Inl e, w1)
   | (Inr (CachedItem d), w1) \<Rightarrow> (Inr (with_health k stream t d), w1)
   | (Inr (CachedList ds), w1) \<Rightarrow> (Inl CameraInvalid, w1))"

definition delete_camera :: "bool \<Rightarrow> string \<Rightarrow> camera_world \<Rightarrow> (camera_error + unit) \<times> camera_world" where
  "delete_camera up c w = (case find_camera c w of None \<Rightarrow> (Inl (CameraNotFound c), w)
     | Some d \<Rightarrow> (case delete_camera_doc c w of
         (False, w1) \<Rightarrow> (Inl (CameraNotFound c), w1)
       | (True, w1) \<Rightarrow> (Inr (), publish_camera up (CameraDeleted d) (invalidate LIST_KEY (invalidate (item_key c) w1)))))"

section \<open>The cache is transparent\<close>

datatype camera_op = AddCamera bool datetime camera_create | ListCameras int | GetCamera int string | RemoveCamera bool string

definition op_camera :: "camera_op \<Rightarrow> string option" where
  "op_camera x = (case x of AddCamera _ _ p \<Rightarrow> Some (cc_camera_id p) | ListCameras _ \<Rightarrow> None | GetCamera _ c \<Rightarrow> Some c | RemoveCamera _ c \<Rightarrow> Some c)"

datatype camera_reply = CreatedReply "camera_error + camera_doc" | ListReply "camera_error + camera_view list"
  | GetReply "camera_error + camera_view" | DeletedReply "camera_error + unit"

definition serve_camera :: "health_settings \<Rightarrow> (string \<Rightarrow> stream_reply) \<Rightarrow> rat \<Rightarrow> camera_op \<Rightarrow> camera_world \<Rightarrow> camera_reply \<times> camera_world" where
  "serve_camera k stream t x w = (case x of
     AddCamera up now p \<Rightarrow> map_prod CreatedReply id (create_camera up now p w)
   | ListCameras now \<Rightarrow> map_prod ListReply id (list_cameras k stream t now w)
   | GetCamera now c \<Rightarrow> map_prod GetReply id (get_camera k stream t now c w)
   | RemoveCamera up c \<Rightarrow> map_prod DeletedReply id (delete_camera up c w))"

definition without_cache :: "camera_world \<Rightarrow> camera_world" where
  "without_cache w = w\<lparr>cw_cache := Map.empty\<rparr>"

definition run_cameras :: "health_settings \<Rightarrow> (string \<Rightarrow> stream_reply) \<Rightarrow> rat \<Rightarrow> camera_op list \<Rightarrow> camera_world \<Rightarrow> camera_world" where
  "run_cameras k stream t xs w = fold (\<lambda>x w. snd (serve_camera k stream t x w)) xs w"

text \<open>What the cache holds is what the collection holds.\<close>

definition camera_cache_ok :: "camera_world \<Rightarrow> bool" where
  "camera_cache_ok w \<longleftrightarrow> distinct (map (cc_camera_id \<circ> cd_camera) (cw_docs w)) \<and>
     (\<forall>v until. cw_cache w LIST_KEY = Some (v, until) \<longrightarrow> v = CachedList (take 200 (cw_docs w))) \<and>
     (\<forall>c v until. c \<noteq> ''list'' \<longrightarrow> cw_cache w (item_key c) = Some (v, until) \<longrightarrow>
        (\<exists>d. find_camera c w = Some d \<and> v = CachedItem d))"

lemma item_key_simps [simp]: "item_key c = item_key d \<longleftrightarrow> c = d" "item_key c = LIST_KEY \<longleftrightarrow> c = ''list''" "LIST_KEY = item_key c \<longleftrightarrow> c = ''list''"
  by (auto simp: item_key_def LIST_KEY_def)

lemma find_append_Some: "find P xs = Some d \<Longrightarrow> find P (xs @ ys) = Some d"
  by (induction xs) auto

lemma find_remove1: "\<not> P d \<Longrightarrow> find P (remove1 d xs) = find P xs"
  by (induction xs) auto

lemma cache_okD:
  assumes "camera_cache_ok w"
  shows "distinct (map (cc_camera_id \<circ> cd_camera) (cw_docs w))"
    "cw_cache w LIST_KEY = Some (v, until) \<Longrightarrow> v = CachedList (take 200 (cw_docs w))"
    "c \<noteq> ''list'' \<Longrightarrow> cw_cache w (item_key c) = Some (v, until) \<Longrightarrow> \<exists>d. find_camera c w = Some d \<and> v = CachedItem d"
  using assms by (auto simp: camera_cache_ok_def)

lemma get_or_set_cases:
  assumes "get_or_set now key loader w = (r, w1)"
  shows "(\<exists>v until. cw_cache w key = Some (v, until) \<and> r = Inr v \<and> w1 = w) \<or>
    (r = loader w \<and> (case r of Inl _ \<Rightarrow> w1 = w | Inr v \<Rightarrow> w1 = w\<lparr>cw_cache := (cw_cache w)(key \<mapsto> (v, now + CAMERA_TTL))\<rparr>))"
  using assms by (auto simp: get_or_set_def cache_get_def split: option.splits sum.splits if_splits prod.splits)

lemma find_camera_cache [simp]: "find_camera c (w\<lparr>cw_cache := m\<rparr>) = find_camera c w"
  by (simp add: find_camera_def)

lemma cached_reply:
  "(\<And>v until. cw_cache w key = Some (v, until) \<Longrightarrow> loader w = Inr v) \<Longrightarrow> fst (get_or_set now key loader w) = loader w"
  by (force simp: get_or_set_def cache_get_def split: option.split sum.split)

lemma cached_ok:
  assumes "camera_cache_ok w"
    "\<And>v until. loader w = Inr v \<Longrightarrow> camera_cache_ok (w\<lparr>cw_cache := (cw_cache w)(key \<mapsto> (v, until))\<rparr>)"
  shows "camera_cache_ok (snd (get_or_set now key loader w))"
  using assms by (auto simp: get_or_set_def split: option.split sum.split)

lemma list_ok:
  assumes "camera_cache_ok w"
  shows "fst (get_or_set now LIST_KEY (\<lambda>w. Inr (CachedList (take 200 (cw_docs w)))) w) = Inr (CachedList (take 200 (cw_docs w)))"
    "camera_cache_ok (snd (get_or_set now LIST_KEY (\<lambda>w. Inr (CachedList (take 200 (cw_docs w)))) w))"
proof -
  show "fst (get_or_set now LIST_KEY (\<lambda>w. Inr (CachedList (take 200 (cw_docs w)))) w) = Inr (CachedList (take 200 (cw_docs w)))"
    by (rule cached_reply) (use cache_okD(2)[OF assms] in simp)
  show "camera_cache_ok (snd (get_or_set now LIST_KEY (\<lambda>w. Inr (CachedList (take 200 (cw_docs w)))) w))"
    by (rule cached_ok[OF assms]) (use assms in \<open>auto simp: camera_cache_ok_def\<close>)
qed

lemma get_ok:
  assumes "camera_cache_ok w" "c \<noteq> ''list''"
  defines "loader \<equiv> \<lambda>w. case find_camera c w of None \<Rightarrow> Inl (CameraNotFound c) | Some d \<Rightarrow> Inr (CachedItem d)"
  shows "fst (get_or_set now (item_key c) loader w) = loader w" "camera_cache_ok (snd (get_or_set now (item_key c) loader w))"
proof -
  have hit: "loader w = Inr v" if "cw_cache w (item_key c) = Some (v, until)" for v until
    using cache_okD(3)[OF assms(1,2) that] by (auto simp: loader_def)
  show "fst (get_or_set now (item_key c) loader w) = loader w" by (rule cached_reply) (rule hit)
  show "camera_cache_ok (snd (get_or_set now (item_key c) loader w))"
    by (rule cached_ok[OF assms(1)]) (use assms(1,2) in \<open>auto simp: loader_def camera_cache_ok_def split: option.splits\<close>)
qed

lemma create_ok:
  assumes "camera_cache_ok w"
  shows "camera_cache_ok (snd (create_camera up now p w))"
proof (cases "insert_camera now p w")
  case (Inr dw)
  obtain d where d: "dw = (d, w\<lparr>cw_docs := cw_docs w @ [d], cw_next_oid := cw_next_oid w + 1\<rparr>)" "cd_camera d = p"
    "cc_camera_id p \<notin> (cc_camera_id \<circ> cd_camera) ` set (cw_docs w)"
    using Inr by (auto simp: insert_camera_def Let_def split: if_splits)
  show ?thesis using assms d(2,3)
    by (auto simp: create_camera_def Inr d(1) publish_camera_def invalidate_def camera_cache_ok_def find_camera_def find_append_Some
        dest!: spec)
qed (use assms in \<open>simp add: create_camera_def\<close>)

lemma delete_ok:
  assumes "camera_cache_ok w"
  shows "camera_cache_ok (snd (delete_camera up c w))"
proof (cases "find_camera c w")
  case (Some d)
  then have c: "cc_camera_id (cd_camera d) = c" by (auto simp: find_camera_def find_Some_iff)
  have "distinct (map (cc_camera_id \<circ> cd_camera) (remove1 d (cw_docs w)))"
    using cache_okD(1)[OF assms] set_remove1_subset[of d "cw_docs w"]
    by (auto simp: distinct_map inj_on_def)
  let ?w = "snd (delete_camera up c w)"
  have w: "?w = publish_camera up (CameraDeleted d) (invalidate LIST_KEY (invalidate (item_key c) (w\<lparr>cw_docs := remove1 d (cw_docs w)\<rparr>)))"
    by (simp add: delete_camera_def delete_camera_doc_def Some)
  have docs: "cw_docs ?w = remove1 d (cw_docs w)" and cache: "cw_cache ?w = (cw_cache w)(item_key c := None, LIST_KEY := None)"
    by (simp_all add: w publish_camera_def invalidate_def)
  have "find_camera x ?w = find_camera x w" if "x \<noteq> c" for x
    using that c by (simp add: find_camera_def docs find_remove1)
  then show ?thesis
    using \<open>distinct (map (cc_camera_id \<circ> cd_camera) (remove1 d (cw_docs w)))\<close> cache_okD(3)[OF assms]
    by (auto simp: camera_cache_ok_def docs cache split: if_splits)
qed (use assms in \<open>simp add: delete_camera_def\<close>)

lemma serve_ok:
  assumes "camera_cache_ok w" "op_camera x \<noteq> Some ''list''"
  shows "camera_cache_ok (snd (serve_camera k stream t x w))"
proof (cases x)
  case (ListCameras now)
  show ?thesis using list_ok(2)[OF assms(1), of now]
    by (auto simp: serve_camera_def ListCameras list_cameras_def split: prod.splits sum.splits cached_cameras.splits)
next
  case (GetCamera now c)
  then have "c \<noteq> ''list''" using assms(2) by (simp add: op_camera_def)
  from get_ok(2)[OF assms(1) this, of now] show ?thesis
    by (auto simp: serve_camera_def GetCamera get_camera_def split: prod.splits sum.splits cached_cameras.splits)
qed (simp_all add: serve_camera_def create_ok[OF assms(1)] delete_ok[OF assms(1)])

lemma run_cameras_ok:
  "camera_cache_ok w \<Longrightarrow> list_all (\<lambda>x. op_camera x \<noteq> Some ''list'') xs \<Longrightarrow> camera_cache_ok (run_cameras k stream t xs w)"
  by (induction xs arbitrary: w) (auto simp: run_cameras_def serve_ok)

lemma uncached_get_or_set: "fst (get_or_set now key loader (without_cache w)) = loader (without_cache w)"
  by (auto simp: get_or_set_def cache_get_def without_cache_def split: sum.split)

lemma serve_uncached:
  assumes "camera_cache_ok w" "op_camera x \<noteq> Some ''list''"
  shows "fst (serve_camera k stream t x w) = fst (serve_camera k stream t x (without_cache w))"
proof (cases x)
  case (AddCamera up now p)
  have "insert_camera now p (without_cache w) = (case insert_camera now p w of Inl e \<Rightarrow> Inl e | Inr (d, w1) \<Rightarrow> Inr (d, without_cache w1))"
    by (simp add: insert_camera_def without_cache_def Let_def)
  then show ?thesis by (auto simp: serve_camera_def AddCamera create_camera_def split: sum.splits)
next
  case (ListCameras now)
  show ?thesis using list_ok(1)[OF assms(1), of now] uncached_get_or_set[of now LIST_KEY "\<lambda>w. Inr (CachedList (take 200 (cw_docs w)))" w]
    by (auto simp: serve_camera_def ListCameras list_cameras_def without_cache_def split: prod.splits sum.splits cached_cameras.splits)
next
  case (GetCamera now c)
  then have "c \<noteq> ''list''" using assms(2) by (simp add: op_camera_def)
  from get_ok(1)[OF assms(1) this, of now]
    uncached_get_or_set[of now "item_key c" "\<lambda>w. case find_camera c w of None \<Rightarrow> Inl (CameraNotFound c) | Some d \<Rightarrow> Inr (CachedItem d)" w]
  show ?thesis
    by (auto simp: serve_camera_def GetCamera get_camera_def without_cache_def split: prod.splits sum.splits cached_cameras.splits option.splits)
next
  case (RemoveCamera up c)
  show ?thesis by (auto simp: serve_camera_def RemoveCamera delete_camera_def delete_camera_doc_def without_cache_def split: option.splits)
qed

definition no_cameras :: camera_world where
  "no_cameras = \<lparr>cw_docs = [], cw_cache = Map.empty, cw_events = [], cw_next_oid = 0\<rparr>"

text \<open>The cache of the cameras is transparent: after any sequence of creations, deletions,
  listings and reads, a request is answered as it would be without a cache, provided that no
  camera has the id \<^verbatim>\<open>list\<close>.\<close>

theorem camera_cache_transparent:
  fixes k :: health_settings and stream :: "string \<Rightarrow> stream_reply" and t :: rat
  assumes "list_all (\<lambda>x. op_camera x \<noteq> Some ''list'') (x # xs)"
  defines "w \<equiv> run_cameras k stream t xs no_cameras"
  shows "fst (serve_camera k stream t x w) = fst (serve_camera k stream t x (without_cache w))"
proof -
  have "camera_cache_ok no_cameras" by (simp add: camera_cache_ok_def no_cameras_def)
  then have "camera_cache_ok w" unfolding w_def using assms(1) by (intro run_cameras_ok) simp_all
  then show ?thesis using assms(1) by (intro serve_uncached) simp_all
qed

definition one_camera :: camera_create where
  "one_camera = \<lparr>cc_camera_id = ''a'', cc_name = ''n'', cc_location = ''l'', cc_stream_url = None, cc_status = ''active''\<rparr>"

lemma camera_cache_transparent_witness:
  "fst (serve_camera \<lparr>hs_online_max = 5, hs_degraded_max = 15\<rparr> (\<lambda>_. StreamError) 0 (GetCamera 1 ''a'')
     (run_cameras \<lparr>hs_online_max = 5, hs_degraded_max = 15\<rparr> (\<lambda>_. StreamError) 0
       [AddCamera True 0 one_camera, GetCamera 0 ''a'', RemoveCamera True ''a''] no_cameras)) = GetReply (Inl (CameraNotFound ''a''))"
  by (subst camera_cache_transparent)
    (simp_all add: op_camera_def one_camera_def run_cameras_def serve_camera_def create_camera_def insert_camera_def Let_def
      get_camera_def get_or_set_def cache_get_def delete_camera_def delete_camera_doc_def no_cameras_def without_cache_def
      find_camera_def publish_camera_def invalidate_def LIST_KEY_def item_key_def)

text \<open>A camera with the id \<^verbatim>\<open>list\<close> shares its key with the list: reading it makes the list
  unreadable, although the collection holds nothing but valid cameras.\<close>

theorem camera_named_list_breaks_list:
  fixes p :: camera_create and k :: health_settings and stream :: "string \<Rightarrow> stream_reply" and t :: rat and now :: int
  assumes "cc_camera_id p = ''list''"
  defines "w \<equiv> run_cameras k stream t [AddCamera True now p, GetCamera now ''list''] no_cameras"
  shows "fst (list_cameras k stream t now w) = Inl CameraInvalid \<and>
    (\<exists>v. fst (list_cameras k stream t now (without_cache w)) = Inr [v])"
  using assms(1)
  by (simp add: w_def run_cameras_def serve_camera_def create_camera_def insert_camera_def Let_def get_camera_def get_or_set_def
      cache_get_def no_cameras_def without_cache_def find_camera_def publish_camera_def invalidate_def LIST_KEY_def item_key_def
      list_cameras_def CAMERA_TTL_def)

end
