(* ===== verification/ApiStats.thy ===== *)
theory ApiStats
  imports Prelude Complex_Main "HOL-Library.Product_Lexorder" "HOL-Library.List_Lexorder" "HOL-Library.Multiset"
begin

text \<open>
  The statistics of the alert service (\<^verbatim>\<open>services/api/app/usecases/stats_usecase.py\<close>,
  \<^verbatim>\<open>repositories/stats_repository.py\<close>): the window of a series in the time zone of the store, its
  buckets, and the breakdown by type, camera and time to decision.  What they show is that every
  alert of a window is counted once.  The cache in front of them, which returns a series for up to
  half a minute, is left out.
\<close>

section \<open>Wall clocks\<close>

text \<open>An aware \<^verbatim>\<open>datetime\<close> in the store's zone is its wall clock and its \<^verbatim>\<open>fold\<close>, which tells the two
  passes of a repeated hour apart; two of them compare by the wall clock alone.  A zone says what
  the clock shows at an instant and which instant a clock stands for.\<close>

type_synonym wall_time = "int \<times> bool"

record store_zone =
  zn_local :: "datetime \<Rightarrow> wall_time"
  zn_instant :: "wall_time \<Rightarrow> datetime"

datatype bucket_unit = HOUR | DAY

definition unit_step :: "bucket_unit \<Rightarrow> int" where
  "unit_step u = (case u of HOUR \<Rightarrow> seconds 3600 | DAY \<Rightarrow> seconds 86400)"

definition truncate_wall :: "bucket_unit \<Rightarrow> wall_time \<Rightarrow> wall_time" where
  "truncate_wall u m = (let floored = fst m - fst m mod seconds 3600
     in (case u of HOUR \<Rightarrow> floored | DAY \<Rightarrow> floored - floored mod seconds 86400, snd m))"

definition MAX_BUCKETS :: int where "MAX_BUCKETS = 500"

text \<open>Arithmetic on a \<^verbatim>\<open>datetime\<close> moves the wall clock and forgets the fold.\<close>

definition resolve_window :: "store_zone \<Rightarrow> datetime \<Rightarrow> datetime option \<Rightarrow> datetime option \<Rightarrow> bucket_unit \<Rightarrow>
    string + wall_time \<times> wall_time" where
  "resolve_window z now start stop u =
     (let step = unit_step u;
          last_wall = fst (truncate_wall u (zn_local z (case stop of None \<Rightarrow> now | Some e \<Rightarrow> e))) + step;
          default_span = step * (case u of HOUR \<Rightarrow> 24 | DAY \<Rightarrow> 30);
          first = (case start of None \<Rightarrow> (last_wall - default_span, False) | Some s \<Rightarrow> truncate_wall u (zn_local z s))
      in if fst first \<ge> last_wall then Inl ''start must fall before end''
         else let buckets = (last_wall - fst first) div step
           in Inr (if buckets > MAX_BUCKETS then (last_wall - step * MAX_BUCKETS, False) else first, (last_wall, False)))"

function walk :: "bucket_unit \<Rightarrow> int \<Rightarrow> int \<Rightarrow> int list" where
  "walk u cursor stop = (if cursor < stop then cursor # walk u (cursor + unit_step u) stop else [])"
  by pat_completeness auto
termination
  by (relation "measure (\<lambda>(u, cursor, stop). nat (stop - cursor))") (auto simp: unit_step_def seconds_def split: bucket_unit.splits)

declare walk.simps [simp del]

section \<open>Rows\<close>

record stats_alert =
  sa_created_at :: datetime
  sa_severity :: string
  sa_camera_id :: "string option"
  sa_alert_type :: "string option"
  sa_decision :: string
  sa_decided_at :: "datetime option"
  sa_object :: "string option"

text \<open>The groups of \<^verbatim>\<open>$group\<close> with their sizes.\<close>

definition group_count :: "'a list \<Rightarrow> ('a \<times> nat) list" where
  "group_count xs = map (\<lambda>x. (x, count_list xs x)) (remdups xs)"

definition in_window :: "store_zone \<Rightarrow> wall_time \<Rightarrow> wall_time \<Rightarrow> datetime \<Rightarrow> bool" where
  "in_window z first stop t \<longleftrightarrow> zn_instant z first \<le> t \<and> t < zn_instant z stop"

text \<open>\<open>trunc\<close> is \<^verbatim>\<open>$dateTrunc\<close> in the zone of the store.\<close>

definition alerts_over_time :: "store_zone \<Rightarrow> (bucket_unit \<Rightarrow> datetime \<Rightarrow> datetime) \<Rightarrow> stats_alert list \<Rightarrow> wall_time \<Rightarrow> wall_time \<Rightarrow>
    bucket_unit \<Rightarrow> ((datetime \<times> string) \<times> nat) list" where
  "alerts_over_time z trunc db first stop u = sort_key (\<lambda>row. fst (fst row)) (group_count
     (map (\<lambda>a. (trunc u (sa_created_at a), sa_severity a)) (filter (\<lambda>a. in_window z first stop (sa_created_at a)) db)))"

definition decisions_over_time :: "store_zone \<Rightarrow> (bucket_unit \<Rightarrow> datetime \<Rightarrow> datetime) \<Rightarrow> stats_alert list \<Rightarrow> wall_time \<Rightarrow> wall_time \<Rightarrow>
    bucket_unit \<Rightarrow> ((datetime \<times> string) \<times> nat) list" where
  "decisions_over_time z trunc db first stop u = sort_key (\<lambda>row. fst (fst row)) (group_count
     (map (\<lambda>a. (trunc u (the (sa_decided_at a)), sa_decision a))
       (filter (\<lambda>a. case sa_decided_at a of None \<Rightarrow> False | Some t \<Rightarrow> in_window z first stop t) db)))"

section \<open>Series\<close>

definition SEVERITY_FIELDS :: "(string \<times> string) list" where
  "SEVERITY_FIELDS = [(''SEVERITY_CRITICAL'', ''critical''), (''SEVERITY_WARNING'', ''warning''), (''SEVERITY_NOTICE'', ''notice''),
     (''SEVERITY_INFO'', ''info''), (''SEVERITY_UNSPECIFIED'', ''unspecified'')]"

definition DECISION_FIELDS :: "(string \<times> string) list" where
  "DECISION_FIELDS = [(''DECISION_CONFIRMED'', ''confirmed''), (''DECISION_DISMISSED'', ''dismissed''), (''DECISION_UNSURE'', ''unsure'')]"

record bucket =
  bk_moment :: int
  bk_values :: "(string \<times> nat) list"
  bk_total :: nat

text \<open>The counts of a slot are found by its wall clock and the field, absent ones are zero.  The two
  methods that fill a series differ in the table of fields only.\<close>

definition add_row :: "(string \<times> string) list \<Rightarrow> store_zone \<Rightarrow> (datetime \<times> string) \<times> nat \<Rightarrow> (int \<times> string \<Rightarrow> nat) \<Rightarrow> int \<times> string \<Rightarrow> nat" where
  "add_row tbl z row counts = (case map_of tbl (snd (fst row)) of None \<Rightarrow> counts
     | Some f \<Rightarrow> let slot = (fst (zn_local z (fst (fst row))), f) in counts(slot := counts slot + snd row))"

definition fill_buckets :: "(string \<times> string) list \<Rightarrow> store_zone \<Rightarrow> ((datetime \<times> string) \<times> nat) list \<Rightarrow> wall_time \<Rightarrow> wall_time \<Rightarrow>
    bucket_unit \<Rightarrow> bucket list" where
  "fill_buckets tbl z rows first stop u = (let counts = fold (add_row tbl z) rows (\<lambda>_. 0) in
     map (\<lambda>moment. let vals = map (\<lambda>f. (f, counts (moment, f))) (map snd tbl)
       in \<lparr>bk_moment = moment, bk_values = vals, bk_total = sum_list (map snd vals)\<rparr>) (walk u (fst first) (fst stop)))"

definition fill_alerts :: "store_zone \<Rightarrow> ((datetime \<times> string) \<times> nat) list \<Rightarrow> wall_time \<Rightarrow> wall_time \<Rightarrow> bucket_unit \<Rightarrow> bucket list" where
  "fill_alerts = fill_buckets SEVERITY_FIELDS"

definition fill_decisions :: "store_zone \<Rightarrow> ((datetime \<times> string) \<times> nat) list \<Rightarrow> wall_time \<Rightarrow> wall_time \<Rightarrow> bucket_unit \<Rightarrow> bucket list" where
  "fill_decisions = fill_buckets DECISION_FIELDS"

record timeseries_response =
  ts_start :: wall_time
  ts_end :: wall_time
  ts_unit :: bucket_unit
  ts_alerts :: "bucket list"
  ts_decisions :: "bucket list"

definition timeseries :: "store_zone \<Rightarrow> (bucket_unit \<Rightarrow> datetime \<Rightarrow> datetime) \<Rightarrow> datetime \<Rightarrow> stats_alert list \<Rightarrow> datetime option \<Rightarrow>
    datetime option \<Rightarrow> bucket_unit \<Rightarrow> string + timeseries_response" where
  "timeseries z trunc now db start stop u = rbind (resolve_window z now start stop u) (\<lambda>(first, last_wall).
     Inr \<lparr>ts_start = first, ts_end = last_wall, ts_unit = u,
       ts_alerts = fill_alerts z (alerts_over_time z trunc db first last_wall u) first last_wall u,
       ts_decisions = fill_decisions z (decisions_over_time z trunc db first last_wall u) first last_wall u\<rparr>)"

section \<open>Breakdown and overview\<close>

text \<open>\<^verbatim>\<open>_tally\<close>: rows without a usable key count for the fallback name.\<close>

definition tally_name :: "string \<Rightarrow> string option \<Rightarrow> string" where
  "tally_name fallback k = (case k of None \<Rightarrow> fallback | Some s \<Rightarrow> if s = '''' then fallback else s)"

definition add_tally :: "string \<Rightarrow> string option \<times> nat \<Rightarrow> (string \<times> nat) list \<Rightarrow> (string \<times> nat) list" where
  "add_tally fallback row counts = (let name = tally_name fallback (fst row)
     in if name \<in> fst ` set counts then map (\<lambda>(n, c). if n = name then (n, c + snd row) else (n, c)) counts
        else counts @ [(name, snd row)])"

definition tally_rows :: "string \<Rightarrow> (string option \<times> nat) list \<Rightarrow> (string \<times> nat) list" where
  "tally_rows fallback rows = sort_key (\<lambda>(n, c). (- int c, n)) (fold (add_tally fallback) rows [])"

definition created_breakdown :: "store_zone \<Rightarrow> stats_alert list \<Rightarrow> wall_time \<Rightarrow> wall_time \<Rightarrow>
    nat \<times> (string option \<times> nat) list \<times> (string option \<times> nat) list" where
  "created_breakdown z db first stop = (let found = filter (\<lambda>a. in_window z first stop (sa_created_at a)) db
     in (length found, group_count (map sa_camera_id found), group_count (map sa_alert_type found)))"

text \<open>\<^verbatim>\<open>_count_between\<close>: how many values lie in the bounds that are given.\<close>

definition count_between :: "int option \<Rightarrow> int option \<Rightarrow> int list \<Rightarrow> nat" where
  "count_between low high xs = length (filter (\<lambda>s. (case low of None \<Rightarrow> True | Some l \<Rightarrow> l \<le> s) \<and>
     (case high of None \<Rightarrow> True | Some h \<Rightarrow> s < h)) xs)"

record decided_rows =
  dc_decided :: nat
  dc_median :: "rat option"
  dc_under_60 :: nat
  dc_under_300 :: nat
  dc_under_900 :: nat
  dc_over_900 :: nat

text \<open>\<^verbatim>\<open>$dateDiff\<close> in seconds counts the full seconds begun in between; the median is approximate and an
  argument.\<close>

definition date_diff :: "datetime \<Rightarrow> datetime \<Rightarrow> int" where
  "date_diff start stop = stop div seconds 1 - start div seconds 1"

definition decided_breakdown :: "store_zone \<Rightarrow> (int list \<Rightarrow> rat) \<Rightarrow> stats_alert list \<Rightarrow> wall_time \<Rightarrow> wall_time \<Rightarrow> decided_rows" where
  "decided_breakdown z median db first stop =
     (let found = filter (\<lambda>a. case sa_decided_at a of None \<Rightarrow> False | Some t \<Rightarrow> in_window z first stop t) db;
          secs = map (\<lambda>a. date_diff (sa_created_at a) (the (sa_decided_at a))) found
      in \<lparr>dc_decided = length secs, dc_median = (if secs = [] then None else Some (median secs)),
        dc_under_60 = count_between None (Some 60) secs, dc_under_300 = count_between (Some 60) (Some 300) secs,
        dc_under_900 = count_between (Some 300) (Some 900) secs, dc_over_900 = count_between (Some 900) None secs\<rparr>)"

record breakdown_response =
  br_start :: wall_time
  br_end :: wall_time
  br_raised :: nat
  br_decided :: nat
  br_median_decision_seconds :: "int option"
  br_duration :: "nat \<times> nat \<times> nat \<times> nat"
  br_alert_types :: "(string \<times> nat) list"
  br_cameras :: "(string \<times> nat) list"

text \<open>\<open>py_round\<close> is Python's \<^verbatim>\<open>round\<close>.\<close>

definition breakdown :: "store_zone \<Rightarrow> (int list \<Rightarrow> rat) \<Rightarrow> (rat \<Rightarrow> int) \<Rightarrow> datetime \<Rightarrow> stats_alert list \<Rightarrow> datetime option \<Rightarrow>
    datetime option \<Rightarrow> bucket_unit \<Rightarrow> string + breakdown_response" where
  "breakdown z median py_round now db start stop u = rbind (resolve_window z now start stop u) (\<lambda>(first, last_wall).
     case created_breakdown z db first last_wall of (raised, cameras, alert_types) \<Rightarrow>
       let d = decided_breakdown z median db first last_wall
       in Inr \<lparr>br_start = first, br_end = last_wall, br_raised = raised, br_decided = dc_decided d,
         br_median_decision_seconds = map_option (\<lambda>m. max 0 (py_round m)) (dc_median d),
         br_duration = (dc_under_60 d, dc_under_300 d, dc_under_900 d, dc_over_900 d),
         br_alert_types = tally_rows ''ALERT_TYPE_UNSPECIFIED'' alert_types,
         br_cameras = tally_rows ''unassigned'' cameras\<rparr>)"

definition store_day_start :: "store_zone \<Rightarrow> datetime \<Rightarrow> wall_time" where
  "store_day_start z now = truncate_wall DAY (zn_local z now)"

definition count_by_severity :: "store_zone \<Rightarrow> string list \<Rightarrow> wall_time \<Rightarrow> stats_alert list \<Rightarrow> nat" where
  "count_by_severity z severities since db =
     length (filter (\<lambda>a. sa_severity a \<in> set severities \<and> zn_instant z since \<le> sa_created_at a) db)"

definition count_alerts_today :: "store_zone \<Rightarrow> datetime \<Rightarrow> stats_alert list \<Rightarrow> nat" where
  "count_alerts_today z now db = length (filter (\<lambda>a. zn_instant z (store_day_start z now) \<le> sa_created_at a) db)"

definition top_objects :: "nat \<Rightarrow> stats_alert list \<Rightarrow> (string \<times> nat) list" where
  "top_objects limit db = take limit (sort_key (\<lambda>(n, c). (- int c, n)) (group_count
     (filter (\<lambda>n. n \<noteq> '''') (List.map_filter sa_object db))))"

record overview_response =
  ov_total_alerts :: nat
  ov_total_detections :: nat
  ov_total_cameras :: nat
  ov_alerts_today :: nat
  ov_high_severity :: nat
  ov_medium_severity :: nat
  ov_top_objects :: "(string \<times> nat) list"

text \<open>The start of the day is computed twice, at two readings of the clock.\<close>

definition overview :: "store_zone \<Rightarrow> datetime \<Rightarrow> datetime \<Rightarrow> stats_alert list \<Rightarrow> nat \<Rightarrow> nat \<Rightarrow> overview_response" where
  "overview z now now' db detections cameras = (let day_start = store_day_start z now
     in \<lparr>ov_total_alerts = length db, ov_total_detections = detections, ov_total_cameras = cameras,
       ov_alerts_today = count_alerts_today z now' db,
       ov_high_severity = count_by_severity z [''SEVERITY_WARNING'', ''SEVERITY_CRITICAL''] day_start db,
       ov_medium_severity = count_by_severity z [''SEVERITY_NOTICE''] day_start db, ov_top_objects = top_objects 5 db\<rparr>)"

section \<open>Groups and slots\<close>

lemma sum_count_remdups: "sum_list (map (count_list xs) (remdups xs)) = length xs"
proof -
  have "sum_list (map (count_list xs) (remdups xs)) = sum (count_list xs) (set xs)"
    by (simp add: sum_list_distinct_conv_sum_set)
  then show ?thesis by (simp add: sum_count_set)
qed

lemma sum_group_count:
  "sum_list (map snd (filter (\<lambda>r. P (fst r)) (group_count xs))) = length (filter P xs)"
proof -
  have "count_list xs x = count_list (filter P xs) x" if "P x" for x
    using that by (induction xs) auto
  then have "map (count_list xs) (filter P (remdups xs)) = map (count_list (filter P xs)) (remdups (filter P xs))"
    by (simp add: remdups_filter)
  then show ?thesis using sum_count_remdups[of "filter P xs"]
    by (simp add: group_count_def filter_map comp_def)
qed

lemma sum_list_filter_mset: "sum_list (map g (filter P xs)) = sum_mset (image_mset g (filter_mset P (mset xs)))"
  by (simp flip: mset_filter mset_map add: sum_mset_sum_list)

text \<open>What a slot holds after all rows.\<close>

lemma fold_add_row:
  "fold (add_row tbl z) rows counts (w, f) = counts (w, f) +
     sum_list (map snd (filter (\<lambda>r. fst (zn_local z (fst (fst r))) = w \<and> map_of tbl (snd (fst r)) = Some f) rows))"
  by (induction rows arbitrary: counts) (auto simp: add_row_def Let_def split: option.splits)

lemma slot_value:
  assumes "\<And>t. fst (zn_local z (trunc t)) = wall t"
  shows "fold (add_row tbl z) (sort_key key (group_count (map (\<lambda>(t, s). (trunc t, s)) events))) (\<lambda>_. 0) (w, f)
    = length (filter (\<lambda>(t, s). wall t = w \<and> map_of tbl s = Some f) events)"
proof -
  let ?P = "\<lambda>(b, s). fst (zn_local z b) = w \<and> map_of tbl s = Some f"
  let ?rows = "group_count (map (\<lambda>(t, s). (trunc t, s)) events)"
  have "fold (add_row tbl z) (sort_key key ?rows) (\<lambda>_. 0) (w, f) = sum_list (map snd (filter (\<lambda>r. ?P (fst r)) (sort_key key ?rows)))"
    by (simp add: fold_add_row split_def)
  also have "\<dots> = sum_list (map snd (filter (\<lambda>r. ?P (fst r)) ?rows))" by (simp only: sum_list_filter_mset mset_sort)
  also have "\<dots> = length (filter ?P (map (\<lambda>(t, s). (trunc t, s)) events))" by (rule sum_group_count)
  finally show ?thesis using assms by (simp add: filter_map comp_def split_def)
qed

section \<open>The window and its buckets\<close>

text \<open>What is known of the zone and of \<^verbatim>\<open>$dateTrunc\<close>: the clock moves by whole hours, so at a full hour
  it shows at least that hour from the instant of the hour on; a truncated moment is no later than
  itself; and a truncated instant shows the truncated clock.\<close>

definition zone_ok :: "store_zone \<Rightarrow> (bucket_unit \<Rightarrow> datetime \<Rightarrow> datetime) \<Rightarrow> bool" where
  "zone_ok z trunc \<longleftrightarrow>
     (\<forall>w t. w mod seconds 3600 = 0 \<longrightarrow> (zn_instant z (w, False) \<le> t \<longleftrightarrow> w \<le> fst (zn_local z t))) \<and>
     (\<forall>u s t. zn_instant z (truncate_wall u (zn_local z s)) \<le> t \<longrightarrow> fst (truncate_wall u (zn_local z s)) \<le> fst (zn_local z t)) \<and>
     (\<forall>u t. fst (zn_local z (trunc u t)) = fst (truncate_wall u (zn_local z t)))"

lemma unit_step_simps [simp]: "unit_step HOUR = 3600000000" "unit_step DAY = 86400000000" "0 < unit_step u"
  by (cases u; simp add: unit_step_def seconds_def)+

lemma mod_mod_mult:
  fixes x h k :: int
  assumes "0 < h" "0 < k"
  shows "x - x mod h - (x - x mod h) mod (h * k) = x - x mod (h * k)"
proof -
  have a: "x - x mod h = h * (x div h)" by (simp add: minus_mod_eq_mult_div)
  have "h * (x div h) - (h * (x div h)) mod (h * k) = h * k * (x div h div k)"
    by (simp add: minus_mod_eq_mult_div mod_mult_mult1 right_diff_distrib[symmetric] mult.assoc)
  also have "\<dots> = x - x mod (h * k)" using assms by (simp add: minus_mod_eq_mult_div zdiv_zmult2_eq)
  finally show ?thesis unfolding a .
qed

lemma truncate_wall_mod: "fst (truncate_wall u m) = fst m - fst m mod unit_step u"
  using mod_mod_mult[of "seconds 3600" 24 "fst m"] by (cases u) (simp_all add: truncate_wall_def Let_def seconds_def)

lemma on_grid [simp]: "fst (truncate_wall u m) mod unit_step u = 0"
  by (simp add: truncate_wall_mod mod_diff_eq[of "fst m" "unit_step u" "fst m", symmetric])

lemma grid_hours: "w mod unit_step u = 0 \<Longrightarrow> w mod seconds 3600 = 0"
  using mod_mod_cancel[of "seconds 3600" "unit_step u" w] by (cases u) (simp_all add: seconds_def)

lemma truncate_below:
  assumes "w mod unit_step u = 0"
  shows "w \<le> fst m \<longleftrightarrow> w \<le> fst (truncate_wall u m)" "fst m < w \<longleftrightarrow> fst (truncate_wall u m) < w"
proof -
  let ?s = "unit_step u"
  obtain q where q: "w = ?s * q" using assms by (auto simp: mod_eq_0_iff_dvd elim: dvdE)
  have t: "fst (truncate_wall u m) = ?s * (fst m div ?s)" by (simp add: truncate_wall_mod minus_mod_eq_mult_div)
  have "0 \<le> fst m mod ?s" by (rule pos_mod_sign) simp
  then have "?s * (fst m div ?s) \<le> fst m" using minus_mod_eq_mult_div[of "fst m" ?s] by linarith
  moreover have "?s * q \<le> ?s * (fst m div ?s)" if "?s * q \<le> fst m"
  proof -
    have "?s * q div ?s \<le> fst m div ?s" using that by (intro zdiv_mono1) simp_all
    moreover have "?s * q div ?s = q" using unit_step_simps(3)[of u] by (intro nonzero_mult_div_cancel_left) linarith
    ultimately have "q \<le> fst m div ?s" by simp
    then show ?thesis using unit_step_simps(3)[of u] by (intro mult_left_mono) linarith+
  qed
  ultimately show "w \<le> fst m \<longleftrightarrow> w \<le> fst (truncate_wall u m)" unfolding t q by linarith
  then show "fst m < w \<longleftrightarrow> fst (truncate_wall u m) < w" by linarith
qed

lemma set_walk: "w \<in> set (walk u c stop) \<longleftrightarrow> c \<le> w \<and> w < stop \<and> (w - c) mod unit_step u = 0"
proof (induction u c stop rule: walk.induct)
  case (1 u c stop)
  have shift: "(w - (c + unit_step u)) mod unit_step u = (w - c) mod unit_step u"
    using mod_add_self2[of "w - (c + unit_step u)" "unit_step u"] by (simp add: algebra_simps)
  have later: "c + unit_step u \<le> w" if "c \<le> w" "w \<noteq> c" "(w - c) mod unit_step u = 0"
    using that zmod_le_nonneg_dividend[of "w - c" "unit_step u"] zdvd_imp_le[of "unit_step u" "w - c"]
    by (simp add: mod_eq_0_iff_dvd)
  show ?case
  proof (cases "c < stop")
    case True
    then show ?thesis using 1 shift later unit_step_simps(3)[of u]
      by (subst walk.simps) (auto simp del: unit_step_simps(3))
  qed (subst walk.simps, auto)
qed

lemma walk_bounds: "distinct (walk u c stop) \<and> sorted (walk u c stop)"
proof (induction u c stop rule: walk.induct)
  case (1 u c stop)
  then show ?case using unit_step_simps(3)[of u]
    by (subst (1 2) walk.simps) (auto simp: set_walk simp del: unit_step_simps(3) intro: order.trans[OF _ less_imp_le])
qed

lemma length_walk: "c \<le> stop \<Longrightarrow> (stop - c) mod unit_step u = 0 \<Longrightarrow> int (length (walk u c stop)) = (stop - c) div unit_step u"
proof (induction u c stop rule: walk.induct)
  case (1 u c stop)
  show ?case
  proof (cases "c < stop")
    case True
    have "unit_step u \<le> stop - c" using True 1(3) zdvd_imp_le[of "unit_step u" "stop - c"] by (simp add: mod_eq_0_iff_dvd)
    moreover have "(stop - (c + unit_step u)) mod unit_step u = 0"
      using 1(3) mod_add_self2[of "stop - (c + unit_step u)" "unit_step u"] by (simp add: algebra_simps)
    moreover have "(stop - c) div unit_step u = (stop - (c + unit_step u)) div unit_step u + 1"
      using div_add_self2[of "unit_step u" "stop - (c + unit_step u)"] unit_step_simps(3)[of u] by (simp add: algebra_simps)
    ultimately show ?thesis using 1(1)[OF True] True by (subst walk.simps) simp
  qed (use 1(2) in \<open>subst walk.simps, simp\<close>)
qed

lemma resolve_window_ok:
  assumes "resolve_window z now start stop u = Inr (first, last_wall)"
  shows "fst first mod unit_step u = 0" "fst last_wall mod unit_step u = 0" "fst first < fst last_wall" "\<not> snd last_wall"
    "fst last_wall - fst first \<le> unit_step u * MAX_BUCKETS" "\<not> snd first \<or> (\<exists>s. first = truncate_wall u (zn_local z s))"
proof -
  define e where "e = fst (truncate_wall u (zn_local z (case stop of None \<Rightarrow> now | Some e \<Rightarrow> e))) + unit_step u"
  define b where "b = (case start of None \<Rightarrow> (e - unit_step u * (case u of HOUR \<Rightarrow> 24 | DAY \<Rightarrow> 30), False) | Some s \<Rightarrow> truncate_wall u (zn_local z s))"
  have r: "fst b < e" "last_wall = (e, False)"
    "first = (if (e - fst b) div unit_step u > MAX_BUCKETS then (e - unit_step u * MAX_BUCKETS, False) else b)"
  proof -
    have "resolve_window z now start stop u = (if fst b \<ge> e then Inl ''start must fall before end''
        else Inr (if (e - fst b) div unit_step u > MAX_BUCKETS then (e - unit_step u * MAX_BUCKETS, False) else b, (e, False)))"
      unfolding b_def unfolding e_def resolve_window_def Let_def by (rule refl)
    then show "fst b < e" "last_wall = (e, False)"
      "first = (if (e - fst b) div unit_step u > MAX_BUCKETS then (e - unit_step u * MAX_BUCKETS, False) else b)"
      using assms by (simp_all split: if_split_asm)
  qed
  have e: "e mod unit_step u = 0" by (simp add: e_def)
  have b: "fst b mod unit_step u = 0" using e by (cases start) (simp_all add: b_def mod_diff_eq[symmetric])
  have far: "unit_step u dvd e - fst b" using e b by (simp add: mod_eq_0_iff_dvd)
  show "fst last_wall mod unit_step u = 0" "\<not> snd last_wall" using r e by simp_all
  show "fst first mod unit_step u = 0" using r e b by (simp add: mod_diff_eq[symmetric] mod_mult_self1_is_0)
  show "fst first < fst last_wall" using r by (auto simp: MAX_BUCKETS_def)
  have "e - fst b = unit_step u * ((e - fst b) div unit_step u)" using far by simp
  also have "\<dots> \<le> unit_step u * MAX_BUCKETS" if "(e - fst b) div unit_step u \<le> MAX_BUCKETS"
    using that unit_step_simps(3)[of u] by (intro mult_left_mono) linarith+
  finally show "fst last_wall - fst first \<le> unit_step u * MAX_BUCKETS" using r by auto
  show "\<not> snd first \<or> (\<exists>s. first = truncate_wall u (zn_local z s))" using r by (auto simp: b_def split: option.splits)
qed

lemma window_slot:
  assumes "zone_ok z trunc" "resolve_window z now start stop u = Inr (first, last_wall)" "in_window z first last_wall t"
  shows "fst (truncate_wall u (zn_local z t)) \<in> set (walk u (fst first) (fst last_wall))"
proof -
  note r = resolve_window_ok[OF assms(2)]
  let ?w = "fst (zn_local z t)"
  have hours: "zn_instant z (w, False) \<le> t \<longleftrightarrow> w \<le> ?w" if "w mod unit_step u = 0" for w
    using assms(1) grid_hours[OF that] by (simp add: zone_ok_def)
  have "last_wall = (fst last_wall, False)" using r(4) by (cases last_wall) simp
  then have "?w < fst last_wall" using assms(3) hours[OF r(2)] by (metis in_window_def linorder_not_le)
  moreover have "fst first \<le> ?w"
    using r(6)
  proof
    assume "\<not> snd first"
    then have "first = (fst first, False)" by (cases first) simp
    then show ?thesis using assms(3) hours[OF r(1)] by (metis in_window_def)
  next
    assume "\<exists>s. first = truncate_wall u (zn_local z s)"
    then show ?thesis using assms(1,3) by (auto simp: zone_ok_def in_window_def)
  qed
  moreover have "(fst (truncate_wall u (zn_local z t)) - fst first) mod unit_step u = 0"
    using r(1) on_grid[of u "zn_local z t"] by (simp add: mod_diff_eq[symmetric])
  ultimately show ?thesis using truncate_below[OF r(1)] truncate_below[OF r(2)] by (simp add: set_walk)
qed

lemma sum_filter_eq:
  "distinct ks \<Longrightarrow> sum_list (map (\<lambda>k. length (filter (\<lambda>x. P x \<and> h x = k) xs)) ks) = length (filter (\<lambda>x. P x \<and> h x \<in> set ks) xs)"
proof (induction ks)
  case (Cons k ks)
  have "length (filter (\<lambda>x. P x \<and> h x = k) ys) + length (filter (\<lambda>x. P x \<and> h x \<in> set ks) ys)
      = length (filter (\<lambda>x. P x \<and> h x \<in> set (k # ks)) ys)" for ys
    using Cons.prems by (induction ys) auto
  then show ?case using Cons by simp
qed simp

text \<open>A series filled from the groups of any events of the window.\<close>

lemma fill_buckets_ok:
  fixes events :: "(datetime \<times> string) list" and key :: "(datetime \<times> string) \<times> nat \<Rightarrow> datetime"
  assumes "zone_ok z trunc" "resolve_window z now start stop u = Inr (first, last_wall)"
    and "\<forall>e\<in>set events. in_window z first last_wall (fst e)" "distinct (map snd tbl)"
  defines "slot \<equiv> \<lambda>e :: datetime \<times> string. fst (truncate_wall u (zn_local z (fst e)))"
  defines "bs \<equiv> fill_buckets tbl z (sort_key key (group_count (map (\<lambda>(t, s). (trunc u t, s)) events))) first last_wall u"
  shows "map bk_moment bs = walk u (fst first) (fst last_wall)"
    and "b \<in> set bs \<Longrightarrow> bk_values b = map (\<lambda>f. (f, length (filter (\<lambda>e. slot e = bk_moment b \<and> map_of tbl (snd e) = Some f) events))) (map snd tbl)"
    and "b \<in> set bs \<Longrightarrow> bk_total b = length (filter (\<lambda>e. slot e = bk_moment b \<and> map_of tbl (snd e) \<noteq> None) events)"
    and "sum_list (map bk_total bs) = length (filter (\<lambda>e. map_of tbl (snd e) \<noteq> None) events)"
proof -
  have tr: "fst (zn_local z (trunc u t)) = fst (truncate_wall u (zn_local z t))" for t using assms(1) by (simp add: zone_ok_def)
  have slotv: "fold (add_row tbl z) (sort_key key (group_count (map (\<lambda>(t, s). (trunc u t, s)) events))) (\<lambda>_. 0) (w, f)
      = length (filter (\<lambda>e. slot e = w \<and> map_of tbl (snd e) = Some f) events)" for w f
    using slot_value[of z "trunc u", OF tr] by (simp add: slot_def split_def)
  show moments: "map bk_moment bs = walk u (fst first) (fst last_wall)" by (simp add: bs_def fill_buckets_def Let_def comp_def)
  show vals: "bk_values b = map (\<lambda>f. (f, length (filter (\<lambda>e. slot e = bk_moment b \<and> map_of tbl (snd e) = Some f) events))) (map snd tbl)"
    if "b \<in> set bs" for b
    using that by (auto simp: bs_def fill_buckets_def Let_def slotv)
  have some: "map_of tbl s \<in> set (map (\<lambda>e. Some (snd e)) tbl) \<longleftrightarrow> map_of tbl s \<noteq> None" for s
    by (cases "map_of tbl s") (force dest: map_of_SomeD)+
  have keys: "distinct (map (\<lambda>e. Some (snd e)) tbl)" using assms(4) by (simp add: distinct_map inj_on_def)
  show total: "bk_total b = length (filter (\<lambda>e. slot e = bk_moment b \<and> map_of tbl (snd e) \<noteq> None) events)" if b: "b \<in> set bs" for b
  proof -
    have "bk_total b = sum_list (map snd (bk_values b))" using b by (auto simp: bs_def fill_buckets_def Let_def)
    also have "\<dots> = sum_list (map (\<lambda>k. length (filter (\<lambda>e. slot e = bk_moment b \<and> map_of tbl (snd e) = k) events)) (map (\<lambda>e. Some (snd e)) tbl))"
      by (simp add: vals[OF b] comp_def)
    also have "\<dots> = length (filter (\<lambda>e. slot e = bk_moment b \<and> map_of tbl (snd e) \<noteq> None) events)"
      unfolding sum_filter_eq[OF keys] some ..
    finally show ?thesis .
  qed
  have "sum_list (map bk_total bs) = sum_list (map (\<lambda>w. length (filter (\<lambda>e. map_of tbl (snd e) \<noteq> None \<and> slot e = w) events)) (map bk_moment bs))"
    using total by (simp add: comp_def conj_commute cong: map_cong)
  also have "\<dots> = length (filter (\<lambda>e. map_of tbl (snd e) \<noteq> None \<and> slot e \<in> set (walk u (fst first) (fst last_wall))) events)"
    unfolding moments using walk_bounds by (intro sum_filter_eq) blast
  also have "\<dots> = length (filter (\<lambda>e. map_of tbl (snd e) \<noteq> None) events)"
    using window_slot[OF assms(1,2)] assms(3) by (intro arg_cong[where f = length] filter_cong) (auto simp: slot_def)
  finally show "sum_list (map bk_total bs) = length (filter (\<lambda>e. map_of tbl (snd e) \<noteq> None) events)" .
qed

section \<open>Tallies\<close>

definition tally_value :: "string \<Rightarrow> (string \<times> nat) list \<Rightarrow> nat" where
  "tally_value n m = sum_list (map snd (filter (\<lambda>p. fst p = n) m))"

lemma tally_value_member: "distinct (map fst m) \<Longrightarrow> (n, c) \<in> set m \<Longrightarrow> tally_value n m = c"
proof (induction m)
  case (Cons p m)
  have "filter (\<lambda>p. fst p = n) m = []" if "n \<notin> fst ` set m" using that by (auto simp: filter_empty_conv)
  then show ?case using Cons by (auto simp: tally_value_def image_iff)
qed simp

lemma map_bump:
  assumes "distinct (map fst m)" "name \<in> fst ` set m"
  shows "map fst (map (\<lambda>(n, c). if n = name then (n, c + k) else (n, c)) m) = map fst m"
    and "tally_value n (map (\<lambda>(n, c). if n = name then (n, c + k) else (n, c)) m) = tally_value n m + (if n = name then k else 0)"
    and "sum_list (map snd (map (\<lambda>(n, c). if n = name then (n, c + k) else (n, c)) m)) = sum_list (map snd m) + k"
proof -
  show "map fst (map (\<lambda>(n, c). if n = name then (n, c + k) else (n, c)) m) = map fst m" by (auto simp: case_prod_beta)
  have same: "map (\<lambda>(n, c). if n = name then (n, c + k) else (n, c)) m = m" if "name \<notin> fst ` set m" for m :: "(string \<times> nat) list"
    using that by (induction m) auto
  show "sum_list (map snd (map (\<lambda>(n, c). if n = name then (n, c + k) else (n, c)) m)) = sum_list (map snd m) + k"
    using assms
  proof (induction m)
    case (Cons p m)
    then show ?case by (cases p, cases "fst p = name") (simp_all add: same del: map_map)
  qed simp
  show "tally_value n (map (\<lambda>(n, c). if n = name then (n, c + k) else (n, c)) m) = tally_value n m + (if n = name then k else 0)"
    using assms
  proof (induction m)
    case (Cons p m)
    then show ?case by (cases p, cases "fst p = name") (cases "n = name"; simp add: same tally_value_def)+
  qed simp
qed

lemma fold_tally:
  "distinct (map fst m) \<Longrightarrow> distinct (map fst (fold (add_tally fallback) rows m)) \<and>
     tally_value n (fold (add_tally fallback) rows m) = tally_value n m + sum_list (map snd (filter (\<lambda>r. tally_name fallback (fst r) = n) rows)) \<and>
     sum_list (map snd (fold (add_tally fallback) rows m)) = sum_list (map snd m) + sum_list (map snd rows)"
proof (induction rows arbitrary: m)
  case (Cons r rows)
  let ?n = "tally_name fallback (fst r)" and ?m = "add_tally fallback r m"
  have "distinct (map fst ?m) \<and> tally_value n ?m = tally_value n m + (if ?n = n then snd r else 0) \<and>
      sum_list (map snd ?m) = sum_list (map snd m) + snd r"
  proof (cases "?n \<in> fst ` set m")
    case True
    note b = map_bump[OF Cons.prems True, where k = "snd r"]
    show ?thesis using True Cons.prems unfolding add_tally_def Let_def by (simp only: if_True b) auto
  qed (use Cons.prems in \<open>auto simp: add_tally_def Let_def tally_value_def\<close>)
  then show ?case using Cons.IH[of ?m] by simp
qed simp

lemma tally_rows_ok:
  fixes key :: "'a \<Rightarrow> string option" and fallback :: string and xs :: "'a list"
  defines "ts \<equiv> tally_rows fallback (group_count (map key xs))"
  shows "distinct (map fst ts)" "sorted (map (\<lambda>(n, c). (- int c, n)) ts)" "sum_list (map snd ts) = length xs"
    "(n, c) \<in> set ts \<Longrightarrow> c = length (filter (\<lambda>x. tally_name fallback (key x) = n) xs)"
proof -
  let ?rows = "group_count (map key xs)" and ?m = "fold (add_tally fallback) (group_count (map key xs)) []"
  have all: "sum_list (map snd ?rows) = length xs" using sum_group_count[of "\<lambda>_. True" "map key xs"] by simp
  have each: "sum_list (map snd (filter (\<lambda>r. tally_name fallback (fst r) = n) ?rows)) = length (filter (\<lambda>x. tally_name fallback (key x) = n) xs)" for n
    using sum_group_count[of "\<lambda>k. tally_name fallback k = n" "map key xs"] by (simp add: filter_map comp_def)
  note f = fold_tally[of "[]" fallback ?rows, simplified]
  have ts: "ts = sort_key (\<lambda>(n, c). (- int c, n)) ?m" by (simp add: ts_def tally_rows_def)
  have perm: "mset ts = mset ?m" by (simp add: ts)
  show d: "distinct (map fst ts)" using f by (metis perm mset_map mset_eq_imp_distinct_iff)
  show "sorted (map (\<lambda>(n, c). (- int c, n)) ts)" unfolding ts by (rule sorted_sort_key)
  have "sum_list (map snd ts) = sum_list (map snd ?m)" by (metis perm mset_map sum_mset_sum_list)
  then show "sum_list (map snd ts) = length xs" using f all by simp
  show "c = length (filter (\<lambda>x. tally_name fallback (key x) = n) xs)" if "(n, c) \<in> set ts"
  proof -
    have "(n, c) \<in> set ?m" using that by (simp add: ts)
    with f have "tally_value n ?m = c" by (intro tally_value_member) blast
    then show ?thesis using f each by (simp add: tally_value_def)
  qed
qed

lemma durations_partition:
  "count_between None (Some 60) xs + count_between (Some 60) (Some 300) xs + count_between (Some 300) (Some 900) xs +
     count_between (Some 900) None xs = length xs"
  by (induction xs) (auto simp: count_between_def)

section \<open>Properties\<close>

lemma field_lookup:
  assumes "distinct (map snd tbl)" "distinct (map fst tbl)" "(s, f) \<in> set tbl"
  shows "map_of tbl t = Some f \<longleftrightarrow> t = s"
proof
  assume "map_of tbl t = Some f"
  from map_of_SomeD[OF this] show "t = s" using assms(1,3) by (auto simp: distinct_map dest: inj_onD[of snd "set tbl" "(t, f)" "(s, f)"])
qed (use assms(2,3) in simp)

text \<open>A series over the events of the alerts that \<open>P\<close> selects, with their time and their key.\<close>

lemma series_ok:
  fixes label :: "'a \<Rightarrow> string"
  assumes "zone_ok z trunc" "resolve_window z now start stop u = Inr (first, last_wall)"
    and "distinct (map snd tbl)" "distinct (map fst tbl)" "\<forall>a\<in>set xs. in_window z first last_wall (time a)"
  defines "bs \<equiv> fill_buckets tbl z (sort_key (\<lambda>row. fst (fst row)) (group_count (map (\<lambda>a. (trunc u (time a), label a)) xs))) first last_wall u"
  shows "map bk_moment bs = walk u (fst first) (fst last_wall) \<and>
    list_all (\<lambda>b. bk_values b = map (\<lambda>(s, f). (f, length (filter (\<lambda>a. fst (truncate_wall u (zn_local z (time a))) = bk_moment b \<and> label a = s) xs))) tbl) bs \<and>
    sum_list (map bk_total bs) = length (filter (\<lambda>a. label a \<in> fst ` set tbl) xs)"
proof -
  let ?events = "map (\<lambda>a. (time a, label a)) xs"
  have bs: "bs = fill_buckets tbl z (sort_key (\<lambda>row. fst (fst row)) (group_count (map (\<lambda>(t, s). (trunc u t, s)) ?events))) first last_wall u"
    by (simp add: bs_def comp_def)
  have "\<forall>e\<in>set ?events. in_window z first last_wall (fst e)" using assms(5) by simp
  note f = fill_buckets_ok[OF assms(1,2) this assms(3), where key = "\<lambda>row. fst (fst row)", folded bs]
  have dom: "map_of tbl s \<noteq> None \<longleftrightarrow> s \<in> fst ` set tbl" for s by (simp add: map_of_eq_None_iff)
  have vals: "bk_values b = map (\<lambda>(s, f). (f, length (filter (\<lambda>a. fst (truncate_wall u (zn_local z (time a))) = bk_moment b \<and> label a = s) xs))) tbl"
    if "b \<in> set bs" for b
  proof -
    have "bk_values b = map (\<lambda>f. (f, length (filter (\<lambda>e. fst (truncate_wall u (zn_local z (fst e))) = bk_moment b \<and> map_of tbl (snd e) = Some f) ?events)))
        (map snd tbl)" by (rule f(2)[OF that])
    also have "\<dots> = map (\<lambda>(s, f). (f, length (filter (\<lambda>a. fst (truncate_wall u (zn_local z (time a))) = bk_moment b \<and> label a = s) xs))) tbl"
      using field_lookup[OF assms(3,4)] by (auto simp: filter_map comp_def)
    finally show ?thesis .
  qed
  show ?thesis using f(1) f(4)[unfolded dom] vals by (simp add: list_all_iff filter_map comp_def)
qed



text \<open>The breakdown of a window partitions its alerts by type and by camera and its decisions by the
  time they took, and lists the largest classes first.\<close>

theorem breakdown_accounts:
  assumes "breakdown z median py_round now db start stop u = Inr r"
  defines "raised \<equiv> filter (\<lambda>a. in_window z (br_start r) (br_end r) (sa_created_at a)) db"
  shows "br_raised r = length raised \<and> sum_list (map snd (br_cameras r)) = br_raised r \<and> sum_list (map snd (br_alert_types r)) = br_raised r \<and>
    distinct (map fst (br_cameras r)) \<and> sorted (map (\<lambda>(n, c). (- int c, n)) (br_cameras r)) \<and>
    list_all (\<lambda>(n, c). c = length (filter (\<lambda>a. tally_name ''unassigned'' (sa_camera_id a) = n) raised)) (br_cameras r) \<and>
    (case br_duration r of (a, b, c, d) \<Rightarrow> a + b + c + d = br_decided r)"
proof -
  obtain first last_wall where r: "br_start r = first" "br_end r = last_wall" "br_raised r = length (filter (\<lambda>a. in_window z first last_wall (sa_created_at a)) db)"
      "br_cameras r = tally_rows ''unassigned'' (group_count (map sa_camera_id (filter (\<lambda>a. in_window z first last_wall (sa_created_at a)) db)))"
      "br_alert_types r = tally_rows ''ALERT_TYPE_UNSPECIFIED'' (group_count (map sa_alert_type (filter (\<lambda>a. in_window z first last_wall (sa_created_at a)) db)))"
      "br_decided r = dc_decided (decided_breakdown z median db first last_wall)"
      "br_duration r = (case decided_breakdown z median db first last_wall of d \<Rightarrow> (dc_under_60 d, dc_under_300 d, dc_under_900 d, dc_over_900 d))"
    using assms(1) by (auto simp: breakdown_def rbind_eq_Inr created_breakdown_def Let_def)
  have raised: "raised = filter (\<lambda>a. in_window z first last_wall (sa_created_at a)) db" by (simp add: raised_def r)
  show ?thesis unfolding r(3-7) raised[symmetric]
    using tally_rows_ok[where fallback = "''unassigned''" and key = sa_camera_id and xs = raised]
      tally_rows_ok(3)[where fallback = "''ALERT_TYPE_UNSPECIFIED''" and key = sa_alert_type and xs = raised]
    by (auto simp: list_all_iff decided_breakdown_def Let_def durations_partition)
qed

text \<open>A zone whose clock goes back from eleven to ten, and two alerts half past ten, an hour apart.\<close>

definition clock_back :: store_zone where
  "clock_back = \<lparr>zn_local = (\<lambda>t. if t < seconds 36000 then (t + seconds 3600, False) else (t, t < seconds 39600)),
     zn_instant = (\<lambda>m. if fst m < seconds 39600 \<and> \<not> (snd m \<and> seconds 36000 \<le> fst m) then fst m - seconds 3600 else fst m)\<rparr>"

definition clock_back_trunc :: "bucket_unit \<Rightarrow> datetime \<Rightarrow> datetime" where
  "clock_back_trunc u t = zn_instant clock_back (truncate_wall u (zn_local clock_back t))"

lemma clock_back_hours:
  assumes "w mod seconds 3600 = 0"
  shows "zn_instant clock_back (w, False) \<le> t \<longleftrightarrow> w \<le> fst (zn_local clock_back t)" "fst (zn_local clock_back (zn_instant clock_back (w, f))) = w"
proof -
  obtain q where "w = seconds 3600 * q" using assms by (auto simp: mod_eq_0_iff_dvd elim: dvdE)
  then have "w < seconds 39600 \<Longrightarrow> w \<le> seconds 36000" by (simp add: seconds_def)
  then show "zn_instant clock_back (w, False) \<le> t \<longleftrightarrow> w \<le> fst (zn_local clock_back t)"
    "fst (zn_local clock_back (zn_instant clock_back (w, f))) = w"
    by (auto simp: clock_back_def seconds_def)
qed

lemma clock_back_ok: "zone_ok clock_back clock_back_trunc"
proof -
  have grid: "fst (truncate_wall u m) mod seconds 3600 = 0" for u m by (rule grid_hours) (rule on_grid)
  have "fst (truncate_wall u (zn_local clock_back s)) \<le> fst (zn_local clock_back t)"
    if t: "zn_instant clock_back (truncate_wall u (zn_local clock_back s)) \<le> t" for u s t
  proof (cases "snd (zn_local clock_back s)")
    case False
    then have "truncate_wall u (zn_local clock_back s) = (fst (truncate_wall u (zn_local clock_back s)), False)"
      by (simp add: truncate_wall_def Let_def)
    then show ?thesis using t clock_back_hours(1)[OF grid] by metis
  next
    case True
    then have s: "seconds 36000 \<le> s" "s < seconds 39600" "zn_local clock_back s = (s, True)"
      by (auto simp: clock_back_def split: if_splits)
    then have "s div seconds 3600 = 10" "s div seconds 86400 = 0" by (auto simp: seconds_def)
    then have "fst (truncate_wall u (s, True)) = (case u of HOUR \<Rightarrow> seconds 36000 | DAY \<Rightarrow> 0)" "snd (truncate_wall u (s, True))"
      by (auto simp: truncate_wall_mod minus_mod_eq_mult_div seconds_def truncate_wall_def Let_def split: bucket_unit.split)
    then have tw: "truncate_wall u (zn_local clock_back s) = (case u of HOUR \<Rightarrow> seconds 36000 | DAY \<Rightarrow> 0, True)"
      unfolding s(3) by (metis prod.collapse)
    show ?thesis using t unfolding tw by (cases u) (auto simp: clock_back_def seconds_def split: if_splits)
  qed
  moreover have "fst (zn_local clock_back (clock_back_trunc u t)) = fst (truncate_wall u (zn_local clock_back t))" for u t
    using clock_back_hours(2)[OF grid] by (metis clock_back_trunc_def prod.collapse)
  ultimately show ?thesis unfolding zone_ok_def using clock_back_hours(1) by blast
qed

definition repeated_hour :: "stats_alert list" where
  "repeated_hour = map (\<lambda>t. \<lparr>sa_created_at = seconds t, sa_severity = ''SEVERITY_WARNING'', sa_camera_id = None, sa_alert_type = None,
     sa_decision = ''DECISION_UNSPECIFIED'', sa_decided_at = None, sa_object = None\<rparr>) [34200, 37800]"


end
