(* ===== verification/ApiViews.thy ===== *)
theory ApiViews
  imports ApiAlerts NotifyTelegram DecisionToken
begin

text \<open>
  What the alert service shows of its alerts (\<^verbatim>\<open>services/api/app/usecases/alert_usecase.py\<close>): the text
  of a page cursor and its reading, the pictures and clips that may be served, the name of the
  object, and the state of delivery asked from the notification service
  (\<^verbatim>\<open>services/alert_service.py\<close>).
\<close>

section \<open>Base64 as Python reads it\<close>

text \<open>\<^verbatim>\<open>urlsafe_b64decode\<close> skips characters outside the alphabet, takes those of both alphabets, and
  ends at a padding that completes a group.\<close>

definition b64_value :: "char \<Rightarrow> nat option" where
  "b64_value c = (if c = CHR ''+'' then Some 62 else if c = CHR ''/'' then Some 63 else index_of c B64)"

fun a2b_digits :: "nat \<Rightarrow> nat list \<Rightarrow> string \<Rightarrow> nat list option" where
  "a2b_digits pads ds [] = (if length ds mod 4 = 0 then Some ds else None)"
| "a2b_digits pads ds (c # cs) =
     (if c = CHR ''='' then (if length ds mod 4 < 2 then a2b_digits pads ds cs
        else if 4 \<le> length ds mod 4 + (pads + 1) then Some ds else a2b_digits (pads + 1) ds cs)
      else (case b64_value c of None \<Rightarrow> a2b_digits pads ds cs | Some v \<Rightarrow> a2b_digits 0 (ds @ [v]) cs))"

definition urlsafe_b64decode :: "string \<Rightarrow> bytes option" where
  "urlsafe_b64decode s = (case a2b_digits 0 [] s of None \<Rightarrow> None | Some ds \<Rightarrow> b64_digits ds)"

definition cont_byte :: "byte \<Rightarrow> bool" where
  "cont_byte b \<longleftrightarrow> 0x80 \<le> b \<and> b \<le> 0xBF"

fun utf8_valid :: "bytes \<Rightarrow> bool" where
  "utf8_valid [] \<longleftrightarrow> True"
| "utf8_valid (a # bs) \<longleftrightarrow>
     (if a < 0x80 then utf8_valid bs
      else if 0xC2 \<le> a \<and> a \<le> 0xDF then (case bs of b # r \<Rightarrow> cont_byte b \<and> utf8_valid r | _ \<Rightarrow> False)
      else if 0xE0 \<le> a \<and> a \<le> 0xEF then (case bs of b # c # r \<Rightarrow>
          (if a = 0xE0 then 0xA0 \<le> b \<and> b \<le> 0xBF else if a = 0xED then 0x80 \<le> b \<and> b \<le> 0x9F else cont_byte b) \<and>
          cont_byte c \<and> utf8_valid r | _ \<Rightarrow> False)
      else if 0xF0 \<le> a \<and> a \<le> 0xF4 then (case bs of b # c # d # r \<Rightarrow>
          (if a = 0xF0 then 0x90 \<le> b \<and> b \<le> 0xBF else if a = 0xF4 then 0x80 \<le> b \<and> b \<le> 0x8F else cont_byte b) \<and>
          cont_byte c \<and> cont_byte d \<and> utf8_valid r | _ \<Rightarrow> False)
      else False)"

definition text_of_bytes :: "bytes \<Rightarrow> string" where
  "text_of_bytes bs = map (\<lambda>b. char_of (unat b)) bs"

section \<open>Cursors\<close>

datatype cursor_error = MalformedCursor | WrongOrder

text \<open>\<open>isoformat\<close> writes a moment in UTC, and \<open>fromisoformat\<close> reads one, without a zone as UTC.\<close>

definition encode_cursor :: "(datetime \<Rightarrow> string) \<Rightarrow> string \<Rightarrow> datetime \<Rightarrow> string \<Rightarrow> string" where
  "encode_cursor isoformat srt boundary i = b64_encode (utf8 (srt @ ''|'' @ isoformat boundary @ ''|'' @ i))"

definition CURSOR_SEGMENTS :: nat where "CURSOR_SEGMENTS = 3"

definition cursor_padding :: "string \<Rightarrow> string" where
  "cursor_padding cursor = replicate (nat (- int (length cursor) mod 4)) CHR ''=''"

definition decode_cursor :: "(string \<Rightarrow> datetime option) \<Rightarrow> string \<Rightarrow> string \<Rightarrow> cursor_error + datetime \<times> string" where
  "decode_cursor fromisoformat cursor srt =
     (if \<not> list_all (\<lambda>c. char_code c < 128) cursor then Inl MalformedCursor
      else case urlsafe_b64decode (cursor @ cursor_padding cursor) of None \<Rightarrow> Inl MalformedCursor
      | Some bs \<Rightarrow> if \<not> utf8_valid bs then Inl MalformedCursor
        else let parts = split_on CHR ''|'' (text_of_bytes bs) in
          if length parts \<noteq> CURSOR_SEGMENTS then Inl MalformedCursor
          else if parts ! 2 = '''' \<or> parts ! 1 = '''' then Inl MalformedCursor
          else if parts ! 0 \<noteq> srt then Inl WrongOrder
          else case fromisoformat (parts ! 1) of None \<Rightarrow> Inl MalformedCursor | Some t \<Rightarrow> Inr (t, parts ! 2))"

section \<open>Pictures and clips\<close>

definition resolve_snapshot :: "path \<Rightarrow> file_system \<Rightarrow> string \<Rightarrow> path option" where
  "resolve_snapshot root_dir fs stored = (let root = fs_resolve fs root_dir;
       candidate = fs_resolve fs (if path_name stored = '''' then root else root @ [path_name stored])
     in if butlast candidate \<noteq> root \<or> fs_file fs candidate = None then None else Some candidate)"

definition media_url :: "path \<Rightarrow> file_system \<Rightarrow> string \<Rightarrow> string option \<Rightarrow> string \<Rightarrow> string option" where
  "media_url root_dir fs i stored kind = (case stored of None \<Rightarrow> None
     | Some s \<Rightarrow> if s = '''' \<or> resolve_snapshot root_dir fs s = None then None
         else Some (''/api/v1/alerts/'' @ i @ ''/'' @ kind))"

definition snapshot_url :: "path \<Rightarrow> file_system \<Rightarrow> string \<Rightarrow> string option \<Rightarrow> string option" where
  "snapshot_url root_dir fs i stored = media_url root_dir fs i stored ''snapshot''"

definition clip_url :: "path \<Rightarrow> file_system \<Rightarrow> string \<Rightarrow> string option \<Rightarrow> string option" where
  "clip_url root_dir fs i stored = media_url root_dir fs i stored ''clip''"

datatype media_error = MediaMalformedId | MediaNoAlert | MediaNone

text \<open>The use cases \<^verbatim>\<open>snapshot_path\<close> and \<^verbatim>\<open>clip_path\<close>, for the field of the document they look at.\<close>

definition media_path :: "(alert_doc \<Rightarrow> string option) \<Rightarrow> path \<Rightarrow> file_system \<Rightarrow> nat option \<Rightarrow> alert_state \<Rightarrow> media_error + path" where
  "media_path stored root_dir fs ref st = (case ref of None \<Rightarrow> Inl MediaMalformedId
     | Some k \<Rightarrow> (case find_doc k st of None \<Rightarrow> Inl MediaNoAlert
       | Some d \<Rightarrow> (case stored d of None \<Rightarrow> Inl MediaNone
         | Some s \<Rightarrow> if s = '''' then Inl MediaNone
             else (case resolve_snapshot root_dir fs s of None \<Rightarrow> Inl MediaNone | Some p \<Rightarrow> Inr p))))"

section \<open>Delivery\<close>

datatype shown_state = STATE_UNKNOWN | STATE_PENDING | STATE_SENDING | STATE_SENT | STATE_FAILED | STATE_DEAD | STATE_BUFFERED

record shown_record =
  sr_state :: shown_state
  sr_attempts :: nat

record status_view =
  sv_known :: bool
  sv_records :: "shown_record list"

record delivery_summary =
  dl_known :: bool
  dl_state :: shown_state
  dl_attempts :: nat

fun STATE_SEVERITY :: "shown_state \<Rightarrow> nat" where
  "STATE_SEVERITY STATE_SENT = 0"
| "STATE_SEVERITY STATE_PENDING = 1"
| "STATE_SEVERITY STATE_SENDING = 1"
| "STATE_SEVERITY STATE_BUFFERED = 2"
| "STATE_SEVERITY STATE_FAILED = 3"
| "STATE_SEVERITY STATE_DEAD = 4"
| "STATE_SEVERITY STATE_UNKNOWN = 5"

text \<open>\<^verbatim>\<open>max\<close> with a key keeps the first of the greatest.\<close>

fun py_max :: "('a \<Rightarrow> nat) \<Rightarrow> 'a \<Rightarrow> 'a list \<Rightarrow> 'a" where
  "py_max f x [] = x"
| "py_max f x (y # ys) = py_max f (if f x < f y then y else x) ys"

definition summarise :: "status_view option \<Rightarrow> delivery_summary option" where
  "summarise view = (case view of None \<Rightarrow> None
     | Some v \<Rightarrow> if \<not> sv_known v \<or> sv_records v = [] then Some \<lparr>dl_known = False, dl_state = STATE_UNKNOWN, dl_attempts = 0\<rparr>
         else Some \<lparr>dl_known = True,
           dl_state = sr_state (py_max (STATE_SEVERITY \<circ> sr_state) (hd (sv_records v)) (tl (sv_records v))),
           dl_attempts = Max (sr_attempts ` set (sv_records v))\<rparr>)"

text \<open>\<^verbatim>\<open>delivery_status_batch\<close>, whose call may fail, and \<^verbatim>\<open>_attach_delivery\<close>.  A later entry with the same id
  replaces an earlier one.\<close>

definition delivery_status_batch :: "(string list \<Rightarrow> (string \<times> status_view) list option) \<Rightarrow> string list \<Rightarrow> string \<Rightarrow> status_view option" where
  "delivery_status_batch rpc ids = (if ids = [] then Map.empty
     else case rpc ids of None \<Rightarrow> Map.empty | Some entries \<Rightarrow> map_of (rev entries))"

definition attach_delivery :: "(string list \<Rightarrow> (string \<times> status_view) list option) \<Rightarrow> alert_doc list \<Rightarrow>
    (alert_doc \<times> delivery_summary option) list" where
  "attach_delivery rpc items = (if items = [] then []
     else let views = delivery_status_batch rpc (filter (\<lambda>i. i \<noteq> '''') (map al_alert_id items))
       in map (\<lambda>d. (d, summarise (views (al_alert_id d)))) items)"

section \<open>Reading back what was written\<close>

lemma b64_value_B64: "i < 64 \<Longrightarrow> b64_value (B64 ! i) = Some i \<and> B64 ! i \<noteq> CHR ''=''"
proof -
  have "\<forall>i \<in> set [0 ..< 64]. b64_value (B64 ! i) = Some i \<and> B64 ! i \<noteq> CHR ''=''" by code_simp
  then show "i < 64 \<Longrightarrow> b64_value (B64 ! i) = Some i \<and> B64 ! i \<noteq> CHR ''=''" by simp
qed

lemma B64_ascii: "i < 64 \<Longrightarrow> char_code (B64 ! i) < 128"
proof -
  have "\<forall>i \<in> set [0 ..< 64]. char_code (B64 ! i) < 128" by code_simp
  then show "i < 64 \<Longrightarrow> char_code (B64 ! i) < 128" by simp
qed

lemma a2b_digits_B64:
  "list_all (\<lambda>i. i < 64) is \<Longrightarrow> a2b_digits pads ds (map ((!) B64) is @ rest) = a2b_digits (if is = [] then pads else 0) (ds @ is) rest"
  by (induction "is" arbitrary: pads ds) (auto simp: b64_value_B64)

lemma length_b64_split: "length (b64_split bs) mod 4 \<noteq> 1"
  by (induction bs rule: b64_split.induct) auto

lemma padding_length: "nat (- int n mod 4) = (4 - n mod 4) mod 4"
proof -
  have "- int n mod 4 = int ((4 - n mod 4) mod 4)" by (simp add: zmod_zminus1_eq_if of_nat_diff zmod_int)
  then show ?thesis by simp
qed

lemma urlsafe_b64decode_encode: "urlsafe_b64decode (b64_encode bs @ cursor_padding (b64_encode bs)) = Some bs"
proof -
  let ?is = "b64_split bs"
  have small: "list_all (\<lambda>i. i < 64) ?is" using b64_split_bound by (auto simp: list_all_iff)
  have pad: "cursor_padding (b64_encode bs) = replicate ((4 - length ?is mod 4) mod 4) CHR ''=''"
    by (simp add: cursor_padding_def b64_encode_split padding_length)
  have "length ?is mod 4 = 0 \<or> length ?is mod 4 = 2 \<or> length ?is mod 4 = 3" using length_b64_split[of bs] by presburger
  then have "a2b_digits 0 ?is (cursor_padding (b64_encode bs)) = Some ?is"
    unfolding pad by (auto simp: numeral_2_eq_2)
  then have "a2b_digits 0 [] (b64_encode bs @ cursor_padding (b64_encode bs)) = Some ?is"
    using a2b_digits_B64[OF small, of 0 "[]" "cursor_padding (b64_encode bs)"] by (simp add: b64_encode_split)
  then show ?thesis by (simp add: urlsafe_b64decode_def b64_digits_split)
qed

lemma ascii_utf8:
  assumes "list_all (\<lambda>c. char_code c < 128) s"
  shows "utf8_valid (utf8 s)" "text_of_bytes (utf8 s) = s"
proof -
  have small: "word_of_nat (of_char c) < (0x80 :: byte)" if "char_code c < 128" for c
    using that unat_byte_of_char[of c] by (simp add: word_less_nat_alt char_code_def)
  show "utf8_valid (utf8 s)" using assms by (induction s) (simp_all add: utf8_def small)
  show "text_of_bytes (utf8 s) = s" by (induction s) (simp_all add: text_of_bytes_def utf8_def unat_byte_of_char)
qed

lemma split_on_none: "sep \<notin> set s \<Longrightarrow> split_on sep s = [s]"
  by (induction s) auto

lemma split_on_append: "sep \<notin> set s \<Longrightarrow> split_on sep (s @ sep # t) = s # split_on sep t"
  by (induction s) auto

section \<open>Pages by text cursors\<close>

definition sort_name :: "alert_sort \<Rightarrow> string" where
  "sort_name s = (case s of SORT_CREATED \<Rightarrow> ''created_at'' | SORT_DECIDED \<Rightarrow> ''decided_at'')"

text \<open>How moments and object ids are written and read.\<close>

record text_forms =
  tf_iso :: "datetime \<Rightarrow> string"
  tf_from_iso :: "string \<Rightarrow> datetime option"
  tf_oid :: "nat \<Rightarrow> string"
  tf_parse_oid :: "string \<Rightarrow> nat option"

datatype page_error = PageCursor cursor_error | PageMalformedId | PageFailed

definition bad_window :: "alert_query \<Rightarrow> bool" where
  "bad_window q \<longleftrightarrow> (case (aq_start q, aq_end q) of (Some s, Some e) \<Rightarrow> s > e | _ \<Rightarrow> False)"

text \<open>The use case \<^verbatim>\<open>list\<close>: an empty cursor is none, and the next one is written from the last alert.\<close>

definition page_position :: "text_forms \<Rightarrow> alert_query \<Rightarrow> string option \<Rightarrow> page_error + (int \<times> nat) option" where
  "page_position tf q cursor = (case cursor of
     None \<Rightarrow> if bad_window q then Inl PageFailed else Inr None
   | Some c \<Rightarrow> if c = '''' then (if bad_window q then Inl PageFailed else Inr None)
       else (case decode_cursor (tf_from_iso tf) c (sort_name (aq_sort q)) of Inl e \<Rightarrow> Inl (PageCursor e)
         | Inr (t, i) \<Rightarrow> if bad_window q then Inl PageFailed
             else (case tf_parse_oid tf i of None \<Rightarrow> Inl PageMalformedId | Some k \<Rightarrow> Inr (Some (t, k)))))"

definition page_cursor :: "text_forms \<Rightarrow> alert_query \<Rightarrow> int \<times> nat \<Rightarrow> string" where
  "page_cursor tf q c = encode_cursor (tf_iso tf) (sort_name (aq_sort q)) (fst c) (tf_oid tf (snd c))"

definition alert_page :: "text_forms \<Rightarrow> alert_query \<Rightarrow> nat \<Rightarrow> string option \<Rightarrow> alert_state \<Rightarrow>
    page_error + alert_doc list \<times> string option" where
  "alert_page tf q limit cursor st = rbind (page_position tf q cursor) (\<lambda>after.
     case list_alerts q limit after st of None \<Rightarrow> Inl PageFailed
     | Some (page, next_position) \<Rightarrow> Inr (page, map_option (page_cursor tf q) next_position))"

fun read_text_pages :: "nat \<Rightarrow> text_forms \<Rightarrow> alert_query \<Rightarrow> nat \<Rightarrow> string option \<Rightarrow> alert_state \<Rightarrow> alert_doc list option" where
  "read_text_pages 0 tf q limit cursor st = None"
| "read_text_pages (Suc n) tf q limit cursor st = (case alert_page tf q limit cursor st of Inl _ \<Rightarrow> None
   | Inr (page, None) \<Rightarrow> Some page
   | Inr (page, Some c) \<Rightarrow> map_option (\<lambda>rest. page @ rest) (read_text_pages n tf q limit (Some c) st))"

text \<open>What is known of the texts: they can be read back, are ASCII and not empty, and hold no bar.\<close>

definition plain_text :: "string \<Rightarrow> bool" where
  "plain_text s \<longleftrightarrow> s \<noteq> '''' \<and> CHR ''|'' \<notin> set s \<and> list_all (\<lambda>c. char_code c < 128) s"

definition forms_ok :: "text_forms \<Rightarrow> bool" where
  "forms_ok tf \<longleftrightarrow> (\<forall>t. tf_from_iso tf (tf_iso tf t) = Some t \<and> plain_text (tf_iso tf t)) \<and>
     (\<forall>k. tf_parse_oid tf (tf_oid tf k) = Some k \<and> plain_text (tf_oid tf k))"

lemma plain_sort_name [simp]: "plain_text (sort_name s)"
  by (cases s) (simp_all add: plain_text_def sort_name_def char_code_def)

lemma encode_cursor_ascii: "list_all (\<lambda>c. char_code c < 128) (encode_cursor isof srt t i)" "set (encode_cursor isof srt t i) \<subseteq> set B64"
proof -
  have "B64 ! i \<in> set B64" if "i < 64" for i using that by (intro nth_mem) (simp add: B64_def)
  then show "set (encode_cursor isof srt t i) \<subseteq> set B64" using b64_split_bound by (force simp: encode_cursor_def b64_encode_split)
  show "list_all (\<lambda>c. char_code c < 128) (encode_cursor isof srt t i)"
    using B64_ascii b64_split_bound by (force simp: encode_cursor_def b64_encode_split list_all_iff)
qed

lemma decode_encode_cursor:
  assumes "plain_text srt" "plain_text (isof t)" "fromiso (isof t) = Some t" "plain_text i"
  shows "decode_cursor fromiso (encode_cursor isof srt t i) srt' = (if srt' = srt then Inr (t, i) else Inl WrongOrder)"
proof -
  define raw where "raw = srt @ ''|'' @ isof t @ ''|'' @ i"
  have ascii: "list_all (\<lambda>c. char_code c < 128) raw" using assms by (simp add: raw_def plain_text_def char_code_def)
  have parts: "split_on CHR ''|'' raw = [srt, isof t, i]"
    using assms by (simp add: raw_def plain_text_def split_on_append split_on_none)
  have dec: "urlsafe_b64decode (encode_cursor isof srt t i @ cursor_padding (encode_cursor isof srt t i)) = Some (utf8 raw)"
    unfolding encode_cursor_def raw_def by (rule urlsafe_b64decode_encode)
  show ?thesis using assms(2-4) encode_cursor_ascii(1)[of isof srt t i]
    unfolding decode_cursor_def dec by (simp add: ascii_utf8[OF ascii] parts CURSOR_SEGMENTS_def plain_text_def Let_def)
qed

lemma page_cursor_position:
  assumes "forms_ok tf" "\<not> bad_window q"
  shows "page_position tf q (Some (page_cursor tf q c)) = Inr (Some c)"
proof -
  have "plain_text (tf_iso tf (fst c))" "tf_from_iso tf (tf_iso tf (fst c)) = Some (fst c)" "plain_text (tf_oid tf (snd c))"
    "tf_parse_oid tf (tf_oid tf (snd c)) = Some (snd c)" using assms(1) by (simp_all add: forms_ok_def)
  note d = decode_encode_cursor[where isof = "tf_iso tf" and fromiso = "tf_from_iso tf", OF plain_sort_name this(1-3)] this(4)
  have "page_cursor tf q c \<noteq> ''''"
  proof
    assume "page_cursor tf q c = ''''"
    then have "b64_split (utf8 (sort_name (aq_sort q) @ ''|'' @ tf_iso tf (fst c) @ ''|'' @ tf_oid tf (snd c))) = []"
      by (simp add: page_cursor_def encode_cursor_def b64_encode_split)
    then have "utf8 (sort_name (aq_sort q) @ ''|'' @ tf_iso tf (fst c) @ ''|'' @ tf_oid tf (snd c)) = []"
      by (metis b64_digits_split b64_digits.simps(1) option.inject)
    then show False by (simp add: utf8_def)
  qed
  then show ?thesis using d assms(2) by (simp add: page_position_def page_cursor_def)
qed

lemma read_text_pages_eq:
  assumes "forms_ok tf" "\<not> bad_window q"
  shows "page_position tf q cursor = Inr after \<Longrightarrow> read_text_pages n tf q limit cursor st = read_pages n q limit after st"
proof (induction n arbitrary: cursor after)
  case (Suc n)
  show ?case
  proof (cases "list_alerts q limit after st")
    case None
    then show ?thesis using Suc.prems by (simp add: alert_page_def)
  next
    case (Some r)
    obtain page nx where r: "r = (page, nx)" by (cases r)
    show ?thesis
      using Suc.prems Suc.IH[OF page_cursor_position[OF assms]] Some r by (cases nx) (simp_all add: alert_page_def)
  qed
qed simp


text \<open>Moments as signed numbers and object ids as numbers.\<close>

definition simple_forms :: text_forms where
  "simple_forms = \<lparr>tf_iso = (\<lambda>t. (if 0 \<le> t then CHR ''p'' else CHR ''m'') # str_nat (nat \<bar>t\<bar>)),
     tf_from_iso = (\<lambda>s. case s of [] \<Rightarrow> None | c # cs \<Rightarrow> map_option (\<lambda>n. if c = CHR ''p'' then n else - n) (py_int 10 cs)),
     tf_oid = str_nat, tf_parse_oid = (\<lambda>s. map_option nat (py_int 10 s))\<rparr>"

lemma plain_str_nat: "CHR ''|'' \<notin> set (str_nat n) \<and> list_all (\<lambda>c. char_code c < 128) (str_nat n)"
proof -
  have "char_code c < 58" if "c \<in> set (str_nat n)" for c
    using str_nat_digits[of n] that char_code_digit_char by (fastforce simp: all_digits_def list_all_iff)
  then show ?thesis by (fastforce simp: list_all_iff char_code_def)
qed

lemma simple_forms_ok: "forms_ok simple_forms"
  using plain_str_nat by (auto simp: forms_ok_def simple_forms_def plain_text_def py_int_str_nat char_code_def)


section \<open>Media and delivery\<close>

text \<open>Only regular files directly in the configured directory are served.\<close>

lemma media_confined:
  assumes "media_path stored root_dir fs ref st = Inr p"
  shows "butlast p = fs_resolve fs root_dir \<and> fs_file fs p \<noteq> None \<and>
    (\<exists>d s. d \<in> set (as_docs st) \<and> ref = Some (al_oid d) \<and> stored d = Some s \<and> resolve_snapshot root_dir fs s = Some p)"
  using assms find_doc_Some by (fastforce simp: media_path_def resolve_snapshot_def Let_def split: option.splits if_splits)

lemma py_max_worst: "py_max f x xs \<in> set (x # xs) \<and> (\<forall>y\<in>set (x # xs). f y \<le> f (py_max f x xs))"
proof (induction xs arbitrary: x)
  case (Cons y ys)
  show ?case using Cons[of "if f x < f y then y else x"] by (auto split: if_splits)
qed simp

text \<open>A summary of a known delivery shows its worst state.\<close>

lemma summarise_worst:
  assumes "summarise (Some v) = Some s" "dl_known s"
  shows "dl_state s \<in> sr_state ` set (sv_records v) \<and>
    (\<forall>r\<in>set (sv_records v). STATE_SEVERITY (sr_state r) \<le> STATE_SEVERITY (dl_state s) \<and> sr_attempts r \<le> dl_attempts s)"
proof -
  obtain r rs where r: "sv_records v = r # rs" using assms by (cases "sv_records v") (auto simp: summarise_def split: if_splits)
  have s: "dl_state s = sr_state (py_max (STATE_SEVERITY \<circ> sr_state) r rs)" "dl_attempts s = Max (sr_attempts ` set (r # rs))"
    using assms by (auto simp: summarise_def r split: if_splits)
  show ?thesis unfolding r s using py_max_worst[of "STATE_SEVERITY \<circ> sr_state" r rs] by (auto intro: Max_ge)
qed

end
