(* ===== verification/ApiDetections.thy ===== *)
theory ApiDetections
  imports ApiAlerts Complex_Main
begin

text \<open>
  Detections at the alert service (\<^verbatim>\<open>services/api/app/usecases/detection_usecase.py\<close>,
  \<^verbatim>\<open>repositories/detection_repository.py\<close>, \<^verbatim>\<open>services/inference_service.py\<close>): storing and listing them, and
  analysing an uploaded frame, which stores a detection and may create an alert.
\<close>

section \<open>Inference\<close>

record inference_result =
  ir_box :: "rat \<times> rat \<times> rat \<times> rat"
  ir_keypoints :: "(rat \<times> rat \<times> rat) list"
  ir_score :: rat
  ir_state :: nat
  ir_track_id :: int
  ir_present :: bool

datatype inference_reply = InferenceFailed grpc_code | Inferred inference_result

datatype detection_error = InferenceUnavailable | InferenceRaised | UnknownInferenceState | UnreadableDetection
  | NoSuchDetection | MalformedDetectionId

definition infer :: "inference_reply \<Rightarrow> detection_error + inference_result" where
  "infer reply = (case reply of
     InferenceFailed code \<Rightarrow> Inl (if code = GRPC_UNAVAILABLE \<or> code = GRPC_DEADLINE_EXCEEDED then InferenceUnavailable else InferenceRaised)
   | Inferred r \<Rightarrow> Inr r)"

text \<open>The names of the enumeration of the protocol.\<close>

definition INFERENCE_STATES :: "(nat \<times> string) list" where
  "INFERENCE_STATES = [(0, ''INFERENCE_STATE_UNSPECIFIED''), (1, ''INFERENCE_STATE_WARMING_UP''), (2, ''INFERENCE_STATE_NORMAL''),
     (3, ''INFERENCE_STATE_ANOMALY'')]"

section \<open>Detections\<close>

record detection_create =
  dt_session_id :: int
  dt_frame_index :: int
  dt_occurred_at :: int
  dt_camera_id :: "string option"
  dt_class_name :: string
  dt_confidence :: rat
  dt_box :: "rat \<times> rat \<times> rat \<times> rat"
  dt_keypoints :: "(rat \<times> rat \<times> rat) list option"
  dt_track_id :: int
  dt_present :: bool

record detection_doc =
  dd_oid :: nat
  dd_detection :: detection_create
  dd_created_at :: int

record detection_world =
  dw_docs :: "detection_doc list"
  dw_next_oid :: nat
  dw_alerts :: alert_state

text \<open>The response requires the camera that the request may leave out.\<close>

definition detection_showable :: "detection_doc \<Rightarrow> bool" where
  "detection_showable d \<longleftrightarrow> dt_camera_id (dd_detection d) \<noteq> None"

definition show_detections :: "detection_doc list \<Rightarrow> detection_error + detection_doc list" where
  "show_detections ds = (if list_all detection_showable ds then Inr ds else Inl UnreadableDetection)"

definition insert_detection :: "int \<Rightarrow> detection_create \<Rightarrow> detection_world \<Rightarrow> detection_doc \<times> detection_world" where
  "insert_detection now p w = (let d = \<lparr>dd_oid = dw_next_oid w, dd_detection = p, dd_created_at = now\<rparr>
     in (d, w\<lparr>dw_docs := dw_docs w @ [d], dw_next_oid := dw_next_oid w + 1\<rparr>))"

definition create_detection :: "int \<Rightarrow> detection_create \<Rightarrow> detection_world \<Rightarrow> (detection_error + detection_doc) \<times> detection_world" where
  "create_detection now p w = (case insert_detection now p w of (d, w1) \<Rightarrow>
     (if detection_showable d then Inr d else Inl UnreadableDetection, w1))"

text \<open>The newest first; equal times in the order of the collection.\<close>

definition list_recent :: "nat \<Rightarrow> nat \<Rightarrow> detection_world \<Rightarrow> detection_doc list" where
  "list_recent limit skip w = take limit (drop skip (sort_key (\<lambda>d. - dd_created_at d) (dw_docs w)))"

definition list_detections :: "nat \<Rightarrow> nat \<Rightarrow> detection_world \<Rightarrow> detection_error + detection_doc list" where
  "list_detections limit skip w = show_detections (list_recent limit skip w)"

definition list_session :: "int \<Rightarrow> detection_world \<Rightarrow> detection_error + detection_doc list" where
  "list_session s w = show_detections (take 200 (filter (\<lambda>d. dt_session_id (dd_detection d) = s) (dw_docs w)))"

definition delete_detection :: "nat option \<Rightarrow> detection_world \<Rightarrow> (detection_error + unit) \<times> detection_world" where
  "delete_detection ref w = (case ref of None \<Rightarrow> (Inl MalformedDetectionId, w)
     | Some k \<Rightarrow> if k \<in> dd_oid ` set (dw_docs w) then (Inr (), w\<lparr>dw_docs := filter (\<lambda>d. dd_oid d \<noteq> k) (dw_docs w)\<rparr>)
         else (Inl NoSuchDetection, w))"

section \<open>Analysing a frame\<close>

definition WARNING_SCORE_THRESHOLD :: rat where "WARNING_SCORE_THRESHOLD = 9 / 10"

definition severity_from_score :: "rat \<Rightarrow> string" where
  "severity_from_score score = (if score \<ge> WARNING_SCORE_THRESHOLD then ''SEVERITY_WARNING'' else ''SEVERITY_NOTICE'')"

definition detection_of :: "int \<Rightarrow> int \<Rightarrow> int \<Rightarrow> string \<Rightarrow> string \<Rightarrow> inference_result \<Rightarrow> detection_create" where
  "detection_of now session frame camera name r = \<lparr>dt_session_id = session, dt_frame_index = frame, dt_occurred_at = now,
     dt_camera_id = Some camera, dt_class_name = name, dt_confidence = ir_score r, dt_box = ir_box r,
     dt_keypoints = Some (ir_keypoints r), dt_track_id = ir_track_id r, dt_present = ir_present r\<rparr>"

text \<open>\<^verbatim>\<open>_maybe_raise_alert\<close>: what goes wrong with the alert is logged and dropped.\<close>

definition maybe_raise_alert :: "int \<Rightarrow> string \<Rightarrow> (nat \<Rightarrow> send_reply) \<Rightarrow> string \<Rightarrow> inference_result \<Rightarrow> detection_world \<Rightarrow> detection_world" where
  "maybe_raise_alert now alert_id replies camera r w =
     w\<lparr>dw_alerts := snd (snd (create_alert now \<lparr>ac_alert_id = alert_id, ac_severity = severity_from_score (ir_score r),
       ac_camera_id = Some camera\<rparr> replies (dw_alerts w)))\<rparr>"

text \<open>\<open>alert_id\<close> is the random id of the alert that may be created.\<close>

definition analyze_upload :: "rat \<Rightarrow> int \<Rightarrow> string \<Rightarrow> (nat \<Rightarrow> send_reply) \<Rightarrow> inference_reply \<Rightarrow> int \<Rightarrow> int \<Rightarrow> string \<Rightarrow>
    detection_world \<Rightarrow> (detection_error + detection_doc) \<times> detection_world" where
  "analyze_upload threshold now alert_id replies reply session frame camera w =
     (case infer reply of Inl e \<Rightarrow> (Inl e, w)
      | Inr r \<Rightarrow> (case map_of INFERENCE_STATES (ir_state r) of None \<Rightarrow> (Inl UnknownInferenceState, w)
         | Some name \<Rightarrow> (case insert_detection now (detection_of now session frame camera name r) w of (d, w1) \<Rightarrow>
             if \<not> detection_showable d then (Inl UnreadableDetection, w1)
             else (Inr d, if ir_score r \<ge> threshold then maybe_raise_alert now alert_id replies camera r w1 else w1))))"

section \<open>Properties\<close>

lemma analyze_upload_alerts:
  assumes "analyze_upload threshold now alert_id replies (Inferred r) session frame camera w = (Inr d, w')"
  shows "dw_docs w' = dw_docs w @ [d] \<and> dt_camera_id (dd_detection d) = Some camera \<and>
    dw_alerts w' = (if ir_score r \<ge> threshold then snd (snd (create_alert now \<lparr>ac_alert_id = alert_id,
       ac_severity = severity_from_score (ir_score r), ac_camera_id = Some camera\<rparr> replies (dw_alerts w))) else dw_alerts w)"
  using assms by (auto simp: analyze_upload_def infer_def insert_detection_def maybe_raise_alert_def detection_of_def Let_def
    split: option.splits if_splits)

lemma create_alert_docs:
  assumes "ac_alert_id p \<notin> al_alert_id ` set (as_docs st)" "ac_camera_id p \<noteq> None"
  shows "\<exists>d. map al_alert_id (as_docs (snd (snd (create_alert now p replies st)))) = map al_alert_id (as_docs st) @ [ac_alert_id p] \<and>
    d \<in> set (as_docs (snd (snd (create_alert now p replies st)))) \<and> al_alert_id d = ac_alert_id p \<and> al_severity d = ac_severity p \<and>
    al_camera_id d = ac_camera_id p"
proof -
  let ?d = "(new_alert_doc now p)\<lparr>al_oid := as_next_oid st\<rparr>"
  let ?st = "st\<lparr>as_docs := as_docs st @ [?d], as_next_oid := as_next_oid st + 1\<rparr>"
  have none: "get_by_alert_id (ac_alert_id p) st = None"
    using assms(1) by (auto simp: get_by_alert_id_def find_None_iff image_iff)
  have ins: "insert_once (new_alert_doc now p) st = ((?d, True), ?st)"
    using none by (simp add: insert_once_def new_alert_doc_def Let_def)
  have see: "showable ?d" using assms(2) by (simp add: showable_def new_alert_doc_def)
  obtain calls res where disp: "dispatch_alert replies = (calls, res)" by (cases "dispatch_alert replies")
  let ?f = "\<lambda>d. if al_oid d = as_next_oid st then d\<lparr>al_dispatch_failed := True\<rparr> else d"
  have docs: "as_docs (snd (snd (create_alert now p replies st))) = as_docs ?st \<or>
      as_docs (snd (snd (create_alert now p replies st))) = map ?f (as_docs ?st)"
  proof (cases res)
    case (Some b)
    then show ?thesis by (cases b) (simp_all add: create_alert_def ins see disp Let_def update_doc_def)
  qed (simp add: create_alert_def ins see disp Let_def)
  then show ?thesis
  proof
    assume "as_docs (snd (snd (create_alert now p replies st))) = as_docs ?st"
    then show ?thesis by (intro exI[of _ ?d]) (simp add: new_alert_doc_def)
  next
    assume "as_docs (snd (snd (create_alert now p replies st))) = map ?f (as_docs ?st)"
    then show ?thesis by (intro exI[of _ "?f ?d"]) (simp add: new_alert_doc_def comp_def if_distrib cong: if_cong)
  qed
qed

text \<open>A frame whose score reaches the threshold creates exactly one alert, of the severity its score
  stands for and with its camera, whatever the notification service answers; a frame below it, or
  an inference that fails, creates none; and the detection of an analysed frame is stored in every
  case.\<close>

theorem analysed_frame_alert:
  assumes "alert_id \<notin> al_alert_id ` set (as_docs (dw_alerts w))" "\<forall>r. reply = Inferred r \<longrightarrow> ir_state r \<in> fst ` set INFERENCE_STATES"
    and "analyze_upload threshold now alert_id replies reply session frame camera w = (res, w')"
  shows "case reply of
      InferenceFailed code \<Rightarrow> w' = w \<and> (\<exists>e. res = Inl e)
    | Inferred r \<Rightarrow> (\<exists>d. res = Inr d \<and> dw_docs w' = dw_docs w @ [d] \<and> dt_confidence (dd_detection d) = ir_score r) \<and>
        (if ir_score r \<ge> threshold
         then map al_alert_id (as_docs (dw_alerts w')) = map al_alert_id (as_docs (dw_alerts w)) @ [alert_id] \<and>
           (\<exists>a\<in>set (as_docs (dw_alerts w')). al_alert_id a = alert_id \<and> al_severity a = severity_from_score (ir_score r) \<and>
              al_camera_id a = Some camera)
         else dw_alerts w' = dw_alerts w)"
proof (cases reply)
  case (InferenceFailed code)
  then show ?thesis using assms(3) by (auto simp: analyze_upload_def infer_def)
next
  case (Inferred r)
  have "map_of INFERENCE_STATES (ir_state r) \<noteq> None" using assms(2) Inferred by (simp add: map_of_eq_None_iff)
  then obtain d where d: "res = Inr d" "dt_confidence (dd_detection d) = ir_score r"
    using assms(3) Inferred by (auto simp: analyze_upload_def infer_def insert_detection_def detection_of_def detection_showable_def Let_def)
  from analyze_upload_alerts[OF assms(3)[unfolded Inferred d(1)]]
  have a: "dw_docs w' = dw_docs w @ [d]" "dw_alerts w' = (if ir_score r \<ge> threshold then snd (snd (create_alert now \<lparr>ac_alert_id = alert_id,
       ac_severity = severity_from_score (ir_score r), ac_camera_id = Some camera\<rparr> replies (dw_alerts w))) else dw_alerts w)" by simp_all
  show ?thesis using d a create_alert_docs[of "\<lparr>ac_alert_id = alert_id, ac_severity = severity_from_score (ir_score r), ac_camera_id = Some camera\<rparr>"
      "dw_alerts w" now replies] assms(1) by (auto simp: Inferred)
qed

text \<open>A detection stored without a camera makes every list that contains it fail.\<close>

theorem detection_without_camera:
  assumes "dt_camera_id p = None" "create_detection now p w = (res, w')" "length (dw_docs w') \<le> limit"
  shows "res = Inl UnreadableDetection \<and> list_detections limit 0 w' = Inl UnreadableDetection"
proof -
  let ?d = "\<lparr>dd_oid = dw_next_oid w, dd_detection = p, dd_created_at = now\<rparr>"
  have c: "res = Inl UnreadableDetection" "dw_docs w' = dw_docs w @ [?d]" and hidden: "\<not> detection_showable ?d"
    using assms(1,2) by (auto simp: create_detection_def insert_detection_def detection_showable_def Let_def)
  have "list_recent limit 0 w' = sort_key (\<lambda>d. - dd_created_at d) (dw_docs w')" using assms(3) by (simp add: list_recent_def)
  then have "?d \<in> set (list_recent limit 0 w')" by (simp add: c(2))
  then show ?thesis using c(1) hidden by (auto simp: list_detections_def show_detections_def list_all_iff)
qed

end
