(* ===== verification/Spec2Isabelle.thy ===== *)
theory Spec2Isabelle
  imports AuditConcurrency ApiStreams AuthTelegram AuthDrain AuthEvents NotifyPoller AiProperties AiPipeline ApiRateLimit ApiPolicy ApiAlerts CameraCapture ApiMigrationRuns ApiOutbox ApiIdempotency ApiCameras ApiStats ApiViews ApiDetections
begin

text \<open>
  A verification development for the theft detection platform: cameras feed an inference
  service, which raises alerts that the alert service stores and hands to the notification
  service, whose Telegram messages carry buttons with which an operator decides.  Users sign in
  at the auth service; what they and the services do is recorded in the audit service's hash
  chain.  The services are the directories of \<^verbatim>\<open>services/\<close>; file names below are relative to it.

  \<^bold>\<open>How the parts interact.\<close>  The presence events of \<^verbatim>\<open>detect-gate\<close> reach the view of \<^verbatim>\<open>ai\<close>, which
  decides whether a frame is analysed at all (\<open>GatePresence\<close>, \<open>AiPipeline\<close>).  A verdict of the
  concealment tracker (\<open>AiConcealment\<close>) becomes an alert payload, sent to \<^verbatim>\<open>api\<close> (\<open>AiPipeline\<close>), stored
  once per alert id and dispatched with three attempts (\<open>ApiAlerts\<close>) to \<^verbatim>\<open>notification\<close>, where it is
  a delivery intent (\<open>NotifyStore\<close> to \<open>NotifyProperties\<close>).  A press on a button carries a signed token
  (\<open>DecisionToken\<close>) through the poller (\<open>NotifyPoller\<close>) back to \<^verbatim>\<open>api\<close> (\<open>ApiAlerts\<close>), after \<^verbatim>\<open>auth\<close> has said
  whose Telegram account it is (\<open>AuthTelegram\<close>).  The detection policy goes from \<^verbatim>\<open>api\<close> to \<^verbatim>\<open>ai\<close>
  (\<open>ApiPolicy\<close>).  \<^verbatim>\<open>auth\<close> queues audit events and drains them (\<open>AuthDrain\<close>) into \<^verbatim>\<open>audit\<close>.  Before all
  this \<^verbatim>\<open>camera\<close> captures the frames that \<^verbatim>\<open>ai\<close> analyses (\<open>CameraCapture\<close>), and every request and open
  web socket at \<^verbatim>\<open>api\<close> is checked against the sessions of \<^verbatim>\<open>auth\<close> (\<open>ApiAccess\<close>, \<open>ApiStreams\<close>).

  \<^bold>\<open>Shared theories.\<close>  \<open>Prelude\<close>: byte strings, table operations, errors as sums.  \<open>PyText\<close>: the
  text functions of Python the services call.  \<open>Sha256\<close>, \<open>Sha256Vectors\<close>: SHA-256 and HMAC on
  32-bit words, with the digests the witnesses need computed by the simplifier.

  \<^bold>\<open>audit.\<close>
  \<^item> \<open>AuditChain\<close> is \<^verbatim>\<open>app/core/chain.py\<close>: leaf and chain inputs with their tags and widths.  The
    locale \<open>hash_chain\<close> states what the rest relies on (digest width, injective inputs); two
    different histories with one end give a collision of the hash.  Its interpretation
    \<open>sha_chain\<close> is on the code's own inputs.
  \<^item> \<open>AuditStore\<close>, \<open>AuditRepository\<close>: the table of events and checkpoints with its trigger, and
    \<^verbatim>\<open>audit_repository.py\<close> (append under the lock, listing, erasing, verification).
  \<^item> \<open>AuditInvariant\<close>, \<open>AuditErasure\<close>: appends and erasures keep the chain; verification accepts
    every log so built, with the exact counts, and a log that is altered behind an accepted end
    needs a collision.
  \<^item> \<open>AuditCheckpoint\<close>, \<open>AuditRetention\<close>: \<^verbatim>\<open>signing.py\<close>, \<^verbatim>\<open>checkpoint_service.py\<close>, \<^verbatim>\<open>retention.py\<close> and
    sealing in \<^verbatim>\<open>tools/operator.py\<close>; signed checkpoints verify, sealing keeps the rest verifiable.
  \<^item> \<open>AuditServicer\<close>: the gRPC handlers with identity cache and rate limit; following page tokens
    gives each match once.  \<open>AuditConcurrency\<close>: any interleaving of clients with the advisory
    lock leaves one chain.

  \<^bold>\<open>auth.\<close>
  \<^item> \<open>AuthStore\<close>, \<open>AuthSessions\<close>, \<open>AuthUsers\<close>, \<open>AuthRpc\<close>: tables and repositories; login, refresh,
    logout; users; telegram links and the gRPC calls.
  \<^item> \<open>AuthInvariant\<close>, \<open>AuthProperties\<close>, \<open>AuthTelegram\<close>: a step relation over requests; one live
    refresh token per family, reuse ends the family, an administrator remains, a disabled user
    is out, the lockout is exact, links are used once.  Two theorems show what overlapping
    transactions can do that single ones cannot.
  \<^item> \<open>AuthDrain\<close>, \<open>AuthEvents\<close>: the outbox loses no event; the fields of an event.

  \<^bold>\<open>notification.\<close>
  \<^item> \<open>NotifyStore\<close>, \<open>NotifyTelegram\<close>, \<open>NotifyWorker\<close>, \<open>NotifySweep\<close>, \<open>NotifyServicer\<close>: intents, gate, lease;
    the Telegram client and the texts; the delivery task; reconciler and probe; the servers.
  \<^item> \<open>NotifyDelivery\<close>: the locale \<open>sending\<close>, what the sending functions do to the world for every
    relation that is reflexive, transitive and holds of single requests, interpreted twice
    (\<open>calm\<close>: no status changes; \<open>files\<close>: only files under the snapshot and clip roots leave).
  \<^item> \<open>NotifyInvariant\<close>, \<open>NotifyProperties\<close>: the step relation of requests and tasks, its invariant
    and properties.  \<open>NotifyPoller\<close>: which presses become decisions.  \<open>DecisionToken\<close>: the token
    format and its round trip.

  \<^bold>\<open>detect-gate, ai.\<close>
  \<^item> \<open>GatePresence\<close>: the debounced presence machine refines the specification that counts the
    latest run of equal readings; its client and the view in \<^verbatim>\<open>ai\<close>.
  \<^item> \<open>AiConcealment\<close>, \<open>AiProperties\<close>: \<^verbatim>\<open>concealment.py\<close>; every verdict is preceded by a hold and
    verdicts of a camera are spaced.  \<open>AiPipeline\<close>: windows, classifier input, frame analysis,
    gating, alert payloads and the client that sends them.

  \<^bold>\<open>camera.\<close>
  \<^item> \<open>CameraCapture\<close>: the capture, forwarding and publishing threads with their shared buffer and
    queue, as steps that interleave.  The locale \<open>bounded_queue\<close> is what the accounting needs of a
    bounded queue, interpreted on the buffer and on the queue; frames leave in order and each one
    captured is accounted for.

  \<^bold>\<open>api.\<close>
  \<^item> \<open>ApiRateLimit\<close>: the GCRA script and its bound on any window.  \<open>ApiPolicy\<close>: versioned updates
    and their publication; the watcher in \<^verbatim>\<open>ai\<close> converges.  \<open>ApiAlerts\<close>: alerts, decisions with
    their audit trail, paging, and decisions from Telegram.
  \<^item> \<open>ApiAccess\<close>: tokens, permissions, the guard against forged requests, the upgrade and the
    repeated check of web sockets; access ends with the session that the auth theories end.
  \<^item> \<open>ApiStreams\<close>: the registries of sockets by topic and by session (the locale \<open>registry\<close>,
    interpreted twice) and the life of a stream, one step per suspension.
  \<^item> \<open>ApiMigrations\<close>, \<open>ApiMigrationRuns\<close>: the statements of the ten database migrations, their
    runner and lock.  The locale \<open>repeatable\<close> (a step can be repeated and completed after a cut) is
    interpreted on statements and, with what that gives, on whole versions; so a killed run
    can be started again, and the alerts it leaves have the types the service reads.
    \<open>NotifyMigrations\<close> are the four of \<^verbatim>\<open>notification\<close>, whose runner takes no lock.
  \<^item> \<open>ApiOutbox\<close>: the audit outbox of the alert service, two collections without transactions and
    drains that interleave and die between any two calls; no event is lost.
  \<^item> \<open>ApiIdempotency\<close>: idempotency keys with requests that interleave, fail and die; the requests
    with one key are served once.
  \<^item> \<open>ApiCameras\<close>: the health of the cameras, the script that announces its changes from every
    replica, and the cached operations on cameras; the cache does not change an answer, except
    for a camera with the id \<^verbatim>\<open>list\<close>.
  \<^item> \<open>ApiViews\<close>: text cursors down to base64, so that the pages a client follows are those of
    \<open>ApiAlerts\<close>; which media may be served; the delivery summary.  \<open>ApiDetections\<close>: detections and the
    alerts that analysed frames create.
  \<^item> \<open>ApiStats\<close>: the windows, series and breakdowns of the statistics in the time zone of the store;
    every alert of a window is counted once, also when the clock goes back.

  \<^bold>\<open>Conventions.\<close>  A handler reads the clock once.  A \<^verbatim>\<open>str\<close> is the list of its UTF-8 bytes; numbers
  of type \<^verbatim>\<open>float\<close> are rationals, \<^verbatim>\<open>math.hypot\<close> an argument; UUIDs are numbers.  A transaction is a
  function from tables to tables, and one that raises leaves them as they were; identity
  columns may skip numbers after one.  Logs, metrics and traces are left out.

  \<^bold>\<open>Parameters.\<close>  Argon2, JWT, Ed25519, X.509 and protobuf encodings, SQL \<^verbatim>\<open>ILIKE\<close>, \<^verbatim>\<open>ipaddress\<close>, MongoDB
  object ids, ISO timestamps, the answers of HTTP and gRPC peers, the file system and the neural
  networks are arguments, with what is documented of them as named hypotheses, each shown to be satisfiable
  by a witness.

  \<^bold>\<open>Bounds and fuel.\<close>  The alert client of \<^verbatim>\<open>ai\<close> makes two attempts and the dispatcher of \<^verbatim>\<open>api\<close> three, as
  the code does; recursion is on the attempts left.  Following page tokens uses fuel of one more
  than the matching rows, and the theorems show that this reaches the last page.  Task chains of
  the worker carry the retries left, and the theorem on them shows that they end.

  \<^bold>\<open>Not modelled.\<close>  The web application, infrastructure, notebooks, training and calibration
  scripts, generated code, start-up and configuration, health endpoints and telemetry: input and
  output or libraries' work with no state of their own to reason about.  The components of the
  manifest name each such part.
\<close>

end
